(* ===== verification/Prelude.thy ===== *)
theory Prelude
  imports Main "HOL-Library.Word"
begin

unbundle bit_operations_syntax

text \<open>
  Shared vocabulary of the development: machine integers, abnormal termination of C code, the
  sequencing of computations that may terminate abnormally, and the flat byte memory together with
  its reading, writing and slicing lemmas.

  A C function that returns normally yields \<open>Inr\<close> of its results. \<open>Inl Abort\<close> is a
  failed LWPB_ASSERT (src/src/include/lwpb/core/debug.h), \<open>Inl Fault\<close> an access outside of
  the memory, through NULL or outside of an array, and \<open>Inl Undef\<close> the use of a value the C
  standard leaves undefined (an oversized shift, an indeterminate object, a missing return).
\<close>

section \<open>Machine integers\<close>

type_synonym u8 = "8 word"
type_synonym u32 = "32 word"
type_synonym u64 = "64 word"

text \<open>Signed C integers are kept as the words of their two's complement representation.\<close>

type_synonym s32 = "32 word"
type_synonym s64 = "64 word"

text \<open>A pointer is the index of a byte in the flat memory; pointer differences are signed.\<close>

type_synonym addr = nat

definition size_of_int :: "int \<Rightarrow> u64" where
  "size_of_int i = word_of_int i"

section \<open>Computations that may terminate abnormally\<close>

datatype stop = Abort | Fault | Undef

type_synonym 'a run = "stop + 'a"

definition andthen :: "'a run \<Rightarrow> ('a \<Rightarrow> 'b run) \<Rightarrow> 'b run" where
  "andthen r f = (case r of Inl e \<Rightarrow> Inl e | Inr x \<Rightarrow> f x)"

text \<open>LWPB_ASSERT: abort unless the condition holds.\<close>

definition lwpb_assert :: "bool \<Rightarrow> unit run" where
  "lwpb_assert c = (if c then Inr () else Inl Abort)"

named_theorems run_simps "unfolding of sequenced computations"

lemma andthen_Inl [simp, run_simps]: "andthen (Inl e) f = Inl e"
  by (simp add: andthen_def)

lemma andthen_Inr [simp, run_simps]: "andthen (Inr x) f = f x"
  by (simp add: andthen_def)

lemma andthen_Inr_right [simp]: "andthen r Inr = r"
  by (cases r) auto

lemma andthen_assoc: "andthen (andthen r f) g = andthen r (\<lambda>x. andthen (f x) g)"
  by (simp add: andthen_def split: sum.split)

lemma andthen_eq_Inr: "andthen r f = Inr y \<longleftrightarrow> (\<exists>x. r = Inr x \<and> f x = Inr y)"
  by (cases r) auto

lemma andthen_eq_Inl:
  "andthen r f = Inl e \<longleftrightarrow> r = Inl e \<or> (\<exists>x. r = Inr x \<and> f x = Inl e)"
  by (cases r) auto

lemma andthen_cong [fundef_cong]:
  "r = r' \<Longrightarrow> (\<And>x. r' = Inr x \<Longrightarrow> f x = g x) \<Longrightarrow> andthen r f = andthen r' g"
  by (cases r') auto

lemma andthen_split:
  "P (andthen r f) \<longleftrightarrow> (\<forall>e. r = Inl e \<longrightarrow> P (Inl e)) \<and> (\<forall>x. r = Inr x \<longrightarrow> P (f x))"
  by (cases r) auto

lemma lwpb_assert_simps [simp, run_simps]:
  "lwpb_assert True = Inr ()"
  "lwpb_assert False = Inl Abort"
  by (simp_all add: lwpb_assert_def)

lemma lwpb_assert_eq_Inr: "lwpb_assert c = Inr u \<longleftrightarrow> c"
  by (simp add: lwpb_assert_def)

text \<open>Access through a pointer to an element of an array: None is NULL.\<close>

definition deref :: "'a list \<Rightarrow> nat option \<Rightarrow> 'a run" where
  "deref xs p = (case p of None \<Rightarrow> Inl Fault | Some i \<Rightarrow> if i < length xs then Inr (xs ! i) else Inl Fault)"

lemma deref_Some [simp]: "i < length xs \<Longrightarrow> deref xs (Some i) = Inr (xs ! i)"
  by (simp add: deref_def)

lemma deref_None [simp]: "deref xs None = Inl Fault"
  by (simp add: deref_def)

section \<open>The byte memory\<close>

type_synonym mem = "u8 list"

definition load :: "mem \<Rightarrow> addr \<Rightarrow> u8 run" where
  "load m a = (if a < length m then Inr (m ! a) else Inl Fault)"

definition store :: "mem \<Rightarrow> addr \<Rightarrow> u8 \<Rightarrow> mem run" where
  "store m a b = (if a < length m then Inr (m[a := b]) else Inl Fault)"

text \<open>Consecutive loads and stores, in the order of increasing addresses.\<close>

fun loads :: "mem \<Rightarrow> addr \<Rightarrow> nat \<Rightarrow> u8 list run" where
  "loads m a 0 = Inr []"
| "loads m a (Suc n) =
     andthen (load m a) (\<lambda>b. andthen (loads m (Suc a) n) (\<lambda>bs. Inr (b # bs)))"

fun stores :: "mem \<Rightarrow> addr \<Rightarrow> u8 list \<Rightarrow> mem run" where
  "stores m a [] = Inr m"
| "stores m a (b # bs) = andthen (store m a b) (\<lambda>m'. stores m' (Suc a) bs)"

text \<open>The bytes of a region, and the memory with a region overwritten.\<close>

definition peek :: "mem \<Rightarrow> addr \<Rightarrow> nat \<Rightarrow> u8 list" where
  "peek m a n = take n (drop a m)"

definition poke :: "mem \<Rightarrow> addr \<Rightarrow> u8 list \<Rightarrow> mem" where
  "poke m a bs = take a m @ bs @ drop (a + length bs) m"

text \<open>Two memories of the same size that agree outside of the region from \<open>a\<close> up to \<open>b\<close>.\<close>

definition same_outside :: "addr \<Rightarrow> addr \<Rightarrow> mem \<Rightarrow> mem \<Rightarrow> bool" where
  "same_outside a b m m' \<longleftrightarrow>
     length m' = length m \<and> (\<forall>i < length m. i < a \<or> b \<le> i \<longrightarrow> m' ! i = m ! i)"

lemma length_poke [simp]: "a + length bs \<le> length m \<Longrightarrow> length (poke m a bs) = length m"
  by (simp add: poke_def)

lemma length_peek [simp]: "a + n \<le> length m \<Longrightarrow> length (peek m a n) = n"
  by (simp add: peek_def)

lemma nth_poke:
  assumes "a + length bs \<le> length m" and "i < length m"
  shows "poke m a bs ! i = (if a \<le> i \<and> i < a + length bs then bs ! (i - a) else m ! i)"
  using assms by (auto simp: poke_def nth_append min_def)

lemma nth_peek: "a + n \<le> length m \<Longrightarrow> i < n \<Longrightarrow> peek m a n ! i = m ! (a + i)"
  by (simp add: peek_def)

lemma peek_eqI:
  assumes "a + length bs \<le> length m"
    and "\<And>i. i < length bs \<Longrightarrow> m ! (a + i) = bs ! i"
  shows "peek m a (length bs) = bs"
  using assms by (auto intro!: nth_equalityI simp: nth_peek)

lemma peek_poke_same [simp]:
  "a + length bs \<le> length m \<Longrightarrow> peek (poke m a bs) a (length bs) = bs"
  by (rule peek_eqI) (auto simp: nth_poke)

lemma peek_poke_disjoint:
  assumes "a + length bs \<le> length m" and "c + n \<le> length m"
    and "c + n \<le> a \<or> a + length bs \<le> c"
  shows "peek (poke m a bs) c n = peek m c n"
  using assms by (auto intro!: nth_equalityI simp: nth_peek nth_poke)

lemma poke_Nil [simp]: "poke m a [] = m"
  by (simp add: poke_def)

lemma poke_poke_append:
  assumes "a + length xs + length ys \<le> length m"
  shows "poke (poke m a xs) (a + length xs) ys = poke m a (xs @ ys)"
  using assms by (auto intro!: nth_equalityI simp: nth_poke nth_append)

lemma peek_append: "peek m a (n + k) = peek m a n @ peek m (a + n) k"
  by (simp add: peek_def take_add drop_drop add.commute [of a n])

lemma peek_appendD:
  assumes "peek m a (length xs + length ys) = xs @ ys"
  shows "peek m a (length xs) = xs" and "peek m (a + length xs) (length ys) = ys"
proof -
  have "take (length xs) (peek m a (length xs + length ys)) = xs"
    using assms by simp
  then show "peek m a (length xs) = xs"
    by (simp add: peek_def)
  have "drop (length xs) (peek m a (length xs + length ys)) = ys"
    using assms by simp
  then show "peek m (a + length xs) (length ys) = ys"
    by (simp add: peek_def drop_take add.commute)
qed

lemma peek_0 [simp]: "peek m a 0 = []"
  by (simp add: peek_def)

lemma load_peek:
  assumes "peek m a (Suc n) = b # bs"
  shows "load m a = Inr b"
proof -
  have "drop a m \<noteq> []"
    using assms by (auto simp: peek_def)
  then have "a < length m"
    by simp
  with assms show ?thesis
    by (simp add: peek_def load_def Cons_nth_drop_Suc [symmetric])
qed

lemma load_Inr: "load m a = Inr b \<longleftrightarrow> a < length m \<and> b = m ! a"
  by (auto simp: load_def)

lemma store_poke: "a < length m \<Longrightarrow> store m a b = Inr (poke m a [b])"
  by (simp add: store_def poke_def upd_conv_take_nth_drop)

lemma store_Inr: "store m a b = Inr m' \<longleftrightarrow> a < length m \<and> m' = m[a := b]"
  by (auto simp: store_def)

lemma loads_peek: "a + n \<le> length m \<Longrightarrow> loads m a n = Inr (peek m a n)"
proof (induction n arbitrary: a)
  case 0
  then show ?case by simp
next
  case (Suc n)
  then have "peek m a (Suc n) = m ! a # peek m (Suc a) n"
    by (simp add: peek_def Cons_nth_drop_Suc [symmetric])
  with Suc show ?case
    by (simp add: load_def)
qed

lemma loads_Fault: "length m < a + n \<Longrightarrow> 0 < n \<Longrightarrow> loads m a n = Inl Fault"
proof (induction n arbitrary: a)
  case 0
  then show ?case by simp
next
  case (Suc n)
  show ?case
  proof (cases "a < length m")
    case True
    with Suc show ?thesis by (simp add: load_def)
  next
    case False
    then show ?thesis by (simp add: load_def)
  qed
qed

lemma loads_Inr: "loads m a n = Inr bs \<Longrightarrow> 0 < n \<Longrightarrow> a + n \<le> length m \<and> bs = peek m a n"
  by (cases "a + n \<le> length m") (auto simp: loads_peek loads_Fault)

lemma stores_poke: "a + length bs \<le> length m \<Longrightarrow> stores m a bs = Inr (poke m a bs)"
proof (induction bs arbitrary: m a)
  case Nil
  then show ?case by simp
next
  case (Cons b bs)
  then have "stores m a (b # bs) = Inr (poke (poke m a [b]) (Suc a) bs)"
    by (simp add: store_poke)
  moreover have "poke (poke m a [b]) (a + length [b]) bs = poke m a ([b] @ bs)"
    using Cons.prems by (intro poke_poke_append) simp
  ultimately show ?case by simp
qed

lemma stores_cases:
  "stores m a bs = (if a + length bs \<le> length m \<or> bs = [] then Inr (poke m a bs) else Inl Fault)"
proof (induction bs arbitrary: m a)
  case Nil
  then show ?case by simp
next
  case (Cons b bs)
  show ?case
  proof (cases "a + length (b # bs) \<le> length m")
    case True
    then show ?thesis using stores_poke [of a "b # bs" m] by simp
  next
    case False
    then show ?thesis by (auto simp: Cons.IH store_def)
  qed
qed

lemma same_outside_refl [simp, intro]: "same_outside a b m m"
  by (simp add: same_outside_def)

lemma same_outside_trans:
  "same_outside a b m m' \<Longrightarrow> same_outside a b m' m'' \<Longrightarrow> same_outside a b m m''"
  by (simp add: same_outside_def)

lemma same_outside_mono:
  "same_outside a b m m' \<Longrightarrow> a' \<le> a \<Longrightarrow> b \<le> b' \<Longrightarrow> same_outside a' b' m m'"
  by (auto simp: same_outside_def)

lemma same_outside_length: "same_outside a b m m' \<Longrightarrow> length m' = length m"
  by (simp add: same_outside_def)

lemma same_outside_poke:
  "a \<le> c \<Longrightarrow> c + length bs \<le> b \<Longrightarrow> c + length bs \<le> length m \<Longrightarrow> same_outside a b m (poke m c bs)"
  by (auto simp: same_outside_def nth_poke)

lemma same_outside_peek:
  assumes "same_outside a b m m'" and "c + n \<le> a \<or> b \<le> c"
  shows "peek m' c n = peek m c n"
proof -
  have len: "length m' = length m"
    using assms(1) by (rule same_outside_length)
  show ?thesis
  proof (rule nth_equalityI)
    show "length (peek m' c n) = length (peek m c n)"
      by (simp add: peek_def len)
  next
    fix i
    assume "i < length (peek m' c n)"
    then have i: "i < n" "c + i < length m"
      by (auto simp: peek_def len)
    then have "m' ! (c + i) = m ! (c + i)"
      using assms by (auto simp: same_outside_def)
    with i show "peek m' c n ! i = peek m c n ! i"
      by (simp add: peek_def len)
  qed
qed

section \<open>The copying functions of the C library\<close>

text \<open>
  memmove and memcpy of \<open>string.h\<close>, to which src/src/include/lwpb/arch/sys.h binds
  LWPB_MEMMOVE and LWPB_MEMCPY. Copying between overlapping regions with memcpy is undefined.
\<close>

definition memmove :: "mem \<Rightarrow> addr \<Rightarrow> addr \<Rightarrow> nat \<Rightarrow> mem run" where
  "memmove m dst src n =
     (if n = 0 then Inr m
      else if src + n \<le> length m \<and> dst + n \<le> length m then Inr (poke m dst (peek m src n))
      else Inl Fault)"

definition memcpy :: "mem \<Rightarrow> addr \<Rightarrow> addr \<Rightarrow> nat \<Rightarrow> mem run" where
  "memcpy m dst src n =
     (if 0 < n \<and> dst < src + n \<and> src < dst + n then Inl Undef else memmove m dst src n)"

lemma memmove_ok:
  "src + n \<le> length m \<Longrightarrow> dst + n \<le> length m \<Longrightarrow> memmove m dst src n = Inr (poke m dst (peek m src n))"
  by (simp add: memmove_def)

lemma memcpy_ok:
  assumes "src + n \<le> length m" and "dst + n \<le> length m" and "src + n \<le> dst \<or> dst + n \<le> src"
  shows "memcpy m dst src n = Inr (poke m dst (peek m src n))"
  using assms by (auto simp: memcpy_def memmove_ok)

text \<open>strlen: the number of bytes before the first zero byte.\<close>

function strlen_loop :: "mem \<Rightarrow> addr \<Rightarrow> nat \<Rightarrow> nat run" where
  "strlen_loop m a k =
     andthen (load m a) (\<lambda>b. if b = 0 then Inr k else strlen_loop m (Suc a) (Suc k))"
  by pat_completeness auto
termination
  by (relation "measure (\<lambda>(m, a, k). length m - a)") (auto simp: load_Inr)

declare strlen_loop.simps [simp del]

definition strlen :: "mem \<Rightarrow> addr \<Rightarrow> nat run" where
  "strlen m a = strlen_loop m a 0"

lemma strlen_loop_peek:
  assumes "peek m a (Suc (length bs)) = bs @ [0]" and "0 \<notin> set bs"
  shows "strlen_loop m a k = Inr (k + length bs)"
  using assms
proof (induction bs arbitrary: a k)
  case Nil
  then have "load m a = Inr 0"
    by (intro load_peek) auto
  then show ?case by (simp add: strlen_loop.simps [of m a k])
next
  case (Cons b bs)
  have "peek m a (length [b] + length (bs @ [0])) = [b] @ (bs @ [0])"
    using Cons.prems(1) by simp
  from peek_appendD(2) [OF this] have "peek m (Suc a) (Suc (length bs)) = bs @ [0]"
    by simp
  with Cons have "strlen_loop m (Suc a) (Suc k) = Inr (Suc k + length bs)"
    by simp
  moreover have "load m a = Inr b"
    using Cons.prems(1) by (intro load_peek) auto
  moreover have "b \<noteq> 0"
    using Cons.prems(2) by auto
  ultimately show ?case by (simp add: strlen_loop.simps [of m a k])
qed

lemma strlen_peek:
  "peek m a (Suc (length bs)) = bs @ [0] \<Longrightarrow> 0 \<notin> set bs \<Longrightarrow> strlen m a = Inr (length bs)"
  by (simp add: strlen_def strlen_loop_peek)

end
