(* ===== verification/Types.thy ===== *)
theory Types
  imports Prelude
begin

text \<open>
  The public and private types of the library: src/src/include/lwpb/core/types.h and
  src/src/lwpb/core/private.h, and the error texts of src/src/lwpb/core/misc.c.

  Descriptors are static tables that code refers to by pointer and compares by pointer. A message
  descriptor pointer is the index of the descriptor in the table \<open>descs\<close>, a field descriptor
  pointer the pair of the message it belongs to and its index in that message's \<open>fields\<close>
  array, and NULL is \<open>None\<close>.
\<close>

section \<open>Error codes\<close>

datatype lwpb_err_t =
    LWPB_ERR_OK
  | LWPB_ERR_CANCEL
  | LWPB_ERR_UNKNOWN_FIELD
  | LWPB_ERR_INVALID_FIELD
  | LWPB_ERR_END_OF_BUF
  | LWPB_ERR_MEM
  | LWPB_ERR_NET_INIT

text \<open>The numeric value of the enumerator, which C code can compare and convert.\<close>

fun err_code :: "lwpb_err_t \<Rightarrow> nat" where
  "err_code LWPB_ERR_OK = 0"
| "err_code LWPB_ERR_CANCEL = 1"
| "err_code LWPB_ERR_UNKNOWN_FIELD = 2"
| "err_code LWPB_ERR_INVALID_FIELD = 3"
| "err_code LWPB_ERR_END_OF_BUF = 4"
| "err_code LWPB_ERR_MEM = 5"
| "err_code LWPB_ERR_NET_INIT = 6"

instantiation lwpb_err_t :: linorder
begin

definition less_eq_lwpb_err_t :: "lwpb_err_t \<Rightarrow> lwpb_err_t \<Rightarrow> bool" where
  "less_eq_lwpb_err_t a b \<longleftrightarrow> err_code a \<le> err_code b"

definition less_lwpb_err_t :: "lwpb_err_t \<Rightarrow> lwpb_err_t \<Rightarrow> bool" where
  "less_lwpb_err_t a b \<longleftrightarrow> err_code a < err_code b"

instance
proof
  fix x y :: lwpb_err_t
  show "x \<le> y \<Longrightarrow> y \<le> x \<Longrightarrow> x = y"
    by (cases x; cases y) (simp_all add: less_eq_lwpb_err_t_def)
qed (auto simp: less_eq_lwpb_err_t_def less_lwpb_err_t_def)

end

text \<open>lwpb_err_text of misc.c.\<close>

definition lwpb_err_text :: "lwpb_err_t \<Rightarrow> string" where
  "lwpb_err_text err = (case err of
       LWPB_ERR_OK \<Rightarrow> ''OK''
     | LWPB_ERR_CANCEL \<Rightarrow> ''Cancelled by user''
     | LWPB_ERR_UNKNOWN_FIELD \<Rightarrow> ''Unknown field''
     | LWPB_ERR_INVALID_FIELD \<Rightarrow> ''Invalid field''
     | LWPB_ERR_END_OF_BUF \<Rightarrow> ''End of buffer''
     | LWPB_ERR_MEM \<Rightarrow> ''Memory allocation failed''
     | LWPB_ERR_NET_INIT \<Rightarrow> ''Network initialization failed'')"

section \<open>Field options\<close>

text \<open>The label is a bit field of two bits, so it has four values; 0 names no label.\<close>

datatype field_label = LWPB_NO_LABEL | LWPB_OPTIONAL | LWPB_REQUIRED | LWPB_REPEATED

text \<open>The value type is a bit field of six bits; values without a name are LWPB_TYP_OTHER.\<close>

datatype field_typ =
    LWPB_DOUBLE | LWPB_FLOAT | LWPB_INT64 | LWPB_UINT64 | LWPB_INT32 | LWPB_FIXED64
  | LWPB_FIXED32 | LWPB_BOOL | LWPB_STRING | LWPB_GROUP | LWPB_MESSAGE | LWPB_BYTES
  | LWPB_UINT32 | LWPB_ENUM | LWPB_SFIXED32 | LWPB_SFIXED64 | LWPB_SINT32 | LWPB_SINT64
  | LWPB_TYP_OTHER "6 word"

definition LWPB_HAS_DEFAULT :: u8 where
  "LWPB_HAS_DEFAULT = 1"

definition LWPB_IS_PACKED :: u8 where
  "LWPB_IS_PACKED = 2"

definition LWPB_IS_DEPRECATED :: u8 where
  "LWPB_IS_DEPRECATED = 4"

record lwpb_field_opts_t =
  opt_label :: field_label
  opt_typ :: field_typ
  opt_flags :: u8

definition LWPB_MAX_DEPTH :: nat where
  "LWPB_MAX_DEPTH = 32"

section \<open>Values\<close>

text \<open>
  union lwpb_value: the member that was written last. Floating-point members are the bits that the
  code copies with memcpy; bool and enum values are C ints.
\<close>

datatype lwpb_value =
    V_double u64
  | V_float u32
  | V_int32 s32
  | V_int64 s64
  | V_uint32 u32
  | V_uint64 u64
  | V_bool s32
  | V_string addr u64
  | V_bytes addr u64
  | V_message addr u64
  | V_enum s32
  | V_null s32

text \<open>
  Reading a four-byte member. From an eight-byte member it yields the low half, as on the
  little-endian machines the code is built for, and from a pointer the low half of the address.
\<close>

fun value_lo32 :: "lwpb_value \<Rightarrow> u32 run" where
  "value_lo32 (V_double x) = Inr (ucast x)"
| "value_lo32 (V_float x) = Inr x"
| "value_lo32 (V_int32 x) = Inr x"
| "value_lo32 (V_int64 x) = Inr (ucast x)"
| "value_lo32 (V_uint32 x) = Inr x"
| "value_lo32 (V_uint64 x) = Inr (ucast x)"
| "value_lo32 (V_bool x) = Inr x"
| "value_lo32 (V_enum x) = Inr x"
| "value_lo32 (V_null x) = Inr x"
| "value_lo32 (V_string p n) = Inr (of_nat p)"
| "value_lo32 (V_bytes p n) = Inr (of_nat p)"
| "value_lo32 (V_message p n) = Inr (of_nat p)"

text \<open>Reading an eight-byte member. After a four-byte member was written, half of it is indeterminate.\<close>

fun value_lo64 :: "lwpb_value \<Rightarrow> u64 run" where
  "value_lo64 (V_double x) = Inr x"
| "value_lo64 (V_int64 x) = Inr x"
| "value_lo64 (V_uint64 x) = Inr x"
| "value_lo64 (V_string p n) = Inr (of_nat p)"
| "value_lo64 (V_bytes p n) = Inr (of_nat p)"
| "value_lo64 (V_message p n) = Inr (of_nat p)"
| "value_lo64 _ = Inl Undef"

text \<open>
  The members string, bytes and message share one layout: a pointer and a length. After another member
  was written the length is indeterminate.
\<close>

fun value_ptr :: "lwpb_value \<Rightarrow> (addr \<times> u64) run" where
  "value_ptr (V_string p n) = Inr (p, n)"
| "value_ptr (V_bytes p n) = Inr (p, n)"
| "value_ptr (V_message p n) = Inr (p, n)"
| "value_ptr _ = Inl Undef"

text \<open>The value that a handler is given, by pointer.\<close>

definition the_value :: "lwpb_value option \<Rightarrow> lwpb_value run" where
  "the_value v = (case v of None \<Rightarrow> Inl Fault | Some v \<Rightarrow> Inr v)"

section \<open>Descriptors\<close>

type_synonym msg_ref = nat
type_synonym field_ref = "nat \<times> nat"

record lwpb_field_desc =
  number :: u32
  opts :: lwpb_field_opts_t
  fd_msg_desc :: "msg_ref option"
  fd_name :: string
  fd_def :: lwpb_value

text \<open>LWPB_IS_PACKED_REPEATED\<close>

definition is_packed_repeated :: "lwpb_field_desc \<Rightarrow> bool" where
  "is_packed_repeated fd \<longleftrightarrow>
     opt_label (opts fd) = LWPB_REPEATED \<and> opt_flags (opts fd) AND LWPB_IS_PACKED \<noteq> 0"

text \<open>The number of fields (num_fields) is the length of the array.\<close>

record lwpb_msg_desc =
  msg_fields :: "lwpb_field_desc list"
  md_name :: string

type_synonym descs = "lwpb_msg_desc list"

definition deref_msg :: "descs \<Rightarrow> msg_ref option \<Rightarrow> lwpb_msg_desc run" where
  "deref_msg ds r = (case r of None \<Rightarrow> Inl Fault
     | Some i \<Rightarrow> if i < length ds then Inr (ds ! i) else Inl Fault)"

definition deref_field :: "descs \<Rightarrow> field_ref option \<Rightarrow> lwpb_field_desc run" where
  "deref_field ds r = (case r of None \<Rightarrow> Inl Fault
     | Some (i, j) \<Rightarrow> if i < length ds \<and> j < length (msg_fields (ds ! i))
                      then Inr (msg_fields (ds ! i) ! j) else Inl Fault)"

lemma deref_msg_Some [simp]: "i < length ds \<Longrightarrow> deref_msg ds (Some i) = Inr (ds ! i)"
  by (simp add: deref_msg_def)

lemma deref_msg_None [simp]: "deref_msg ds None = Inl Fault"
  by (simp add: deref_msg_def)

lemma deref_field_Inr:
  "deref_field ds r = Inr fd \<longleftrightarrow>
     (\<exists>i j. r = Some (i, j) \<and> i < length ds \<and> j < length (msg_fields (ds ! i)) \<and> fd = msg_fields (ds ! i) ! j)"
  by (auto simp: deref_field_def split: option.splits if_splits)


section \<open>The wire format\<close>

text \<open>
  enum wire_type of private.h. The decoder converts any three-bit number to it; the numbers without
  an enumerator are WT_OTHER.
\<close>

datatype wire_type = WT_VARINT | WT_64BIT | WT_STRING | WT_32BIT | WT_OTHER u64

definition wire_type_of :: "u64 \<Rightarrow> wire_type" where
  "wire_type_of k =
     (if k = 0 then WT_VARINT else if k = 1 then WT_64BIT else if k = 2 then WT_STRING
      else if k = 5 then WT_32BIT else WT_OTHER k)"

fun wire_type_code :: "wire_type \<Rightarrow> u32" where
  "wire_type_code WT_VARINT = 0"
| "wire_type_code WT_64BIT = 1"
| "wire_type_code WT_STRING = 2"
| "wire_type_code WT_32BIT = 5"
| "wire_type_code (WT_OTHER k) = ucast k"

text \<open>
  union wire_value: the members varint, int64 and string.len are the same eight bytes \<open>wv_word\<close>,
  int32 is their low half, and string.data follows them.
\<close>

record wire_value =
  wv_word :: u64
  wv_data :: addr

definition wv_int32 :: "wire_value \<Rightarrow> u32" where
  "wv_int32 w = ucast (wv_word w)"

definition set_wv_int32 :: "u32 \<Rightarrow> wire_value \<Rightarrow> wire_value" where
  "set_wv_int32 x w = w\<lparr>wv_word := (wv_word w AND NOT (mask 32)) OR ucast x\<rparr>"

lemma wv_int32_set [simp]: "wv_int32 (set_wv_int32 x w) = x"
  by (intro bit_word_eqI) (auto simp: wv_int32_def set_wv_int32_def bit_simps)

lemma wv_data_set_int32 [simp]: "wv_data (set_wv_int32 x w) = wv_data w"
  by (simp add: set_wv_int32_def)

end
