(* ===== verification/Buf.thy ===== *)
theory Buf
  imports Types
begin

text \<open>
  The memory buffers of src/src/lwpb/core/buf.c. A buffer is three pointers into the memory. The
  sizes are differences of pointers converted to size_t, so a position beyond the end gives a huge
  number of bytes left.
\<close>

record lwpb_buf =
  buf_base :: addr
  buf_pos :: addr
  buf_end :: addr

definition lwpb_buf_init :: "addr \<Rightarrow> u64 \<Rightarrow> lwpb_buf" where
  "lwpb_buf_init data len = \<lparr>buf_base = data, buf_pos = data, buf_end = data + unat len\<rparr>"

definition lwpb_buf_used :: "lwpb_buf \<Rightarrow> u64" where
  "lwpb_buf_used buf = size_of_int (int (buf_pos buf) - int (buf_base buf))"

definition lwpb_buf_left :: "lwpb_buf \<Rightarrow> u64" where
  "lwpb_buf_left buf = size_of_int (int (buf_end buf) - int (buf_pos buf))"

text \<open>Moving the position forward.\<close>

definition advance :: "nat \<Rightarrow> lwpb_buf \<Rightarrow> lwpb_buf" where
  "advance n buf = buf\<lparr>buf_pos := buf_pos buf + n\<rparr>"

text \<open>
  The invariant of a buffer: its pointers are in order, inside of the memory, and no region is as
  large as the address space.
\<close>

definition valid_buf :: "mem \<Rightarrow> lwpb_buf \<Rightarrow> bool" where
  "valid_buf m buf \<longleftrightarrow>
     buf_base buf \<le> buf_pos buf \<and> buf_pos buf \<le> buf_end buf \<and> buf_end buf \<le> length m \<and>
     length m < 2 ^ 63"

lemma advance_sel [simp]:
  "buf_base (advance n buf) = buf_base buf"
  "buf_pos (advance n buf) = buf_pos buf + n"
  "buf_end (advance n buf) = buf_end buf"
  by (simp_all add: advance_def)

lemma advance_0 [simp]: "advance 0 buf = buf"
  by (simp add: advance_def)

lemma advance_advance [simp]: "advance n (advance k buf) = advance (k + n) buf"
  by (simp add: advance_def add.assoc)

lemma unat_size_of_int: "unat (size_of_int (int n)) = n mod 2 ^ 64"
  by (simp add: size_of_int_def unat_of_nat)

lemma size_of_int_nat [simp]: "size_of_int (int n) = of_nat n"
  by (simp add: size_of_int_def)

lemma buf_left_of_nat: "buf_pos buf \<le> buf_end buf \<Longrightarrow> lwpb_buf_left buf = of_nat (buf_end buf - buf_pos buf)"
  by (simp add: lwpb_buf_left_def of_nat_diff flip: size_of_int_nat)

lemma buf_used_of_nat: "buf_base buf \<le> buf_pos buf \<Longrightarrow> lwpb_buf_used buf = of_nat (buf_pos buf - buf_base buf)"
  by (simp add: lwpb_buf_used_def of_nat_diff flip: size_of_int_nat)

lemma unat_size_diff: "b \<le> a \<Longrightarrow> a - b < 2 ^ 64 \<Longrightarrow> unat (size_of_int (int a - int b)) = a - b"
  by (metis mod_less of_nat_diff unat_size_of_int)

lemma valid_buf_left: "valid_buf m buf \<Longrightarrow> unat (lwpb_buf_left buf) = buf_end buf - buf_pos buf"
  unfolding lwpb_buf_left_def by (rule unat_size_diff) (auto simp: valid_buf_def)

lemma valid_buf_used: "valid_buf m buf \<Longrightarrow> unat (lwpb_buf_used buf) = buf_pos buf - buf_base buf"
  unfolding lwpb_buf_used_def by (rule unat_size_diff) (auto simp: valid_buf_def)

lemma valid_buf_left_less:
  "valid_buf m buf \<Longrightarrow> lwpb_buf_left buf < k \<longleftrightarrow> buf_end buf - buf_pos buf < unat k"
  by (simp add: word_less_nat_alt valid_buf_left)

lemma valid_buf_left_0: "valid_buf m buf \<Longrightarrow> lwpb_buf_left buf = 0 \<longleftrightarrow> buf_pos buf = buf_end buf"
  by (simp add: unat_eq_zero [symmetric] valid_buf_left) (auto simp: valid_buf_def)

lemma valid_buf_used_0: "valid_buf m buf \<Longrightarrow> lwpb_buf_used buf = 0 \<longleftrightarrow> buf_pos buf = buf_base buf"
  by (simp add: unat_eq_zero [symmetric] valid_buf_used) (auto simp: valid_buf_def)

lemma valid_buf_advance:
  "valid_buf m buf \<Longrightarrow> n \<le> buf_end buf - buf_pos buf \<Longrightarrow> valid_buf m (advance n buf)"
  by (auto simp: valid_buf_def)

lemma valid_buf_mem: "valid_buf m buf \<Longrightarrow> length m' = length m \<Longrightarrow> valid_buf m' buf"
  by (simp add: valid_buf_def)

lemma buf_init_sel [simp]:
  "buf_base (lwpb_buf_init d n) = d"
  "buf_pos (lwpb_buf_init d n) = d"
  "buf_end (lwpb_buf_init d n) = d + unat n"
  by (simp_all add: lwpb_buf_init_def)

lemma valid_buf_init:
  "d + unat n \<le> length m \<Longrightarrow> length m < 2 ^ 63 \<Longrightarrow> valid_buf m (lwpb_buf_init d n)"
  by (simp add: valid_buf_def)

end
