(* ===== verification/Wire.thy ===== *)
theory Wire
  imports Buf
begin

text \<open>
  The wire primitives: lwpb_decode_varint, lwpb_decode_32bit and lwpb_decode_64bit of
  src/src/lwpb/core/decoder.c and their counterparts encode_varint, encode_32bit and encode_64bit of
  src/src/lwpb/core/encoder.c, the byte strings they stand for, and the interface \<open>wire_prim\<close>
  with the laws an encoding and its decoding keep between them, interpreted for the three pairs.
\<close>

section \<open>Decoding (decoder.c)\<close>

text \<open>
  The loop of lwpb_decode_varint from a given accumulator and bit position. The last shift is by
  \<open>bitpos\<close>, which is 70 when the loop stopped because of \<open>bitpos < 64\<close>; shifting a
  64 bit integer that far is undefined in C.
\<close>

function decode_varint_loop ::
    "mem \<Rightarrow> lwpb_buf \<Rightarrow> u64 \<Rightarrow> nat \<Rightarrow> (lwpb_err_t \<times> lwpb_buf \<times> u64) run" where
  "decode_varint_loop m buf varint bitpos =
     andthen (load m (buf_pos buf)) (\<lambda>b.
       if b AND 0x80 \<noteq> 0 \<and> bitpos < 64 then
         let varint' = varint OR push_bit bitpos (ucast (b AND 0x7f)) in
         if int (buf_end buf) - int (buf_pos buf) < 2
         then Inr (LWPB_ERR_END_OF_BUF, buf, varint')
         else decode_varint_loop m (advance 1 buf) varint' (bitpos + 7)
       else if 64 \<le> bitpos then Inl Undef
       else Inr (LWPB_ERR_OK, advance 1 buf, varint OR push_bit bitpos (ucast (b AND 0x7f))))"
  by pat_completeness auto
termination
  by (relation "measure (\<lambda>(m, buf, varint, bitpos). 64 - bitpos)") auto

declare decode_varint_loop.simps [simp del]

definition lwpb_decode_varint :: "mem \<Rightarrow> lwpb_buf \<Rightarrow> (lwpb_err_t \<times> lwpb_buf \<times> u64) run" where
  "lwpb_decode_varint m buf = decode_varint_loop m buf 0 0"

text \<open>
  lwpb_decode_32bit and lwpb_decode_64bit write through \<open>value\<close> only when they succeed; their
  result is the value written, if any. In \<open>pos[3] << 24\<close> a byte from 0x80 on is shifted into the sign
  bit of an int, which standard C leaves undefined; like gcc, which promises this, the model takes the bits.
\<close>

definition lwpb_decode_32bit :: "mem \<Rightarrow> lwpb_buf \<Rightarrow> (lwpb_err_t \<times> lwpb_buf \<times> u32 option) run" where
  "lwpb_decode_32bit m buf =
     (if lwpb_buf_left buf < 4 then Inr (LWPB_ERR_END_OF_BUF, buf, None)
      else andthen (loads m (buf_pos buf) 4) (\<lambda>p.
        Inr (LWPB_ERR_OK, advance 4 buf,
             Some (ucast (p ! 0) OR push_bit 8 (ucast (p ! 1)) OR
                   push_bit 16 (ucast (p ! 2)) OR push_bit 24 (ucast (p ! 3))))))"

text \<open>The loop \<open>for (i = 7; i >= 0; i--) value = (value << 8) | pos[i]\<close>.\<close>

definition lwpb_decode_64bit :: "mem \<Rightarrow> lwpb_buf \<Rightarrow> (lwpb_err_t \<times> lwpb_buf \<times> u64 option) run" where
  "lwpb_decode_64bit m buf =
     (if lwpb_buf_left buf < 8 then Inr (LWPB_ERR_END_OF_BUF, buf, None)
      else andthen (loads m (buf_pos buf) 8) (\<lambda>p.
        Inr (LWPB_ERR_OK, advance 8 buf,
             Some (fold (\<lambda>i value. push_bit 8 value OR ucast (p ! i)) [7, 6, 5, 4, 3, 2, 1, 0] 0))))"

section \<open>Encoding (encoder.c)\<close>

text \<open>The byte that encode_varint stores for the remaining value.\<close>

definition varint_byte :: "u64 \<Rightarrow> u8" where
  "varint_byte varint =
     (if 127 < varint then 0x80 OR ucast (varint AND 0x7f) else ucast (varint AND 0x7f))"

lemma unat_drop_bit_7: "unat (drop_bit 7 (v::u64)) = unat v div 2 ^ 7"
  unfolding unat_drop_bit_eq by (rule drop_bit_eq_div)

lemma drop_bit_7_less: "(v::u64) \<noteq> 0 \<Longrightarrow> unat (drop_bit 7 v) < unat v"
  unfolding unat_drop_bit_7 by (simp add: unat_gt_0)

function encode_varint :: "mem \<Rightarrow> lwpb_buf \<Rightarrow> u64 \<Rightarrow> (lwpb_err_t \<times> mem \<times> lwpb_buf) run" where
  "encode_varint m buf varint =
     (if lwpb_buf_left buf < 1 then Inr (LWPB_ERR_END_OF_BUF, m, buf)
      else andthen (store m (buf_pos buf) (varint_byte varint)) (\<lambda>m'.
        if drop_bit 7 varint \<noteq> 0 then encode_varint m' (advance 1 buf) (drop_bit 7 varint)
        else Inr (LWPB_ERR_OK, m', advance 1 buf)))"
  by pat_completeness auto
termination
proof (relation "measure (\<lambda>(m, buf, varint). unat varint)")
  fix m buf and varint :: u64 and m'
  assume "drop_bit 7 varint \<noteq> 0"
  then have "varint \<noteq> 0" by auto
  then show "((m', advance 1 buf, drop_bit 7 varint), m, buf, varint)
      \<in> measure (\<lambda>(m, buf, varint). unat varint)"
    by (simp add: drop_bit_7_less)
qed simp

declare encode_varint.simps [simp del]

definition encode_32bit :: "mem \<Rightarrow> lwpb_buf \<Rightarrow> u32 \<Rightarrow> (lwpb_err_t \<times> mem \<times> lwpb_buf) run" where
  "encode_32bit m buf value =
     (if lwpb_buf_left buf < 4 then Inr (LWPB_ERR_END_OF_BUF, m, buf)
      else andthen (stores m (buf_pos buf)
             [ucast (value AND 0xff), ucast (drop_bit 8 value AND 0xff),
              ucast (drop_bit 16 value AND 0xff), ucast (drop_bit 24 value AND 0xff)])
           (\<lambda>m'. Inr (LWPB_ERR_OK, m', advance 4 buf)))"

definition encode_64bit :: "mem \<Rightarrow> lwpb_buf \<Rightarrow> u64 \<Rightarrow> (lwpb_err_t \<times> mem \<times> lwpb_buf) run" where
  "encode_64bit m buf value =
     (if lwpb_buf_left buf < 8 then Inr (LWPB_ERR_END_OF_BUF, m, buf)
      else let hi = drop_bit 32 value in
        andthen (stores m (buf_pos buf)
             [ucast (value AND 0xff), ucast (drop_bit 8 value AND 0xff),
              ucast (drop_bit 16 value AND 0xff), ucast (drop_bit 24 value AND 0xff),
              ucast (hi AND 0xff), ucast (drop_bit 8 hi AND 0xff),
              ucast (drop_bit 16 hi AND 0xff), ucast (drop_bit 24 hi AND 0xff)])
           (\<lambda>m'. Inr (LWPB_ERR_OK, m', advance 8 buf)))"

section \<open>The byte strings of the wire format\<close>

text \<open>Base-128, least significant group first, all bytes but the last with the top bit set.\<close>

function varint_bytes :: "u64 \<Rightarrow> u8 list" where
  "varint_bytes v =
     varint_byte v # (if drop_bit 7 v \<noteq> 0 then varint_bytes (drop_bit 7 v) else [])"
  by pat_completeness auto
termination
proof (relation "measure unat")
  fix v :: u64
  assume "drop_bit 7 v \<noteq> 0"
  then have "v \<noteq> 0" by auto
  then show "(drop_bit 7 v, v) \<in> measure unat"
    by (simp add: drop_bit_7_less)
qed simp

declare varint_bytes.simps [simp del]

text \<open>The \<open>n\<close> low bytes of a value, least significant first.\<close>

definition le_bytes :: "nat \<Rightarrow> 'a::len word \<Rightarrow> u8 list" where
  "le_bytes n v = map (\<lambda>i. ucast (drop_bit (8 * i) v)) [0..<n]"

lemma length_le_bytes [simp]: "length (le_bytes n v) = n"
  by (simp add: le_bytes_def)

lemma nth_le_bytes: "i < n \<Longrightarrow> le_bytes n v ! i = ucast (drop_bit (8 * i) v)"
  by (simp add: le_bytes_def)

lemma varint_bytes_nonempty [simp]: "varint_bytes v \<noteq> []"
  by (simp add: varint_bytes.simps [of v])

lemma length_varint_bytes_le: "unat v < 2 ^ (7 * Suc n) \<Longrightarrow> length (varint_bytes v) \<le> Suc n"
proof (induction n arbitrary: v)
  case 0
  then have "unat (drop_bit 7 v) = 0"
    unfolding unat_drop_bit_7 by simp
  then have "drop_bit 7 v = 0"
    by (simp only: unat_eq_zero)
  then show ?case by (simp add: varint_bytes.simps [of v])
next
  case (Suc n)
  have "unat v < 2 ^ (7 * Suc n) * 2 ^ 7"
    using Suc.prems by (simp add: power_add)
  then have "unat (drop_bit 7 v) < 2 ^ (7 * Suc n)"
    unfolding unat_drop_bit_7 by (rule less_mult_imp_div_less)
  then have "length (varint_bytes (drop_bit 7 v)) \<le> Suc n"
    by (rule Suc.IH)
  then show ?case by (simp add: varint_bytes.simps [of v])
qed

lemma length_varint_bytes: "length (varint_bytes v) \<le> 10"
proof -
  have "unat v < 2 ^ 64"
    using unsigned_less [of v] by simp
  then have "unat v < 2 ^ (7 * Suc 9)"
    by simp
  then show ?thesis
    using length_varint_bytes_le [of v 9] by simp
qed

text \<open>Bit-level facts behind the two directions.\<close>

lemma masks:
  "(0x7f::u64) = mask 7" "(0x7f::u8) = mask 7" 
  "(0xff::u32) = mask 8" "(0xff::u64) = mask 8"
  by (simp_all add: mask_numeral)

lemma bit_0x80: "bit (0x80::int) n \<longleftrightarrow> n = 7"
proof -
  have "(0x80::int) = 2 ^ 7" by simp
  then show ?thesis by (simp only: bit_exp_iff) auto
qed

lemma varint_split: "push_bit k (v AND 0x7f) OR push_bit (k + 7) (drop_bit 7 v) = push_bit k (v::u64)"
proof (rule bit_word_eqI)
  fix n
  assume "n < LENGTH(64)"
  then show "bit (push_bit k (v AND 0x7f) OR push_bit (k + 7) (drop_bit 7 v)) n = bit (push_bit k v) n"
    unfolding masks by (cases "k + 7 \<le> n") (auto simp: bit_simps)
qed

lemma ucast_varint_byte: "ucast (varint_byte v AND 0x7f) = v AND (0x7f::u64)"
  unfolding varint_byte_def masks by (rule bit_word_eqI) (auto simp: bit_simps bit_0x80)

lemma ucast_low_32: "(ucast ((v::u32) AND 0xff) :: u8) = ucast v"
  unfolding masks by (rule bit_word_eqI) (auto simp: bit_simps)

lemma ucast_low_64: "(ucast ((v::u64) AND 0xff) :: u8) = ucast v"
  unfolding masks by (rule bit_word_eqI) (auto simp: bit_simps)

lemma low_byte_32: "ucast (ucast v :: u8) OR push_bit 8 (drop_bit 8 v) = (v::u32)"
proof (rule bit_word_eqI)
  fix n
  assume "n < LENGTH(32)"
  then show "bit (ucast (ucast v :: u8) OR push_bit 8 (drop_bit 8 v)) n = bit v n"
    by (cases "n < 8") (auto simp: bit_simps)
qed
lemma low_byte_64: "ucast (ucast v :: u8) OR push_bit 8 (drop_bit 8 v) = (v::u64)"
proof (rule bit_word_eqI)
  fix n
  assume "n < LENGTH(64)"
  then show "bit (ucast (ucast v :: u8) OR push_bit 8 (drop_bit 8 v)) n = bit v n"
    by (cases "n < 8") (auto simp: bit_simps)
qed

lemma le_bytes_4: 
  "ucast (le_bytes 4 v ! 0) OR push_bit 8 (ucast (le_bytes 4 v ! 1)) OR
   push_bit 16 (ucast (le_bytes 4 v ! 2)) OR push_bit 24 (ucast (le_bytes 4 v ! 3)) = (v::u32)"
  (is "?l = v")
proof -
  have last: "ucast (ucast (drop_bit 24 v) :: u8) = drop_bit 24 v"
    by (rule bit_word_eqI) (auto simp: bit_simps dest: bit_imp_le_length)
  have "?l = ucast (ucast v :: u8) OR push_bit 8 (ucast (ucast (drop_bit 8 v) :: u8) OR
      push_bit 8 (ucast (ucast (drop_bit 16 v) :: u8) OR push_bit 8 (ucast (ucast (drop_bit 24 v) :: u8))))"
    by (simp add: nth_le_bytes push_bit_or)
  also have "\<dots> = v"
    using low_byte_32 [of "drop_bit 16 v"] low_byte_32 [of "drop_bit 8 v"] low_byte_32 [of v] last by simp
  finally show ?thesis .
qed
lemma le_bytes_8: 
  "fold (\<lambda>i value. push_bit 8 value OR ucast (le_bytes 8 v ! i)) [7, 6, 5, 4, 3, 2, 1, 0] 0 = (v::u64)"
proof -
  have step: 
    "push_bit 8 (drop_bit (8 * Suc i) v) OR ucast (ucast (drop_bit (8 * i) v) :: u8) =
      drop_bit (8 * i) v" for i
    using low_byte_64 [of "drop_bit (8 * i) v"] by (simp add: or.commute algebra_simps)
  have last: "ucast (ucast (drop_bit 56 v) :: u8) = drop_bit 56 v"
    by (rule bit_word_eqI) (auto simp: bit_simps dest: bit_imp_le_length)
  show ?thesis
    using step [of 6] step [of 5] step [of 4] step [of 3] step [of 2] step [of 1] step [of 0]
    by (simp add: nth_le_bytes last)
qed

lemma varint_more: "127 < v \<longleftrightarrow> drop_bit 7 v \<noteq> (0::u64)"
proof -
  have "drop_bit 7 v = 0 \<longleftrightarrow> unat (drop_bit 7 v) = 0" by (simp only: unat_eq_zero)
  also have "\<dots> \<longleftrightarrow> unat v < 128" unfolding unat_drop_bit_7 by auto
  finally show ?thesis by (auto simp: word_less_nat_alt)
qed
lemma and_0x80: "b AND 0x80 \<noteq> 0 \<longleftrightarrow> bit (b::u8) 7"
proof -
  have "(0x80::u8) = 2 ^ 7" by simp
  then show ?thesis by (simp only: and_exp_eq_0_iff_not_bit) simp
qed

lemma varint_byte_top: "varint_byte v AND 0x80 \<noteq> 0 \<longleftrightarrow> drop_bit 7 v \<noteq> 0"
  unfolding and_0x80 varint_more [symmetric] varint_byte_def masks by (auto simp: bit_simps bit_0x80)

section \<open>The laws of a wire primitive\<close>

text \<open>
  What the callers of an encoding routine \<open>write\<close> and its decoding routine \<open>read\<close> rely on:
  the bytes are written when they fit and nothing outside of the room is touched when they do not,
  and reading where the bytes are yields the value and moves past them.
\<close>

locale wire_prim =
  fixes bytes :: "'v \<Rightarrow> u8 list"
    and "write" :: "mem \<Rightarrow> lwpb_buf \<Rightarrow> 'v \<Rightarrow> (lwpb_err_t \<times> mem \<times> lwpb_buf) run"
    and read :: "mem \<Rightarrow> lwpb_buf \<Rightarrow> (lwpb_err_t \<times> lwpb_buf \<times> 'r) run"
    and result :: "'v \<Rightarrow> 'r"
  assumes bytes_nonempty: "bytes v \<noteq> []"
    and write_fits: "valid_buf m buf \<Longrightarrow> buf_pos buf + length (bytes v) \<le> buf_end buf \<Longrightarrow>
      write m buf v =
        Inr (LWPB_ERR_OK, poke m (buf_pos buf) (bytes v), advance (length (bytes v)) buf)"
    and write_full: "valid_buf m buf \<Longrightarrow> buf_end buf < buf_pos buf + length (bytes v) \<Longrightarrow>
      \<exists>m' k. write m buf v = Inr (LWPB_ERR_END_OF_BUF, m', advance k buf) \<and>
        buf_pos buf + k \<le> buf_end buf \<and> same_outside (buf_pos buf) (buf_end buf) m m'"
    and read_bytes: "valid_buf m buf \<Longrightarrow> buf_pos buf + length (bytes v) \<le> buf_end buf \<Longrightarrow>
      peek m (buf_pos buf) (length (bytes v)) = bytes v \<Longrightarrow>
      read m buf = Inr (LWPB_ERR_OK, advance (length (bytes v)) buf, result v)"
begin

lemma write_cases:
  assumes "valid_buf m buf"
  obtains (fits) "buf_pos buf + length (bytes v) \<le> buf_end buf"
      "write m buf v =
        Inr (LWPB_ERR_OK, poke m (buf_pos buf) (bytes v), advance (length (bytes v)) buf)"
  | (full) m' k where "buf_end buf < buf_pos buf + length (bytes v)"
      "write m buf v = Inr (LWPB_ERR_END_OF_BUF, m', advance k buf)"
      "buf_pos buf + k \<le> buf_end buf" "same_outside (buf_pos buf) (buf_end buf) m m'"
proof (cases "buf_pos buf + length (bytes v) \<le> buf_end buf")
  case True
  with write_fits [OF assms True] show thesis by (intro fits)
next
  case False
  then have "buf_end buf < buf_pos buf + length (bytes v)" by simp
  with write_full [OF assms this] show thesis by (elim exE conjE) (rule full)
qed

lemma write_total:
  assumes "valid_buf m buf"
  shows "\<exists>e m' buf'. write m buf v = Inr (e, m', buf') \<and> valid_buf m' buf' \<and>
    buf_base buf' = buf_base buf \<and> buf_end buf' = buf_end buf \<and> buf_pos buf \<le> buf_pos buf' \<and>
    same_outside (buf_pos buf) (buf_end buf) m m' \<and>
    (e = LWPB_ERR_OK \<and> buf_pos buf + length (bytes v) \<le> buf_end buf \<or>
     e = LWPB_ERR_END_OF_BUF \<and> buf_end buf < buf_pos buf + length (bytes v))"
  using assms
proof (cases rule: write_cases [where v = v])
  case fits
  then show ?thesis
    using assms by (auto simp: valid_buf_def intro!: same_outside_poke)
next
  case (full m' k)
  then show ?thesis
    using assms by (auto simp: valid_buf_def dest: same_outside_length)
qed

lemma write_read:
  assumes "valid_buf m buf" and "write m buf v = Inr (LWPB_ERR_OK, m', buf')"
  shows "read m' buf = Inr (LWPB_ERR_OK, buf', result v)"
  using assms(1)
proof (cases rule: write_cases [where v = v])
  case fits
  then have m': "m' = poke m (buf_pos buf) (bytes v)"
    and buf': "buf' = advance (length (bytes v)) buf"
    using assms(2) by auto
  have "buf_pos buf + length (bytes v) \<le> length m"
    using fits assms(1) by (simp add: valid_buf_def)
  then have "peek m' (buf_pos buf) (length (bytes v)) = bytes v" and "length m' = length m"
    by (simp_all add: m')
  with fits assms(1) show ?thesis
    unfolding buf' by (intro read_bytes) (auto simp: valid_buf_def)
next
  case (full m' k)
  with assms(2) show ?thesis by simp
qed

end

section \<open>The three primitives keep the laws\<close>

lemma encode_varint_fits:
  "valid_buf m buf \<Longrightarrow> buf_pos buf + length (varint_bytes v) \<le> buf_end buf \<Longrightarrow>
   encode_varint m buf v =
     Inr (LWPB_ERR_OK, poke m (buf_pos buf) (varint_bytes v), advance (length (varint_bytes v)) buf)"
proof (induction v arbitrary: m buf rule: varint_bytes.induct)
  case (1 v)
  let ?m = "poke m (buf_pos buf) [varint_byte v]"
  have room: "buf_pos buf < buf_end buf" and mem: "buf_end buf \<le> length m"
    using "1.prems" by (auto simp: valid_buf_def varint_bytes.simps [of v])
  have unfold: "encode_varint m buf v =
      (if drop_bit 7 v \<noteq> 0 then encode_varint ?m (advance 1 buf) (drop_bit 7 v)
       else Inr (LWPB_ERR_OK, ?m, advance 1 buf))"
    using room mem "1.prems"
    by (simp add: encode_varint.simps [of m buf v] valid_buf_left_0 store_poke)
  show ?case
  proof (cases "drop_bit 7 v = 0")
    case True
    then show ?thesis by (simp add: unfold varint_bytes.simps [of v])
  next
    case False
    let ?bs = "varint_bytes (drop_bit 7 v)"
    have bs: "varint_bytes v = [varint_byte v] @ ?bs"
      using False by (simp add: varint_bytes.simps [of v])
    have "valid_buf ?m (advance 1 buf)" and fit: "buf_pos buf + 1 + length ?bs \<le> buf_end buf"
      using "1.prems" room mem bs by (auto simp: valid_buf_def)
    with False have "encode_varint ?m (advance 1 buf) (drop_bit 7 v) =
        Inr (LWPB_ERR_OK, poke ?m (buf_pos buf + 1) ?bs, advance (Suc (length ?bs)) buf)"
      using "1.IH" [of ?m "advance 1 buf"] by simp
    moreover have "poke ?m (buf_pos buf + length [varint_byte v]) ?bs = poke m (buf_pos buf) (varint_bytes v)"
      unfolding bs using fit mem by (intro poke_poke_append) simp
    ultimately show ?thesis using False by (simp add: unfold bs)
  qed
qed

lemma encode_varint_full:
  "valid_buf m buf \<Longrightarrow> buf_end buf < buf_pos buf + length (varint_bytes v) \<Longrightarrow>
   \<exists>m' k. encode_varint m buf v = Inr (LWPB_ERR_END_OF_BUF, m', advance k buf) \<and>
     buf_pos buf + k \<le> buf_end buf \<and> same_outside (buf_pos buf) (buf_end buf) m m'"
proof (induction v arbitrary: m buf rule: varint_bytes.induct)
  case (1 v)
  let ?m = "poke m (buf_pos buf) [varint_byte v]"
  show ?case
  proof (cases "buf_pos buf < buf_end buf")
    case False
    then have "encode_varint m buf v = Inr (LWPB_ERR_END_OF_BUF, m, advance 0 buf)"
      using "1.prems"(1) by (auto simp: encode_varint.simps [of m buf v] valid_buf_left_0 valid_buf_def)
    then show ?thesis
      using "1.prems"(1) by (intro exI [of _ m] exI [of _ 0]) (auto simp: valid_buf_def)
  next
    case True
    have mem: "buf_end buf \<le> length m"
      using "1.prems" by (simp add: valid_buf_def)
    have more: "drop_bit 7 v \<noteq> 0"
      using True "1.prems"(2) by (auto simp: varint_bytes.simps [of v])
    have unfold: "encode_varint m buf v = encode_varint ?m (advance 1 buf) (drop_bit 7 v)"
      using True mem more "1.prems"(1)
      by (simp add: encode_varint.simps [of m buf v] valid_buf_left_0 store_poke)
    have "valid_buf ?m (advance 1 buf)"
      using "1.prems"(1) True mem by (auto simp: valid_buf_def)
    moreover have "buf_end buf < buf_pos buf + 1 + length (varint_bytes (drop_bit 7 v))"
      using "1.prems"(2) more by (simp add: varint_bytes.simps [of v])
    ultimately obtain m' k where
      *: "encode_varint ?m (advance 1 buf) (drop_bit 7 v) =
          Inr (LWPB_ERR_END_OF_BUF, m', advance (Suc k) buf)"
        "buf_pos buf + Suc k \<le> buf_end buf"
        "same_outside (Suc (buf_pos buf)) (buf_end buf) ?m m'"
      using "1.IH" [OF more, of ?m "advance 1 buf"] by auto
    have "same_outside (buf_pos buf) (buf_end buf) m ?m"
      using True mem by (intro same_outside_poke) auto
    moreover have "same_outside (buf_pos buf) (buf_end buf) ?m m'"
      by (rule same_outside_mono [OF *(3)]) auto
    ultimately have "same_outside (buf_pos buf) (buf_end buf) m m'"
      by (rule same_outside_trans)
    with * show ?thesis unfolding unfold by blast
  qed
qed

lemma decode_varint_loop_bytes:
  "peek m (buf_pos buf) (length (varint_bytes v)) = varint_bytes v \<Longrightarrow>
   buf_pos buf + length (varint_bytes v) \<le> buf_end buf \<Longrightarrow> k < 64 \<Longrightarrow> unat v < 2 ^ (64 - k) \<Longrightarrow>
   decode_varint_loop m buf acc k =
     Inr (LWPB_ERR_OK, advance (length (varint_bytes v)) buf, acc OR push_bit k v)"
proof (induction v arbitrary: buf acc k rule: varint_bytes.induct)
  case (1 v)
  let ?bs = "varint_bytes (drop_bit 7 v)"
  have ld: "load m (buf_pos buf) = Inr (varint_byte v)"
    using "1.prems"(1) by (intro load_peek) (simp add: varint_bytes.simps [of v])
  show ?case
  proof (cases "drop_bit 7 v = 0")
    case True
    then have "v AND 0x7f = v"
      using varint_split [of 0 v] by simp
    with True "1.prems" ld show ?thesis
      by (simp add: decode_varint_loop.simps [of m buf acc k] varint_byte_top ucast_varint_byte
          varint_bytes.simps [of v])
  next
    case False
    have bs: "varint_bytes v = [varint_byte v] @ ?bs"
      using False by (simp add: varint_bytes.simps [of v])
    have "127 < unat v"
      using False by (simp add: word_less_nat_alt flip: varint_more)
    with "1.prems"(4) have "(2::nat) ^ 7 < 2 ^ (64 - k)"
      by simp
    then have k: "k + 7 < 64"
      by (subst (asm) power_strict_increasing_iff) auto
    have "64 - k = (64 - (k + 7)) + 7"
      using k by simp
    then have "unat v < 2 ^ (64 - (k + 7)) * 2 ^ 7"
      using "1.prems"(4) by (simp only: power_add)
    then have less: "unat (drop_bit 7 v) < 2 ^ (64 - (k + 7))"
      unfolding unat_drop_bit_7 by (rule less_mult_imp_div_less)
    have "peek m (buf_pos buf) (length [varint_byte v] + length ?bs) = [varint_byte v] @ ?bs"
      using "1.prems"(1) unfolding bs by simp
    from peek_appendD(2) [OF this]
    have "peek m (buf_pos (advance 1 buf)) (length ?bs) = ?bs"
      by simp
    moreover have "buf_pos (advance 1 buf) + length ?bs \<le> buf_end (advance 1 buf)"
      using "1.prems"(2) bs by simp
    ultimately have IH: "decode_varint_loop m (advance 1 buf) acc' (k + 7) =
        Inr (LWPB_ERR_OK, advance (length (varint_bytes v)) buf,
             acc' OR push_bit (k + 7) (drop_bit 7 v))" for acc'
      using "1.IH" [OF False, of "advance 1 buf" "k + 7"] less k bs by simp
    have "0 < length ?bs" by simp
    then have room: "\<not> int (buf_end buf) - int (buf_pos buf) < 2"
      using "1.prems"(2) bs by (simp del: length_greater_0_conv)
    show ?thesis
      using False k ld room varint_split [of k v]
      by (simp add: decode_varint_loop.simps [of m buf acc k] varint_byte_top ucast_varint_byte
          Let_def IH [simplified] or.assoc)
  qed
qed

interpretation varint: wire_prim varint_bytes encode_varint lwpb_decode_varint "\<lambda>v. v"
proof
  fix m buf v
  assume "valid_buf m buf" "buf_pos buf + length (varint_bytes v) \<le> buf_end buf"
    "peek m (buf_pos buf) (length (varint_bytes v)) = varint_bytes v"
  then show "lwpb_decode_varint m buf = Inr (LWPB_ERR_OK, advance (length (varint_bytes v)) buf, v)"
    using decode_varint_loop_bytes [of m buf v 0 0] unsigned_less [of v]
    by (simp add: lwpb_decode_varint_def)
qed (simp_all add: encode_varint_fits encode_varint_full)

lemma encode_32bit_stores:
  "encode_32bit m buf v =
     (if lwpb_buf_left buf < 4 then Inr (LWPB_ERR_END_OF_BUF, m, buf)
      else andthen (stores m (buf_pos buf) (le_bytes 4 v)) (\<lambda>m'. Inr (LWPB_ERR_OK, m', advance 4 buf)))"
  by (simp add: encode_32bit_def le_bytes_def upt_rec ucast_low_32)

lemma encode_64bit_stores:
  "encode_64bit m buf v =
     (if lwpb_buf_left buf < 8 then Inr (LWPB_ERR_END_OF_BUF, m, buf)
      else andthen (stores m (buf_pos buf) (le_bytes 8 v)) (\<lambda>m'. Inr (LWPB_ERR_OK, m', advance 8 buf)))"
  by (simp add: encode_64bit_def le_bytes_def upt_rec ucast_low_64)

interpretation fixed32: wire_prim "le_bytes 4" encode_32bit lwpb_decode_32bit Some
proof
  show "le_bytes 4 v \<noteq> []" for v :: u32
    by (simp add: le_bytes_def)
next
  fix m buf and v :: u32
  assume buf: "valid_buf m buf"
  show "encode_32bit m buf v =
      Inr (LWPB_ERR_OK, poke m (buf_pos buf) (le_bytes 4 v), advance (length (le_bytes 4 v)) buf)"
    if "buf_pos buf + length (le_bytes 4 v) \<le> buf_end buf"
    using buf that
    by (auto simp: encode_32bit_stores stores_poke valid_buf_left_less) (auto simp: valid_buf_def stores_poke)
  show "\<exists>m' k. encode_32bit m buf v = Inr (LWPB_ERR_END_OF_BUF, m', advance k buf) \<and>
      buf_pos buf + k \<le> buf_end buf \<and> same_outside (buf_pos buf) (buf_end buf) m m'"
    if "buf_end buf < buf_pos buf + length (le_bytes 4 v)"
    using buf that
    by (intro exI [of _ m] exI [of _ 0]) (auto simp: encode_32bit_stores valid_buf_left_less valid_buf_def)
  show "lwpb_decode_32bit m buf = Inr (LWPB_ERR_OK, advance (length (le_bytes 4 v)) buf, Some v)"
    if "buf_pos buf + length (le_bytes 4 v) \<le> buf_end buf"
      and pk: "peek m (buf_pos buf) (length (le_bytes 4 v)) = le_bytes 4 v"
  proof -
    have "buf_pos buf + 4 \<le> length m" and "\<not> lwpb_buf_left buf < 4"
      using buf that by (auto simp: valid_buf_left_less) (auto simp: valid_buf_def)
    with pk show ?thesis
      using le_bytes_4 [of v] by (simp add: lwpb_decode_32bit_def loads_peek)
  qed
qed

interpretation fixed64: wire_prim "le_bytes 8" encode_64bit lwpb_decode_64bit Some
proof
  show "le_bytes 8 v \<noteq> []" for v :: u64
    by (simp add: le_bytes_def)
next
  fix m buf and v :: u64
  assume buf: "valid_buf m buf"
  show "encode_64bit m buf v =
      Inr (LWPB_ERR_OK, poke m (buf_pos buf) (le_bytes 8 v), advance (length (le_bytes 8 v)) buf)"
    if "buf_pos buf + length (le_bytes 8 v) \<le> buf_end buf"
    using buf that
    by (auto simp: encode_64bit_stores stores_poke valid_buf_left_less) (auto simp: valid_buf_def stores_poke)
  show "\<exists>m' k. encode_64bit m buf v = Inr (LWPB_ERR_END_OF_BUF, m', advance k buf) \<and>
      buf_pos buf + k \<le> buf_end buf \<and> same_outside (buf_pos buf) (buf_end buf) m m'"
    if "buf_end buf < buf_pos buf + length (le_bytes 8 v)"
    using buf that
    by (intro exI [of _ m] exI [of _ 0]) (auto simp: encode_64bit_stores valid_buf_left_less valid_buf_def)
  show "lwpb_decode_64bit m buf = Inr (LWPB_ERR_OK, advance (length (le_bytes 8 v)) buf, Some v)"
    if "buf_pos buf + length (le_bytes 8 v) \<le> buf_end buf"
      and pk: "peek m (buf_pos buf) (length (le_bytes 8 v)) = le_bytes 8 v"
  proof -
    have "buf_pos buf + 8 \<le> length m" and "\<not> lwpb_buf_left buf < 8"
      using buf that by (auto simp: valid_buf_left_less) (auto simp: valid_buf_def)
    with pk show ?thesis
      using le_bytes_8 [of v] by (simp add: lwpb_decode_64bit_def loads_peek)
  qed
qed

section \<open>Where the decoding routines read\<close>

text \<open>
  A successful read has moved forward, from an address inside of the memory. This is what makes the
  decoder's loops end, on every input.
\<close>

lemma decode_varint_loop_progress:
  "decode_varint_loop m buf acc k = Inr (e, buf', v) \<Longrightarrow>
   buf_pos buf < length m \<and> buf_base buf' = buf_base buf \<and> buf_end buf' = buf_end buf \<and>
   (e = LWPB_ERR_OK \<and> buf_pos buf < buf_pos buf' \<or> e = LWPB_ERR_END_OF_BUF \<and> buf_pos buf \<le> buf_pos buf')"
proof (induction m buf acc k rule: decode_varint_loop.induct)
  case (1 m buf acc k)
  from "1.prems" obtain b where b: "load m (buf_pos buf) = Inr b"
    by (subst (asm) decode_varint_loop.simps) (auto simp: andthen_eq_Inr)
  show ?case
  proof (cases "b AND 0x80 \<noteq> 0 \<and> k < 64 \<and> \<not> int (buf_end buf) - int (buf_pos buf) < 2")
    case True
    with "1.prems" b have "decode_varint_loop m (advance 1 buf)
        (acc OR push_bit k (ucast (b AND 0x7f))) (k + 7) = Inr (e, buf', v)"
      by (subst (asm) decode_varint_loop.simps) (simp add: Let_def)
    with "1.IH" [OF b] True show ?thesis
      by (auto simp: Let_def)
  next
    case False
    with "1.prems" b show ?thesis
      by (subst (asm) decode_varint_loop.simps) (auto simp: Let_def load_Inr split: if_splits)
  qed
qed

lemmas lwpb_decode_varint_progress =
  decode_varint_loop_progress [where acc = 0 and k = 0, folded lwpb_decode_varint_def]

lemma lwpb_decode_32bit_progress:
  "lwpb_decode_32bit m buf = Inr (e, buf', v) \<Longrightarrow>
   buf_base buf' = buf_base buf \<and> buf_end buf' = buf_end buf \<and>
   (e = LWPB_ERR_OK \<and> buf_pos buf < length m \<and> buf_pos buf' = buf_pos buf + 4 \<and> v \<noteq> None \<or>
    e = LWPB_ERR_END_OF_BUF \<and> buf' = buf \<and> v = None)"
  by (auto simp: lwpb_decode_32bit_def andthen_eq_Inr dest!: loads_Inr split: if_splits)

lemma lwpb_decode_64bit_progress:
  "lwpb_decode_64bit m buf = Inr (e, buf', v) \<Longrightarrow>
   buf_base buf' = buf_base buf \<and> buf_end buf' = buf_end buf \<and>
   (e = LWPB_ERR_OK \<and> buf_pos buf < length m \<and> buf_pos buf' = buf_pos buf + 8 \<and> v \<noteq> None \<or>
    e = LWPB_ERR_END_OF_BUF \<and> buf' = buf \<and> v = None)"
  by (auto simp: lwpb_decode_64bit_def andthen_eq_Inr dest!: loads_Inr split: if_splits)

section \<open>What a varint means\<close>

text \<open>
  The meaning of a varint: the bytes that have the top bit set, up to the first that has not, and the
  number that groups of seven bits make, the lowest first.
\<close>

definition more_follow :: "u8 \<Rightarrow> bool" where
  "more_follow b \<longleftrightarrow> b AND 0x80 \<noteq> 0"

definition more_bytes :: "u8 list \<Rightarrow> nat" where
  "more_bytes bs = length (takeWhile more_follow bs)"

fun groups :: "u8 list \<Rightarrow> u64" where
  "groups [] = 0"
| "groups (b # bs) = ucast (b AND 0x7f) OR push_bit 7 (groups bs)"

definition varint_outcome :: "u8 list \<Rightarrow> lwpb_buf \<Rightarrow> (lwpb_err_t \<times> lwpb_buf \<times> u64) run" where
  "varint_outcome bs buf = (let n = more_bytes bs in
     if 10 \<le> n \<and> 10 < length bs then Inl Undef
     else if n = length bs then Inr (LWPB_ERR_END_OF_BUF, advance (length bs - 1) buf, groups bs)
     else Inr (LWPB_ERR_OK, advance (n + 1) buf, groups (take (n + 1) bs)))"

definition buf_rest :: "mem \<Rightarrow> lwpb_buf \<Rightarrow> u8 list" where
  "buf_rest m buf = peek m (buf_pos buf) (buf_end buf - buf_pos buf)"

lemma buf_rest_step:
  assumes "valid_buf m buf" and "buf_pos buf < buf_end buf"
  shows "buf_rest m buf = m ! buf_pos buf # buf_rest m (advance 1 buf)" and "load m (buf_pos buf) = Inr (m ! buf_pos buf)"
    and "length (buf_rest m buf) = buf_end buf - buf_pos buf"
proof -
  have "buf_end buf - buf_pos buf = Suc (buf_end buf - Suc (buf_pos buf))"
    using assms(2) by simp
  then show "buf_rest m buf = m ! buf_pos buf # buf_rest m (advance 1 buf)"
    using assms by (simp add: buf_rest_def peek_def valid_buf_def Cons_nth_drop_Suc [symmetric])
qed (use assms in \<open>auto simp: load_def valid_buf_def buf_rest_def peek_def\<close>)

lemma decode_varint_loop_outcome:
  "valid_buf m buf \<Longrightarrow> buf_pos buf < buf_end buf \<Longrightarrow> i \<le> 10 \<Longrightarrow> bs = buf_rest m buf \<Longrightarrow>
   decode_varint_loop m buf acc (7 * i) =
     (if 10 - i \<le> more_bytes bs \<and> 10 - i < length bs then Inl Undef
      else if more_bytes bs = length bs
      then Inr (LWPB_ERR_END_OF_BUF, advance (length bs - 1) buf, acc OR push_bit (7 * i) (groups bs))
      else Inr (LWPB_ERR_OK, advance (more_bytes bs + 1) buf,
        acc OR push_bit (7 * i) (groups (take (more_bytes bs + 1) bs))))"
proof (induction "10 - i" arbitrary: i buf acc bs)
  case 0
  then have "i = 10" by simp
  with 0 buf_rest_step [OF 0(2,3)] show ?case
    by (simp add: decode_varint_loop.simps [of m buf])
next
  case (Suc n)
  note step = buf_rest_step [OF Suc.prems(1,2)]
  let ?b = "m ! buf_pos buf" and ?rest = "buf_rest m (advance 1 buf)"
  have i: "7 * i < 64" "10 - i = Suc (10 - Suc i)" "Suc i \<le> 10"
    using Suc.hyps(2) by auto
  show ?case
  proof (cases "more_follow ?b \<and> Suc (buf_pos buf) < buf_end buf")
    case True
    have "valid_buf m (advance 1 buf)"
      using Suc.prems(1,2) by (auto simp: valid_buf_def)
    from Suc.hyps(1) [OF _ this _ i(3) refl] True Suc.hyps(2)
    have IH: "decode_varint_loop m (advance 1 buf) acc' (7 * Suc i) =
       (if 10 - Suc i \<le> more_bytes ?rest \<and> 10 - Suc i < length ?rest then Inl Undef
        else if more_bytes ?rest = length ?rest
        then Inr (LWPB_ERR_END_OF_BUF, advance (length ?rest - 1) (advance 1 buf), acc' OR push_bit (7 * Suc i) (groups ?rest))
        else Inr (LWPB_ERR_OK, advance (more_bytes ?rest + 1) (advance 1 buf),
          acc' OR push_bit (7 * Suc i) (groups (take (more_bytes ?rest + 1) ?rest))))" for acc'
      by simp
    have "decode_varint_loop m buf acc (7 * i) =
        decode_varint_loop m (advance 1 buf) (acc OR push_bit (7 * i) (ucast (?b AND 0x7f))) (7 * Suc i)"
      using True i step(2) by (simp add: decode_varint_loop.simps [of m buf] more_follow_def Let_def add.commute)
    moreover have "length ?rest \<noteq> 0"
      using True step by (metis Suc_diff_Suc diff_is_0_eq length_Cons less_or_eq_imp_le list.size(4) nat.inject not_less Suc.prems(2) zero_less_diff)
    ultimately show ?thesis
      unfolding IH Suc.prems(4) step(1) i(2) using True
      by (simp add: more_bytes_def push_bit_or add.commute or.assoc)
  next
    case False
    then show ?thesis
    proof (cases "more_follow ?b")
      case True
      with False Suc.prems(2) have e: "buf_end buf = Suc (buf_pos buf)" by simp
      then have "bs = [?b]"
        using step(1) Suc.prems(4) by (simp add: buf_rest_def peek_def)
      with True e i step(2) show ?thesis
        by (simp add: decode_varint_loop.simps [of m buf] more_follow_def more_bytes_def Let_def)
    next
      case more: False
      with i step(2) show ?thesis
        unfolding Suc.prems(4) step(1)
        by (simp add: decode_varint_loop.simps [of m buf] more_follow_def more_bytes_def Let_def)
    qed
  qed
qed

section \<open>Properties\<close>

text \<open>
  C31: Varints round trip: after encode_varint has written a value, lwpb_decode_varint started at the
  same position reads the same value and stops at the same position.
\<close>

theorem varint_roundtrip:
  assumes "valid_buf m buf" and "encode_varint m buf v = Inr (LWPB_ERR_OK, m', buf')"
  shows "lwpb_decode_varint m' buf = Inr (LWPB_ERR_OK, buf', v)"
  using assms by (rule varint.write_read)

lemma varint_roundtrip_witness:
  "lwpb_decode_varint [0, 172, 2, 0] \<lparr>buf_base = 1, buf_pos = 1, buf_end = 4\<rparr> =
    Inr (LWPB_ERR_OK, \<lparr>buf_base = 1, buf_pos = 3, buf_end = 4\<rparr>, 300)"
proof -
  have "encode_varint [0, 0, 0, 0] \<lparr>buf_base = 1, buf_pos = 1, buf_end = 4\<rparr> 300 =
      Inr (LWPB_ERR_OK, [0, 172, 2, 0], \<lparr>buf_base = 1, buf_pos = 3, buf_end = 4\<rparr>)"
    by code_simp
  from varint_roundtrip [OF _ this] show ?thesis
    by (simp add: valid_buf_def)
qed

text \<open>
  The fixed-width primitives round trip: what encode_32bit and encode_64bit write is read back by
  lwpb_decode_32bit and lwpb_decode_64bit.
\<close>

theorem fixed_roundtrip:
  assumes "valid_buf m buf"
  shows "(encode_32bit m buf v = Inr (LWPB_ERR_OK, m', buf') \<longrightarrow>
      lwpb_decode_32bit m' buf = Inr (LWPB_ERR_OK, buf', Some v)) \<and>
    (encode_64bit m buf w = Inr (LWPB_ERR_OK, m', buf') \<longrightarrow>
      lwpb_decode_64bit m' buf = Inr (LWPB_ERR_OK, buf', Some w))"
  using assms by (auto intro: fixed32.write_read fixed64.write_read)

lemma fixed_roundtrip_witness:
  "lwpb_decode_32bit [4, 3, 2, 1] \<lparr>buf_base = 0, buf_pos = 0, buf_end = 4\<rparr> =
    Inr (LWPB_ERR_OK, \<lparr>buf_base = 0, buf_pos = 4, buf_end = 4\<rparr>, Some 0x01020304)"
proof -
  have "encode_32bit [0, 0, 0, 0] \<lparr>buf_base = 0, buf_pos = 0, buf_end = 4\<rparr> 0x01020304 =
      Inr (LWPB_ERR_OK, [4, 3, 2, 1], \<lparr>buf_base = 0, buf_pos = 4, buf_end = 4\<rparr>)"
    by code_simp
  with fixed_roundtrip [of "[0, 0, 0, 0]" "\<lparr>buf_base = 0, buf_pos = 0, buf_end = 4\<rparr>" "0x01020304"] show ?thesis
    by (simp add: valid_buf_def)
qed

text \<open>
  encode_varint never leaves its buffer. On a valid buffer it returns, it succeeds exactly when the
  at most ten bytes of the value fit, and whether or not it succeeds it changes the memory between
  the old position and the end of the buffer only.
\<close>

theorem encode_varint_bounds:
  assumes "valid_buf m buf"
  shows "\<exists>ret m' buf'. encode_varint m buf v = Inr (ret, m', buf') \<and> valid_buf m' buf' \<and>
    (ret = LWPB_ERR_OK \<longleftrightarrow> buf_pos buf + length (varint_bytes v) \<le> buf_end buf) \<and>
    (ret = LWPB_ERR_OK \<or> ret = LWPB_ERR_END_OF_BUF) \<and> length (varint_bytes v) \<le> 10 \<and>
    same_outside (buf_pos buf) (buf_end buf) m m'"
  using varint.write_total [OF assms, of v] length_varint_bytes [of v] by auto

lemma encode_varint_bounds_witness:
  "\<exists>ret m' buf'. encode_varint [0, 0] \<lparr>buf_base = 0, buf_pos = 0, buf_end = 1\<rparr> 300 = Inr (ret, m', buf') \<and>
    ret = LWPB_ERR_END_OF_BUF \<and> same_outside 0 1 [0, 0] m'"
proof -
  have "length (varint_bytes 300) = 2"
    by code_simp
  with encode_varint_bounds [of "[0, 0]" "\<lparr>buf_base = 0, buf_pos = 0, buf_end = 1\<rparr>" 300] show ?thesis
    by (auto simp: valid_buf_def)
qed

text \<open>
  C32: On a valid buffer that is not used up, the bytes that are left decide all that lwpb_decode_varint
  does. With ten bytes or more that have the top bit set, and more than ten bytes left, it shifts a 64 bit
  integer by 70 bits, which C leaves undefined. Otherwise, when all bytes that are left have the top bit
  set, it returns LWPB_ERR_END_OF_BUF with the position on the last of them; and when one has not, it
  returns LWPB_ERR_OK with the position behind the first of these and the number that the groups of seven
  bits make. So it never reads behind the buffer, and there is no other case that is undefined.
\<close>

theorem decode_varint_bounds:
  assumes "valid_buf m buf" and "buf_pos buf < buf_end buf"
  shows "lwpb_decode_varint m buf = varint_outcome (buf_rest m buf) buf"
  using decode_varint_loop_outcome [OF assms, of 0] by (simp add: lwpb_decode_varint_def varint_outcome_def Let_def)

lemma decode_varint_bounds_witness:
  "lwpb_decode_varint [0x80, 1, 0x80] \<lparr>buf_base = 0, buf_pos = 0, buf_end = 2\<rparr> =
     Inr (LWPB_ERR_OK, \<lparr>buf_base = 0, buf_pos = 2, buf_end = 2\<rparr>, 128) \<and>
   lwpb_decode_varint (replicate 11 0x80) \<lparr>buf_base = 0, buf_pos = 0, buf_end = 10\<rparr> =
     Inr (LWPB_ERR_END_OF_BUF, \<lparr>buf_base = 0, buf_pos = 9, buf_end = 10\<rparr>, 0) \<and>
   lwpb_decode_varint (replicate 11 0x80) \<lparr>buf_base = 0, buf_pos = 0, buf_end = 11\<rparr> = Inl Undef"
proof -
  have "varint_outcome (buf_rest [0x80, 1, 0x80] \<lparr>buf_base = 0, buf_pos = 0, buf_end = 2\<rparr>) \<lparr>buf_base = 0, buf_pos = 0, buf_end = 2\<rparr> =
      Inr (LWPB_ERR_OK, \<lparr>buf_base = 0, buf_pos = 2, buf_end = 2\<rparr>, 128)"
    "varint_outcome (buf_rest (replicate 11 0x80) \<lparr>buf_base = 0, buf_pos = 0, buf_end = 10\<rparr>) \<lparr>buf_base = 0, buf_pos = 0, buf_end = 10\<rparr> =
      Inr (LWPB_ERR_END_OF_BUF, \<lparr>buf_base = 0, buf_pos = 9, buf_end = 10\<rparr>, 0)"
    "varint_outcome (buf_rest (replicate 11 0x80) \<lparr>buf_base = 0, buf_pos = 0, buf_end = 11\<rparr>) \<lparr>buf_base = 0, buf_pos = 0, buf_end = 11\<rparr> = Inl Undef"
    by code_simp+
  then show ?thesis
    using decode_varint_bounds [of "[0x80, 1, 0x80]" "\<lparr>buf_base = 0, buf_pos = 0, buf_end = 2\<rparr>"]
      decode_varint_bounds [of "replicate 11 0x80" "\<lparr>buf_base = 0, buf_pos = 0, buf_end = 10\<rparr>"]
      decode_varint_bounds [of "replicate 11 0x80" "\<lparr>buf_base = 0, buf_pos = 0, buf_end = 11\<rparr>"]
    by (simp add: valid_buf_def)
qed

text \<open>
  Ten continuation bytes make lwpb_decode_varint shift by 70 bits, which C leaves undefined; no
  error is returned.
\<close>

theorem decode_varint_overlong:
  "lwpb_decode_varint (replicate 10 0x80 @ [1]) \<lparr>buf_base = 0, buf_pos = 0, buf_end = 11\<rparr> = Inl Undef"
  by code_simp

end
