(* ===== verification/Encoder.thy ===== *)
theory Encoder
  imports Wire
begin

text \<open>
  The streaming encoder of src/src/lwpb/core/encoder.c: a stack of at most LWPB_MAX_DEPTH frames,
  one per message under construction, each with a buffer inside of the buffer of its parent.
  Operations pass the memory and the encoder explicitly and return an error code.
\<close>

definition MSG_RESERVE_BYTES :: nat where
  "MSG_RESERVE_BYTES = 10"

record lwpb_encoder_stack_frame =
  ef_buf :: lwpb_buf
  ef_field_desc :: "field_ref option"
  ef_msg_desc :: "msg_ref option"

record lwpb_encoder =
  enc_stack :: "lwpb_encoder_stack_frame list"
  enc_depth :: int
  enc_packed :: bool

type_synonym enc_result = "(lwpb_err_t \<times> mem \<times> lwpb_encoder) run"

section \<open>The stack\<close>

text \<open>Reading and writing a slot of the array; an index outside of the array is a fault.\<close>

definition enc_get :: "lwpb_encoder \<Rightarrow> int \<Rightarrow> lwpb_encoder_stack_frame run" where
  "enc_get enc i =
     (if 0 \<le> i \<and> i < int (length (enc_stack enc)) then Inr (enc_stack enc ! nat i) else Inl Fault)"

definition enc_set ::
    "int \<Rightarrow> (lwpb_encoder_stack_frame \<Rightarrow> lwpb_encoder_stack_frame) \<Rightarrow> lwpb_encoder \<Rightarrow> lwpb_encoder run" where
  "enc_set i f enc =
     (if 0 \<le> i \<and> i < int (length (enc_stack enc))
      then Inr (enc\<lparr>enc_stack := (enc_stack enc)[nat i := f (enc_stack enc ! nat i)]\<rparr>) else Inl Fault)"

text \<open>push_stack_frame and pop_stack_frame return the index of the new top frame.\<close>

definition enc_push_stack_frame :: "lwpb_encoder \<Rightarrow> (int \<times> lwpb_encoder) run" where
  "enc_push_stack_frame enc =
     (let enc = enc\<lparr>enc_depth := enc_depth enc + 1\<rparr> in
      andthen (lwpb_assert (enc_depth enc \<le> int LWPB_MAX_DEPTH)) (\<lambda>_.
        Inr (enc_depth enc - 1, enc)))"

definition enc_pop_stack_frame :: "lwpb_encoder \<Rightarrow> (int \<times> lwpb_encoder) run" where
  "enc_pop_stack_frame enc =
     (let enc = enc\<lparr>enc_depth := enc_depth enc - 1\<rparr> in
      andthen (lwpb_assert (0 < enc_depth enc)) (\<lambda>_. Inr (enc_depth enc - 1, enc)))"

section \<open>Starting and finishing\<close>

definition lwpb_encoder_init :: "lwpb_encoder \<Rightarrow> lwpb_encoder" where
  "lwpb_encoder_init enc = enc\<lparr>enc_depth := 0\<rparr>"

definition lwpb_encoder_start ::
    "lwpb_encoder \<Rightarrow> msg_ref option \<Rightarrow> addr \<Rightarrow> u64 \<Rightarrow> lwpb_encoder run" where
  "lwpb_encoder_start enc msg_desc data len =
     enc_set 0 (\<lambda>_. \<lparr>ef_buf = lwpb_buf_init data len, ef_field_desc = None, ef_msg_desc = msg_desc\<rparr>)
       (enc\<lparr>enc_depth := 1, enc_packed := False\<rparr>)"

definition lwpb_encoder_finish :: "lwpb_encoder \<Rightarrow> u64 run" where
  "lwpb_encoder_finish enc = andthen (enc_get enc 0) (\<lambda>frame. Inr (lwpb_buf_used (ef_buf frame)))"

section \<open>Adding a field\<close>

text \<open>
  The wire type and wire value that the first switch of lwpb_encoder_add_field chooses. For a value
  type without a case the wire type stays 0 and the wire value is never assigned (E_unset).
\<close>

datatype enc_value = E_varint u64 | E_64bit u64 | E_string addr u64 | E_32bit u32 | E_unset

fun enc_wire_type :: "enc_value \<Rightarrow> wire_type" where
  "enc_wire_type (E_varint _) = WT_VARINT"
| "enc_wire_type (E_64bit _) = WT_64BIT"
| "enc_wire_type (E_string _ _) = WT_STRING"
| "enc_wire_type (E_32bit _) = WT_32BIT"
| "enc_wire_type E_unset = WT_VARINT"

text \<open>
  Zig-zag encoding shifts the signed value to the left. For negative values standard C leaves this
  undefined; like gcc, which promises it, the model shifts the bits.
\<close>

definition zigzag32 :: "s32 \<Rightarrow> u32" where
  "zigzag32 x = push_bit 1 x XOR signed_drop_bit 31 x"

definition zigzag64 :: "s64 \<Rightarrow> u64" where
  "zigzag64 x = push_bit 1 x XOR signed_drop_bit 63 x"

definition wire_of_value :: "field_typ \<Rightarrow> lwpb_value \<Rightarrow> enc_value run" where
  "wire_of_value t value = (case t of
       LWPB_DOUBLE \<Rightarrow> andthen (value_lo64 value) (\<lambda>x. Inr (E_64bit x))
     | LWPB_FLOAT \<Rightarrow> andthen (value_lo32 value) (\<lambda>x. Inr (E_32bit x))
     | LWPB_INT32 \<Rightarrow> andthen (value_lo32 value) (\<lambda>x. Inr (E_varint (scast x)))
     | LWPB_UINT32 \<Rightarrow> andthen (value_lo32 value) (\<lambda>x. Inr (E_varint (ucast x)))
     | LWPB_SINT32 \<Rightarrow> andthen (value_lo32 value) (\<lambda>x. Inr (E_varint (ucast (zigzag32 x))))
     | LWPB_INT64 \<Rightarrow> andthen (value_lo64 value) (\<lambda>x. Inr (E_varint x))
     | LWPB_UINT64 \<Rightarrow> andthen (value_lo64 value) (\<lambda>x. Inr (E_varint x))
     | LWPB_SINT64 \<Rightarrow> andthen (value_lo64 value) (\<lambda>x. Inr (E_varint (zigzag64 x)))
     | LWPB_FIXED32 \<Rightarrow> andthen (value_lo32 value) (\<lambda>x. Inr (E_32bit x))
     | LWPB_FIXED64 \<Rightarrow> andthen (value_lo64 value) (\<lambda>x. Inr (E_64bit x))
     | LWPB_SFIXED32 \<Rightarrow> andthen (value_lo32 value) (\<lambda>x. Inr (E_32bit x))
     | LWPB_SFIXED64 \<Rightarrow> andthen (value_lo64 value) (\<lambda>x. Inr (E_64bit x))
     | LWPB_BOOL \<Rightarrow> andthen (value_lo32 value) (\<lambda>x. Inr (E_varint (scast x)))
     | LWPB_ENUM \<Rightarrow> andthen (value_lo32 value) (\<lambda>x. Inr (E_varint (scast x)))
     | LWPB_STRING \<Rightarrow> andthen (value_ptr value) (\<lambda>(p, n). Inr (E_string p n))
     | LWPB_BYTES \<Rightarrow> andthen (value_ptr value) (\<lambda>(p, n). Inr (E_string p n))
     | LWPB_MESSAGE \<Rightarrow> andthen (value_ptr value) (\<lambda>(p, n). Inr (E_string p n))
     | _ \<Rightarrow> Inr E_unset)"

text \<open>The field key: \<open>wire_type | (number << 3)\<close> in 32 bit arithmetic, widened to 64 bits.\<close>

definition field_key :: "wire_type \<Rightarrow> u32 \<Rightarrow> u64" where
  "field_key wt n = ucast (wire_type_code wt OR push_bit 3 n)"

text \<open>The wire value of a packed repeated field that is added as a whole.\<close>

definition override_packed :: "bool \<Rightarrow> lwpb_field_desc \<Rightarrow> lwpb_value \<Rightarrow> enc_value \<Rightarrow> enc_value run" where
  "override_packed packed fd value ev =
     (if \<not> packed \<and> is_packed_repeated fd
      then andthen (value_ptr value) (\<lambda>(p, n). Inr (E_string p n)) else Inr ev)"

text \<open>Copying the payload of a string: memmove for regions that may overlap, memcpy otherwise.\<close>

definition copy_payload :: "lwpb_field_desc \<Rightarrow> mem \<Rightarrow> addr \<Rightarrow> addr \<Rightarrow> nat \<Rightarrow> mem run" where
  "copy_payload fd m dst src n =
     (if opt_typ (opts fd) = LWPB_MESSAGE \<or> is_packed_repeated fd
      then memmove m dst src n else memcpy m dst src n)"

definition encode_wire_value ::
    "lwpb_field_desc \<Rightarrow> enc_value \<Rightarrow> mem \<Rightarrow> lwpb_buf \<Rightarrow> (lwpb_err_t \<times> mem \<times> lwpb_buf) run" where
  "encode_wire_value fd ev m buf = (case ev of
       E_varint v \<Rightarrow> encode_varint m buf v
     | E_64bit v \<Rightarrow> encode_64bit m buf v
     | E_32bit v \<Rightarrow> encode_32bit m buf v
     | E_string data len \<Rightarrow>
         andthen (encode_varint m buf len) (\<lambda>(ret, m, buf).
           if ret \<noteq> LWPB_ERR_OK then Inr (ret, m, buf)
           else if lwpb_buf_left buf < len then Inr (LWPB_ERR_END_OF_BUF, m, buf)
           else andthen (copy_payload fd m (buf_pos buf) data (unat len)) (\<lambda>m.
             Inr (LWPB_ERR_OK, m, advance (unat len) buf)))
     | E_unset \<Rightarrow> Inl Undef)"

text \<open>From the choice of the wire value to the end of lwpb_encoder_add_field, on the frame's buffer.\<close>

definition encode_field ::
    "bool \<Rightarrow> lwpb_field_desc \<Rightarrow> lwpb_value \<Rightarrow> mem \<Rightarrow> lwpb_buf \<Rightarrow> (lwpb_err_t \<times> mem \<times> lwpb_buf) run" where
  "encode_field packed fd value m buf =
     andthen (wire_of_value (opt_typ (opts fd)) value) (\<lambda>ev.
     andthen (override_packed packed fd value ev) (\<lambda>ev.
       if packed then encode_wire_value fd ev m buf
       else andthen (encode_varint m buf (field_key (enc_wire_type ev) (number fd))) (\<lambda>(ret, m, buf).
         if ret \<noteq> LWPB_ERR_OK then Inr (ret, m, buf) else encode_wire_value fd ev m buf)))"

text \<open>The check that the field may be added to the current frame.\<close>

definition check_field ::
    "descs \<Rightarrow> lwpb_encoder \<Rightarrow> lwpb_encoder_stack_frame \<Rightarrow> field_ref option \<Rightarrow> lwpb_err_t run" where
  "check_field ds enc frame field_desc =
     (if enc_packed enc then
        andthen (lwpb_assert (field_desc = ef_field_desc frame)) (\<lambda>_.
          if field_desc \<noteq> ef_field_desc frame then Inr LWPB_ERR_INVALID_FIELD else Inr LWPB_ERR_OK)
      else
        andthen (deref_msg ds (ef_msg_desc frame)) (\<lambda>md.
          if list_ex (\<lambda>i. field_desc = Some (the (ef_msg_desc frame), i)) [0..<length (msg_fields md)]
          then Inr LWPB_ERR_OK else Inr LWPB_ERR_UNKNOWN_FIELD))"

definition lwpb_encoder_add_field ::
    "descs \<Rightarrow> mem \<Rightarrow> lwpb_encoder \<Rightarrow> field_ref option \<Rightarrow> lwpb_value \<Rightarrow> enc_result" where
  "lwpb_encoder_add_field ds m enc field_desc value =
     andthen (lwpb_assert (0 < enc_depth enc)) (\<lambda>_.
     andthen (enc_get enc (enc_depth enc - 1)) (\<lambda>frame.
     andthen (check_field ds enc frame field_desc) (\<lambda>ret.
       if ret \<noteq> LWPB_ERR_OK then Inr (ret, m, enc)
       else andthen (deref_field ds field_desc) (\<lambda>fd.
         andthen (encode_field (enc_packed enc) fd value m (ef_buf frame)) (\<lambda>(ret, m, buf).
         andthen (enc_set (enc_depth enc - 1) (ef_buf_update (\<lambda>_. buf)) enc) (\<lambda>enc.
           Inr (ret, m, enc)))))))"

section \<open>Nested messages and packed repeated fields\<close>

text \<open>
  Common to lwpb_encoder_nested_start and lwpb_encoder_packed_repeated_start: push a frame and give
  it the room of its parent behind the reserved bytes.
\<close>

definition enc_open_frame ::
    "field_ref \<Rightarrow> msg_ref option \<Rightarrow> lwpb_encoder \<Rightarrow> (lwpb_err_t \<times> lwpb_encoder) run" where
  "enc_open_frame field_desc msg_desc enc =
     andthen (enc_push_stack_frame enc) (\<lambda>(new_frame, enc').
     andthen (enc_set new_frame
        (\<lambda>f. f\<lparr>ef_field_desc := Some field_desc, ef_msg_desc := msg_desc\<rparr>) enc') (\<lambda>enc'.
     andthen (enc_get enc' (enc_depth enc - 1)) (\<lambda>frame.
       if lwpb_buf_left (ef_buf frame) < of_nat MSG_RESERVE_BYTES
       then Inr (LWPB_ERR_END_OF_BUF, enc')
       else andthen (enc_set new_frame (ef_buf_update (\<lambda>_.
              lwpb_buf_init (buf_pos (ef_buf frame) + MSG_RESERVE_BYTES)
                (lwpb_buf_left (ef_buf frame) - of_nat MSG_RESERVE_BYTES))) enc') (\<lambda>enc'.
            Inr (LWPB_ERR_OK, enc')))))"

definition lwpb_encoder_nested_start ::
    "descs \<Rightarrow> lwpb_encoder \<Rightarrow> field_ref \<Rightarrow> (lwpb_err_t \<times> lwpb_encoder) run" where
  "lwpb_encoder_nested_start ds enc field_desc =
     andthen (deref_field ds (Some field_desc)) (\<lambda>fd.
     andthen (lwpb_assert (opt_typ (opts fd) = LWPB_MESSAGE)) (\<lambda>_.
       enc_open_frame field_desc (fd_msg_desc fd) enc))"

text \<open>The value that stands for the finished contents of a frame.\<close>

definition frame_value :: "lwpb_encoder_stack_frame \<Rightarrow> lwpb_value" where
  "frame_value frame = V_message (buf_base (ef_buf frame)) (lwpb_buf_used (ef_buf frame))"

definition lwpb_encoder_nested_end :: "descs \<Rightarrow> mem \<Rightarrow> lwpb_encoder \<Rightarrow> enc_result" where
  "lwpb_encoder_nested_end ds m enc =
     andthen (enc_pop_stack_frame enc) (\<lambda>(_, enc').
     andthen (enc_get enc' (enc_depth enc - 1)) (\<lambda>frame.
       lwpb_encoder_add_field ds m enc' (ef_field_desc frame) (frame_value frame)))"

definition lwpb_encoder_packed_repeated_start ::
    "descs \<Rightarrow> lwpb_encoder \<Rightarrow> field_ref \<Rightarrow> (lwpb_err_t \<times> lwpb_encoder) run" where
  "lwpb_encoder_packed_repeated_start ds enc field_desc =
     andthen (deref_field ds (Some field_desc)) (\<lambda>fd.
     andthen (lwpb_assert (is_packed_repeated fd)) (\<lambda>_.
     andthen (lwpb_assert (\<not> enc_packed enc)) (\<lambda>_.
     andthen (enc_open_frame field_desc None enc) (\<lambda>(ret, enc).
       if ret \<noteq> LWPB_ERR_OK then Inr (ret, enc)
       else Inr (LWPB_ERR_OK, enc\<lparr>enc_packed := True\<rparr>)))))"

definition lwpb_encoder_packed_repeated_end :: "descs \<Rightarrow> mem \<Rightarrow> lwpb_encoder \<Rightarrow> enc_result" where
  "lwpb_encoder_packed_repeated_end ds m enc =
     andthen (lwpb_assert (enc_packed enc)) (\<lambda>_.
     andthen (enc_pop_stack_frame enc) (\<lambda>(_, enc').
     andthen (enc_get enc' (enc_depth enc - 1)) (\<lambda>frame.
       lwpb_encoder_add_field ds m (enc'\<lparr>enc_packed := False\<rparr>) (ef_field_desc frame)
         (frame_value frame))))"

section \<open>The typed entry points\<close>

definition lwpb_encoder_add_double where
  "lwpb_encoder_add_double ds m enc field_desc double =
     lwpb_encoder_add_field ds m enc field_desc (V_double double)"

definition lwpb_encoder_add_float where
  "lwpb_encoder_add_float ds m enc field_desc float =
     lwpb_encoder_add_field ds m enc field_desc (V_float float)"

definition lwpb_encoder_add_int32 where
  "lwpb_encoder_add_int32 ds m enc field_desc int32 =
     lwpb_encoder_add_field ds m enc field_desc (V_int32 int32)"

definition lwpb_encoder_add_uint32 where
  "lwpb_encoder_add_uint32 ds m enc field_desc uint32 =
     lwpb_encoder_add_field ds m enc field_desc (V_uint32 uint32)"

definition lwpb_encoder_add_int64 where
  "lwpb_encoder_add_int64 ds m enc field_desc int64 =
     lwpb_encoder_add_field ds m enc field_desc (V_int64 int64)"

definition lwpb_encoder_add_uint64 where
  "lwpb_encoder_add_uint64 ds m enc field_desc uint64 =
     lwpb_encoder_add_field ds m enc field_desc (V_uint64 uint64)"

definition lwpb_encoder_add_bool where
  "lwpb_encoder_add_bool ds m enc field_desc b =
     lwpb_encoder_add_field ds m enc field_desc (V_bool b)"

definition lwpb_encoder_add_enum where
  "lwpb_encoder_add_enum ds m enc field_desc enum =
     lwpb_encoder_add_field ds m enc field_desc (V_enum enum)"

definition lwpb_encoder_add_string where
  "lwpb_encoder_add_string ds m enc field_desc str =
     andthen (strlen m str) (\<lambda>n. lwpb_encoder_add_field ds m enc field_desc (V_string str (of_nat n)))"

definition lwpb_encoder_add_bytes where
  "lwpb_encoder_add_bytes ds m enc field_desc data len =
     lwpb_encoder_add_field ds m enc field_desc (V_string data len)"

end
