(* ===== verification/Encoder_Laws.thy ===== *)
theory Encoder_Laws
  imports Encoder
begin

text \<open>
  What the encoder writes: the bytes of a field, the invariant of the stack of frames, and an
  abstract encoder, a stack of byte strings, that the operations of encoder.c refine.
\<close>

section \<open>The bytes of a field\<close>

fun payload_bytes :: "mem \<Rightarrow> enc_value \<Rightarrow> u8 list" where
  "payload_bytes m (E_varint v) = varint_bytes v"
| "payload_bytes m (E_64bit v) = le_bytes 8 v"
| "payload_bytes m (E_32bit v) = le_bytes 4 v"
| "payload_bytes m (E_string p n) = varint_bytes n @ peek m p (unat n)"
| "payload_bytes m E_unset = []"

definition key_bytes :: "enc_value \<Rightarrow> lwpb_field_desc \<Rightarrow> u8 list" where
  "key_bytes ev fd = varint_bytes (field_key (enc_wire_type ev) (number fd))"

text \<open>
  The source of a string is not overwritten by the key and the length that are written before it:
  it lies before the position, or far enough behind it.
\<close>

definition source_ok :: "addr \<Rightarrow> nat \<Rightarrow> enc_value \<Rightarrow> bool" where
  "source_ok pos k ev = (case ev of
       E_string p n \<Rightarrow> unat n = 0 \<or> p + unat n \<le> pos \<or> pos + k + length (varint_bytes n) \<le> p
     | _ \<Rightarrow> True)"

lemma peek_poke_before_or_behind:
  assumes "a + length bs \<le> length m" and "c + n \<le> a \<or> a + length bs \<le> c"
  shows "peek (poke m a bs) c n = peek m c n"
proof (rule nth_equalityI)
  have len: "length (poke m a bs) = length m"
    using assms(1) by simp
  show "length (peek (poke m a bs) c n) = length (peek m c n)"
    by (simp only: peek_def len length_take length_drop)
  fix i
  assume "i < length (peek (poke m a bs) c n)"
  then have i: "i < n" "c + i < length m"
    by (auto simp: peek_def len)
  then show "peek (poke m a bs) c n ! i = peek m c n ! i"
    using assms by (auto simp: peek_def nth_poke len)
qed

lemma copy_payload_Inr:
  assumes "copy_payload fd m dst src n = Inr m'"
  shows "m' = poke m dst (peek m src n) \<and> (n = 0 \<or> src + n \<le> length m \<and> dst + n \<le> length m)"
  using assms by (auto simp: copy_payload_def memcpy_def memmove_def split: if_splits)

text \<open>When encoding succeeds, exactly the bytes of the value have been written.\<close>

lemma encode_wire_value_OK:
  assumes buf: "valid_buf m buf"
    and enc: "encode_wire_value fd ev m buf = Inr (LWPB_ERR_OK, m', buf')"
    and src: "source_ok (buf_pos buf) 0 ev"
  shows "m' = poke m (buf_pos buf) (payload_bytes m ev) \<and>
    buf' = advance (length (payload_bytes m ev)) buf \<and>
    buf_pos buf + length (payload_bytes m ev) \<le> buf_end buf"
proof (cases ev)
  case (E_varint v)
  with enc show ?thesis
    using buf by (cases rule: varint.write_cases [where v = v, OF buf]) (auto simp: encode_wire_value_def)
next
  case (E_64bit v)
  with enc show ?thesis
    using buf by (cases rule: fixed64.write_cases [where v = v, OF buf]) (auto simp: encode_wire_value_def)
next
  case (E_32bit v)
  with enc show ?thesis
    using buf by (cases rule: fixed32.write_cases [where v = v, OF buf]) (auto simp: encode_wire_value_def)
next
  case (E_string p n)
  let ?k = "length (varint_bytes n)" and ?m = "poke m (buf_pos buf) (varint_bytes n)"
  have fits: "buf_pos buf + ?k \<le> buf_end buf"
    using enc E_string varint.write_full [OF buf, of n]
    by (cases "buf_pos buf + ?k \<le> buf_end buf") (auto simp: encode_wire_value_def)
  have mem: "buf_end buf \<le> length m"
    using buf by (simp add: valid_buf_def)
  have adv: "valid_buf ?m (advance ?k buf)"
    using buf fits mem by (simp add: valid_buf_def)
  have left: "\<not> lwpb_buf_left (advance ?k buf) < n"
    and cp: "copy_payload fd ?m (buf_pos buf + ?k) p (unat n) = Inr m'"
    and buf': "buf' = advance (?k + unat n) buf"
    using enc unfolding E_string encode_wire_value_def
    by (auto simp: varint.write_fits [OF buf fits] andthen_eq_Inr split: if_splits)
  have room: "buf_pos buf + ?k + unat n \<le> buf_end buf"
    using left fits by (simp add: valid_buf_left_less [OF adv])
  have pk: "peek ?m p (unat n) = peek m p (unat n)"
    using src fits mem E_string
    by (cases "unat n = 0") (auto simp: source_ok_def intro!: peek_poke_before_or_behind)
  from copy_payload_Inr [OF cp] have len: "length (peek m p (unat n)) = unat n"
    using fits mem by (auto simp: peek_def)
  have "m' = poke ?m (buf_pos buf + ?k) (peek m p (unat n))"
    using copy_payload_Inr [OF cp] pk by simp
  also have "\<dots> = poke m (buf_pos buf) (varint_bytes n @ peek m p (unat n))"
    using room mem len by (intro poke_poke_append) simp
  finally show ?thesis
    using room len buf' E_string by simp
next
  case E_unset
  with enc show ?thesis by (simp add: encode_wire_value_def)
qed

text \<open>On every outcome, only the free room of the buffer has been written to.\<close>

definition writes_in_room ::
    "mem \<Rightarrow> lwpb_buf \<Rightarrow> lwpb_err_t \<Rightarrow> mem \<Rightarrow> lwpb_buf \<Rightarrow> bool" where
  "writes_in_room m buf ret m' buf' \<longleftrightarrow>
     valid_buf m' buf' \<and> buf_base buf' = buf_base buf \<and> buf_end buf' = buf_end buf \<and>
     buf_pos buf \<le> buf_pos buf' \<and> same_outside (buf_pos buf) (buf_end buf) m m' \<and>
     (ret = LWPB_ERR_OK \<or> ret = LWPB_ERR_END_OF_BUF)"

lemma writes_in_room_trans:
  assumes "writes_in_room m buf ret m' buf'" and "writes_in_room m' buf' ret' m'' buf''"
  shows "writes_in_room m buf ret' m'' buf''"
proof -
  have "same_outside (buf_pos buf') (buf_end buf') m' m''"
    using assms by (simp add: writes_in_room_def)
  then have "same_outside (buf_pos buf) (buf_end buf) m' m''"
    by (rule same_outside_mono) (use assms in \<open>simp_all add: writes_in_room_def\<close>)
  then show ?thesis
    using assms by (auto simp: writes_in_room_def intro: same_outside_trans)
qed

lemma encode_varint_in_room:
  "valid_buf m buf \<Longrightarrow> encode_varint m buf v = Inr (ret, m', buf') \<Longrightarrow> writes_in_room m buf ret m' buf'"
  using varint.write_total [of m buf v] by (auto simp: writes_in_room_def)

lemma encode_32bit_in_room:
  "valid_buf m buf \<Longrightarrow> encode_32bit m buf v = Inr (ret, m', buf') \<Longrightarrow> writes_in_room m buf ret m' buf'"
  using fixed32.write_total [of m buf v] by (auto simp: writes_in_room_def)

lemma encode_64bit_in_room:
  "valid_buf m buf \<Longrightarrow> encode_64bit m buf v = Inr (ret, m', buf') \<Longrightarrow> writes_in_room m buf ret m' buf'"
  using fixed64.write_total [of m buf v] by (auto simp: writes_in_room_def)

lemmas prim_in_room = encode_varint_in_room encode_32bit_in_room encode_64bit_in_room

lemma copy_payload_in_room:
  assumes "valid_buf m buf" and "\<not> lwpb_buf_left buf < n"
    and "copy_payload fd m (buf_pos buf) src (unat n) = Inr m'"
  shows "writes_in_room m buf LWPB_ERR_OK m' (advance (unat n) buf)"
proof -
  have room: "buf_pos buf + unat n \<le> buf_end buf"
    using assms(1,2) by (auto simp: valid_buf_left_less) (auto simp: valid_buf_def)
  have m': "m' = poke m (buf_pos buf) (peek m src (unat n))"
    using copy_payload_Inr [OF assms(3)] by simp
  have len: "length (peek m src (unat n)) \<le> unat n"
    by (simp add: peek_def)
  have "same_outside (buf_pos buf) (buf_end buf) m m'"
    unfolding m' using room len assms(1) by (intro same_outside_poke) (auto simp: valid_buf_def)
  with room assms(1) show ?thesis
    by (auto simp: writes_in_room_def valid_buf_def same_outside_length)
qed

lemma encode_wire_value_in_room:
  assumes buf: "valid_buf m buf" and enc: "encode_wire_value fd ev m buf = Inr (ret, m', buf')"
  shows "writes_in_room m buf ret m' buf'"
proof (cases ev)
  case (E_string p n)
  with enc obtain ret1 m1 buf1 where
    1: "encode_varint m buf n = Inr (ret1, m1, buf1)"
    and 2: "(if ret1 \<noteq> LWPB_ERR_OK then Inr (ret1, m1, buf1)
             else if lwpb_buf_left buf1 < n then Inr (LWPB_ERR_END_OF_BUF, m1, buf1)
             else andthen (copy_payload fd m1 (buf_pos buf1) p (unat n))
               (\<lambda>m. Inr (LWPB_ERR_OK, m, advance (unat n) buf1))) = Inr (ret, m', buf')"
    by (auto simp: encode_wire_value_def andthen_eq_Inr)
  have in1: "writes_in_room m buf ret1 m1 buf1"
    using encode_varint_in_room [OF buf 1] .
  show ?thesis
  proof (cases "ret1 = LWPB_ERR_OK \<and> \<not> lwpb_buf_left buf1 < n")
    case True
    with 2 have "copy_payload fd m1 (buf_pos buf1) p (unat n) = Inr m'"
      and "ret = LWPB_ERR_OK" and "buf' = advance (unat n) buf1"
      by (auto simp: andthen_eq_Inr)
    moreover have "valid_buf m1 buf1"
      using in1 by (simp add: writes_in_room_def)
    ultimately have "writes_in_room m1 buf1 ret m' buf'"
      using True copy_payload_in_room by blast
    with in1 show ?thesis by (rule writes_in_room_trans)
  next
    case False
    with 2 in1 show ?thesis by (auto simp: writes_in_room_def split: if_splits)
  qed
qed (use enc in \<open>auto simp: encode_wire_value_def intro: prim_in_room [OF buf]\<close>)

text \<open>The whole field: its key, unless it is an element of a packed field, and its payload.\<close>

definition field_bytes :: "bool \<Rightarrow> lwpb_field_desc \<Rightarrow> mem \<Rightarrow> enc_value \<Rightarrow> u8 list" where
  "field_bytes packed fd m ev = (if packed then [] else key_bytes ev fd) @ payload_bytes m ev"

text \<open>The wire value that is encoded for a value.\<close>

definition chosen_value :: "bool \<Rightarrow> lwpb_field_desc \<Rightarrow> lwpb_value \<Rightarrow> enc_value run" where
  "chosen_value packed fd value =
     andthen (wire_of_value (opt_typ (opts fd)) value) (override_packed packed fd value)"

lemma encode_field_alt:
  "encode_field packed fd value m buf =
     andthen (chosen_value packed fd value) (\<lambda>ev.
       if packed then encode_wire_value fd ev m buf
       else andthen (encode_varint m buf (field_key (enc_wire_type ev) (number fd))) (\<lambda>(ret, m, buf).
         if ret \<noteq> LWPB_ERR_OK then Inr (ret, m, buf) else encode_wire_value fd ev m buf))"
  by (simp add: encode_field_def chosen_value_def andthen_assoc)

lemma unat_ucast_32_64: "unat (ucast (x::u32) :: u64) < 2 ^ 32"
proof -
  have "unat (ucast x :: u64) \<le> unat x"
    by (simp add: unsigned_ucast_eq take_bit_nat_less_eq_self)
  also have "unat x < 2 ^ 32"
    using unsigned_less [of x] by simp
  finally show ?thesis .
qed

lemma length_key_bytes: "length (key_bytes ev fd) \<le> 5"
proof -
  have "unat (field_key (enc_wire_type ev) (number fd)) < 2 ^ 32"
    unfolding field_key_def by (rule unat_ucast_32_64)
  then show ?thesis
    using length_varint_bytes_le [of "field_key (enc_wire_type ev) (number fd)" 4]
    by (simp add: key_bytes_def)
qed

lemma key_bytes_nonempty [simp]: "key_bytes ev fd \<noteq> []"
  by (simp add: key_bytes_def)

lemma encode_field_OK:
  assumes buf: "valid_buf m buf"
    and enc: "encode_field packed fd value m buf = Inr (LWPB_ERR_OK, m', buf')"
    and ev: "chosen_value packed fd value = Inr ev"
    and src: "source_ok (buf_pos buf) (if packed then 0 else length (key_bytes ev fd)) ev"
  shows "m' = poke m (buf_pos buf) (field_bytes packed fd m ev) \<and>
    buf' = advance (length (field_bytes packed fd m ev)) buf \<and>
    buf_pos buf + length (field_bytes packed fd m ev) \<le> buf_end buf"
proof (cases packed)
  case True
  with enc ev src show ?thesis
    using encode_wire_value_OK [OF buf, of fd ev m' buf'] by (simp add: encode_field_alt field_bytes_def)
next
  case False
  let ?k = "key_bytes ev fd"
  let ?m = "poke m (buf_pos buf) ?k" and ?buf = "advance (length ?k) buf"
  have fits: "buf_pos buf + length ?k \<le> buf_end buf"
    using enc ev False varint.write_full [OF buf, of "field_key (enc_wire_type ev) (number fd)"]
    by (cases "buf_pos buf + length ?k \<le> buf_end buf") (auto simp: encode_field_alt key_bytes_def)
  have mem: "buf_end buf \<le> length m"
    using buf by (simp add: valid_buf_def)
  have adv: "valid_buf ?m ?buf"
    using buf fits mem by (simp add: valid_buf_def)
  have enc': "encode_wire_value fd ev ?m ?buf = Inr (LWPB_ERR_OK, m', buf')"
    using enc ev False varint.write_fits [OF buf fits [unfolded key_bytes_def]]
    by (simp add: encode_field_alt key_bytes_def)
  have "source_ok (buf_pos ?buf) 0 ev"
    using src False by (auto simp: source_ok_def split: enc_value.splits)
  from encode_wire_value_OK [OF adv enc' this]
  have 1: "m' = poke ?m (buf_pos buf + length ?k) (payload_bytes ?m ev)"
    and 2: "buf' = advance (length ?k + length (payload_bytes ?m ev)) buf"
    and 3: "buf_pos buf + length ?k + length (payload_bytes ?m ev) \<le> buf_end buf"
    by auto
  have pl: "payload_bytes ?m ev = payload_bytes m ev"
    using src False fits mem
    by (cases ev; cases "\<exists>p n. ev = E_string p n \<and> unat n = 0")
      (auto simp: source_ok_def intro!: peek_poke_before_or_behind)
  have "m' = poke m (buf_pos buf) (?k @ payload_bytes m ev)"
    unfolding 1 pl using 3 pl mem by (intro poke_poke_append) simp
  with 2 3 pl False show ?thesis
    by (simp add: field_bytes_def)
qed

lemma encode_field_in_room:
  assumes buf: "valid_buf m buf" and enc: "encode_field packed fd value m buf = Inr (ret, m', buf')"
  shows "writes_in_room m buf ret m' buf'"
proof (cases packed)
  case True
  with enc show ?thesis
    by (auto simp: encode_field_alt andthen_eq_Inr intro: encode_wire_value_in_room [OF buf])
next
  case False
  with enc obtain ev ret1 m1 buf1 where
    1: "encode_varint m buf (field_key (enc_wire_type ev) (number fd)) = Inr (ret1, m1, buf1)"
    and 2: "(if ret1 \<noteq> LWPB_ERR_OK then Inr (ret1, m1, buf1)
             else encode_wire_value fd ev m1 buf1) = Inr (ret, m', buf')"
    by (auto simp: encode_field_alt andthen_eq_Inr)
  have in1: "writes_in_room m buf ret1 m1 buf1"
    using encode_varint_in_room [OF buf 1] .
  show ?thesis
  proof (cases "ret1 = LWPB_ERR_OK")
    case True
    with 2 in1 have "writes_in_room m1 buf1 ret m' buf'"
      by (intro encode_wire_value_in_room) (auto simp: writes_in_room_def)
    with in1 show ?thesis by (rule writes_in_room_trans)
  next
    case False
    with 2 in1 show ?thesis by simp
  qed
qed

section \<open>The invariant of the stack of frames\<close>

definition enc_frame :: "lwpb_encoder \<Rightarrow> nat \<Rightarrow> lwpb_encoder_stack_frame" where
  "enc_frame enc i = enc_stack enc ! i"

abbreviation frame_buf :: "lwpb_encoder \<Rightarrow> nat \<Rightarrow> lwpb_buf" where
  "frame_buf enc i \<equiv> ef_buf (enc_frame enc i)"

definition enc_top :: "lwpb_encoder \<Rightarrow> nat" where
  "enc_top enc = nat (enc_depth enc) - 1"

text \<open>
  The frames in use have valid buffers, and each frame starts behind the bytes that its parent keeps
  in reserve and shares the end of its parent.
\<close>

definition enc_inv :: "mem \<Rightarrow> lwpb_encoder \<Rightarrow> bool" where
  "enc_inv m enc \<longleftrightarrow>
     length (enc_stack enc) = LWPB_MAX_DEPTH \<and>
     1 \<le> enc_depth enc \<and> enc_depth enc \<le> int LWPB_MAX_DEPTH \<and>
     (\<forall>i \<le> enc_top enc. valid_buf m (frame_buf enc i)) \<and>
     (\<forall>i < enc_top enc. buf_base (frame_buf enc (Suc i)) = buf_pos (frame_buf enc i) + MSG_RESERVE_BYTES \<and>
        buf_end (frame_buf enc (Suc i)) = buf_end (frame_buf enc i))"

lemma enc_inv_top:
  assumes "enc_inv m enc"
  shows "enc_top enc < LWPB_MAX_DEPTH" and "enc_depth enc = int (Suc (enc_top enc))"
    and "length (enc_stack enc) = LWPB_MAX_DEPTH" and "valid_buf m (frame_buf enc (enc_top enc))"
  using assms by (auto simp: enc_inv_def enc_top_def)

lemma enc_inv_get:
  assumes "enc_inv m enc" and "i \<le> enc_top enc"
  shows "enc_get enc (int i) = Inr (enc_frame enc i)"
  using assms enc_inv_top [OF assms(1)] by (simp add: enc_get_def enc_frame_def)

text \<open>Frames lie one inside the other: what a frame has written comes before the frames above.\<close>

lemma enc_inv_nested:
  assumes "enc_inv m enc" and "i < j" and "j \<le> enc_top enc"
  shows "buf_pos (frame_buf enc i) + MSG_RESERVE_BYTES \<le> buf_base (frame_buf enc j) \<and>
    buf_end (frame_buf enc j) = buf_end (frame_buf enc i)"
  using assms(2,3)
proof (induction j)
  case 0
  then show ?case by simp
next
  case (Suc j)
  then have step: "buf_base (frame_buf enc (Suc j)) = buf_pos (frame_buf enc j) + MSG_RESERVE_BYTES"
    "buf_end (frame_buf enc (Suc j)) = buf_end (frame_buf enc j)"
    using assms(1) by (auto simp: enc_inv_def)
  show ?case
  proof (cases "i = j")
    case True
    with step show ?thesis by simp
  next
    case False
    with Suc have "buf_pos (frame_buf enc i) + MSG_RESERVE_BYTES \<le> buf_base (frame_buf enc j)"
      "buf_end (frame_buf enc j) = buf_end (frame_buf enc i)"
      by auto
    moreover have "buf_base (frame_buf enc j) \<le> buf_pos (frame_buf enc j)"
      using assms(1) Suc.prems by (auto simp: enc_inv_def valid_buf_def)
    ultimately show ?thesis using step by simp
  qed
qed

text \<open>Replacing the buffer of the top frame after it was written to.\<close>

definition set_top_buf :: "lwpb_buf \<Rightarrow> lwpb_encoder \<Rightarrow> lwpb_encoder" where
  "set_top_buf buf enc =
     enc\<lparr>enc_stack := (enc_stack enc)[enc_top enc := (enc_frame enc (enc_top enc))\<lparr>ef_buf := buf\<rparr>]\<rparr>"

lemma set_top_buf_sel [simp]:
  "enc_top (set_top_buf buf enc) = enc_top enc"
  "enc_depth (set_top_buf buf enc) = enc_depth enc"
  "enc_packed (set_top_buf buf enc) = enc_packed enc"
  "length (enc_stack (set_top_buf buf enc)) = length (enc_stack enc)"
  by (simp_all add: set_top_buf_def enc_top_def)

lemma enc_frame_set_top_buf:
  assumes "enc_inv m enc"
  shows "enc_frame (set_top_buf buf enc) i =
    (if i = enc_top enc then (enc_frame enc i)\<lparr>ef_buf := buf\<rparr> else enc_frame enc i)"
  using enc_inv_top [OF assms] by (auto simp: set_top_buf_def enc_frame_def)

lemma enc_inv_set_top_buf:
  assumes inv: "enc_inv m enc" and wr: "writes_in_room m (frame_buf enc (enc_top enc)) ret m' buf"
  shows "enc_inv m' (set_top_buf buf enc)"
proof -
  have "length m' = length m"
    using wr by (auto simp: writes_in_room_def dest: same_outside_length)
  then have "valid_buf m' (frame_buf enc i)" if "i \<le> enc_top enc" for i
    using inv that by (auto simp: enc_inv_def intro: valid_buf_mem)
  moreover have "valid_buf m' buf" "buf_base buf = buf_base (frame_buf enc (enc_top enc))"
    "buf_end buf = buf_end (frame_buf enc (enc_top enc))"
    using wr by (auto simp: writes_in_room_def)
  moreover have "buf_base (frame_buf enc (enc_top enc)) = buf_pos (frame_buf enc i) + MSG_RESERVE_BYTES \<and>
    buf_end (frame_buf enc (enc_top enc)) = buf_end (frame_buf enc i)" if "Suc i = enc_top enc" for i
  proof -
    have "i < enc_top enc"
      using that by simp
    with inv show ?thesis
      unfolding enc_inv_def that [symmetric] by blast
  qed
  ultimately show ?thesis
    using inv by (auto simp: enc_inv_def enc_frame_set_top_buf [OF inv])
qed

lemma add_field_cases:
  assumes inv: "enc_inv m enc"
    and add: "lwpb_encoder_add_field ds m enc fr value = Inr (ret, m', enc')"
  obtains (rejected) "ret = LWPB_ERR_UNKNOWN_FIELD" "m' = m" "enc' = enc"
  | (encoded) fd buf where "deref_field ds fr = Inr fd"
      "encode_field (enc_packed enc) fd value m (frame_buf enc (enc_top enc)) = Inr (ret, m', buf)"
      "enc' = set_top_buf buf enc"
proof -
  have get: "enc_get enc (enc_depth enc - 1) = Inr (enc_frame enc (enc_top enc))"
    using enc_inv_get [OF inv order.refl] enc_inv_top(2) [OF inv] by simp
  obtain chk where chk: "check_field ds enc (enc_frame enc (enc_top enc)) fr = Inr chk"
    and rest: "(if chk \<noteq> LWPB_ERR_OK then Inr (chk, m, enc)
       else andthen (deref_field ds fr) (\<lambda>fd.
         andthen (encode_field (enc_packed enc) fd value m (frame_buf enc (enc_top enc))) (\<lambda>(ret, m, buf).
         andthen (enc_set (enc_depth enc - 1) (ef_buf_update (\<lambda>_. buf)) enc) (\<lambda>enc.
           Inr (ret, m, enc))))) = Inr (ret, m', enc')"
    using add unfolding lwpb_encoder_add_field_def by (auto simp: andthen_eq_Inr get)
  show thesis
  proof (cases "chk = LWPB_ERR_OK")
    case True
    have set: "enc_set (enc_depth enc - 1) (ef_buf_update (\<lambda>_. buf)) enc = Inr (set_top_buf buf enc)" for buf
      using enc_inv_top [OF inv] by (simp add: enc_set_def set_top_buf_def enc_frame_def)
    from True rest show thesis
      by (auto simp: andthen_eq_Inr set intro: encoded)
  next
    case False
    have "chk = LWPB_ERR_OK \<or> chk = LWPB_ERR_UNKNOWN_FIELD"
      using chk by (auto simp: check_field_def andthen_eq_Inr lwpb_assert_eq_Inr split: if_splits)
    with False rest show thesis by (auto intro: rejected)
  qed
qed

end
