(* ===== verification/Sample.thy ===== *)
theory Sample
  imports Buf
begin

text \<open>
  Descriptors on which the properties of the development are evaluated: a message with an int32, a
  string, a nested message and a packed repeated uint32, and the nested message, with a sint64 and a message of the outer type.
\<close>

definition sample_field :: "u32 \<Rightarrow> field_label \<Rightarrow> field_typ \<Rightarrow> u8 \<Rightarrow> msg_ref option \<Rightarrow> lwpb_field_desc" where
  "sample_field n l t fl msg = \<lparr>number = n, opts = \<lparr>opt_label = l, opt_typ = t, opt_flags = fl\<rparr>,
     fd_msg_desc = msg, fd_name = '''', fd_def = V_null 0\<rparr>"

definition sample_descs :: descs where
  "sample_descs =
    [\<lparr>msg_fields =
       [sample_field 1 LWPB_OPTIONAL LWPB_INT32 0 None,
        sample_field 2 LWPB_OPTIONAL LWPB_STRING 0 None,
        sample_field 3 LWPB_OPTIONAL LWPB_MESSAGE 0 (Some 1),
        sample_field 4 LWPB_REPEATED LWPB_UINT32 LWPB_IS_PACKED None], md_name = ''outer''\<rparr>,
     \<lparr>msg_fields = 
       [sample_field 1 LWPB_OPTIONAL LWPB_SINT64 0 None,
        sample_field 2 LWPB_OPTIONAL LWPB_MESSAGE 0 (Some 0)], md_name = ''inner''\<rparr>]"

end
