(* ===== verification/Encoder_Refine.thy ===== *)
theory Encoder_Refine
  imports Encoder_Laws Sample
begin

text \<open>
  The abstract encoder: a stack of byte strings, one for each message or packed field under
  construction. The operations of encoder.c refine its three operations, appending to the top,
  opening a new string and closing the top by prefixing it with its key and length.
\<close>

section \<open>The abstract encoder\<close>

type_synonym abs_frame = "field_ref option \<times> u8 list"

type_synonym abs_encoder = "abs_frame list"

definition frame_bytes :: "mem \<Rightarrow> lwpb_buf \<Rightarrow> u8 list" where
  "frame_bytes m buf = peek m (buf_base buf) (buf_pos buf - buf_base buf)"

definition abs_frame :: "mem \<Rightarrow> lwpb_encoder_stack_frame \<Rightarrow> abs_frame" where
  "abs_frame m frame = (ef_field_desc frame, frame_bytes m (ef_buf frame))"

text \<open>The frames in use, the top first.\<close>

definition enc_abs :: "mem \<Rightarrow> lwpb_encoder \<Rightarrow> abs_encoder" where
  "enc_abs m enc = map (\<lambda>i. abs_frame m (enc_frame enc i)) (rev [0..<Suc (enc_top enc)])"

fun abs_append :: "u8 list \<Rightarrow> abs_encoder \<Rightarrow> abs_encoder" where
  "abs_append bs ((f, c) # st) = (f, c @ bs) # st"
| "abs_append bs [] = []"

definition abs_open :: "field_ref \<Rightarrow> abs_encoder \<Rightarrow> abs_encoder" where
  "abs_open f st = (Some f, []) # st"

text \<open>The key and the length-prefixed contents of a field of wire type WT_STRING.\<close>

definition delimited :: "lwpb_field_desc \<Rightarrow> u8 list \<Rightarrow> u8 list" where
  "delimited fd c = varint_bytes (field_key WT_STRING (number fd)) @ varint_bytes (of_nat (length c)) @ c"

fun abs_close :: "descs \<Rightarrow> abs_encoder \<Rightarrow> abs_encoder" where
  "abs_close ds ((f, c) # (g, d) # st) =
     (case deref_field ds f of Inr fd \<Rightarrow> (g, d @ delimited fd c) # st | Inl _ \<Rightarrow> (f, c) # (g, d) # st)"
| "abs_close ds st = st"

lemma enc_abs_top:
  "enc_abs m enc = abs_frame m (enc_frame enc (enc_top enc)) #
     map (\<lambda>i. abs_frame m (enc_frame enc i)) (rev [0..<enc_top enc])"
  by (simp add: enc_abs_def)

lemma enc_abs_not_Nil [simp]: "enc_abs m enc \<noteq> []"
  by (simp add: enc_abs_top)

text \<open>Contents are untouched by what is written at the top position or behind it.\<close>

lemma frame_bytes_outside:
  assumes "same_outside a b m m'" and "buf_pos buf \<le> a" and "buf_base buf \<le> buf_pos buf"
  shows "frame_bytes m' buf = frame_bytes m buf"
  unfolding frame_bytes_def using assms(2,3) by (intro same_outside_peek [OF assms(1)]) auto

lemma lower_frames_outside:
  assumes inv: "enc_inv m enc" and i: "i < enc_top enc"
    and so: "same_outside (buf_pos (frame_buf enc (enc_top enc))) b m m'"
  shows "abs_frame m' (enc_frame enc i) = abs_frame m (enc_frame enc i)"
proof -
  have "buf_pos (frame_buf enc i) \<le> buf_base (frame_buf enc (enc_top enc))"
    using enc_inv_nested [OF inv i] by simp
  moreover have "valid_buf m (frame_buf enc i)" "valid_buf m (frame_buf enc (enc_top enc))"
    using inv i by (auto simp: enc_inv_def)
  ultimately have "frame_bytes m' (frame_buf enc i) = frame_bytes m (frame_buf enc i)"
    by (intro frame_bytes_outside [OF so]) (auto simp: valid_buf_def)
  then show ?thesis
    by (simp add: abs_frame_def)
qed

section \<open>Adding a field\<close>

text \<open>Every outcome of adding a field keeps the invariant and touches only the room that is left.\<close>

lemma add_field_inv:
  assumes inv: "enc_inv m enc" and add: "lwpb_encoder_add_field ds m enc fr value = Inr (ret, m', enc')"
  shows "enc_inv m' enc' \<and> enc_top enc' = enc_top enc \<and> enc_packed enc' = enc_packed enc \<and>
    same_outside (buf_pos (frame_buf enc (enc_top enc))) (buf_end (frame_buf enc (enc_top enc))) m m'"
  using inv add
proof (cases rule: add_field_cases)
  case rejected
  with inv show ?thesis by simp
next
  case (encoded fd buf)
  have room: "writes_in_room m (frame_buf enc (enc_top enc)) ret m' buf"
    using encode_field_in_room [OF _ encoded(2)] inv by (simp add: enc_inv_def)
  with enc_inv_set_top_buf [OF inv room] encoded(3) show ?thesis
    by (simp add: writes_in_room_def)
qed

lemma enc_abs_set_top_buf:
  assumes inv: "enc_inv m enc"
    and so: "same_outside (buf_pos (frame_buf enc (enc_top enc))) b m m'"
  shows "enc_abs m' (set_top_buf buf enc) =
    (ef_field_desc (enc_frame enc (enc_top enc)), frame_bytes m' buf) # tl (enc_abs m enc)"
proof -
  have "map (\<lambda>i. abs_frame m' (enc_frame (set_top_buf buf enc) i)) (rev [0..<enc_top enc]) =
      map (\<lambda>i. abs_frame m (enc_frame enc i)) (rev [0..<enc_top enc])"
    by (rule map_cong)
      (auto simp: enc_frame_set_top_buf [OF inv] lower_frames_outside [OF inv _ so])
  then show ?thesis
    by (simp add: enc_abs_top enc_frame_set_top_buf [OF inv] abs_frame_def)
qed

lemma frame_bytes_append:
  assumes "valid_buf m buf" and "buf_pos buf + length bs \<le> buf_end buf"
  shows "frame_bytes (poke m (buf_pos buf) bs) (advance (length bs) buf) = frame_bytes m buf @ bs"
proof -
  let ?k = "buf_pos buf - buf_base buf" and ?m = "poke m (buf_pos buf) bs"
  have le: "buf_base buf \<le> buf_pos buf" "buf_pos buf + length bs \<le> length m"
    using assms by (auto simp: valid_buf_def)
  then have "buf_pos buf + length bs - buf_base buf = ?k + length bs"
    by simp
  then have "frame_bytes ?m (advance (length bs) buf) = peek ?m (buf_base buf) (?k + length bs)"
    unfolding frame_bytes_def by simp
  also have "\<dots> = peek ?m (buf_base buf) ?k @ peek ?m (buf_pos buf) (length bs)"
    using le(1) by (subst peek_append) simp
  also have "\<dots> = frame_bytes m buf @ bs"
    using le by (simp add: frame_bytes_def peek_poke_before_or_behind)
  finally show ?thesis .
qed

lemma abs_append_top: "abs_append bs (enc_abs m enc) =
  (ef_field_desc (enc_frame enc (enc_top enc)), frame_bytes m (frame_buf enc (enc_top enc)) @ bs) #
    tl (enc_abs m enc)"
  by (simp add: enc_abs_top abs_frame_def)

lemma add_field_abs:
  assumes inv: "enc_inv m enc"
    and add: "lwpb_encoder_add_field ds m enc fr value = Inr (LWPB_ERR_OK, m', enc')"
    and fd: "deref_field ds fr = Inr fd"
    and ev: "chosen_value (enc_packed enc) fd value = Inr ev"
    and src: "source_ok (buf_pos (frame_buf enc (enc_top enc)))
      (if enc_packed enc then 0 else length (key_bytes ev fd)) ev"
  shows "enc_abs m' enc' = abs_append (field_bytes (enc_packed enc) fd m ev) (enc_abs m enc)"
  using inv add
proof (cases rule: add_field_cases)
  case rejected
  then show ?thesis by simp
next
  case (encoded fd' buf)
  let ?top = "frame_buf enc (enc_top enc)" and ?bs = "field_bytes (enc_packed enc) fd m ev"
  have valid: "valid_buf m ?top"
    using enc_inv_top(4) [OF inv] .
  from encoded fd have enc: "encode_field (enc_packed enc) fd value m ?top = Inr (LWPB_ERR_OK, m', buf)"
    by simp
  from encode_field_OK [OF valid enc ev src]
  have m': "m' = poke m (buf_pos ?top) ?bs" and buf: "buf = advance (length ?bs) ?top"
    and fits: "buf_pos ?top + length ?bs \<le> buf_end ?top"
    by auto
  have "buf_end ?top \<le> length m"
    using valid by (simp add: valid_buf_def)
  then have "same_outside (buf_pos ?top) (buf_end ?top) m m'"
    unfolding m' using fits by (intro same_outside_poke) auto
  from enc_abs_set_top_buf [OF inv this, of buf] show ?thesis
    using encoded(3) frame_bytes_append [OF valid fits] by (simp add: abs_append_top m' buf)
qed

section \<open>Successful calls\<close>

text \<open>
  The copy of a string is defined and inside of the memory: a nested message and a packed field may
  overlap their destination, other strings may not.
\<close>

definition copy_ok :: "lwpb_field_desc \<Rightarrow> mem \<Rightarrow> addr \<Rightarrow> addr \<Rightarrow> nat \<Rightarrow> bool" where
  "copy_ok fd m dst src n \<longleftrightarrow> n = 0 \<or> src + n \<le> length m \<and>
     (opt_typ (opts fd) = LWPB_MESSAGE \<or> is_packed_repeated fd \<or> src + n \<le> dst \<or> dst + n \<le> src)"

fun value_ok :: "lwpb_field_desc \<Rightarrow> mem \<Rightarrow> addr \<Rightarrow> enc_value \<Rightarrow> bool" where
  "value_ok fd m dst (E_string p n) = copy_ok fd m (dst + length (varint_bytes n)) p (unat n)"
| "value_ok fd m dst E_unset = False"
| "value_ok fd m dst _ = True"

lemma copy_payload_ok:
  assumes "copy_ok fd m dst src n" and "dst + n \<le> length m"
  shows "copy_payload fd m dst src n = Inr (poke m dst (peek m src n))"
  using assms by (auto simp: copy_payload_def copy_ok_def memmove_def memcpy_def)

lemma encode_wire_value_fits:
  assumes buf: "valid_buf m buf" and ok: "value_ok fd m (buf_pos buf) ev"
    and fits: "buf_pos buf + length (payload_bytes m ev) \<le> buf_end buf"
  shows "\<exists>m' buf'. encode_wire_value fd ev m buf = Inr (LWPB_ERR_OK, m', buf')"
proof (cases ev)
  case (E_varint v)
  with fits show ?thesis by (simp add: encode_wire_value_def varint.write_fits [OF buf])
next
  case (E_64bit v)
  with fits show ?thesis by (simp add: encode_wire_value_def fixed64.write_fits [OF buf])
next
  case (E_32bit v)
  with fits show ?thesis by (simp add: encode_wire_value_def fixed32.write_fits [OF buf])
next
  case (E_string p n)
  let ?k = "length (varint_bytes n)" and ?m = "poke m (buf_pos buf) (varint_bytes n)"
  have mem: "buf_end buf \<le> length m"
    using buf by (simp add: valid_buf_def)
  have len: "length (peek m p (unat n)) = unat n"
    using ok E_string by (cases "unat n = 0") (auto simp: copy_ok_def)
  then have room: "buf_pos buf + ?k + unat n \<le> buf_end buf"
    using fits E_string by simp
  then have k: "buf_pos buf + ?k \<le> buf_end buf" by simp
  with mem have len_m: "length ?m = length m" by simp
  then have adv: "valid_buf ?m (advance ?k buf)"
    using buf k by (simp add: valid_buf_def)
  have left: "\<not> lwpb_buf_left (advance ?k buf) < n"
    using room by (simp add: valid_buf_left_less [OF adv])
  have "copy_ok fd ?m (buf_pos buf + ?k) p (unat n)"
    using ok E_string len_m by (simp add: copy_ok_def)
  then have "copy_payload fd ?m (buf_pos buf + ?k) p (unat n) =
      Inr (poke ?m (buf_pos buf + ?k) (peek ?m p (unat n)))"
    using room mem len_m by (intro copy_payload_ok) auto
  with left show ?thesis
    by (simp add: E_string encode_wire_value_def varint.write_fits [OF buf k])
next
  case E_unset
  with ok show ?thesis by simp
qed

lemma encode_field_fits:
  assumes buf: "valid_buf m buf" and ev: "chosen_value False fd value = Inr ev"
    and ok: "value_ok fd m (buf_pos buf + length (key_bytes ev fd)) ev"
    and src: "source_ok (buf_pos buf) (length (key_bytes ev fd)) ev"
    and fits: "buf_pos buf + length (field_bytes False fd m ev) \<le> buf_end buf"
  shows "\<exists>m' buf'. encode_field False fd value m buf = Inr (LWPB_ERR_OK, m', buf')"
proof -
  let ?k = "key_bytes ev fd"
  let ?m = "poke m (buf_pos buf) ?k"
  have mem: "buf_end buf \<le> length m"
    using buf by (simp add: valid_buf_def)
  have k: "buf_pos buf + length ?k \<le> buf_end buf"
    using fits by (simp add: field_bytes_def)
  then have len: "length ?m = length m"
    using mem by simp
  then have adv: "valid_buf ?m (advance (length ?k) buf)"
    using buf k by (simp add: valid_buf_def)
  have "payload_bytes ?m ev = payload_bytes m ev"
    using src k mem
    by (cases ev; cases "\<exists>p n. ev = E_string p n \<and> unat n = 0")
      (auto simp: source_ok_def intro!: peek_poke_before_or_behind)
  moreover have "value_ok fd ?m (buf_pos buf + length ?k) ev"
    using ok len by (cases ev) (auto simp: copy_ok_def)
  ultimately have "\<exists>m' buf'. encode_wire_value fd ev ?m (advance (length ?k) buf) = Inr (LWPB_ERR_OK, m', buf')"
    using fits by (intro encode_wire_value_fits [OF adv]) (simp_all add: field_bytes_def)
  then show ?thesis
    using varint.write_fits [OF buf k [unfolded key_bytes_def]]
    by (simp add: encode_field_alt ev key_bytes_def)
qed

section \<open>Starting a message\<close>

lemma encoder_start_inv:
  assumes "length (enc_stack enc0) = LWPB_MAX_DEPTH" and "data + unat len \<le> length m" and "length m < 2 ^ 63"
  obtains enc where "lwpb_encoder_start enc0 msg data len = Inr enc" and "enc_inv m enc" and "enc_top enc = 0"
    and "\<not> enc_packed enc" and "enc_abs m enc = [(None, [])]"
    and "enc_frame enc 0 = \<lparr>ef_buf = lwpb_buf_init data len, ef_field_desc = None, ef_msg_desc = msg\<rparr>"
proof -
  let ?frame = "\<lparr>ef_buf = lwpb_buf_init data len, ef_field_desc = None, ef_msg_desc = msg\<rparr>"
  let ?enc = "enc0\<lparr>enc_depth := 1, enc_packed := False, enc_stack := (enc_stack enc0)[0 := ?frame]\<rparr>"
  have pos: "0 < length (enc_stack enc0)"
    using assms(1) by (simp add: LWPB_MAX_DEPTH_def)
  then have start: "lwpb_encoder_start enc0 msg data len = Inr ?enc"
    by (simp add: lwpb_encoder_start_def enc_set_def)
  have frame: "enc_frame ?enc 0 = ?frame"
    using pos by (simp add: enc_frame_def)
  have top: "enc_top ?enc = 0"
    by (simp add: enc_top_def)
  show thesis
  proof (rule that [OF start])
    show "enc_inv m ?enc"
      using assms valid_buf_init [OF assms(2,3)] frame
      by (simp add: enc_inv_def top LWPB_MAX_DEPTH_def)
    show "enc_abs m ?enc = [(None, [])]"
      by (simp add: enc_abs_top frame top abs_frame_def frame_bytes_def)
  qed (simp_all add: top frame)
qed

section \<open>Opening a frame\<close>

definition opened :: "field_ref \<Rightarrow> msg_ref option \<Rightarrow> lwpb_encoder \<Rightarrow> lwpb_encoder" where
  "opened f md enc = (let buf = frame_buf enc (enc_top enc) in
     enc\<lparr>enc_depth := enc_depth enc + 1,
         enc_stack := (enc_stack enc)[Suc (enc_top enc) :=
           \<lparr>ef_buf = \<lparr>buf_base = buf_pos buf + MSG_RESERVE_BYTES,
                      buf_pos = buf_pos buf + MSG_RESERVE_BYTES, buf_end = buf_end buf\<rparr>,
            ef_field_desc = Some f, ef_msg_desc = md\<rparr>]\<rparr>)"

lemma all_fields_set [simp]:
  "r\<lparr>ef_field_desc := f, ef_msg_desc := md, ef_buf := buf\<rparr> =
   \<lparr>ef_buf = buf, ef_field_desc = f, ef_msg_desc = md\<rparr>"
  by (cases r) simp

lemma open_frame_cases:
  assumes inv: "enc_inv m enc" and open_: "enc_open_frame f md enc = Inr (ret, enc')"
  obtains (opened) "ret = LWPB_ERR_OK" "enc' = opened f md enc" "Suc (enc_top enc) < LWPB_MAX_DEPTH"
      "buf_pos (frame_buf enc (enc_top enc)) + MSG_RESERVE_BYTES \<le> buf_end (frame_buf enc (enc_top enc))"
  | (no_room) "ret = LWPB_ERR_END_OF_BUF" "enc_depth enc' = enc_depth enc + 1"
      "enc_packed enc' = enc_packed enc"
      "buf_end (frame_buf enc (enc_top enc)) < buf_pos (frame_buf enc (enc_top enc)) + MSG_RESERVE_BYTES"
proof -
  let ?t = "enc_top enc"
  let ?buf = "frame_buf enc ?t"
  have depth: "enc_depth enc = int (Suc ?t)" and len: "length (enc_stack enc) = LWPB_MAX_DEPTH"
    and valid: "valid_buf m ?buf"
    using enc_inv_top [OF inv] by auto
  have deep: "Suc ?t < LWPB_MAX_DEPTH"
    using open_ depth
    by (auto simp: enc_open_frame_def enc_push_stack_frame_def Let_def andthen_eq_Inr lwpb_assert_eq_Inr)
  have set: "enc_set (int (Suc ?t)) g e = Inr (e\<lparr>enc_stack := (enc_stack e)[Suc ?t := g (enc_stack e ! Suc ?t)]\<rparr>)"
    if "length (enc_stack e) = LWPB_MAX_DEPTH" for g e
    using that deep by (simp add: enc_set_def nat_add_distrib)
  have get: "enc_get e (int ?t) = Inr (enc_frame enc ?t)"
    if "length (enc_stack e) = LWPB_MAX_DEPTH" "enc_stack e ! ?t = enc_frame enc ?t" for e
    using that deep by (simp add: enc_get_def)
  let ?e = "enc\<lparr>enc_depth := enc_depth enc + 1, enc_stack := (enc_stack enc)[Suc ?t :=
    (enc_stack enc ! Suc ?t)\<lparr>ef_field_desc := Some f, ef_msg_desc := md\<rparr>]\<rparr>"
  have run: "enc_open_frame f md enc =
      (if lwpb_buf_left ?buf < of_nat MSG_RESERVE_BYTES then Inr (LWPB_ERR_END_OF_BUF, ?e)
       else Inr (LWPB_ERR_OK, ?e\<lparr>enc_stack := (enc_stack ?e)[Suc ?t := (enc_stack ?e ! Suc ?t)\<lparr>ef_buf :=
         lwpb_buf_init (buf_pos ?buf + MSG_RESERVE_BYTES) (lwpb_buf_left ?buf - of_nat MSG_RESERVE_BYTES)\<rparr>]\<rparr>))"
    using deep len depth set [of "enc\<lparr>enc_depth := enc_depth enc + 1\<rparr>"] set [of ?e] get [of ?e]
    by (simp add: enc_open_frame_def enc_push_stack_frame_def Let_def enc_frame_def)
  have reserve: "unat (of_nat MSG_RESERVE_BYTES :: u64) = MSG_RESERVE_BYTES"
    by (simp add: MSG_RESERVE_BYTES_def)
  show thesis
  proof (cases "lwpb_buf_left ?buf < of_nat MSG_RESERVE_BYTES")
    case True
    have "buf_pos ?buf \<le> buf_end ?buf"
      using valid by (simp add: valid_buf_def)
    with True have "buf_end ?buf < buf_pos ?buf + MSG_RESERVE_BYTES"
      by (simp add: valid_buf_left_less [OF valid] reserve)
    with True show thesis
      using open_ run by (intro no_room) auto
  next
    case False
    have "unat (lwpb_buf_left ?buf - of_nat MSG_RESERVE_BYTES) = buf_end ?buf - buf_pos ?buf - MSG_RESERVE_BYTES"
      using False by (subst unat_sub) (auto simp: reserve valid_buf_left [OF valid])
    moreover have room: "buf_pos ?buf + MSG_RESERVE_BYTES \<le> buf_end ?buf"
      using False valid by (auto simp: valid_buf_left_less [OF valid] reserve valid_buf_def MSG_RESERVE_BYTES_def)
    ultimately have "enc' = opened f md enc" and "ret = LWPB_ERR_OK"
      using open_ run False len deep
      by (auto simp: opened_def lwpb_buf_init_def Let_def)
    with deep room show thesis by (intro opened)
  qed
qed

lemma opened_sel [simp]:
  assumes "enc_inv m enc"
  shows "enc_top (opened f md enc) = Suc (enc_top enc)" "enc_packed (opened f md enc) = enc_packed enc"
    "enc_depth (opened f md enc) = enc_depth enc + 1"
  using assms by (auto simp: opened_def enc_top_def enc_inv_def Let_def)

lemma opened_frame:
  assumes "enc_inv m enc" and "Suc (enc_top enc) < LWPB_MAX_DEPTH" and "i \<le> Suc (enc_top enc)"
  shows "enc_frame (opened f md enc) i = (if i = Suc (enc_top enc) then
      (let buf = frame_buf enc (enc_top enc) in
       \<lparr>ef_buf = \<lparr>buf_base = buf_pos buf + MSG_RESERVE_BYTES,
          buf_pos = buf_pos buf + MSG_RESERVE_BYTES, buf_end = buf_end buf\<rparr>,
        ef_field_desc = Some f, ef_msg_desc = md\<rparr>)
    else enc_frame enc i)"
  using assms enc_inv_top(3) [OF assms(1)] by (auto simp: opened_def enc_frame_def Let_def)

lemma opened_inv:
  assumes inv: "enc_inv m enc" and deep: "Suc (enc_top enc) < LWPB_MAX_DEPTH"
    and room: "buf_pos (frame_buf enc (enc_top enc)) + MSG_RESERVE_BYTES \<le> buf_end (frame_buf enc (enc_top enc))"
  shows "enc_inv m (opened f md enc)"
proof -
  have top: "valid_buf m (frame_buf enc (enc_top enc))"
    using enc_inv_top(4) [OF inv] .
  have "valid_buf m (frame_buf (opened f md enc) i)" if "i \<le> Suc (enc_top enc)" for i
    using that inv top room by (auto simp: opened_frame [OF inv deep] Let_def enc_inv_def valid_buf_def)
  moreover have "buf_base (frame_buf (opened f md enc) (Suc i)) =
        buf_pos (frame_buf (opened f md enc) i) + MSG_RESERVE_BYTES \<and>
      buf_end (frame_buf (opened f md enc) (Suc i)) = buf_end (frame_buf (opened f md enc) i)"
    if "i < Suc (enc_top enc)" for i
    using that inv by (cases "i = enc_top enc") (auto simp: opened_frame [OF inv deep] Let_def enc_inv_def)
  moreover have "length (enc_stack (opened f md enc)) = LWPB_MAX_DEPTH"
    using enc_inv_top(3) [OF inv] by (simp add: opened_def Let_def)
  ultimately show ?thesis
    using deep enc_inv_top(2) [OF inv] by (simp add: enc_inv_def opened_sel [OF inv])
qed

lemma opened_abs:
  assumes inv: "enc_inv m enc" and deep: "Suc (enc_top enc) < LWPB_MAX_DEPTH"
  shows "enc_abs m (opened f md enc) = abs_open f (enc_abs m enc)"
proof -
  have "map (\<lambda>i. abs_frame m (enc_frame (opened f md enc) i)) (rev [0..<Suc (enc_top enc)]) = enc_abs m enc"
    unfolding enc_abs_def by (rule map_cong) (auto simp: opened_frame [OF inv deep])
  then show ?thesis
    by (simp add: enc_abs_top [of m "opened f md enc"] opened_sel [OF inv] opened_frame [OF inv deep]
        abs_open_def abs_frame_def frame_bytes_def Let_def)
qed

section \<open>Closing a frame\<close>

text \<open>The encoder after the top frame was popped, in or out of packed mode.\<close>

definition popped :: "bool \<Rightarrow> lwpb_encoder \<Rightarrow> lwpb_encoder" where
  "popped p enc = enc\<lparr>enc_depth := enc_depth enc - 1, enc_packed := p\<rparr>"

lemma popped_sel [simp]:
  "enc_packed (popped p enc) = p" "enc_frame (popped p enc) i = enc_frame enc i"
  "enc_top enc = Suc t \<Longrightarrow> enc_top (popped p enc) = t"
  by (auto simp: popped_def enc_frame_def enc_top_def)

lemma popped_inv: "enc_inv m enc \<Longrightarrow> enc_top enc = Suc t \<Longrightarrow> enc_inv m (popped p enc)"
  by (auto simp: enc_inv_def) (auto simp: popped_def enc_top_def)

lemma popped_abs: "enc_top enc = Suc t \<Longrightarrow> enc_abs m (popped p enc) = tl (enc_abs m enc)"
  by (simp add: enc_abs_def)

lemma pop_stack_frame:
  assumes "enc_inv m enc" and "enc_top enc = Suc t"
  shows "enc_pop_stack_frame enc = Inr (int t, popped (enc_packed enc) enc)"
  using enc_inv_top(2) [OF assms(1)] assms(2)
  by (simp add: enc_pop_stack_frame_def popped_def Let_def)

lemma nested_end_add:
  assumes "enc_inv m enc" and "enc_top enc = Suc t"
  shows "lwpb_encoder_nested_end ds m enc =
    lwpb_encoder_add_field ds m (popped (enc_packed enc) enc) (ef_field_desc (enc_frame enc (Suc t)))
      (frame_value (enc_frame enc (Suc t)))"
proof -
  have "enc_get (popped (enc_packed enc) enc) (enc_depth enc - 1) = Inr (enc_frame enc (Suc t))"
    using enc_inv_top [OF assms(1)] assms(2)
    by (simp add: enc_get_def popped_def enc_frame_def nat_add_distrib)
  then show ?thesis
    by (simp add: lwpb_encoder_nested_end_def pop_stack_frame [OF assms])
qed

lemma packed_end_add:
  assumes "enc_inv m enc" and "enc_top enc = Suc t" and "enc_packed enc"
  shows "lwpb_encoder_packed_repeated_end ds m enc =
    lwpb_encoder_add_field ds m (popped False enc) (ef_field_desc (enc_frame enc (Suc t)))
      (frame_value (enc_frame enc (Suc t)))"
proof -
  have "enc_get (popped True enc) (enc_depth enc - 1) = Inr (enc_frame enc (Suc t))"
    using enc_inv_top [OF assms(1)] assms(2)
    by (simp add: enc_get_def popped_def enc_frame_def nat_add_distrib)
  moreover have "(popped True enc)\<lparr>enc_packed := False\<rparr> = popped False enc"
    by (simp add: popped_def)
  ultimately show ?thesis
    using assms(3) by (simp add: lwpb_encoder_packed_repeated_end_def pop_stack_frame [OF assms(1,2)])
qed

text \<open>The field of a frame that can be closed: a message or a packed repeated field.\<close>

definition closable :: "lwpb_field_desc \<Rightarrow> bool" where
  "closable fd \<longleftrightarrow> opt_typ (opts fd) = LWPB_MESSAGE \<or> is_packed_repeated fd"

lemma chosen_value_message:
  "closable fd \<Longrightarrow> chosen_value False fd (V_message p n) = Inr (E_string p n)"
  by (cases "opt_typ (opts fd)") (auto simp: closable_def chosen_value_def wire_of_value_def override_packed_def)

lemma add_field_total:
  assumes inv: "enc_inv m enc" and np: "\<not> enc_packed enc"
    and msg: "ef_msg_desc (enc_frame enc (enc_top enc)) = Some i" and fd: "deref_field ds (Some (i, j)) = Inr fd"
    and enc: "encode_field False fd value m (frame_buf enc (enc_top enc)) = Inr (ret, m', buf)"
  shows "lwpb_encoder_add_field ds m enc (Some (i, j)) value = Inr (ret, m', set_top_buf buf enc)"
proof -
  have ij: "i < length ds" "j < length (msg_fields (ds ! i))"
    using fd by (auto simp: deref_field_Inr)
  have get: "enc_get enc (enc_depth enc - 1) = Inr (enc_frame enc (enc_top enc))"
    using enc_inv_get [OF inv order.refl] enc_inv_top(2) [OF inv] by simp
  have "list_ex (\<lambda>k. Some (i, j) = Some (the (ef_msg_desc (enc_frame enc (enc_top enc))), k))
      [0..<length (msg_fields (ds ! i))]"
    using ij msg by (auto simp: list_ex_iff)
  then have chk: "check_field ds enc (enc_frame enc (enc_top enc)) (Some (i, j)) = Inr LWPB_ERR_OK"
    using np msg ij by (simp add: check_field_def)
  have "enc_set (enc_depth enc - 1) (ef_buf_update (\<lambda>_. buf)) enc = Inr (set_top_buf buf enc)"
    using enc_inv_top [OF inv] by (simp add: enc_set_def set_top_buf_def enc_frame_def)
  with np enc chk fd get enc_inv_top(2) [OF inv] show ?thesis
    by (simp add: lwpb_encoder_add_field_def)
qed

lemma length_varint_small: "n < 2 ^ 35 \<Longrightarrow> length (varint_bytes (of_nat n)) \<le> 5"
  using length_varint_bytes_le [of "of_nat n" 4] by (simp add: unat_of_nat)

lemma close_frame:
  assumes inv: "enc_inv m enc" and top: "enc_top enc = Suc t"
    and f: "ef_field_desc (enc_frame enc (Suc t)) = Some (i, j)"
    and msg: "ef_msg_desc (enc_frame enc t) = Some i"
    and fd: "deref_field ds (Some (i, j)) = Inr fd" "closable fd"
    and small: "unat (lwpb_buf_used (frame_buf enc (Suc t))) < 2 ^ 35"
  shows "\<exists>m' enc'. lwpb_encoder_add_field ds m (popped False enc) (Some (i, j))
      (frame_value (enc_frame enc (Suc t))) = Inr (LWPB_ERR_OK, m', enc') \<and>
    enc_inv m' enc' \<and> enc_top enc' = t \<and> \<not> enc_packed enc' \<and>
    enc_abs m' enc' = abs_close ds (enc_abs m enc)"
proof -
  let ?sub = "frame_buf enc (Suc t)" and ?buf = "frame_buf enc t" and ?enc = "popped False enc"
  let ?n = "lwpb_buf_used ?sub"
  let ?ev = "E_string (buf_base ?sub) ?n"
  let ?bs = "field_bytes False fd m ?ev"
  have sub: "valid_buf m ?sub" and buf: "valid_buf m ?buf"
    using inv top by (auto simp: enc_inv_def)
  have base: "buf_base ?sub = buf_pos ?buf + 10" and ends: "buf_end ?sub = buf_end ?buf"
    using inv top by (auto simp: enc_inv_def MSG_RESERVE_BYTES_def)
  have used: "unat ?n = buf_pos ?sub - buf_base ?sub"
    by (rule valid_buf_used [OF sub])
  have n: "?n = of_nat (buf_pos ?sub - buf_base ?sub)"
    using sub by (simp add: buf_used_of_nat valid_buf_def)
  have len: "length (varint_bytes ?n) \<le> 5"
    unfolding n using small [unfolded used] by (rule length_varint_small)
  have inner: "buf_base ?sub + unat ?n \<le> buf_end ?buf" and mem: "buf_end ?buf \<le> length m"
    using sub buf ends by (auto simp: used valid_buf_def)
  then have peek: "length (peek m (buf_base ?sub) (unat ?n)) = unat ?n"
    by simp
  have val: "frame_value (enc_frame enc (Suc t)) = V_message (buf_base ?sub) ?n"
    by (simp add: frame_value_def)
  have ev: "chosen_value False fd (V_message (buf_base ?sub) ?n) = Inr ?ev"
    by (rule chosen_value_message [OF fd(2)])
  have key: "length (key_bytes ?ev fd) \<le> 5"
    by (rule length_key_bytes)
  have src: "source_ok (buf_pos ?buf) (length (key_bytes ?ev fd)) ?ev"
    using key len base by (simp add: source_ok_def)
  have "copy_ok fd m dst (buf_base ?sub) (unat ?n)" for dst
    using fd(2) inner mem by (auto simp: copy_ok_def closable_def)
  moreover have fits: "buf_pos ?buf + length ?bs \<le> buf_end ?buf"
    using inner base key len peek by (simp add: field_bytes_def)
  ultimately obtain m' buf' where enc: "encode_field False fd (frame_value (enc_frame enc (Suc t))) m ?buf =
      Inr (LWPB_ERR_OK, m', buf')"
    using encode_field_fits [OF buf ev _ src] val by auto
  have add: "lwpb_encoder_add_field ds m ?enc (Some (i, j)) (frame_value (enc_frame enc (Suc t))) =
      Inr (LWPB_ERR_OK, m', set_top_buf buf' ?enc)"
    using add_field_total [OF popped_inv [OF inv top, of False] _ _ fd(1)] enc top msg by simp
  have abs: "enc_abs m' (set_top_buf buf' ?enc) = abs_append ?bs (enc_abs m ?enc)"
    using add_field_abs [OF popped_inv [OF inv top] add fd(1)] ev src top val by simp
  have "?bs = delimited fd (frame_bytes m ?sub)"
    using peek used by (simp add: field_bytes_def key_bytes_def delimited_def frame_bytes_def n)
  moreover have "enc_abs m enc = (Some (i, j), frame_bytes m ?sub) #
      (ef_field_desc (enc_frame enc t), frame_bytes m ?buf) # tl (tl (enc_abs m enc))"
    using top f by (simp add: enc_abs_def abs_frame_def)
  ultimately have "abs_append ?bs (enc_abs m ?enc) = abs_close ds (enc_abs m enc)"
    using fd(1) by (simp add: popped_abs [OF top]) (metis abs_append.simps(1) abs_close.simps(1) list.sel(3) sum.case(2))
  with add abs add_field_inv [OF popped_inv [OF inv top] add] top show ?thesis
    by (intro exI [of _ m'] exI [of _ "set_top_buf buf' ?enc"]) simp
qed

section \<open>Properties\<close>

text \<open>
  C28: lwpb_encoder_add_field refines appending. When it succeeds, the string of bytes under
  construction on top of the abstract stack is extended by the key of the field, unless it is an
  element of a packed field, and the payload of the value, and all strings below are as they were.
\<close>

theorem add_field_refines:
  assumes "enc_inv m enc"
    and "lwpb_encoder_add_field ds m enc fr v = Inr (LWPB_ERR_OK, m', enc')"
    and "deref_field ds fr = Inr fd" and "chosen_value (enc_packed enc) fd v = Inr ev"
    and "source_ok (buf_pos (frame_buf enc (enc_top enc))) (if enc_packed enc then 0 else length (key_bytes ev fd)) ev"
  shows "enc_inv m' enc' \<and>
    enc_abs m' enc' = abs_append (field_bytes (enc_packed enc) fd m ev) (enc_abs m enc)"
  using add_field_inv [OF assms(1,2)] add_field_abs [OF assms] by blast

text \<open>
  C27: lwpb_encoder_nested_start refines opening a new empty string on the abstract stack, and fails
  with LWPB_ERR_END_OF_BUF exactly when fewer than MSG_RESERVE_BYTES bytes are left; then it has
  nevertheless pushed a frame.
\<close>

theorem nested_start_refines:
  assumes "enc_inv m enc" and "lwpb_encoder_nested_start ds enc f = Inr (ret, enc')"
  shows "(ret = LWPB_ERR_OK \<and> enc_inv m enc' \<and> enc_abs m enc' = abs_open f (enc_abs m enc) \<and>
      buf_pos (frame_buf enc (enc_top enc)) + MSG_RESERVE_BYTES \<le> buf_end (frame_buf enc (enc_top enc))) \<or>
    (ret = LWPB_ERR_END_OF_BUF \<and> enc_depth enc' = enc_depth enc + 1 \<and>
      buf_end (frame_buf enc (enc_top enc)) < buf_pos (frame_buf enc (enc_top enc)) + MSG_RESERVE_BYTES)"
proof -
  obtain md where "enc_open_frame f md enc = Inr (ret, enc')"
    using assms(2) by (auto simp: lwpb_encoder_nested_start_def andthen_eq_Inr)
  from assms(1) this show ?thesis
    by (cases rule: open_frame_cases) (simp_all add: opened_inv [OF assms(1)] opened_abs [OF assms(1)])
qed

text \<open>
  C26: lwpb_encoder_nested_end refines closing the top string: it is prefixed by the key and the length
  and appended to the string below. The reserved bytes are always enough, so for contents of less
  than 2 to the 35 bytes it does not fail, although it moves overlapping memory.
\<close>

theorem nested_end_refines:
  assumes "enc_inv m enc" and "enc_top enc = Suc t" and "\<not> enc_packed enc"
    and "ef_field_desc (enc_frame enc (Suc t)) = Some (i, j)" and "ef_msg_desc (enc_frame enc t) = Some i"
    and "deref_field ds (Some (i, j)) = Inr fd" and "opt_typ (opts fd) = LWPB_MESSAGE"
    and "unat (lwpb_buf_used (frame_buf enc (Suc t))) < 2 ^ 35"
  shows "\<exists>m' enc'. lwpb_encoder_nested_end ds m enc = Inr (LWPB_ERR_OK, m', enc') \<and>
    enc_inv m' enc' \<and> enc_top enc' = t \<and> enc_abs m' enc' = abs_close ds (enc_abs m enc)"
proof -
  have "closable fd"
    using assms(7) by (simp add: closable_def)
  from close_frame [OF assms(1,2,4,5,6) this assms(8)] show ?thesis
    using assms(3) by (auto simp: nested_end_add [OF assms(1,2)] assms(4))
qed

end
