(* ===== verification/Encoder2.thy ===== *)
theory Encoder2
  imports Encoder_Refine Sample
begin

text \<open>
  The second encoder, src/src/lwpb/core/encoder2.c: it has no stack and no bounds. A field is encoded
  at an address, or only measured when the address is NULL (\<open>None\<close>); the size is returned.
\<close>

section \<open>The primitives\<close>

text \<open>The bytes are stored only when there is a buffer.\<close>

definition store_opt :: "mem \<Rightarrow> addr option \<Rightarrow> u8 list \<Rightarrow> mem run" where
  "store_opt m buf bs = (case buf of None \<Rightarrow> Inr m | Some a \<Rightarrow> stores m a bs)"

function encode_varint_from ::
    "mem \<Rightarrow> addr option \<Rightarrow> u64 \<Rightarrow> u64 \<Rightarrow> (mem \<times> u64) run" where
  "encode_varint_from m buf varint len =
     andthen (store_opt m buf [varint_byte varint]) (\<lambda>m.
       if drop_bit 7 varint \<noteq> 0
       then encode_varint_from m (map_option Suc buf) (drop_bit 7 varint) (len + 1)
       else Inr (m, len + 1))"
  by pat_completeness auto
termination
proof (relation "measure (\<lambda>(m, buf, varint, len). unat varint)")
  fix m buf and varint len :: u64 and m'
  assume "drop_bit 7 varint \<noteq> 0"
  then have "varint \<noteq> 0" by auto
  then show "((m', map_option Suc buf, drop_bit 7 varint, len + 1), m, buf, varint, len)
      \<in> measure (\<lambda>(m, buf, varint, len). unat varint)"
    by (simp add: drop_bit_7_less)
qed simp

declare encode_varint_from.simps [simp del]

definition lwpb_encode_varint :: "mem \<Rightarrow> addr option \<Rightarrow> u64 \<Rightarrow> (mem \<times> u64) run" where
  "lwpb_encode_varint m buf varint = encode_varint_from m buf varint 0"

definition lwpb_encode_32bit :: "mem \<Rightarrow> addr option \<Rightarrow> u32 \<Rightarrow> (mem \<times> u64) run" where
  "lwpb_encode_32bit m buf value =
     andthen (store_opt m buf
       [ucast (value AND 0xff), ucast (drop_bit 8 value AND 0xff),
        ucast (drop_bit 16 value AND 0xff), ucast (drop_bit 24 value AND 0xff)]) (\<lambda>m. Inr (m, 4))"

definition lwpb_encode_64bit :: "mem \<Rightarrow> addr option \<Rightarrow> u64 \<Rightarrow> (mem \<times> u64) run" where
  "lwpb_encode_64bit m buf value =
     (let hi = drop_bit 32 value in
      andthen (store_opt m buf
        [ucast (value AND 0xff), ucast (drop_bit 8 value AND 0xff),
         ucast (drop_bit 16 value AND 0xff), ucast (drop_bit 24 value AND 0xff),
         ucast (hi AND 0xff), ucast (drop_bit 8 hi AND 0xff),
         ucast (drop_bit 16 hi AND 0xff), ucast (drop_bit 24 hi AND 0xff)]) (\<lambda>m. Inr (m, 8)))"

section \<open>The encoder\<close>

record lwpb_encoder2 =
  enc2_packed :: bool

definition lwpb_encoder2_init :: "lwpb_encoder2 \<Rightarrow> lwpb_encoder2" where
  "lwpb_encoder2_init enc = enc"

definition lwpb_encoder2_start :: "lwpb_encoder2 \<Rightarrow> msg_ref option \<Rightarrow> lwpb_encoder2" where
  "lwpb_encoder2_start enc msg_desc = enc\<lparr>enc2_packed := False\<rparr>"

definition lwpb_encoder2_packed_repeated_start ::
    "lwpb_encoder2 \<Rightarrow> lwpb_field_desc \<Rightarrow> (lwpb_err_t \<times> lwpb_encoder2) run" where
  "lwpb_encoder2_packed_repeated_start enc fd =
     andthen (lwpb_assert (is_packed_repeated fd)) (\<lambda>_.
     andthen (lwpb_assert (\<not> enc2_packed enc)) (\<lambda>_.
       Inr (LWPB_ERR_OK, enc\<lparr>enc2_packed := True\<rparr>)))"

definition lwpb_encoder2_packed_repeated_end ::
    "lwpb_encoder2 \<Rightarrow> (lwpb_err_t \<times> lwpb_encoder2) run" where
  "lwpb_encoder2_packed_repeated_end enc =
     andthen (lwpb_assert (enc2_packed enc)) (\<lambda>_. Inr (LWPB_ERR_OK, enc\<lparr>enc2_packed := False\<rparr>))"

text \<open>\<open>if (buf) buf += size\<close>\<close>

definition move_buf :: "addr option \<Rightarrow> u64 \<Rightarrow> addr option" where
  "move_buf buf sz = map_option (\<lambda>a. a + unat sz) buf"

definition encode2_wire_value ::
    "lwpb_field_desc \<Rightarrow> enc_value \<Rightarrow> mem \<Rightarrow> addr option \<Rightarrow> (mem \<times> u64) run" where
  "encode2_wire_value fd ev m buf = (case ev of
       E_varint v \<Rightarrow> lwpb_encode_varint m buf v
     | E_64bit v \<Rightarrow> lwpb_encode_64bit m buf v
     | E_32bit v \<Rightarrow> lwpb_encode_32bit m buf v
     | E_string data len \<Rightarrow>
         andthen (lwpb_encode_varint m buf len) (\<lambda>(m, sz).
         andthen (case move_buf buf sz of None \<Rightarrow> Inr m
             | Some a \<Rightarrow> copy_payload fd m a data (unat len)) (\<lambda>m.
           Inr (m, sz + len)))
     | E_unset \<Rightarrow> Inl Undef)"

definition lwpb_encoder2_add_field ::
    "mem \<Rightarrow> lwpb_encoder2 \<Rightarrow> lwpb_field_desc \<Rightarrow> lwpb_value \<Rightarrow> addr option \<Rightarrow> (mem \<times> u64) run" where
  "lwpb_encoder2_add_field m enc fd value buf =
     andthen (wire_of_value (opt_typ (opts fd)) value) (\<lambda>ev.
     andthen (override_packed (enc2_packed enc) fd value ev) (\<lambda>ev.
     andthen (if enc2_packed enc then Inr (m, 0)
              else lwpb_encode_varint m buf (field_key (enc_wire_type ev) (number fd))) (\<lambda>(m, len).
     andthen (encode2_wire_value fd ev m (move_buf buf len)) (\<lambda>(m, sz).
       Inr (m, len + sz)))))"

section \<open>Measuring and writing\<close>

text \<open>The size of a value that has not been read from memory.\<close>

fun payload_size :: "enc_value \<Rightarrow> u64" where
  "payload_size (E_varint v) = of_nat (length (varint_bytes v))"
| "payload_size (E_64bit v) = 8"
| "payload_size (E_32bit v) = 4"
| "payload_size (E_string p n) = of_nat (length (varint_bytes n)) + n"
| "payload_size E_unset = 0"

lemma encode_varint_from_NULL:
  "encode_varint_from m None v len = Inr (m, len + of_nat (length (varint_bytes v)))"
proof (induction v arbitrary: len rule: varint_bytes.induct)
  case (1 v)
  show ?case
    by (cases "drop_bit 7 v = 0")
      (simp_all add: encode_varint_from.simps [of m None v] store_opt_def varint_bytes.simps [of v] 1)
qed

lemma encode_varint_from_stores:
  "encode_varint_from m (Some a) v len =
     andthen (stores m a (varint_bytes v)) (\<lambda>m. Inr (m, len + of_nat (length (varint_bytes v))))"
proof (induction v arbitrary: m a len rule: varint_bytes.induct)
  case (1 v)
  show ?case
    by (cases "drop_bit 7 v = 0")
      (simp_all add: encode_varint_from.simps [of m "Some a" v] store_opt_def varint_bytes.simps [of v]
        andthen_assoc 1 add.assoc)
qed

lemma lwpb_encode_varint_eq:
  "lwpb_encode_varint m buf v =
     andthen (store_opt m buf (varint_bytes v)) (\<lambda>m. Inr (m, of_nat (length (varint_bytes v))))"
  by (cases buf) (simp_all add: lwpb_encode_varint_def encode_varint_from_NULL encode_varint_from_stores store_opt_def)

lemma lwpb_encode_32bit_eq:
  "lwpb_encode_32bit m buf v = andthen (store_opt m buf (le_bytes 4 v)) (\<lambda>m. Inr (m, 4))"
  by (simp add: lwpb_encode_32bit_def le_bytes_def upt_rec ucast_low_32)

lemma lwpb_encode_64bit_eq:
  "lwpb_encode_64bit m buf v = andthen (store_opt m buf (le_bytes 8 v)) (\<lambda>m. Inr (m, 8))"
  by (simp add: lwpb_encode_64bit_def le_bytes_def upt_rec ucast_low_64)

lemmas encode2_prims = lwpb_encode_varint_eq lwpb_encode_32bit_eq lwpb_encode_64bit_eq

lemma store_opt_None [simp]: "store_opt m None bs = Inr m"
  by (simp add: store_opt_def)

lemma store_opt_Some [simp]: "store_opt m (Some a) bs = stores m a bs"
  by (simp add: store_opt_def)

lemma move_buf_simps [simp]: "move_buf None k = None" "move_buf (Some a) k = Some (a + unat k)"
  by (simp_all add: move_buf_def)

lemma add_field2_alt:
  "lwpb_encoder2_add_field m enc fd value buf =
     andthen (chosen_value (enc2_packed enc) fd value) (\<lambda>ev.
     andthen (if enc2_packed enc then Inr (m, 0) else lwpb_encode_varint m buf (field_key (enc_wire_type ev) (number fd))) (\<lambda>(m, len).
     andthen (encode2_wire_value fd ev m (move_buf buf len)) (\<lambda>(m, sz). Inr (m, len + sz))))"
  by (simp add: lwpb_encoder2_add_field_def chosen_value_def andthen_assoc)

definition field_size :: "bool \<Rightarrow> lwpb_field_desc \<Rightarrow> enc_value \<Rightarrow> u64" where
  "field_size packed fd ev = (if packed then 0 else of_nat (length (key_bytes ev fd))) + payload_size ev"

lemma encode2_NULL:
  assumes "chosen_value (enc2_packed enc) fd value = Inr ev" and "ev \<noteq> E_unset"
  shows "lwpb_encoder2_add_field m enc fd value None = Inr (m, field_size (enc2_packed enc) fd ev)"
  using assms
  by (cases ev) (auto simp: add_field2_alt encode2_wire_value_def encode2_prims field_size_def key_bytes_def)

lemma unat_of_nat_varint [simp]: "unat (of_nat (length (varint_bytes v)) :: u64) = length (varint_bytes v)"
  using length_varint_bytes [of v] by (simp add: unat_of_nat)

lemma encode2_wire_value_writes:
  assumes ok: "value_ok fd m a ev" and src: "source_ok a 0 ev"
    and room: "a + length (payload_bytes m ev) \<le> length m"
  shows "encode2_wire_value fd ev m (Some a) = Inr (poke m a (payload_bytes m ev), payload_size ev)"
proof (cases ev)
  case (E_string p n)
  let ?k = "varint_bytes n"
  let ?m = "poke m a ?k"
  have len: "length (peek m p (unat n)) = unat n"
    using ok E_string by (cases "unat n = 0") (auto simp: copy_ok_def)
  have k: "a + length ?k \<le> length m" and len_m: "length ?m = length m"
    using room E_string by auto
  have pk: "peek ?m p (unat n) = peek m p (unat n)"
    using src k E_string
    by (cases "unat n = 0") (auto simp: source_ok_def intro!: peek_poke_before_or_behind)
  have "copy_ok fd ?m (a + length ?k) p (unat n)"
    using ok E_string len_m by (simp add: copy_ok_def)
  then have "copy_payload fd ?m (a + length ?k) p (unat n) = Inr (poke ?m (a + length ?k) (peek m p (unat n)))"
    using room len len_m E_string by (subst copy_payload_ok) (auto simp: pk)
  moreover have "poke ?m (a + length ?k) (peek m p (unat n)) = poke m a (?k @ peek m p (unat n))"
    using room len E_string by (intro poke_poke_append) simp
  ultimately show ?thesis
    using k by (simp add: E_string encode2_wire_value_def encode2_prims stores_poke)
qed (use ok room in \<open>auto simp: encode2_wire_value_def encode2_prims stores_poke\<close>)

lemma encode2_writes:
  assumes ev: "chosen_value (enc2_packed enc) fd value = Inr ev"
    and ok: "value_ok fd m (a + (if enc2_packed enc then 0 else length (key_bytes ev fd))) ev"
    and src: "source_ok a (if enc2_packed enc then 0 else length (key_bytes ev fd)) ev"
    and room: "a + length (field_bytes (enc2_packed enc) fd m ev) \<le> length m"
  shows "lwpb_encoder2_add_field m enc fd value (Some a) =
    Inr (poke m a (field_bytes (enc2_packed enc) fd m ev), field_size (enc2_packed enc) fd ev)"
proof (cases "enc2_packed enc")
  case True
  with assms show ?thesis
    by (simp add: add_field2_alt encode2_wire_value_writes field_bytes_def field_size_def)
next
  case False
  let ?k = "key_bytes ev fd"
  let ?m = "poke m a ?k"
  have k: "a + length ?k \<le> length m" and len_m: "length ?m = length m"
    using room False by (auto simp: field_bytes_def)
  have pl: "payload_bytes ?m ev = payload_bytes m ev"
    using src False k
    by (cases ev; cases "\<exists>p n. ev = E_string p n \<and> unat n = 0")
      (auto simp: source_ok_def intro!: peek_poke_before_or_behind)
  have "value_ok fd ?m (a + length ?k) ev"
    using ok False len_m by (cases ev) (auto simp: copy_ok_def)
  moreover have "source_ok (a + length ?k) 0 ev"
    using src False by (auto simp: source_ok_def split: enc_value.splits)
  ultimately have "encode2_wire_value fd ev ?m (Some (a + length ?k)) =
      Inr (poke ?m (a + length ?k) (payload_bytes m ev), payload_size ev)"
    using encode2_wire_value_writes [of fd ?m "a + length ?k" ev] room False len_m
    by (simp add: pl field_bytes_def)
  moreover have "poke ?m (a + length ?k) (payload_bytes m ev) = poke m a (?k @ payload_bytes m ev)"
    using room False by (intro poke_poke_append) (simp add: field_bytes_def)
  ultimately show ?thesis
    using False ev k by (simp add: add_field2_alt encode2_prims stores_poke key_bytes_def field_bytes_def field_size_def)
qed

section \<open>Agreement with the first encoder\<close>

lemma prim2_agrees:
  assumes buf: "valid_buf m buf"
  shows "encode_varint m buf v = Inr (LWPB_ERR_OK, m', buf') \<Longrightarrow>
      lwpb_encode_varint m (Some (buf_pos buf)) v = Inr (m', of_nat (length (varint_bytes v))) \<and>
      buf' = advance (length (varint_bytes v)) buf \<and> valid_buf m' buf'"
    and "encode_32bit m buf w = Inr (LWPB_ERR_OK, m', buf') \<Longrightarrow>
      lwpb_encode_32bit m (Some (buf_pos buf)) w = Inr (m', 4) \<and> buf' = advance 4 buf"
    and "encode_64bit m buf v = Inr (LWPB_ERR_OK, m', buf') \<Longrightarrow>
      lwpb_encode_64bit m (Some (buf_pos buf)) v = Inr (m', 8) \<and> buf' = advance 8 buf"
proof -
  have mem: "buf_end buf \<le> length m"
    using buf by (simp add: valid_buf_def)
  show "lwpb_encode_varint m (Some (buf_pos buf)) v = Inr (m', of_nat (length (varint_bytes v))) \<and>
      buf' = advance (length (varint_bytes v)) buf \<and> valid_buf m' buf'"
    if "encode_varint m buf v = Inr (LWPB_ERR_OK, m', buf')"
    using that mem buf
    by (cases rule: varint.write_cases [OF buf, where v = v]) (auto simp: encode2_prims stores_poke valid_buf_def)
  show "lwpb_encode_32bit m (Some (buf_pos buf)) w = Inr (m', 4) \<and> buf' = advance 4 buf"
    if "encode_32bit m buf w = Inr (LWPB_ERR_OK, m', buf')"
    using that mem by (cases rule: fixed32.write_cases [OF buf, where v = w]) (auto simp: encode2_prims stores_poke)
  show "lwpb_encode_64bit m (Some (buf_pos buf)) v = Inr (m', 8) \<and> buf' = advance 8 buf"
    if "encode_64bit m buf v = Inr (LWPB_ERR_OK, m', buf')"
    using that mem by (cases rule: fixed64.write_cases [OF buf, where v = v]) (auto simp: encode2_prims stores_poke)
qed

lemma encode_wire_value_agrees:
  assumes buf: "valid_buf m buf" and enc: "encode_wire_value fd ev m buf = Inr (LWPB_ERR_OK, m', buf')"
  shows "\<exists>n. encode2_wire_value fd ev m (Some (buf_pos buf)) = Inr (m', of_nat n) \<and> buf' = advance n buf"
proof (cases ev)
  case (E_string p n)
  with enc obtain m1 buf1 where 1: "encode_varint m buf n = Inr (LWPB_ERR_OK, m1, buf1)"
    and 2: "copy_payload fd m1 (buf_pos buf1) p (unat n) = Inr m'" and 3: "buf' = advance (unat n) buf1"
    by (auto simp: encode_wire_value_def andthen_eq_Inr split: if_splits)
  from prim2_agrees(1) [OF buf 1] 2 3 show ?thesis
    by (intro exI [of _ "length (varint_bytes n) + unat n"]) (simp add: E_string encode2_wire_value_def)
qed (use enc prim2_agrees [OF buf] in \<open>auto simp: encode_wire_value_def encode2_wire_value_def
    intro: exI [of _ 4] exI [of _ 8]\<close>)

text \<open>
  C30: Whenever the first encoder encodes a field successfully into a valid buffer, the second encoder,
  called with the address of the buffer's position, writes the same bytes at the same place and
  returns the number of bytes by which the first encoder moved its position.
\<close>

theorem encoder2_agrees:
  assumes "valid_buf m buf" and "encode_field packed fd value m buf = Inr (LWPB_ERR_OK, m', buf')"
  shows "lwpb_encoder2_add_field m \<lparr>enc2_packed = packed\<rparr> fd value (Some (buf_pos buf)) =
    Inr (m', of_nat (buf_pos buf' - buf_pos buf))"
proof -
  obtain ev where ev: "chosen_value packed fd value = Inr ev"
    using assms(2) by (auto simp: encode_field_alt andthen_eq_Inr)
  show ?thesis
  proof (cases packed)
    case True
    with assms ev encode_wire_value_agrees [of m buf fd ev m' buf'] show ?thesis
      by (auto simp: add_field2_alt encode_field_alt)
  next
    case False
    let ?key = "field_key (enc_wire_type ev) (number fd)"
    obtain m1 buf1 where 1: "encode_varint m buf ?key = Inr (LWPB_ERR_OK, m1, buf1)"
      and 2: "encode_wire_value fd ev m1 buf1 = Inr (LWPB_ERR_OK, m', buf')"
      using assms(2) ev False by (auto simp: encode_field_alt andthen_eq_Inr split: if_splits)
    note key = prim2_agrees(1) [OF assms(1) 1]
    with encode_wire_value_agrees [OF _ 2] obtain n where
      "encode2_wire_value fd ev m1 (Some (buf_pos buf1)) = Inr (m', of_nat n)" and "buf' = advance n buf1"
      by auto
    with key ev False show ?thesis
      by (simp add: add_field2_alt)
  qed
qed

lemma encoder2_agrees_witness:
  "lwpb_encoder2_add_field (replicate 8 0) \<lparr>enc2_packed = False\<rparr>
      (sample_field 1 LWPB_OPTIONAL LWPB_INT32 0 None) (V_int32 300) (Some 2) =
    Inr ([0, 0, 8, 172, 2, 0, 0, 0], 3)"
proof -
  have "encode_field False (sample_field 1 LWPB_OPTIONAL LWPB_INT32 0 None) (V_int32 300)
      (replicate 8 0) \<lparr>buf_base = 2, buf_pos = 2, buf_end = 8\<rparr> =
    Inr (LWPB_ERR_OK, [0, 0, 8, 172, 2, 0, 0, 0], \<lparr>buf_base = 2, buf_pos = 5, buf_end = 8\<rparr>)"
    by code_simp
  from encoder2_agrees [OF _ this] show ?thesis
    by (simp add: valid_buf_def)
qed

lemma field_size_length:
  assumes "value_ok fd m a ev"
  shows "field_size packed fd ev = of_nat (length (field_bytes packed fd m ev))"
proof -
  have "length (peek m p (unat n)) = unat n" if "ev = E_string p n" for p n
    using assms that by (cases "unat n = 0") (auto simp: copy_ok_def)
  then show ?thesis
    using assms by (cases ev) (auto simp: field_size_def field_bytes_def)
qed

text \<open>
  The two passes of the second encoder agree. Called without a buffer, it leaves the memory alone
  and returns the number of bytes of the encoded field; called with a buffer of at least that many
  bytes, whose source is not overwritten meanwhile, it writes exactly these bytes and returns the
  same number.
\<close>

theorem encoder2_two_passes:
  fixes enc fd
  defines "packed \<equiv> enc2_packed enc"
  assumes ev: "chosen_value packed fd value = Inr ev"
    and ok: "value_ok fd m (a + (if packed then 0 else length (key_bytes ev fd))) ev"
    and src: "source_ok a (if packed then 0 else length (key_bytes ev fd)) ev"
    and room: "a + length (field_bytes packed fd m ev) \<le> length m"
  shows "lwpb_encoder2_add_field m enc fd value None = Inr (m, of_nat (length (field_bytes packed fd m ev))) \<and>
    lwpb_encoder2_add_field m enc fd value (Some a) =
      Inr (poke m a (field_bytes packed fd m ev), of_nat (length (field_bytes packed fd m ev)))"
proof -
  have "ev \<noteq> E_unset"
    using ok by auto
  with assms show ?thesis
    using encode2_NULL [of enc fd "value" ev m] encode2_writes [of enc fd "value" ev m a]
      field_size_length [OF ok, of packed]
    by simp
qed

lemma encoder2_two_passes_witness:
  "lwpb_encoder2_add_field (replicate 9 7) \<lparr>enc2_packed = False\<rparr>
      (sample_field 2 LWPB_OPTIONAL LWPB_STRING 0 None) (V_string 0 3) None = Inr (replicate 9 7, 5) \<and>
   lwpb_encoder2_add_field (replicate 9 7) \<lparr>enc2_packed = False\<rparr>
      (sample_field 2 LWPB_OPTIONAL LWPB_STRING 0 None) (V_string 0 3) (Some 3) =
    Inr ([7, 7, 7, 18, 3, 7, 7, 7, 7], 5)"
proof -
  let ?fd = "sample_field 2 LWPB_OPTIONAL LWPB_STRING 0 None" and ?m = "replicate 9 7 :: mem"
  have ev: "chosen_value False ?fd (V_string 0 3) = Inr (E_string 0 3)"
    and key: "length (key_bytes (E_string 0 3) ?fd) = 1"
    and bytes: "field_bytes False ?fd ?m (E_string 0 3) = [18, 3, 7, 7, 7]"
    and res: "poke ?m 3 [18, 3, 7, 7, 7] = [7, 7, 7, 18, 3, 7, 7, 7, 7]"
    and len: "length (varint_bytes 3) = 1"
    by code_simp+
  show ?thesis
    using encoder2_two_passes [of "\<lparr>enc2_packed = False\<rparr>" ?fd "V_string 0 3" "E_string 0 3" ?m 3]
    by (simp add: ev key bytes res len copy_ok_def source_ok_def)
qed

end
