(* ===== verification/Decoder.thy ===== *)
theory Decoder
  imports Wire
begin

text \<open>
  The streaming decoder of src/src/lwpb/core/decoder.c: an explicit stack of frames, one per message
  or packed field, and handlers that are notified of what was decoded.

  The handlers run on the state that the decoder's \<open>arg\<close> points to. Of the decoder they are
  given they read the \<open>packed\<close> flag only. The encoded data is not changed while it is decoded.
\<close>

section \<open>Handlers and the decoder\<close>

type_synonym 's msg_handler = "bool \<Rightarrow> msg_ref \<Rightarrow> 's \<Rightarrow> 's run"

type_synonym 's fld_handler =
  "bool \<Rightarrow> msg_ref option \<Rightarrow> field_ref \<Rightarrow> lwpb_value option \<Rightarrow> 's \<Rightarrow> 's run"

record lwpb_decoder_stack_frame =
  df_buf :: lwpb_buf
  df_msg_desc :: "msg_ref option"

record 's lwpb_decoder =
  dec_arg :: 's
  msg_start_handler :: "'s msg_handler option"
  msg_end_handler :: "'s msg_handler option"
  field_handler :: "'s fld_handler option"
  dec_stack :: "lwpb_decoder_stack_frame list"
  dec_depth :: int
  dec_packed :: bool

text \<open>\<open>null\<close> stands for the NULL argument.\<close>

definition lwpb_decoder_init :: "'s \<Rightarrow> 's lwpb_decoder \<Rightarrow> 's lwpb_decoder" where
  "lwpb_decoder_init null dec = dec\<lparr>dec_arg := null, msg_start_handler := None,
     msg_end_handler := None, field_handler := None\<rparr>"

definition lwpb_decoder_arg :: "'s lwpb_decoder \<Rightarrow> 's \<Rightarrow> 's lwpb_decoder" where
  "lwpb_decoder_arg dec arg = dec\<lparr>dec_arg := arg\<rparr>"

definition lwpb_decoder_msg_handler ::
    "'s lwpb_decoder \<Rightarrow> 's msg_handler option \<Rightarrow> 's msg_handler option \<Rightarrow> 's lwpb_decoder" where
  "lwpb_decoder_msg_handler dec start_handler end_handler =
     dec\<lparr>msg_start_handler := start_handler, msg_end_handler := end_handler\<rparr>"

definition lwpb_decoder_field_handler ::
    "'s lwpb_decoder \<Rightarrow> 's fld_handler option \<Rightarrow> 's lwpb_decoder" where
  "lwpb_decoder_field_handler dec handler = dec\<lparr>field_handler := handler\<rparr>"

text \<open>What a handler is notified of. A handler that is not set is not called.\<close>

datatype event =
    Msg_start bool msg_ref
  | Msg_end bool msg_ref
  | Msg_field bool "msg_ref option" field_ref "lwpb_value option"

fun handle :: "'s lwpb_decoder \<Rightarrow> event \<Rightarrow> 's \<Rightarrow> 's run" where
  "handle dec (Msg_start p msg) s = (case msg_start_handler dec of None \<Rightarrow> Inr s | Some h \<Rightarrow> h p msg s)"
| "handle dec (Msg_end p msg) s = (case msg_end_handler dec of None \<Rightarrow> Inr s | Some h \<Rightarrow> h p msg s)"
| "handle dec (Msg_field p msg fr v) s = (case field_handler dec of None \<Rightarrow> Inr s | Some h \<Rightarrow> h p msg fr v s)"

definition notify :: "event \<Rightarrow> 's lwpb_decoder \<Rightarrow> 's lwpb_decoder run" where
  "notify ev dec = andthen (handle dec ev (dec_arg dec)) (\<lambda>s. Inr (dec\<lparr>dec_arg := s\<rparr>))"

section \<open>The stack\<close>

definition dec_get :: "'s lwpb_decoder \<Rightarrow> lwpb_decoder_stack_frame run" where
  "dec_get dec = (let i = dec_depth dec - 1 in
     if 0 \<le> i \<and> i < int (length (dec_stack dec)) then Inr (dec_stack dec ! nat i) else Inl Fault)"

definition dec_put :: "lwpb_decoder_stack_frame \<Rightarrow> 's lwpb_decoder \<Rightarrow> 's lwpb_decoder run" where
  "dec_put frame dec = (let i = dec_depth dec - 1 in
     if 0 \<le> i \<and> i < int (length (dec_stack dec))
     then Inr (dec\<lparr>dec_stack := (dec_stack dec)[nat i := frame]\<rparr>) else Inl Fault)"

text \<open>push_stack_frame, and the initialisation of the new frame at its two call sites.\<close>

definition dec_push_stack_frame :: "lwpb_decoder_stack_frame \<Rightarrow> 's lwpb_decoder \<Rightarrow> 's lwpb_decoder run" where
  "dec_push_stack_frame new_frame dec =
     (let dec = dec\<lparr>dec_depth := dec_depth dec + 1\<rparr> in
      andthen (lwpb_assert (dec_depth dec \<le> int LWPB_MAX_DEPTH)) (\<lambda>_. dec_put new_frame dec))"

section \<open>Keys, wire values and values\<close>

text \<open>field_wire_type has no return statement for groups and unnamed types.\<close>

definition field_wire_type :: "lwpb_field_desc \<Rightarrow> wire_type run" where
  "field_wire_type fd = (case opt_typ (opts fd) of
       LWPB_DOUBLE \<Rightarrow> Inr WT_64BIT
     | LWPB_FLOAT \<Rightarrow> Inr WT_32BIT
     | LWPB_INT32 \<Rightarrow> Inr WT_VARINT
     | LWPB_INT64 \<Rightarrow> Inr WT_VARINT
     | LWPB_UINT32 \<Rightarrow> Inr WT_VARINT
     | LWPB_UINT64 \<Rightarrow> Inr WT_VARINT
     | LWPB_SINT32 \<Rightarrow> Inr WT_VARINT
     | LWPB_SINT64 \<Rightarrow> Inr WT_VARINT
     | LWPB_FIXED32 \<Rightarrow> Inr WT_32BIT
     | LWPB_FIXED64 \<Rightarrow> Inr WT_64BIT
     | LWPB_SFIXED32 \<Rightarrow> Inr WT_32BIT
     | LWPB_SFIXED64 \<Rightarrow> Inr WT_64BIT
     | LWPB_BOOL \<Rightarrow> Inr WT_VARINT
     | LWPB_ENUM \<Rightarrow> Inr WT_VARINT
     | LWPB_STRING \<Rightarrow> Inr WT_STRING
     | LWPB_BYTES \<Rightarrow> Inr WT_STRING
     | LWPB_MESSAGE \<Rightarrow> Inr WT_STRING
     | _ \<Rightarrow> Inl Undef)"

text \<open>The search for a field number; without a match the field descriptor keeps its old value.\<close>

fun find_number :: "u32 \<Rightarrow> nat \<Rightarrow> lwpb_field_desc list \<Rightarrow> nat option" where
  "find_number n i [] = None"
| "find_number n i (fd # fds) = (if number fd = n then Some i else find_number n (Suc i) fds)"

definition find_field ::
    "descs \<Rightarrow> msg_ref option \<Rightarrow> u32 \<Rightarrow> field_ref option \<Rightarrow> field_ref option run" where
  "find_field ds msg n field_desc = andthen (deref_msg ds msg) (\<lambda>md.
     case find_number n 0 (msg_fields md) of
       None \<Rightarrow> Inr field_desc
     | Some j \<Rightarrow> Inr (Some (the msg, j)))"

text \<open>
  The wire type and the field of what comes next: of the packed field in packed mode, otherwise from a
  key that is decoded. An error code other than LWPB_ERR_OK ends the decoding.
\<close>

definition decode_key ::
    "descs \<Rightarrow> mem \<Rightarrow> bool \<Rightarrow> lwpb_decoder_stack_frame \<Rightarrow> field_ref option \<Rightarrow>
     (lwpb_err_t \<times> lwpb_buf \<times> wire_type \<times> field_ref option) run" where
  "decode_key ds m packed frame field_desc =
     (if packed then
        andthen (deref_field ds field_desc) (\<lambda>fd.
        andthen (field_wire_type fd) (\<lambda>wt. Inr (LWPB_ERR_OK, df_buf frame, wt, field_desc)))
      else
        andthen (lwpb_decode_varint m (df_buf frame)) (\<lambda>(ret, buf, key).
          if ret \<noteq> LWPB_ERR_OK then Inr (ret, buf, WT_VARINT, field_desc)
          else andthen (find_field ds (df_msg_desc frame) (ucast (drop_bit 3 key)) field_desc) (\<lambda>fr.
            Inr (LWPB_ERR_OK, buf, wire_type_of (key AND 0x07), fr))))"

text \<open>The wire value; an unknown wire type leaves it as it was.\<close>

definition decode_wire_value ::
    "mem \<Rightarrow> wire_type \<Rightarrow> lwpb_buf \<Rightarrow> wire_value \<Rightarrow> (lwpb_err_t \<times> lwpb_buf \<times> wire_value) run" where
  "decode_wire_value m wt buf wv = (case wt of
       WT_VARINT \<Rightarrow> andthen (lwpb_decode_varint m buf) (\<lambda>(ret, buf, v).
         Inr (ret, buf, wv\<lparr>wv_word := v\<rparr>))
     | WT_64BIT \<Rightarrow> andthen (lwpb_decode_64bit m buf) (\<lambda>(ret, buf, v).
         Inr (ret, buf, case v of None \<Rightarrow> wv | Some v \<Rightarrow> wv\<lparr>wv_word := v\<rparr>))
     | WT_STRING \<Rightarrow> andthen (lwpb_decode_varint m buf) (\<lambda>(ret, buf, len).
         let wv = wv\<lparr>wv_word := len\<rparr> in
         if ret \<noteq> LWPB_ERR_OK then Inr (ret, buf, wv)
         else if lwpb_buf_left buf < len then Inr (LWPB_ERR_END_OF_BUF, buf, wv)
         else Inr (LWPB_ERR_OK, advance (unat len) buf, wv\<lparr>wv_data := buf_pos buf\<rparr>))
     | WT_32BIT \<Rightarrow> andthen (lwpb_decode_32bit m buf) (\<lambda>(ret, buf, v).
         Inr (ret, buf, case v of None \<Rightarrow> wv | Some v \<Rightarrow> set_wv_int32 v wv))
     | WT_OTHER _ \<Rightarrow> Inr (LWPB_ERR_OK, buf, wv))"

text \<open>\<open>(x >> 1) ^ -(x & 1)\<close>, the sign in 32 or 64 bits and the rest in 64.\<close>

definition unzigzag32 :: "u64 \<Rightarrow> s32" where
  "unzigzag32 v = ucast (drop_bit 1 v XOR scast (- (ucast (v AND 1) :: s32)))"

definition unzigzag64 :: "u64 \<Rightarrow> s64" where
  "unzigzag64 v = drop_bit 1 v XOR - (v AND 1)"

text \<open>The value that is handed to the field handler; none for messages, groups and unnamed types.\<close>

definition value_of_wire :: "field_typ \<Rightarrow> wire_value \<Rightarrow> lwpb_value option" where
  "value_of_wire t wv = (case t of
       LWPB_DOUBLE \<Rightarrow> Some (V_double (wv_word wv))
     | LWPB_FLOAT \<Rightarrow> Some (V_float (wv_int32 wv))
     | LWPB_INT32 \<Rightarrow> Some (V_int32 (ucast (wv_word wv)))
     | LWPB_INT64 \<Rightarrow> Some (V_int64 (wv_word wv))
     | LWPB_UINT32 \<Rightarrow> Some (V_uint32 (ucast (wv_word wv)))
     | LWPB_UINT64 \<Rightarrow> Some (V_uint64 (wv_word wv))
     | LWPB_SINT32 \<Rightarrow> Some (V_int32 (unzigzag32 (wv_word wv)))
     | LWPB_SINT64 \<Rightarrow> Some (V_int64 (unzigzag64 (wv_word wv)))
     | LWPB_FIXED32 \<Rightarrow> Some (V_uint32 (wv_int32 wv))
     | LWPB_FIXED64 \<Rightarrow> Some (V_uint64 (wv_word wv))
     | LWPB_SFIXED32 \<Rightarrow> Some (V_int32 (wv_int32 wv))
     | LWPB_SFIXED64 \<Rightarrow> Some (V_int64 (wv_word wv))
     | LWPB_BOOL \<Rightarrow> Some (V_bool (ucast (wv_word wv)))
     | LWPB_ENUM \<Rightarrow> Some (V_enum (ucast (wv_word wv)))
     | LWPB_STRING \<Rightarrow> Some (V_string (wv_data wv) (wv_word wv))
     | LWPB_BYTES \<Rightarrow> Some (V_bytes (wv_data wv) (wv_word wv))
     | _ \<Rightarrow> None)"

section \<open>The decoding loop\<close>

text \<open>
  The control points of lwpb_decoder_decode: \<open>Enter\<close> is the label decode_nested, \<open>Inner\<close> the
  test of the inner loop. The local variables are the field descriptor and the wire value.
\<close>

datatype pc = Enter | Inner

type_synonym 's dec_state = "pc \<times> 's lwpb_decoder \<times> field_ref option \<times> wire_value"

datatype 's outcome = Goto "'s dec_state" | Return lwpb_err_t "'s lwpb_decoder"

definition new_frame :: "msg_ref option \<Rightarrow> wire_value \<Rightarrow> lwpb_decoder_stack_frame" where
  "new_frame msg wv = \<lparr>df_buf = lwpb_buf_init (wv_data wv) (wv_word wv), df_msg_desc = msg\<rparr>"

text \<open>From the decoded wire value to the end of the body of the inner loop.\<close>

definition dispatch ::
    "descs \<Rightarrow> msg_ref option \<Rightarrow> lwpb_decoder_stack_frame \<Rightarrow> wire_type \<Rightarrow> field_ref option \<Rightarrow> wire_value \<Rightarrow>
     's lwpb_decoder \<Rightarrow> 's outcome run" where
  "dispatch ds root frame wt field_desc wv dec = (case field_desc of
       None \<Rightarrow> Inr (Goto (Inner, dec, field_desc, wv))
     | Some fr \<Rightarrow> andthen (deref_field ds field_desc) (\<lambda>fd.
         if wt = WT_STRING \<and> is_packed_repeated fd then
           andthen (dec_push_stack_frame (new_frame (df_msg_desc frame) wv) dec) (\<lambda>dec.
             Inr (Goto (Enter, dec\<lparr>dec_packed := True\<rparr>, field_desc, wv)))
         else (case value_of_wire (opt_typ (opts fd)) wv of
             Some v \<Rightarrow> andthen (notify (Msg_field (dec_packed dec) (df_msg_desc frame) fr (Some v)) dec) (\<lambda>dec.
               Inr (Goto (Inner, dec, field_desc, wv)))
           | None \<Rightarrow> andthen (notify (Msg_field (dec_packed dec) root fr None) dec) (\<lambda>dec.
               andthen (dec_push_stack_frame (new_frame (fd_msg_desc fd) wv) dec) (\<lambda>dec.
                 Inr (Goto (Enter, dec, field_desc, wv)))))))"

text \<open>One pass of the inner loop.\<close>

definition dec_body ::
    "descs \<Rightarrow> mem \<Rightarrow> msg_ref option \<Rightarrow> lwpb_decoder_stack_frame \<Rightarrow> 's lwpb_decoder \<Rightarrow>
     field_ref option \<Rightarrow> wire_value \<Rightarrow> 's outcome run" where
  "dec_body ds m root frame dec field_desc wv =
     andthen (decode_key ds m (dec_packed dec) frame field_desc) (\<lambda>(ret, buf, wt, field_desc).
       if ret \<noteq> LWPB_ERR_OK
       then andthen (dec_put (frame\<lparr>df_buf := buf\<rparr>) dec) (\<lambda>dec. Inr (Return ret dec))
       else andthen (decode_wire_value m wt buf wv) (\<lambda>(ret, buf, wv).
         andthen (dec_put (frame\<lparr>df_buf := buf\<rparr>) dec) (\<lambda>dec.
           if ret \<noteq> LWPB_ERR_OK then Inr (Return ret dec)
           else dispatch ds root (frame\<lparr>df_buf := buf\<rparr>) wt field_desc wv dec)))"

text \<open>After the inner loop: notify the end of the message and pop the stack.\<close>

definition dec_leave ::
    "lwpb_decoder_stack_frame \<Rightarrow> 's lwpb_decoder \<Rightarrow> field_ref option \<Rightarrow> wire_value \<Rightarrow> 's outcome run" where
  "dec_leave frame dec field_desc wv =
     andthen (case df_msg_desc frame of None \<Rightarrow> Inr dec
       | Some msg \<Rightarrow> notify (Msg_end (dec_packed dec) msg) dec) (\<lambda>dec.
       let dec = dec\<lparr>dec_depth := dec_depth dec - 1, dec_packed := False\<rparr> in
       if 1 \<le> dec_depth dec then Inr (Goto (Enter, dec, field_desc, wv))
       else Inr (Return LWPB_ERR_OK dec))"

definition dec_step :: "descs \<Rightarrow> mem \<Rightarrow> msg_ref option \<Rightarrow> 's dec_state \<Rightarrow> 's outcome run" where
  "dec_step ds m root st = (case st of (pc, dec, field_desc, wv) \<Rightarrow>
     andthen (dec_get dec) (\<lambda>frame. case pc of
         Enter \<Rightarrow> andthen (case df_msg_desc frame of None \<Rightarrow> Inr dec
             | Some msg \<Rightarrow> if lwpb_buf_used (df_buf frame) = 0
                 then notify (Msg_start (dec_packed dec) msg) dec else Inr dec) (\<lambda>dec.
             Inr (Goto (Inner, dec, field_desc, wv)))
       | Inner \<Rightarrow> if 0 < lwpb_buf_left (df_buf frame) then dec_body ds m root frame dec field_desc wv
                 else dec_leave frame dec field_desc wv))"

section \<open>The loop ends\<close>

text \<open>
  Each slot of the stack counts the bytes of the memory behind its position, plus one while the slot is
  in use. A pass of the inner loop moves the top position forward before it pushes, and leaving a frame
  empties its slot, so that the slots decrease lexicographically from the bottom.
\<close>

definition slots :: "mem \<Rightarrow> 's lwpb_decoder \<Rightarrow> nat list" where
  "slots m dec = map (\<lambda>i. if int i < dec_depth dec
     then Suc (length m - buf_pos (df_buf (dec_stack dec ! i))) else 0) [0..<length (dec_stack dec)]"

fun pc_rank :: "pc \<Rightarrow> nat" where
  "pc_rank Enter = 1"
| "pc_rank Inner = 0"

definition dec_order :: "mem \<Rightarrow> ('s dec_state \<times> 's dec_state) set" where
  "dec_order m = inv_image (lenlex less_than <*lex*> less_than)
     (\<lambda>(pc, dec, field_desc, wv). (slots m dec, pc_rank pc))"

lemma wf_dec_order: "wf (dec_order m)"
  unfolding dec_order_def by (intro wf_inv_image wf_lex_prod wf_lenlex wf_less_than)

lemma lenlex_nthI:
  assumes "length ys = length xs" and "k < length xs" and "\<And>i. i < k \<Longrightarrow> ys ! i = xs ! i"
    and "ys ! k < xs ! k"
  shows "(ys, xs) \<in> lenlex less_than"
proof -
  have "take k ys = take k xs"
    using assms(1-3) by (intro nth_equalityI) auto
  then have "ys = take k xs @ ys ! k # drop (Suc k) ys" and "xs = take k xs @ xs ! k # drop (Suc k) xs"
    using assms(1,2) by (auto simp: id_take_nth_drop [symmetric]) (metis id_take_nth_drop)
  with assms(1,4) have "(ys, xs) \<in> lex less_than"
    by (simp only: lex_conv) blast
  with assms(1) show ?thesis
    by (simp add: lenlex_conv)
qed

lemma notify_Inr: "notify ev dec = Inr dec' \<Longrightarrow> \<exists>s. dec' = dec\<lparr>dec_arg := s\<rparr>"
  by (auto simp: notify_def andthen_eq_Inr)

lemma slots_arg [simp]: "slots m (dec\<lparr>dec_arg := s\<rparr>) = slots m dec"
  by (simp add: slots_def)

lemma slots_packed [simp]: "slots m (dec\<lparr>dec_packed := p\<rparr>) = slots m dec"
  by (simp add: slots_def)

lemma decode_wire_value_progress:
  assumes "decode_wire_value m wt buf wv = Inr (LWPB_ERR_OK, buf', wv')"
  shows "(buf_pos buf < length m \<and> buf_pos buf < buf_pos buf') \<or> (buf' = buf \<and> (\<exists>k. wt = WT_OTHER k))"
  using assms
  by (auto simp: decode_wire_value_def andthen_eq_Inr Let_def split: wire_type.splits if_splits
      dest!: lwpb_decode_varint_progress lwpb_decode_32bit_progress lwpb_decode_64bit_progress)

lemma field_wire_type_known: "field_wire_type fd \<noteq> Inr (WT_OTHER k)"
  by (cases "opt_typ (opts fd)") (auto simp: field_wire_type_def)

lemma decode_key_progress:
  assumes "decode_key ds m packed frame fr = Inr (LWPB_ERR_OK, buf', wt, fr')"
  shows "(buf_pos (df_buf frame) < length m \<and> buf_pos (df_buf frame) < buf_pos buf') \<or>
    (buf' = df_buf frame \<and> (\<forall>k. wt \<noteq> WT_OTHER k))"
  using assms
  by (auto simp: decode_key_def andthen_eq_Inr field_wire_type_known split: if_splits
      dest!: lwpb_decode_varint_progress)

lemma body_progress:
  assumes "decode_key ds m packed frame fr = Inr (LWPB_ERR_OK, buf1, wt, fr')"
    and "decode_wire_value m wt buf1 wv = Inr (LWPB_ERR_OK, buf2, wv')"
  shows "buf_pos (df_buf frame) < length m \<and> buf_pos (df_buf frame) < buf_pos buf2"
  using decode_key_progress [OF assms(1)] decode_wire_value_progress [OF assms(2)] by auto

text \<open>What a pass may have done to the stack: the top frame replaced, and perhaps a frame pushed.\<close>

lemma dispatch_Goto:
  assumes "dispatch ds root frame wt fr wv dec = Inr (Goto (pc', dec', fr', wv'))"
  shows "length (dec_stack dec') = length (dec_stack dec) \<and> dec_depth dec \<le> dec_depth dec' \<and>
    (\<forall>i. int i < dec_depth dec \<longrightarrow> dec_stack dec' ! i = dec_stack dec ! i)"
  using assms
  by (auto simp: dispatch_def andthen_eq_Inr dec_push_stack_frame_def dec_put_def Let_def
      split: option.splits if_splits dest!: notify_Inr) 

lemma dec_body_decreases:
  assumes get: "dec_get dec = Inr frame"
    and body: "dec_body ds m root frame dec fr wv = Inr (Goto (pc', dec', fr', wv'))"
  shows "(slots m dec', slots m dec) \<in> lenlex less_than"
proof -
  let ?i = "nat (dec_depth dec - 1)"
  have i: "0 < dec_depth dec" "?i < length (dec_stack dec)" and frame: "frame = dec_stack dec ! ?i"
    using get by (auto simp: dec_get_def Let_def split: if_splits)
  obtain buf1 wt fr1 buf2 wv2 where key: "decode_key ds m (dec_packed dec) frame fr = Inr (LWPB_ERR_OK, buf1, wt, fr1)"
    and wire: "decode_wire_value m wt buf1 wv = Inr (LWPB_ERR_OK, buf2, wv2)"
    and disp: "dispatch ds root (frame\<lparr>df_buf := buf2\<rparr>) wt fr1 wv2
      (dec\<lparr>dec_stack := (dec_stack dec)[?i := frame\<lparr>df_buf := buf2\<rparr>]\<rparr>) = Inr (Goto (pc', dec', fr', wv'))"
    using body by (auto simp: dec_body_def andthen_eq_Inr dec_put_def Let_def split: if_splits)
  note prog = body_progress [OF key wire] and top = dispatch_Goto [OF disp, simplified]
  have stack: "dec_stack dec' ! j = (if j = ?i then frame\<lparr>df_buf := buf2\<rparr> else dec_stack dec ! j)"
    if "int j < dec_depth dec" for j
    using that top i by auto
  show ?thesis
  proof (rule lenlex_nthI [where k = ?i])
    show "length (slots m dec') = length (slots m dec)" and "?i < length (slots m dec)"
      using top i by (auto simp: slots_def)
    show "slots m dec' ! j = slots m dec ! j" if "j < ?i" for j
    proof -
      have "int j < dec_depth dec"
        using that by linarith
      with that i top stack [of j] show ?thesis by (simp add: slots_def)
    qed
    show "slots m dec' ! ?i < slots m dec ! ?i"
      using i top stack [of ?i] prog frame by (simp add: slots_def diff_less_mono2)
  qed
qed

lemma dec_leave_decreases:
  assumes get: "dec_get dec = Inr frame"
    and leave: "dec_leave frame dec fr wv = Inr (Goto (pc', dec', fr', wv'))"
  shows "(slots m dec', slots m dec) \<in> lenlex less_than"
proof -
  let ?i = "nat (dec_depth dec - 1)"
  have i: "0 < dec_depth dec" "?i < length (dec_stack dec)"
    using get by (auto simp: dec_get_def Let_def split: if_splits)
  have dec': "dec_stack dec' = dec_stack dec" "dec_depth dec' = dec_depth dec - 1"
    using leave by (auto simp: dec_leave_def andthen_eq_Inr Let_def split: option.splits if_splits dest!: notify_Inr)
  show ?thesis
  proof (rule lenlex_nthI [where k = ?i])
    show "length (slots m dec') = length (slots m dec)" and "?i < length (slots m dec)"
      using dec' i by (auto simp: slots_def)
    show "slots m dec' ! j = slots m dec ! j" if "j < ?i" for j
    proof -
      have "int j < dec_depth dec - 1"
        using that by linarith
      with that i dec' show ?thesis by (simp add: slots_def)
    qed
    show "slots m dec' ! ?i < slots m dec ! ?i"
      using i dec' by (simp add: slots_def)
  qed
qed

lemma dec_step_decreases:
  assumes "dec_step ds m root st = Inr (Goto st')"
  shows "(st', st) \<in> dec_order m"
proof -
  obtain pc dec fr wv where st: "st = (pc, dec, fr, wv)" by (cases st)
  obtain pc' dec' fr' wv' where st': "st' = (pc', dec', fr', wv')" by (cases st')
  obtain frame where get: "dec_get dec = Inr frame"
    using assms by (auto simp: dec_step_def st andthen_eq_Inr)
  show ?thesis
  proof (cases pc)
    case Enter
    with assms get show ?thesis
      by (auto simp: dec_step_def st st' andthen_eq_Inr dec_order_def
          split: option.splits if_splits dest!: notify_Inr)
  next
    case Inner
    have "(slots m dec', slots m dec) \<in> lenlex less_than"
    proof (cases "0 < lwpb_buf_left (df_buf frame)")
      case True
      with assms Inner get show ?thesis
        by (intro dec_body_decreases [OF get, of ds m root fr wv pc' dec' fr' wv'])
          (simp add: dec_step_def st st')
    next
      case False
      with assms Inner get show ?thesis
        by (intro dec_leave_decreases [OF get, of fr wv pc' dec' fr' wv'])
          (simp add: dec_step_def st st')
    qed
    then show ?thesis by (simp add: dec_order_def st st')
  qed
qed

section \<open>Decoding\<close>

function decode_run ::
    "descs \<Rightarrow> mem \<Rightarrow> msg_ref option \<Rightarrow> 's dec_state \<Rightarrow> (lwpb_err_t \<times> 's lwpb_decoder) run" where
  "decode_run ds m root st = andthen (dec_step ds m root st) (\<lambda>r. case r of
       Goto st' \<Rightarrow> decode_run ds m root st'
     | Return ret dec \<Rightarrow> Inr (ret, dec))"
  by pat_completeness auto
termination
proof (relation "same_fst (\<lambda>_. True) (\<lambda>ds. same_fst (\<lambda>_. True) (\<lambda>m. same_fst (\<lambda>_. True) (\<lambda>root. dec_order m)))")
  show "wf (same_fst (\<lambda>_. True) (\<lambda>ds::descs. same_fst (\<lambda>_. True) (\<lambda>m. same_fst (\<lambda>_. True)
      (\<lambda>root::msg_ref option. dec_order m))))"
    by (intro wf_same_fst wf_dec_order)
qed (auto simp: same_fst_def dec_step_decreases)

declare decode_run.simps [simp del]

text \<open>
  lwpb_decoder_decode. \<open>wv\<close> is the indeterminate initial content of the local wire value. The last
  component is the value stored through \<open>used\<close>, which is only written on success.
\<close>

definition lwpb_decoder_decode ::
    "descs \<Rightarrow> mem \<Rightarrow> wire_value \<Rightarrow> 's lwpb_decoder \<Rightarrow> msg_ref option \<Rightarrow> addr \<Rightarrow> u64 \<Rightarrow>
     (lwpb_err_t \<times> 's lwpb_decoder \<times> u64 option) run" where
  "lwpb_decoder_decode ds m wv dec msg_desc data len =
     andthen (dec_put \<lparr>df_buf = lwpb_buf_init data len, df_msg_desc = msg_desc\<rparr>
       (dec\<lparr>dec_depth := 1, dec_packed := False\<rparr>)) (\<lambda>dec.
     andthen (decode_run ds m msg_desc (Enter, dec, None, wv)) (\<lambda>(ret, dec).
       if ret \<noteq> LWPB_ERR_OK then Inr (ret, dec, None)
       else Inr (LWPB_ERR_OK, dec, Some (lwpb_buf_used (df_buf (dec_stack dec ! 0))))))"

section \<open>Properties\<close>

text \<open>
  C29: The decoding loop ends on every input, whatever the bytes, the descriptors and the handlers are:
  each step that goes on goes to a smaller state of a well-founded order.
\<close>

theorem decoder_terminates:
  "wf (dec_order m) \<and> (\<forall>st st'. dec_step ds m root st = Inr (Goto st') \<longrightarrow> (st', st) \<in> dec_order m)"
  using wf_dec_order dec_step_decreases by blast

lemma decoder_terminates_witness:
  "(let dec = \<lparr>dec_arg = (), msg_start_handler = None, msg_end_handler = None, field_handler = None,
        dec_stack = [\<lparr>df_buf = lwpb_buf_init 0 2, df_msg_desc = Some 0\<rparr>], dec_depth = 1, dec_packed = False\<rparr> in
    ((Inner, dec, None, \<lparr>wv_word = 0, wv_data = 0\<rparr>), (Enter, dec, None, \<lparr>wv_word = 0, wv_data = 0\<rparr>)) \<in> dec_order [8, 1])"
proof -
  let ?dec = "\<lparr>dec_arg = (), msg_start_handler = None, msg_end_handler = None, field_handler = None,
    dec_stack = [\<lparr>df_buf = lwpb_buf_init 0 2, df_msg_desc = Some 0\<rparr>], dec_depth = 1, dec_packed = False\<rparr>"
  have "dec_step [] [8, 1] None (Enter, ?dec, None, \<lparr>wv_word = 0, wv_data = 0\<rparr>) = Inr (Goto (Inner, ?dec, None, \<lparr>wv_word = 0, wv_data = 0\<rparr>))"
    by (simp add: dec_step_def dec_get_def lwpb_buf_used_def size_of_int_def notify_def)
  from decoder_terminates [THEN conjunct2, rule_format, OF this] show ?thesis
    by (simp add: Let_def)
qed

end
