(* ===== verification/Values.thy ===== *)
theory Values
  imports Encoder_Refine Decoder Sample
begin

text \<open>
  Keys and scalar values: what the encoder makes of them and what the decoder makes of that. The
  decoder gets back the field number, the wire type and, for every scalar type, the value.
\<close>

section \<open>Zig-zag encoding\<close>

lemma sign_fill: "signed_drop_bit (LENGTH('a) - 1) (x::'a::len word) = (if bit x (LENGTH('a) - 1) then - 1 else 0)"
proof (rule bit_word_eqI)
  fix n
  assume n: "n < LENGTH('a)"
  then have "(if LENGTH('a) - (LENGTH('a) - 1) \<le> n \<and> n < LENGTH('a) then LENGTH('a) - 1
      else LENGTH('a) - 1 + n) = LENGTH('a) - 1"
    by auto
  with n show "bit (signed_drop_bit (LENGTH('a) - 1) x) n \<longleftrightarrow>
      bit (if bit x (LENGTH('a) - 1) then - 1 else (0::'a word)) n"
    by (subst bit_signed_drop_bit_iff) (simp only: if_distrib [of "\<lambda>w. bit w n"] bit_minus_1_iff possible_bit_word bit_0_eq, simp)
qed

lemma low_bit: "v AND 1 = (if bit v 0 then 1 else (0::'a::len word))"
proof (rule bit_word_eqI)
  fix n
  show "bit (v AND 1) n = bit (if bit v 0 then 1 else (0::'a word)) n"
    by (cases "n = 0") (auto simp: bit_simps)
qed

lemma zigzag64_sign: "zigzag64 x = push_bit 1 x XOR (if bit x 63 then - 1 else 0)"
  using sign_fill [of x] by (simp add: zigzag64_def)

lemma zigzag32_sign: "zigzag32 x = push_bit 1 x XOR (if bit x 31 then - 1 else 0)"
  using sign_fill [of x] by (simp add: zigzag32_def)

lemma unzigzag64_zigzag64: "unzigzag64 (zigzag64 x) = x"
proof -
  have low: "bit (zigzag64 x) 0 \<longleftrightarrow> bit x 63"
    by (simp add: zigzag64_sign bit_simps bit_0)
  show ?thesis
  proof (rule bit_word_eqI)
    fix n
    assume n: "n < LENGTH(64)"
    show "bit (unzigzag64 (zigzag64 x)) n \<longleftrightarrow> bit x n"
    proof (cases "n = 63")
      case True
      moreover have "\<not> bit (zigzag64 x) 64"
        by (auto dest: bit_imp_le_length)
      ultimately show ?thesis
        using low by (simp add: unzigzag64_def low_bit bit_simps)
    next
      case False
      with low n show ?thesis
        by (simp add: unzigzag64_def low_bit bit_simps) (simp add: zigzag64_sign bit_simps mult.commute [of x] bit_double_iff)
    qed
  qed
qed

lemma unzigzag32_zigzag32: "unzigzag32 (ucast (zigzag32 x)) = x"
proof -
  have low: "bit (zigzag32 x) 0 \<longleftrightarrow> bit x 31"
    by (simp add: zigzag32_sign bit_simps bit_0)
  show ?thesis
  proof (rule bit_word_eqI)
    fix n
    assume n: "n < LENGTH(32)"
    show "bit (unzigzag32 (ucast (zigzag32 x))) n \<longleftrightarrow> bit x n"
    proof (cases "n = 31")
      case True
      moreover have "\<not> bit (zigzag32 x) 32"
        by (auto dest: bit_imp_le_length)
      ultimately show ?thesis
        using low by (simp add: unzigzag32_def low_bit bit_simps)
    next
      case False
      with low n show ?thesis
        by (simp add: unzigzag32_def low_bit bit_simps) (simp add: zigzag32_sign bit_simps mult.commute [of x] bit_double_iff)
    qed
  qed
qed

section \<open>Keys\<close>

text \<open>The wire types that have a name.\<close>

definition known :: "wire_type \<Rightarrow> bool" where
  "known wt \<longleftrightarrow> (\<forall>k. wt \<noteq> WT_OTHER k)"

lemma bit_small:
  fixes n :: u32
  assumes "n < 2 ^ 29" and "bit n k"
  shows "k < 29"
proof -
  have "unat n < 2 ^ 29"
    using assms(1) by (simp add: word_less_nat_alt)
  then have "take_bit 29 n = n"
    by (simp add: word_unat_eq_iff unsigned_take_bit_eq take_bit_nat_eq_self_iff)
  with assms(2) show ?thesis
    by (metis bit_take_bit_iff)
qed

lemma wire_code_bits: "known wt \<Longrightarrow> bit (wire_type_code wt) k \<Longrightarrow> k < 3"
proof -
  assume "known wt" and b: "bit (wire_type_code wt) k"
  then have "take_bit 3 (wire_type_code wt) = wire_type_code wt"
    by (cases wt) (simp_all add: known_def)
  with b show ?thesis by (metis bit_take_bit_iff)
qed

lemma key_number:
  assumes "n < 2 ^ 29" and "known wt"
  shows "ucast (drop_bit 3 (field_key wt n)) = (n :: u32)"
proof (rule bit_word_eqI)
  fix k
  assume k: "k < LENGTH(32)"
  show "bit (ucast (drop_bit 3 (field_key wt n)) :: u32) k = bit n k"
    using k bit_small [OF assms(1), of k] wire_code_bits [OF assms(2), of "3 + k"]
    by (auto simp: field_key_def bit_simps)
qed

lemma key_wire_type:
  assumes "known wt"
  shows "wire_type_of (field_key wt n AND 7) = wt"
proof -
  have "field_key wt n AND 7 = ucast (wire_type_code wt)"
  proof (rule bit_word_eqI)
    fix k
    assume "k < LENGTH(64)"
    have seven: "(7::u64) = mask 3" by (simp add: mask_numeral)
    show "bit (field_key wt n AND 7) k = bit (ucast (wire_type_code wt) :: u64) k"
      unfolding seven using wire_code_bits [OF assms, of k] by (auto simp: field_key_def bit_simps)
  qed
  with assms show ?thesis
    by (cases wt) (simp_all add: wire_type_of_def known_def)
qed

section \<open>Scalar values\<close>

lemma ucast_scast_32: "ucast (scast (x::u32) :: u64) = x"
  by (rule bit_word_eqI) (auto simp: bit_simps)

lemma ucast_ucast_32: "ucast (ucast (x::u32) :: u64) = x"
  by (rule bit_word_eqI) (auto simp: bit_simps)

text \<open>The values of the scalar types, by the union member that the typed entry points write.\<close>

definition scalar_ok :: "field_typ \<Rightarrow> lwpb_value \<Rightarrow> bool" where
  "scalar_ok t v = (case t of
       LWPB_DOUBLE \<Rightarrow> (case v of V_double _ \<Rightarrow> True | _ \<Rightarrow> False)
     | LWPB_FLOAT \<Rightarrow> (case v of V_float _ \<Rightarrow> True | _ \<Rightarrow> False)
     | LWPB_INT32 \<Rightarrow> (case v of V_int32 _ \<Rightarrow> True | _ \<Rightarrow> False)
     | LWPB_INT64 \<Rightarrow> (case v of V_int64 _ \<Rightarrow> True | _ \<Rightarrow> False)
     | LWPB_UINT32 \<Rightarrow> (case v of V_uint32 _ \<Rightarrow> True | _ \<Rightarrow> False)
     | LWPB_UINT64 \<Rightarrow> (case v of V_uint64 _ \<Rightarrow> True | _ \<Rightarrow> False)
     | LWPB_SINT32 \<Rightarrow> (case v of V_int32 _ \<Rightarrow> True | _ \<Rightarrow> False)
     | LWPB_SINT64 \<Rightarrow> (case v of V_int64 _ \<Rightarrow> True | _ \<Rightarrow> False)
     | LWPB_FIXED32 \<Rightarrow> (case v of V_uint32 _ \<Rightarrow> True | _ \<Rightarrow> False)
     | LWPB_FIXED64 \<Rightarrow> (case v of V_uint64 _ \<Rightarrow> True | _ \<Rightarrow> False)
     | LWPB_SFIXED32 \<Rightarrow> (case v of V_int32 _ \<Rightarrow> True | _ \<Rightarrow> False)
     | LWPB_SFIXED64 \<Rightarrow> (case v of V_int64 _ \<Rightarrow> True | _ \<Rightarrow> False)
     | LWPB_BOOL \<Rightarrow> (case v of V_bool _ \<Rightarrow> True | _ \<Rightarrow> False)
     | LWPB_ENUM \<Rightarrow> (case v of V_enum _ \<Rightarrow> True | _ \<Rightarrow> False)
     | _ \<Rightarrow> False)"

definition scalar_wire :: "field_typ \<Rightarrow> lwpb_value \<Rightarrow> enc_value" where
  "scalar_wire t v = (case wire_of_value t v of Inr ev \<Rightarrow> ev | Inl _ \<Rightarrow> E_unset)"

fun scalar_ev :: "enc_value \<Rightarrow> bool" where
  "scalar_ev (E_string _ _) = False"
| "scalar_ev E_unset = False"
| "scalar_ev _ = True"

text \<open>A decoded wire value that is an encoded one.\<close>

fun carries :: "wire_value \<Rightarrow> enc_value \<Rightarrow> bool" where
  "carries wv (E_varint v) \<longleftrightarrow> wv_word wv = v"
| "carries wv (E_64bit v) \<longleftrightarrow> wv_word wv = v"
| "carries wv (E_32bit v) \<longleftrightarrow> wv_int32 wv = v"
| "carries wv (E_string p n) \<longleftrightarrow> wv_word wv = n \<and> wv_data wv = p"
| "carries wv E_unset \<longleftrightarrow> False"

lemma scalar_cases:
  assumes "scalar_ok t v"
  shows "wire_of_value t v = Inr (scalar_wire t v)" and "scalar_ev (scalar_wire t v)"
    and "t \<noteq> LWPB_MESSAGE"
    and "opt_typ (opts fd) = t \<Longrightarrow> field_wire_type fd = Inr (enc_wire_type (scalar_wire t v))"
    and "carries wv (scalar_wire t v) \<Longrightarrow> value_of_wire t wv = Some v"
  using assms
  by (cases t; cases v; simp add: scalar_ok_def scalar_wire_def wire_of_value_def field_wire_type_def value_of_wire_def
      ucast_scast_32 ucast_ucast_32 unzigzag32_zigzag32 unzigzag64_zigzag64)+

lemma scalar_ev_known [simp]: "scalar_ev ev \<Longrightarrow> known (enc_wire_type ev)"
  by (cases ev) (auto simp: known_def)

lemma scalar_payload_mem: "scalar_ev ev \<Longrightarrow> payload_bytes m ev = payload_bytes m' ev"
  by (cases ev) auto

section \<open>Properties\<close>

text \<open>
  The zig-zag encoding of signed values is undone by the decoder, for every 32 bit and every 64 bit
  value, the smallest ones included.
\<close>

theorem zigzag_roundtrip: "unzigzag32 (ucast (zigzag32 x)) = x \<and> unzigzag64 (zigzag64 y) = y"
  by (simp add: unzigzag32_zigzag32 unzigzag64_zigzag64)

text \<open>
  The field key is decoded to what it was made of: for field numbers below 2 to the 29, the decoder
  finds the number and the wire type that the encoder put in.
\<close>

theorem field_key_roundtrip:
  assumes "n < 2 ^ 29" and "wt \<in> {WT_VARINT, WT_64BIT, WT_STRING, WT_32BIT}"
  shows "ucast (drop_bit 3 (field_key wt n)) = n \<and> wire_type_of (field_key wt n AND 7) = wt"
  using assms by (auto simp: key_number key_wire_type known_def)

lemma field_key_roundtrip_witness:
  "ucast (drop_bit 3 (field_key WT_STRING 536870911)) = (536870911::u32) \<and>
   wire_type_of (field_key WT_STRING 536870911 AND 7) = WT_STRING"
  by (rule field_key_roundtrip) simp_all

text \<open>
  Every scalar value survives encoding and decoding: the wire value that the encoder chooses for a
  value of a scalar type has the wire type that the decoder expects, and the decoder makes the same
  value of it.
\<close>

theorem scalar_roundtrip:
  assumes "scalar_ok (opt_typ (opts fd)) v"
  shows "\<exists>ev. wire_of_value (opt_typ (opts fd)) v = Inr ev \<and> field_wire_type fd = Inr (enc_wire_type ev) \<and>
    (\<forall>wv. carries wv ev \<longrightarrow> value_of_wire (opt_typ (opts fd)) wv = Some v)"
  using scalar_cases [OF assms] by blast

lemma scalar_roundtrip_witness:
  "\<exists>ev. wire_of_value LWPB_SINT32 (V_int32 (- 7)) = Inr ev \<and>
    (\<forall>wv. carries wv ev \<longrightarrow> value_of_wire LWPB_SINT32 wv = Some (V_int32 (- 7)))"
  using scalar_roundtrip [of "sample_field 1 LWPB_OPTIONAL LWPB_SINT32 0 None" "V_int32 (- 7)"]
  by (auto simp: sample_field_def scalar_ok_def)

end
