(* ===== verification/Message.thy ===== *)
theory Message
  imports Values Sample
begin

text \<open>
  Messages as trees, independent of any buffer: their encoding as bytes and the notifications they
  give rise to. This is the contract between the encoder and the decoder.
\<close>

section \<open>Messages\<close>

text \<open>
  A field with a scalar value, a string or bytes field, a nested message, and a packed repeated field,
  each with the index of its descriptor in the \<open>fields\<close> array of the message it belongs to. The
  parameter is how the contents of strings are given: as bytes, or by address and length.
\<close>

datatype 'd item =
    Scalar nat lwpb_value
  | Data nat 'd
  | Sub nat "'d item list"
  | Packed nat "lwpb_value list"

type_synonym message = "u8 list item list"

definition the_field :: "descs \<Rightarrow> msg_ref \<Rightarrow> nat \<Rightarrow> lwpb_field_desc" where
  "the_field ds i j = msg_fields (ds ! i) ! j"

abbreviation field_type :: "lwpb_field_desc \<Rightarrow> field_typ" where
  "field_type fd \<equiv> opt_typ (opts fd)"

section \<open>Encoding\<close>

definition scalar_bytes :: "lwpb_field_desc \<Rightarrow> lwpb_value \<Rightarrow> u8 list" where
  "scalar_bytes fd v = payload_bytes [] (scalar_wire (field_type fd) v)"

fun item_bytes :: "descs \<Rightarrow> msg_ref \<Rightarrow> u8 list item \<Rightarrow> u8 list"
and items_bytes :: "descs \<Rightarrow> msg_ref \<Rightarrow> message \<Rightarrow> u8 list" where
  "item_bytes ds i (Scalar j v) = (let fd = the_field ds i j in
     key_bytes (scalar_wire (field_type fd) v) fd @ scalar_bytes fd v)"
| "item_bytes ds i (Data j bs) = delimited (the_field ds i j) bs"
| "item_bytes ds i (Sub j its) = (let fd = the_field ds i j in
     delimited fd (items_bytes ds (the (fd_msg_desc fd)) its))"
| "item_bytes ds i (Packed j vs) = (let fd = the_field ds i j in
     delimited fd (concat (map (scalar_bytes fd) vs)))"
| "items_bytes ds i [] = []"
| "items_bytes ds i (it # its) = item_bytes ds i it @ items_bytes ds i its"

section \<open>Well-formed messages\<close>

text \<open>
  The field exists, its number is unique in its message and small enough for a key, and its type and
  options are those of the item.
\<close>

definition wf_field :: "descs \<Rightarrow> msg_ref \<Rightarrow> nat \<Rightarrow> bool" where
  "wf_field ds i j \<longleftrightarrow> i < length ds \<and> j < length (msg_fields (ds ! i)) \<and>
     distinct (map number (msg_fields (ds ! i))) \<and> number (the_field ds i j) < 2 ^ 29"

lemma wf_field_deref:
  "wf_field ds i j \<Longrightarrow> deref_field ds (Some (i, j)) = Inr (the_field ds i j)"
  by (simp add: wf_field_def deref_field_Inr the_field_def)

fun wf_item :: "descs \<Rightarrow> msg_ref \<Rightarrow> 'd item \<Rightarrow> bool"
and wf_items :: "descs \<Rightarrow> msg_ref \<Rightarrow> 'd item list \<Rightarrow> bool" where
  "wf_item ds i (Scalar j v) \<longleftrightarrow> wf_field ds i j \<and> (let fd = the_field ds i j in
     \<not> is_packed_repeated fd \<and> scalar_ok (field_type fd) v)"
| "wf_item ds i (Data j bs) \<longleftrightarrow> wf_field ds i j \<and> (let fd = the_field ds i j in
     \<not> is_packed_repeated fd \<and> (field_type fd = LWPB_STRING \<or> field_type fd = LWPB_BYTES))"
| "wf_item ds i (Sub j its) \<longleftrightarrow> wf_field ds i j \<and> (let fd = the_field ds i j in
     \<not> is_packed_repeated fd \<and> field_type fd = LWPB_MESSAGE \<and> fd_msg_desc fd \<noteq> None \<and>
     wf_items ds (the (fd_msg_desc fd)) its)"
| "wf_item ds i (Packed j vs) \<longleftrightarrow> wf_field ds i j \<and> (let fd = the_field ds i j in
     is_packed_repeated fd \<and> list_all (scalar_ok (field_type fd)) vs)"
| "wf_items ds i [] \<longleftrightarrow> True"
| "wf_items ds i (it # its) \<longleftrightarrow> wf_item ds i it \<and> wf_items ds i its"

text \<open>The number of stack frames that are needed beyond the one of the message.\<close>

fun item_depth :: "'d item \<Rightarrow> nat" and items_depth :: "'d item list \<Rightarrow> nat" where
  "item_depth (Scalar _ _) = 0"
| "item_depth (Data _ _) = 0"
| "item_depth (Sub _ its) = Suc (items_depth its)"
| "item_depth (Packed _ _) = 1"
| "items_depth [] = 0"
| "items_depth (it # its) = max (item_depth it) (items_depth its)"

text \<open>Both do not depend on how the contents of strings are given.\<close>

lemma wf_map_item [simp]:
  "wf_item ds i (map_item f it) = wf_item ds i it"
  "wf_items ds i (map (map_item f) its) = wf_items ds i its"
  by (induction ds i it and ds i its rule: wf_item_wf_items.induct) (simp_all add: Let_def cong: conj_cong)

lemma depth_map_item [simp]:
  "item_depth (map_item f it) = item_depth it"
  "items_depth (map (map_item f) its) = items_depth its"
  by (induction it and its rule: item_depth_items_depth.induct) simp_all

section \<open>Notifications\<close>

text \<open>
  What the decoder notifies its handlers of, for a message that is encoded at a given address. For a
  nested message the handler is called with the descriptor of the root message.
\<close>

definition data_value :: "lwpb_field_desc \<Rightarrow> addr \<Rightarrow> u8 list \<Rightarrow> lwpb_value" where
  "data_value fd a bs = (if field_type fd = LWPB_STRING then V_string a (of_nat (length bs))
     else V_bytes a (of_nat (length bs)))"

text \<open>The address of the contents of a delimited field.\<close>

definition content_addr :: "addr \<Rightarrow> lwpb_field_desc \<Rightarrow> u8 list \<Rightarrow> addr" where
  "content_addr a fd bs = a + length (varint_bytes (field_key WT_STRING (number fd))) +
     length (varint_bytes (of_nat (length bs)))"

lemma delimited_content:
  assumes "peek m a (length (delimited fd c)) = delimited fd c"
  shows "peek m (content_addr a fd c) (length c) = c"
    and "content_addr a fd c + length c = a + length (delimited fd c)"
proof -
  let ?key = "varint_bytes (field_key WT_STRING (number fd))" and ?len = "varint_bytes (of_nat (length c))"
  have all: "peek m a (length ?key + length (?len @ c)) = ?key @ (?len @ c)"
    using assms by (simp add: delimited_def)
  from peek_appendD(2) [OF all] have "peek m (a + length ?key) (length ?len + length c) = ?len @ c"
    by simp
  from peek_appendD(2) [OF this] show "peek m (content_addr a fd c) (length c) = c"
    by (simp add: content_addr_def)
qed (simp add: content_addr_def delimited_def)

fun item_events :: "descs \<Rightarrow> msg_ref option \<Rightarrow> msg_ref \<Rightarrow> addr \<Rightarrow> u8 list item \<Rightarrow> event list"
and items_events :: "descs \<Rightarrow> msg_ref option \<Rightarrow> msg_ref \<Rightarrow> addr \<Rightarrow> message \<Rightarrow> event list" where
  "item_events ds root i a (Scalar j v) = [Msg_field False (Some i) (i, j) (Some v)]"
| "item_events ds root i a (Data j bs) = (let fd = the_field ds i j in
     [Msg_field False (Some i) (i, j) (Some (data_value fd (content_addr a fd bs) bs))])"
| "item_events ds root i a (Sub j its) = (let fd = the_field ds i j; k = the (fd_msg_desc fd) in
     [Msg_field False root (i, j) None, Msg_start False k] @
     items_events ds root k (content_addr a fd (items_bytes ds k its)) its @ [Msg_end False k])"
| "item_events ds root i a (Packed j vs) =
     [Msg_start True i] @ map (\<lambda>v. Msg_field True (Some i) (i, j) (Some v)) vs @ [Msg_end True i]"
| "items_events ds root i a [] = []"
| "items_events ds root i a (it # its) =
     item_events ds root i a it @ items_events ds root i (a + length (item_bytes ds i it)) its"

text \<open>All notifications of a message at the top.\<close>

definition message_events :: "descs \<Rightarrow> msg_ref \<Rightarrow> addr \<Rightarrow> message \<Rightarrow> event list" where
  "message_events ds i a its = Msg_start False i # items_events ds (Some i) i a its @ [Msg_end False i]"

text \<open>Handling them in order.\<close>

fun handle_events :: "'s lwpb_decoder \<Rightarrow> event list \<Rightarrow> 's \<Rightarrow> 's run" where
  "handle_events dec [] s = Inr s"
| "handle_events dec (ev # evs) s = andthen (handle dec ev s) (handle_events dec evs)"

lemma handle_events_append:
  "handle_events dec (evs @ evs') s = andthen (handle_events dec evs s) (handle_events dec evs')"
  by (induction evs arbitrary: s) (simp_all add: andthen_assoc cong: andthen_cong)

end
