(* ===== verification/Encoder_Run.thy ===== *)
theory Encoder_Run
  imports Message
begin

text \<open>
  A client that encodes a message with the streaming encoder, one call for each scalar and string and
  a pair of calls around each nested message and packed field. When there is enough room every call
  succeeds and the buffer holds the encoding of the message.
\<close>

section \<open>The client\<close>

text \<open>Strings are given by address and length. The client stops at the first error.\<close>

definition and_if_ok ::
    "enc_result \<Rightarrow> (mem \<Rightarrow> lwpb_encoder \<Rightarrow> enc_result) \<Rightarrow> enc_result" where
  "and_if_ok r f = andthen r (\<lambda>(ret, m, enc). if ret \<noteq> LWPB_ERR_OK then Inr (ret, m, enc) else f m enc)"

fun add_values ::
    "descs \<Rightarrow> field_ref \<Rightarrow> lwpb_value list \<Rightarrow> mem \<Rightarrow> lwpb_encoder \<Rightarrow> enc_result" where
  "add_values ds fr [] m enc = Inr (LWPB_ERR_OK, m, enc)"
| "add_values ds fr (v # vs) m enc =
     and_if_ok (lwpb_encoder_add_field ds m enc (Some fr) v) (add_values ds fr vs)"

fun add_item :: "descs \<Rightarrow> msg_ref \<Rightarrow> (addr \<times> u64) item \<Rightarrow> mem \<Rightarrow> lwpb_encoder \<Rightarrow> enc_result"
and add_items :: "descs \<Rightarrow> msg_ref \<Rightarrow> (addr \<times> u64) item list \<Rightarrow> mem \<Rightarrow> lwpb_encoder \<Rightarrow> enc_result" where
  "add_item ds i (Scalar j v) m enc = lwpb_encoder_add_field ds m enc (Some (i, j)) v"
| "add_item ds i (Data j src) m enc = lwpb_encoder_add_bytes ds m enc (Some (i, j)) (fst src) (snd src)"
| "add_item ds i (Sub j its) m enc =
     andthen (lwpb_encoder_nested_start ds enc (i, j)) (\<lambda>(ret, enc).
       if ret \<noteq> LWPB_ERR_OK then Inr (ret, m, enc)
       else and_if_ok (add_items ds (the (fd_msg_desc (the_field ds i j))) its m enc)
              (lwpb_encoder_nested_end ds))"
| "add_item ds i (Packed j vs) m enc =
     andthen (lwpb_encoder_packed_repeated_start ds enc (i, j)) (\<lambda>(ret, enc).
       if ret \<noteq> LWPB_ERR_OK then Inr (ret, m, enc)
       else and_if_ok (add_values ds (i, j) vs m enc) (lwpb_encoder_packed_repeated_end ds))"
| "add_items ds i [] m enc = Inr (LWPB_ERR_OK, m, enc)"
| "add_items ds i (it # its) m enc = and_if_ok (add_item ds i it m enc) (add_items ds i its)"

definition encode_message ::
    "descs \<Rightarrow> mem \<Rightarrow> lwpb_encoder \<Rightarrow> msg_ref \<Rightarrow> (addr \<times> u64) item list \<Rightarrow> addr \<Rightarrow> u64 \<Rightarrow>
     (lwpb_err_t \<times> mem \<times> u64) run" where
  "encode_message ds m enc i its data len =
     andthen (lwpb_encoder_start (lwpb_encoder_init enc) (Some i) data len) (\<lambda>enc.
     andthen (add_items ds i its m enc) (\<lambda>(ret, m, enc).
     andthen (lwpb_encoder_finish enc) (\<lambda>n. Inr (ret, m, n))))"

section \<open>Room and sources\<close>

text \<open>The contents of a string, and the message that the client encodes.\<close>

definition contents :: "mem \<Rightarrow> addr \<times> u64 \<Rightarrow> u8 list" where
  "contents m src = peek m (fst src) (unat (snd src))"

abbreviation the_items :: "mem \<Rightarrow> (addr \<times> u64) item list \<Rightarrow> message" where
  "the_items m its \<equiv> map (map_item (contents m)) its"

text \<open>
  The bytes behind the position that are written to while an item is encoded: a nested message is
  built behind the reserved bytes before it is moved.
\<close>

fun item_room :: "descs \<Rightarrow> msg_ref \<Rightarrow> u8 list item \<Rightarrow> nat"
and items_room :: "descs \<Rightarrow> msg_ref \<Rightarrow> message \<Rightarrow> nat" where
  "item_room ds i (Scalar j v) = length (item_bytes ds i (Scalar j v))"
| "item_room ds i (Data j bs) = length (item_bytes ds i (Data j bs))"
| "item_room ds i (Sub j its) = MSG_RESERVE_BYTES + items_room ds (the (fd_msg_desc (the_field ds i j))) its"
| "item_room ds i (Packed j vs) = MSG_RESERVE_BYTES + length (concat (map (scalar_bytes (the_field ds i j)) vs))"
| "items_room ds i [] = 0"
| "items_room ds i (it # its) = max (item_room ds i it) (length (item_bytes ds i it) + items_room ds i its)"

text \<open>The strings lie inside of the memory and outside of the free part of a buffer.\<close>

definition source_outside :: "mem \<Rightarrow> lwpb_buf \<Rightarrow> addr \<times> u64 \<Rightarrow> bool" where
  "source_outside m buf src \<longleftrightarrow> fst src + unat (snd src) \<le> length m \<and>
     (fst src + unat (snd src) \<le> buf_pos buf \<or> buf_end buf \<le> fst src)"

definition sources_outside :: "mem \<Rightarrow> lwpb_buf \<Rightarrow> (addr \<times> u64) item list \<Rightarrow> bool" where
  "sources_outside m buf its \<longleftrightarrow> (\<forall>it \<in> set its. \<forall>src \<in> set_item it. source_outside m buf src)"

section \<open>What calls leave alone\<close>

text \<open>The frames keep their descriptors and the bounds of their buffers.\<close>

definition same_shape :: "lwpb_encoder \<Rightarrow> lwpb_encoder \<Rightarrow> bool" where
  "same_shape enc enc' \<longleftrightarrow> enc_top enc' = enc_top enc \<and> enc_packed enc' = enc_packed enc \<and>
     (\<forall>k \<le> enc_top enc. ef_field_desc (enc_frame enc' k) = ef_field_desc (enc_frame enc k) \<and>
        ef_msg_desc (enc_frame enc' k) = ef_msg_desc (enc_frame enc k) \<and>
        buf_base (frame_buf enc' k) = buf_base (frame_buf enc k) \<and>
        buf_end (frame_buf enc' k) = buf_end (frame_buf enc k))"

abbreviation top_buf :: "lwpb_encoder \<Rightarrow> lwpb_buf" where
  "top_buf enc \<equiv> frame_buf enc (enc_top enc)"

text \<open>
  The effect of encoding: \<open>bs\<close> is appended to the top frame, and the memory has changed in the free
  part of its buffer only.
\<close>

definition appends :: "mem \<Rightarrow> lwpb_encoder \<Rightarrow> u8 list \<Rightarrow> mem \<Rightarrow> lwpb_encoder \<Rightarrow> bool" where
  "appends m enc bs m' enc' \<longleftrightarrow> enc_inv m' enc' \<and> same_shape enc enc' \<and>
     enc_abs m' enc' = abs_append bs (enc_abs m enc) \<and>
     same_outside (buf_pos (top_buf enc)) (buf_end (top_buf enc)) m m'"

lemma same_shape_refl [simp]: "same_shape enc enc"
  by (simp add: same_shape_def)

lemma same_shape_trans: "same_shape a b \<Longrightarrow> same_shape b c \<Longrightarrow> same_shape a c"
  by (simp add: same_shape_def)

lemma abs_append_append: "abs_append ys (abs_append xs st) = abs_append (xs @ ys) st"
  by (cases st) auto

lemma abs_append_Nil [simp]: "abs_append [] st = st"
  by (cases st) auto

lemma appends_pos:
  assumes inv: "enc_inv m enc" and app: "appends m enc bs m' enc'"
  shows "buf_pos (top_buf enc') = buf_pos (top_buf enc) + length bs" and "buf_end (top_buf enc') = buf_end (top_buf enc)"
proof -
  have valid: "valid_buf m (top_buf enc)" "valid_buf m' (top_buf enc')"
    using inv app by (auto simp: appends_def intro: enc_inv_top(4))
  have "frame_bytes m' (top_buf enc') = frame_bytes m (top_buf enc) @ bs"
    using app by (simp add: appends_def enc_abs_top abs_frame_def)
  then have "length (frame_bytes m' (top_buf enc')) = length (frame_bytes m (top_buf enc)) + length bs"
    by simp
  then have "buf_pos (top_buf enc') - buf_base (top_buf enc') = buf_pos (top_buf enc) - buf_base (top_buf enc) + length bs"
    using valid by (simp add: frame_bytes_def valid_buf_def)
  then show "buf_pos (top_buf enc') = buf_pos (top_buf enc) + length bs"
    using app valid by (auto simp: appends_def same_shape_def valid_buf_def)
  show "buf_end (top_buf enc') = buf_end (top_buf enc)"
    using app by (simp add: appends_def same_shape_def)
qed

lemma appends_refl: "enc_inv m enc \<Longrightarrow> appends m enc [] m enc"
  by (simp add: appends_def)

lemma appends_trans:
  assumes inv: "enc_inv m enc" and 1: "appends m enc xs m1 enc1" and 2: "appends m1 enc1 ys m2 enc2"
  shows "appends m enc (xs @ ys) m2 enc2"
proof -
  have "same_outside (buf_pos (top_buf enc1)) (buf_end (top_buf enc1)) m1 m2"
    using 2 by (simp add: appends_def)
  then have "same_outside (buf_pos (top_buf enc)) (buf_end (top_buf enc)) m1 m2"
    by (rule same_outside_mono) (simp_all add: appends_pos [OF inv 1])
  then have "same_outside (buf_pos (top_buf enc)) (buf_end (top_buf enc)) m m2"
    using 1 by (auto simp: appends_def intro: same_outside_trans)
  with 1 2 show ?thesis
    by (auto simp: appends_def abs_append_append intro: same_shape_trans)
qed

lemma set_top_buf_shape:
  assumes "enc_inv m enc" and "buf_base buf = buf_base (top_buf enc)" and "buf_end buf = buf_end (top_buf enc)"
  shows "same_shape enc (set_top_buf buf enc)"
  using assms by (simp add: same_shape_def enc_frame_set_top_buf [OF assms(1)])

lemma add_field_shape:
  assumes inv: "enc_inv m enc" and add: "lwpb_encoder_add_field ds m enc fr v = Inr (ret, m', enc')"
  shows "same_shape enc enc'"
  using inv add
proof (cases rule: add_field_cases)
  case (encoded fd buf)
  have "writes_in_room m (top_buf enc) ret m' buf"
    using encode_field_in_room [OF _ encoded(2)] enc_inv_top(4) [OF inv] by simp
  with encoded(3) inv show ?thesis
    by (auto simp: writes_in_room_def intro: set_top_buf_shape)
qed simp

section \<open>Calls that succeed\<close>

lemma add_field_runs:
  assumes inv: "enc_inv m enc" and fd: "deref_field ds (Some (i, j)) = Inr fd"
    and allowed: "if enc_packed enc then ef_field_desc (enc_frame enc (enc_top enc)) = Some (i, j)
      else ef_msg_desc (enc_frame enc (enc_top enc)) = Some i"
    and enc: "encode_field (enc_packed enc) fd v m (top_buf enc) = Inr (ret, m', buf)"
  shows "lwpb_encoder_add_field ds m enc (Some (i, j)) v = Inr (ret, m', set_top_buf buf enc)"
proof -
  have ij: "i < length ds" "j < length (msg_fields (ds ! i))"
    using fd by (auto simp: deref_field_Inr)
  have get: "enc_get enc (enc_depth enc - 1) = Inr (enc_frame enc (enc_top enc))"
    using enc_inv_get [OF inv order.refl] enc_inv_top(2) [OF inv] by simp
  have chk: "check_field ds enc (enc_frame enc (enc_top enc)) (Some (i, j)) = Inr LWPB_ERR_OK"
    using allowed ij by (auto simp: check_field_def list_ex_iff split: if_splits)
  have "enc_set (enc_depth enc - 1) (ef_buf_update (\<lambda>_. buf)) enc = Inr (set_top_buf buf enc)"
    using enc_inv_top [OF inv] by (simp add: enc_set_def set_top_buf_def enc_frame_def)
  with enc chk fd get enc_inv_top(2) [OF inv] show ?thesis
    by (simp add: lwpb_encoder_add_field_def)
qed

lemma add_field_appends:
  assumes inv: "enc_inv m enc" and fd: "deref_field ds (Some (i, j)) = Inr fd"
    and allowed: "if enc_packed enc then ef_field_desc (enc_frame enc (enc_top enc)) = Some (i, j)
      else ef_msg_desc (enc_frame enc (enc_top enc)) = Some i"
    and ev: "chosen_value (enc_packed enc) fd v = Inr ev"
    and ok: "value_ok fd m (buf_pos (top_buf enc) + (if enc_packed enc then 0 else length (key_bytes ev fd))) ev"
    and src: "source_ok (buf_pos (top_buf enc)) (if enc_packed enc then 0 else length (key_bytes ev fd)) ev"
    and room: "buf_pos (top_buf enc) + length (field_bytes (enc_packed enc) fd m ev) \<le> buf_end (top_buf enc)"
  shows "\<exists>m' enc'. lwpb_encoder_add_field ds m enc (Some (i, j)) v = Inr (LWPB_ERR_OK, m', enc') \<and>
    appends m enc (field_bytes (enc_packed enc) fd m ev) m' enc'"
proof -
  have valid: "valid_buf m (top_buf enc)"
    using inv by (rule enc_inv_top)
  have "\<exists>m' buf. encode_field (enc_packed enc) fd v m (top_buf enc) = Inr (LWPB_ERR_OK, m', buf)"
  proof (cases "enc_packed enc")
    case True
    with ev ok room show ?thesis
      using encode_wire_value_fits [OF valid, of fd ev] by (simp add: encode_field_alt field_bytes_def)
  next
    case False
    with ev ok src room show ?thesis
      using encode_field_fits [OF valid, of fd v ev] by simp
  qed
  then obtain m' buf where enc: "encode_field (enc_packed enc) fd v m (top_buf enc) = Inr (LWPB_ERR_OK, m', buf)"
    by blast
  note add = add_field_runs [OF inv fd allowed enc]
  from add_field_inv [OF inv add] add_field_shape [OF inv add] add_field_abs [OF inv add fd ev src] show ?thesis
    using add by (auto simp: appends_def)
qed

text \<open>Scalars, in a message and in a packed field.\<close>

lemma scalar_value_ok:
  assumes "scalar_ev ev"
  shows "value_ok fd m a ev" and "source_ok a k ev"
  using assms by (cases ev; simp add: source_ok_def)+

lemma add_scalar:
  assumes inv: "enc_inv m enc" and np: "\<not> enc_packed enc"
    and msg: "ef_msg_desc (enc_frame enc (enc_top enc)) = Some i" and wf: "wf_item ds i (Scalar j v :: u8 list item)"
    and room: "buf_pos (top_buf enc) + length (item_bytes ds i (Scalar j v)) \<le> buf_end (top_buf enc)"
  shows "\<exists>m' enc'. lwpb_encoder_add_field ds m enc (Some (i, j)) v = Inr (LWPB_ERR_OK, m', enc') \<and>
    appends m enc (item_bytes ds i (Scalar j v)) m' enc'"
proof -
  let ?fd = "the_field ds i j"
  let ?ev = "scalar_wire (field_type ?fd) v"
  have wff: "wf_field ds i j" and "\<not> is_packed_repeated ?fd" and ok: "scalar_ok (field_type ?fd) v"
    using wf by (simp_all add: Let_def)
  then have ev: "chosen_value False ?fd v = Inr ?ev"
    using scalar_cases(1) [OF ok] by (simp add: chosen_value_def override_packed_def)
  note sc = scalar_cases(2) [OF ok]
  have bytes: "field_bytes False ?fd m ?ev = item_bytes ds i (Scalar j v)"
    using scalar_payload_mem [OF sc, of m "[]"] by (simp add: field_bytes_def scalar_bytes_def Let_def)
  show ?thesis
    using add_field_appends [OF inv wf_field_deref [OF wff], of v ?ev] np msg ev room
    by (simp add: bytes scalar_value_ok [OF sc] del: item_bytes.simps)
qed

lemma add_values_appends:
  assumes "enc_inv m enc" and "enc_packed enc" and wff: "wf_field ds i j"
    and "ef_field_desc (enc_frame enc (enc_top enc)) = Some (i, j)"
    and "list_all (scalar_ok (field_type (the_field ds i j))) vs"
    and "buf_pos (top_buf enc) + length (concat (map (scalar_bytes (the_field ds i j)) vs)) \<le> buf_end (top_buf enc)"
  shows "\<exists>m' enc'. add_values ds (i, j) vs m enc = Inr (LWPB_ERR_OK, m', enc') \<and>
    appends m enc (concat (map (scalar_bytes (the_field ds i j)) vs)) m' enc'"
  using assms
proof (induction vs arbitrary: m enc)
  case Nil
  then show ?case by (simp add: appends_refl)
next
  case (Cons v vs)
  let ?fd = "the_field ds i j"
  let ?ev = "scalar_wire (field_type ?fd) v"
  have ok: "scalar_ok (field_type ?fd) v"
    using Cons.prems by simp
  note sc = scalar_cases(2) [OF ok]
  have ev: "chosen_value True ?fd v = Inr ?ev"
    using scalar_cases(1) [OF ok] by (simp add: chosen_value_def override_packed_def)
  have bytes: "field_bytes True ?fd m ?ev = scalar_bytes ?fd v"
    using scalar_payload_mem [OF sc, of m "[]"] by (simp add: field_bytes_def scalar_bytes_def)
  obtain m1 enc1 where add: "lwpb_encoder_add_field ds m enc (Some (i, j)) v = Inr (LWPB_ERR_OK, m1, enc1)"
    and app: "appends m enc (scalar_bytes ?fd v) m1 enc1"
    using add_field_appends [OF Cons.prems(1) wf_field_deref [OF wff], of v ?ev] Cons.prems ev
    by (auto simp: bytes scalar_value_ok [OF sc])
  note pos = appends_pos [OF Cons.prems(1) app]
  have shape: "enc_inv m1 enc1" "enc_packed enc1" "ef_field_desc (enc_frame enc1 (enc_top enc1)) = Some (i, j)"
    using app Cons.prems(2,4) by (auto simp: appends_def same_shape_def)
  have ok': "list_all (scalar_ok (field_type ?fd)) vs"
    and room: "buf_pos (top_buf enc1) + length (concat (map (scalar_bytes ?fd) vs)) \<le> buf_end (top_buf enc1)"
    using Cons.prems(5,6) pos by simp_all
  from Cons.IH [OF shape(1,2) wff shape(3) ok' room] obtain m2 enc2 where
    "add_values ds (i, j) vs m1 enc1 = Inr (LWPB_ERR_OK, m2, enc2)"
    and "appends m1 enc1 (concat (map (scalar_bytes ?fd) vs)) m2 enc2"
    by blast
  with add app appends_trans [OF Cons.prems(1) app] show ?case
    by (auto simp: and_if_ok_def)
qed

lemma add_data:
  assumes inv: "enc_inv m enc" and np: "\<not> enc_packed enc"
    and msg: "ef_msg_desc (enc_frame enc (enc_top enc)) = Some i" and wf: "wf_item ds i (Data j src)"
    and out: "source_outside m (top_buf enc) src"
    and room: "buf_pos (top_buf enc) + length (item_bytes ds i (Data j (contents m src))) \<le> buf_end (top_buf enc)"
  shows "\<exists>m' enc'. lwpb_encoder_add_bytes ds m enc (Some (i, j)) (fst src) (snd src) = Inr (LWPB_ERR_OK, m', enc') \<and>
    appends m enc (item_bytes ds i (Data j (contents m src))) m' enc'"
proof -
  let ?fd = "the_field ds i j" and ?p = "fst src" and ?n = "snd src"
  let ?ev = "E_string ?p ?n"
  have wff: "wf_field ds i j" and "\<not> is_packed_repeated ?fd"
    and "field_type ?fd = LWPB_STRING \<or> field_type ?fd = LWPB_BYTES"
    using wf by (simp_all add: Let_def)
  then have ev: "chosen_value False ?fd (V_string ?p ?n) = Inr ?ev"
    by (cases src) (auto simp: chosen_value_def wire_of_value_def override_packed_def)
  have len: "length (contents m src) = unat ?n"
    using out by (simp add: contents_def source_outside_def)
  have bytes: "field_bytes False ?fd m ?ev = item_bytes ds i (Data j (contents m src))"
    by (simp add: field_bytes_def key_bytes_def delimited_def len) (simp add: contents_def)
  have room': "buf_pos (top_buf enc) + length (key_bytes ?ev ?fd) + length (varint_bytes ?n) + unat ?n \<le> buf_end (top_buf enc)"
    using room len unfolding bytes [symmetric] by (simp add: field_bytes_def contents_def)
  have ok: "value_ok ?fd m (buf_pos (top_buf enc) + length (key_bytes ?ev ?fd)) ?ev"
    and src: "source_ok (buf_pos (top_buf enc)) (length (key_bytes ?ev ?fd)) ?ev"
    using out room' by (auto simp: copy_ok_def source_ok_def source_outside_def)
  show ?thesis
    using add_field_appends [OF inv wf_field_deref [OF wff], of "V_string ?p ?n" ?ev] np msg ev ok src room
    by (simp add: bytes lwpb_encoder_add_bytes_def del: item_bytes.simps)
qed

section \<open>Nested messages and packed fields\<close>

lemma packed_upd [simp]:
  "enc_top (enc\<lparr>enc_packed := p\<rparr>) = enc_top enc" "enc_frame (enc\<lparr>enc_packed := p\<rparr>) k = enc_frame enc k"
  "enc_inv m (enc\<lparr>enc_packed := p\<rparr>) = enc_inv m enc" "enc_abs m (enc\<lparr>enc_packed := p\<rparr>) = enc_abs m enc"
  by (simp_all add: enc_top_def enc_frame_def enc_inv_def enc_abs_def)

lemma open_frame_opens:
  assumes inv: "enc_inv m enc" and deep: "Suc (enc_top enc) < LWPB_MAX_DEPTH"
    and room: "buf_pos (top_buf enc) + MSG_RESERVE_BYTES \<le> buf_end (top_buf enc)"
  shows "enc_open_frame f md enc = Inr (LWPB_ERR_OK, opened f md enc)"
proof -
  have "\<exists>ret enc'. enc_open_frame f md enc = Inr (ret, enc')"
    using enc_inv_top [OF inv] deep
    by (auto simp: enc_open_frame_def enc_push_stack_frame_def Let_def enc_set_def enc_get_def)
  then obtain ret enc' where run: "enc_open_frame f md enc = Inr (ret, enc')" by blast
  with inv show ?thesis
  proof (cases rule: open_frame_cases)
    case opened
    with run show ?thesis by simp
  next
    case no_room
    with room show ?thesis by simp
  qed
qed

lemma close_appends:
  assumes inv: "enc_inv m enc" and np: "\<not> enc_packed enc" and deep: "Suc (enc_top enc) < LWPB_MAX_DEPTH"
    and room: "buf_pos (top_buf enc) + MSG_RESERVE_BYTES \<le> buf_end (top_buf enc)"
    and enc1: "enc1 = (opened (i, j) md enc)\<lparr>enc_packed := p\<rparr>" and app: "appends m enc1 c m2 enc2"
    and msg: "ef_msg_desc (enc_frame enc (enc_top enc)) = Some i"
    and fd: "deref_field ds (Some (i, j)) = Inr fd" "closable fd" and small: "length c < 2 ^ 35"
  shows "enc_inv m2 enc2 \<and> enc_top enc2 = Suc (enc_top enc) \<and> enc_packed enc2 = p \<and>
    ef_field_desc (enc_frame enc2 (Suc (enc_top enc))) = Some (i, j) \<and>
    (\<exists>m3 enc3. lwpb_encoder_add_field ds m2 (popped False enc2) (Some (i, j))
        (frame_value (enc_frame enc2 (Suc (enc_top enc)))) = Inr (LWPB_ERR_OK, m3, enc3) \<and>
      appends m enc (delimited fd c) m3 enc3)"
proof -
  let ?t = "enc_top enc"
  note open_inv = opened_inv [OF inv deep room, of "(i, j)" md]
  have top1: "enc_top enc1 = Suc ?t" "enc_packed enc1 = p" and inv1: "enc_inv m enc1"
    and abs1: "enc_abs m enc1 = abs_open (i, j) (enc_abs m enc)"
    using open_inv by (simp_all add: enc1 opened_sel [OF inv] opened_abs [OF inv deep])
  have frame1: "enc_frame enc1 k = enc_frame enc k" if "k \<le> ?t" for k
    using that by (simp add: enc1 opened_frame [OF inv deep])
  have sub1: "buf_base (frame_buf enc1 (Suc ?t)) = buf_pos (top_buf enc) + MSG_RESERVE_BYTES"
    "buf_pos (frame_buf enc1 (Suc ?t)) = buf_pos (top_buf enc) + MSG_RESERVE_BYTES"
    "buf_end (frame_buf enc1 (Suc ?t)) = buf_end (top_buf enc)"
    "ef_field_desc (enc_frame enc1 (Suc ?t)) = Some (i, j)"
    by (simp_all add: enc1 opened_frame [OF inv deep] Let_def)
  have inv2: "enc_inv m2 enc2" and shape: "same_shape enc1 enc2"
    and abs2: "enc_abs m2 enc2 = abs_append c (enc_abs m enc1)"
    and so2: "same_outside (buf_pos (frame_buf enc1 (Suc ?t))) (buf_end (frame_buf enc1 (Suc ?t))) m m2"
    using app top1 by (simp_all add: appends_def)
  have top2: "enc_top enc2 = Suc ?t" "enc_packed enc2 = p" "ef_field_desc (enc_frame enc2 (Suc ?t)) = Some (i, j)"
    and base2: "buf_base (frame_buf enc2 (Suc ?t)) = buf_base (frame_buf enc1 (Suc ?t))"
    using shape top1 sub1 by (auto simp: same_shape_def)
  have frame2: "ef_field_desc (enc_frame enc2 k) = ef_field_desc (enc_frame enc k) \<and>
      ef_msg_desc (enc_frame enc2 k) = ef_msg_desc (enc_frame enc k) \<and>
      buf_base (frame_buf enc2 k) = buf_base (frame_buf enc k) \<and>
      buf_end (frame_buf enc2 k) = buf_end (frame_buf enc k)" if "k \<le> ?t" for k
    using shape that top1(1) frame1 [OF that] by (auto simp: same_shape_def)
  have pos2: "buf_pos (frame_buf enc2 ?t) = buf_pos (top_buf enc)"
    using inv2 top2(1) base2 sub1(1) by (auto simp: enc_inv_def)
  have used: "unat (lwpb_buf_used (frame_buf enc2 (Suc ?t))) = length c"
    using appends_pos(1) [OF inv1 app] top1 top2 sub1 base2 enc_inv_top(4) [OF inv2]
    by (simp add: valid_buf_used)
  from close_frame [OF inv2 top2(1,3) _ fd] msg frame2 [OF order.refl] small
  obtain m3 enc3 where add: "lwpb_encoder_add_field ds m2 (popped False enc2) (Some (i, j))
        (frame_value (enc_frame enc2 (Suc ?t))) = Inr (LWPB_ERR_OK, m3, enc3)"
    and inv3: "enc_inv m3 enc3" "enc_top enc3 = ?t" "\<not> enc_packed enc3"
    and abs3: "enc_abs m3 enc3 = abs_close ds (enc_abs m2 enc2)"
    by (auto simp: used)
  note pinv = popped_inv [OF inv2 top2(1), of False]
  have "same_shape (popped False enc2) enc3"
    by (rule add_field_shape [OF pinv add])
  then have shape3: "same_shape enc enc3"
    using inv3 frame2 np top2(1) by (simp add: same_shape_def)
  have "same_outside (buf_pos (top_buf enc)) (buf_end (top_buf enc)) m2 m3"
    using add_field_inv [OF pinv add] top2(1) pos2 frame2 [OF order.refl] by simp
  moreover have "same_outside (buf_pos (top_buf enc)) (buf_end (top_buf enc)) m m2"
    by (rule same_outside_mono [OF so2]) (simp_all add: sub1)
  ultimately have so3: "same_outside (buf_pos (top_buf enc)) (buf_end (top_buf enc)) m m3"
    by (rule same_outside_trans [rotated])
  obtain g d st where "enc_abs m enc = (g, d) # st"
    by (cases "enc_abs m enc") auto
  then have "enc_abs m3 enc3 = abs_append (delimited fd c) (enc_abs m enc)"
    using abs3 abs2 abs1 fd(1) by (simp add: abs_open_def)
  with add inv3 shape3 so3 inv2 top2 show ?thesis
    unfolding appends_def by blast
qed

section \<open>The whole message\<close>

lemma items_bytes_room: "length (items_bytes ds i its) \<le> items_room ds i its"
  by (induction its) auto

lemma source_outside_mono:
  "source_outside m buf src \<Longrightarrow> length m' = length m \<Longrightarrow> buf_pos buf \<le> buf_pos buf' \<Longrightarrow>
   buf_end buf' = buf_end buf \<Longrightarrow> source_outside m' buf' src"
  by (auto simp: source_outside_def)

lemma contents_same:
  "source_outside m buf src \<Longrightarrow> same_outside (buf_pos buf) (buf_end buf) m m' \<Longrightarrow> contents m' src = contents m src"
  unfolding contents_def by (rule same_outside_peek) (auto simp: source_outside_def)

text \<open>What holds of the encoder when the client is about to add an item.\<close>

definition client_ok :: "mem \<Rightarrow> lwpb_encoder \<Rightarrow> msg_ref \<Rightarrow> nat \<Rightarrow> nat \<Rightarrow> bool" where
  "client_ok m enc i depth room \<longleftrightarrow> enc_inv m enc \<and> \<not> enc_packed enc \<and>
     ef_msg_desc (enc_frame enc (enc_top enc)) = Some i \<and> enc_top enc + depth < LWPB_MAX_DEPTH \<and>
     buf_pos (top_buf enc) + room \<le> buf_end (top_buf enc) \<and> buf_end (top_buf enc) - buf_pos (top_buf enc) < 2 ^ 35"

lemma client_ok_opened:
  assumes ok: "client_ok m enc i (Suc depth) (MSG_RESERVE_BYTES + room)"
    and encn: "encn = (opened f md enc)\<lparr>enc_packed := p\<rparr>"
  shows "Suc (enc_top enc) < LWPB_MAX_DEPTH" and "buf_pos (top_buf enc) + MSG_RESERVE_BYTES \<le> buf_end (top_buf enc)"
    and "enc_inv m encn" and "enc_top encn = Suc (enc_top enc)" and "enc_packed encn = p"
    and "enc_frame encn (enc_top encn) = \<lparr>ef_buf = \<lparr>buf_base = buf_pos (top_buf enc) + MSG_RESERVE_BYTES,
      buf_pos = buf_pos (top_buf enc) + MSG_RESERVE_BYTES, buf_end = buf_end (top_buf enc)\<rparr>,
      ef_field_desc = Some f, ef_msg_desc = md\<rparr>"
    and "md = Some i' \<Longrightarrow> \<not> p \<Longrightarrow> client_ok m encn i' depth room"
proof -
  have inv: "enc_inv m enc"
    using ok by (simp add: client_ok_def)
  show deep: "Suc (enc_top enc) < LWPB_MAX_DEPTH"
    and room: "buf_pos (top_buf enc) + MSG_RESERVE_BYTES \<le> buf_end (top_buf enc)"
    using ok by (auto simp: client_ok_def)
  show inv1: "enc_inv m encn" and top: "enc_top encn = Suc (enc_top enc)" and p: "enc_packed encn = p"
    using opened_inv [OF inv deep room] by (simp_all add: encn opened_sel [OF inv])
  show frame: "enc_frame encn (enc_top encn) = \<lparr>ef_buf = \<lparr>buf_base = buf_pos (top_buf enc) + MSG_RESERVE_BYTES,
      buf_pos = buf_pos (top_buf enc) + MSG_RESERVE_BYTES, buf_end = buf_end (top_buf enc)\<rparr>,
      ef_field_desc = Some f, ef_msg_desc = md\<rparr>"
    unfolding top by (simp add: encn opened_frame [OF inv deep] Let_def)
  show "client_ok m encn i' depth room" if "md = Some i'" "\<not> p"
    using ok inv1 top p frame that by (auto simp: client_ok_def)
qed

lemma add_sub:
  assumes ok: "client_ok m enc i (item_depth (Sub j its)) (item_room ds i (map_item (contents m) (Sub j its)))"
    and wf: "wf_item ds i (Sub j its)"
    and inner: "\<And>enc1. client_ok m enc1 (the (fd_msg_desc (the_field ds i j))) (items_depth its)
        (items_room ds (the (fd_msg_desc (the_field ds i j))) (the_items m its)) \<Longrightarrow>
      buf_pos (top_buf enc) \<le> buf_pos (top_buf enc1) \<Longrightarrow> buf_end (top_buf enc1) = buf_end (top_buf enc) \<Longrightarrow>
      \<exists>m' enc'. add_items ds (the (fd_msg_desc (the_field ds i j))) its m enc1 = Inr (LWPB_ERR_OK, m', enc') \<and>
        appends m enc1 (items_bytes ds (the (fd_msg_desc (the_field ds i j))) (the_items m its)) m' enc'"
  shows "\<exists>m' enc'. add_item ds i (Sub j its) m enc = Inr (LWPB_ERR_OK, m', enc') \<and>
    appends m enc (item_bytes ds i (map_item (contents m) (Sub j its))) m' enc'"
proof -
  let ?fd = "the_field ds i j"
  let ?k = "the (fd_msg_desc ?fd)"
  let ?c = "items_bytes ds ?k (the_items m its)"
  let ?enc1 = "(opened (i, j) (Some ?k) enc)\<lparr>enc_packed := False\<rparr>"
  have wff: "wf_field ds i j" and ty: "field_type ?fd = LWPB_MESSAGE" and k: "fd_msg_desc ?fd = Some ?k"
    using wf by (auto simp: Let_def)
  have inv: "enc_inv m enc" and np: "\<not> enc_packed enc" and msg: "ef_msg_desc (enc_frame enc (enc_top enc)) = Some i"
    using ok by (auto simp: client_ok_def)
  have ok': "client_ok m enc i (Suc (items_depth its)) (MSG_RESERVE_BYTES + items_room ds ?k (the_items m its))"
    using ok by simp
  note op = client_ok_opened [OF ok', where encn = ?enc1 and f = "(i, j)" and md = "Some ?k" and p = False, OF refl]
  have small: "length ?c < 2 ^ 35"
    using ok' items_bytes_room [of ds ?k "the_items m its"] by (auto simp: client_ok_def)
  have same: "(opened (i, j) md enc)\<lparr>enc_packed := False\<rparr> = opened (i, j) md enc" for md
    using np by (simp add: opened_def Let_def)
  have start: "lwpb_encoder_nested_start ds enc (i, j) = Inr (LWPB_ERR_OK, ?enc1)"
    using open_frame_opens [OF inv op(1,2)] ty
    by (simp add: lwpb_encoder_nested_start_def wf_field_deref [OF wff] k [symmetric] same)
  obtain m2 enc2 where add: "add_items ds ?k its m ?enc1 = Inr (LWPB_ERR_OK, m2, enc2)"
    and app: "appends m ?enc1 ?c m2 enc2"
    using inner [OF op(7)] op(6) by auto
  from close_appends [OF inv np op(1,2) refl app msg wf_field_deref [OF wff] _ small] ty
  have inv2: "enc_inv m2 enc2" "enc_top enc2 = Suc (enc_top enc)" "\<not> enc_packed enc2"
      "ef_field_desc (enc_frame enc2 (Suc (enc_top enc))) = Some (i, j)"
    and "\<exists>m3 enc3. lwpb_encoder_add_field ds m2 (popped False enc2) (Some (i, j))
        (frame_value (enc_frame enc2 (Suc (enc_top enc)))) = Inr (LWPB_ERR_OK, m3, enc3) \<and>
      appends m enc (delimited ?fd ?c) m3 enc3"
    by (auto simp: closable_def)
  then obtain m3 enc3 where "lwpb_encoder_nested_end ds m2 enc2 = Inr (LWPB_ERR_OK, m3, enc3)"
    and "appends m enc (delimited ?fd ?c) m3 enc3"
    by (auto simp: nested_end_add [OF inv2(1,2)])
  with start add show ?thesis
    by (simp add: and_if_ok_def Let_def)
qed

lemma add_packed:
  assumes ok: "client_ok m enc i 1 (item_room ds i (Packed j vs))" and wf: "wf_item ds i (Packed j vs :: u8 list item)"
  shows "\<exists>m' enc'. add_item ds i (Packed j vs) m enc = Inr (LWPB_ERR_OK, m', enc') \<and>
    appends m enc (item_bytes ds i (Packed j vs)) m' enc'"
proof -
  let ?fd = "the_field ds i j"
  let ?c = "concat (map (scalar_bytes ?fd) vs)"
  let ?enc1 = "(opened (i, j) None enc)\<lparr>enc_packed := True\<rparr>"
  have wff: "wf_field ds i j" and pk: "is_packed_repeated ?fd" and vals: "list_all (scalar_ok (field_type ?fd)) vs"
    using wf by (auto simp: Let_def)
  have inv: "enc_inv m enc" and np: "\<not> enc_packed enc" and msg: "ef_msg_desc (enc_frame enc (enc_top enc)) = Some i"
    using ok by (auto simp: client_ok_def)
  have ok': "client_ok m enc i (Suc 0) (MSG_RESERVE_BYTES + length ?c)"
    using ok by simp
  note op = client_ok_opened [OF ok', where encn = ?enc1 and f = "(i, j)" and md = None and p = True, OF refl]
  have small: "length ?c < 2 ^ 35"
    using ok' by (auto simp: client_ok_def)
  have start: "lwpb_encoder_packed_repeated_start ds enc (i, j) = Inr (LWPB_ERR_OK, ?enc1)"
    using open_frame_opens [OF inv op(1,2)] pk np
    by (simp add: lwpb_encoder_packed_repeated_start_def wf_field_deref [OF wff])
  have room1: "buf_pos (top_buf ?enc1) + length ?c \<le> buf_end (top_buf ?enc1)"
    using ok' unfolding op(6) by (simp add: client_ok_def)
  obtain m2 enc2 where add: "add_values ds (i, j) vs m ?enc1 = Inr (LWPB_ERR_OK, m2, enc2)"
    and app: "appends m ?enc1 ?c m2 enc2"
    using add_values_appends [OF op(3) _ wff _ vals room1] op(5,6) by auto
  from close_appends [OF inv np op(1,2) refl app msg wf_field_deref [OF wff] _ small] pk
  have inv2: "enc_inv m2 enc2" "enc_top enc2 = Suc (enc_top enc)" "enc_packed enc2"
      "ef_field_desc (enc_frame enc2 (Suc (enc_top enc))) = Some (i, j)"
    and "\<exists>m3 enc3. lwpb_encoder_add_field ds m2 (popped False enc2) (Some (i, j))
        (frame_value (enc_frame enc2 (Suc (enc_top enc)))) = Inr (LWPB_ERR_OK, m3, enc3) \<and>
      appends m enc (delimited ?fd ?c) m3 enc3"
    by (auto simp: closable_def)
  then obtain m3 enc3 where "lwpb_encoder_packed_repeated_end ds m2 enc2 = Inr (LWPB_ERR_OK, m3, enc3)"
    and "appends m enc (delimited ?fd ?c) m3 enc3"
    by (auto simp: packed_end_add [OF inv2(1,2,3)])
  with start add show ?thesis
    by (simp add: and_if_ok_def Let_def)
qed

lemma client_ok_moved:
  assumes ok: "client_ok m enc i depth (length bs + room)" and app: "appends m enc bs m' enc'"
  shows "client_ok m' enc' i depth room"
proof -
  have inv: "enc_inv m enc"
    using ok by (simp add: client_ok_def)
  show ?thesis
    using ok app appends_pos [OF inv app] by (auto simp: client_ok_def appends_def same_shape_def)
qed

lemma client_ok_less: "client_ok m enc i d r \<Longrightarrow> d' \<le> d \<Longrightarrow> r' \<le> r \<Longrightarrow> client_ok m enc i d' r'"
  by (auto simp: client_ok_def)

lemma client_adds:
  "wf_item ds i it \<Longrightarrow> client_ok m enc i (item_depth it) (item_room ds i (map_item (contents m) it)) \<Longrightarrow>
    sources_outside m (top_buf enc) [it] \<Longrightarrow>
    \<exists>m' enc'. add_item ds i it m enc = Inr (LWPB_ERR_OK, m', enc') \<and>
      appends m enc (item_bytes ds i (map_item (contents m) it)) m' enc'"
  "wf_items ds i its \<Longrightarrow> client_ok m enc i (items_depth its) (items_room ds i (the_items m its)) \<Longrightarrow>
    sources_outside m (top_buf enc) its \<Longrightarrow>
    \<exists>m' enc'. add_items ds i its m enc = Inr (LWPB_ERR_OK, m', enc') \<and>
      appends m enc (items_bytes ds i (the_items m its)) m' enc'"
proof (induction ds i it and ds i its arbitrary: m enc and m enc rule: wf_item_wf_items.induct)
  case (1 ds i j v)
  then show ?case
    by (simp only: add_item.simps item.map) (rule add_scalar, auto simp: client_ok_def)
next
  case (2 ds i j src)
  then show ?case
    by (simp only: add_item.simps item.map) (rule add_data, auto simp: client_ok_def sources_outside_def)
next
  case (3 ds i j its)
  have out: "sources_outside m buf' its" if "buf_pos (top_buf enc) \<le> buf_pos buf'" "buf_end buf' = buf_end (top_buf enc)" for buf'
    using "3.prems"(3) that by (auto simp: sources_outside_def intro: source_outside_mono [OF _ refl that])
  have wf: "wf_items ds (the (fd_msg_desc (the_field ds i j))) its"
    using "3.prems"(1) by (simp add: Let_def)
  show ?case
    using "3.prems" by (intro add_sub) (auto intro: "3.IH" [OF refl wf] out)
next
  case (4 ds i j vs)
  then show ?case
    using add_packed [of m enc i ds j vs] by simp
next
  case (5 ds i)
  then show ?case by (simp add: appends_refl client_ok_def)
next
  case (6 ds i it its)
  let ?bs = "item_bytes ds i (map_item (contents m) it)"
  have wf: "wf_item ds i it" "wf_items ds i its"
    using "6.prems"(1) by auto
  have inv: "enc_inv m enc"
    using "6.prems"(2) by (simp add: client_ok_def)
  have out: "sources_outside m (top_buf enc) [it]" "sources_outside m (top_buf enc) its"
    using "6.prems"(3) by (auto simp: sources_outside_def)
  obtain m1 enc1 where add: "add_item ds i it m enc = Inr (LWPB_ERR_OK, m1, enc1)" and app: "appends m enc ?bs m1 enc1"
    using "6.IH"(1) [OF wf(1) client_ok_less [OF "6.prems"(2)] out(1)] by auto
  have so: "same_outside (buf_pos (top_buf enc)) (buf_end (top_buf enc)) m m1"
    using app by (simp add: appends_def)
  have out1: "sources_outside m1 (top_buf enc1) its"
    unfolding sources_outside_def
  proof (intro ballI)
    fix it' src
    assume "it' \<in> set its" and "src \<in> set_item it'"
    then have "source_outside m (top_buf enc) src"
      using out(2) by (simp add: sources_outside_def)
    then show "source_outside m1 (top_buf enc1) src"
      by (rule source_outside_mono) (simp_all add: appends_pos [OF inv app] same_outside_length [OF so])
  qed
  have same: "the_items m1 its = the_items m its"
    using out(2) by (auto simp: sources_outside_def intro!: item.map_cong0 contents_same [OF _ so])
  have "client_ok m enc i (items_depth its) (length ?bs + items_room ds i (the_items m its))"
    by (rule client_ok_less [OF "6.prems"(2)]) simp_all
  then have "client_ok m1 enc1 i (items_depth its) (items_room ds i (the_items m1 its))"
    unfolding same using app by (rule client_ok_moved)
  from "6.IH"(2) [OF wf(2) this out1] obtain m2 enc2 where "add_items ds i its m1 enc1 = Inr (LWPB_ERR_OK, m2, enc2)"
    and "appends m1 enc1 (items_bytes ds i (the_items m its)) m2 enc2"
    unfolding same by blast
  with add app appends_trans [OF inv app] show ?case
    by (auto simp: and_if_ok_def)
qed

text \<open>Encoding a message from start to finish.\<close>

lemma encode_message_ok:
  assumes wf: "wf_items ds i its" and depth: "items_depth its < LWPB_MAX_DEPTH"
    and st: "length (enc_stack enc) = LWPB_MAX_DEPTH"
    and mem: "data + unat len \<le> length m" "length m < 2 ^ 63" "unat len < 2 ^ 35"
    and room: "items_room ds i (the_items m its) \<le> unat len"
    and out: "sources_outside m (lwpb_buf_init data len) its"
  shows "\<exists>m'. encode_message ds m enc i its data len =
      Inr (LWPB_ERR_OK, m', of_nat (length (items_bytes ds i (the_items m its)))) \<and>
    peek m' data (length (items_bytes ds i (the_items m its))) = items_bytes ds i (the_items m its) \<and>
    same_outside data (data + unat len) m m'"
proof -
  let ?bs = "items_bytes ds i (the_items m its)"
  have "length (enc_stack (lwpb_encoder_init enc)) = LWPB_MAX_DEPTH"
    using st by (simp add: lwpb_encoder_init_def)
  from encoder_start_inv [OF this mem(1,2), of "Some i"] obtain enc1 where
    start: "lwpb_encoder_start (lwpb_encoder_init enc) (Some i) data len = Inr enc1" and inv: "enc_inv m enc1"
    and top: "enc_top enc1 = 0" "\<not> enc_packed enc1" "enc_abs m enc1 = [(None, [])]"
    and frame: "enc_frame enc1 0 = \<lparr>ef_buf = lwpb_buf_init data len, ef_field_desc = None, ef_msg_desc = Some i\<rparr>"
    by blast
  have "client_ok m enc1 i (items_depth its) (items_room ds i (the_items m its))"
    using inv top frame depth mem room by (simp add: client_ok_def)
  from client_adds(2) [OF wf this] out obtain m2 enc2 where
    add: "add_items ds i its m enc1 = Inr (LWPB_ERR_OK, m2, enc2)" and app: "appends m enc1 ?bs m2 enc2"
    by (auto simp: top frame)
  have inv2: "enc_inv m2 enc2" "enc_top enc2 = 0" and base: "buf_base (top_buf enc2) = data"
    using app by (auto simp: appends_def same_shape_def top frame)
  have pos: "buf_pos (top_buf enc2) = data + length ?bs"
    using appends_pos [OF inv app] by (simp add: top frame)
  have "lwpb_encoder_finish enc2 = Inr (of_nat (length ?bs))"
    using enc_inv_get [OF inv2(1), of 0] inv2(2) base pos
    by (simp add: lwpb_encoder_finish_def lwpb_buf_used_def)
  with start add have "encode_message ds m enc i its data len = Inr (LWPB_ERR_OK, m2, of_nat (length ?bs))"
    by (simp add: encode_message_def)
  moreover have "frame_bytes m2 (top_buf enc2) = ?bs"
    using app by (simp add: appends_def top enc_abs_top [of m2] inv2(2) abs_frame_def)
  then have "peek m2 data (length ?bs) = ?bs"
    using base pos by (simp add: frame_bytes_def)
  ultimately show ?thesis
    using app by (auto simp: appends_def top frame)
qed

section \<open>Properties\<close>

text \<open>
  C3: The encoder produces the wire format. Encoding a well-formed message with the streaming calls
  into a buffer with enough room succeeds at every call and leaves exactly the encoding of the message
  at the start of the buffer, whose length lwpb_encoder_finish returns; memory outside of the buffer is
  unchanged.
\<close>

theorem encode_refines_bytes:
  assumes "wf_items ds i its" and "items_depth its < LWPB_MAX_DEPTH" and "length (enc_stack enc) = LWPB_MAX_DEPTH"
    and "data + unat len \<le> length m" and "length m < 2 ^ 63" and "unat len < 2 ^ 35"
    and "items_room ds i (the_items m its) \<le> unat len" and "sources_outside m (lwpb_buf_init data len) its"
  shows "\<exists>m'. encode_message ds m enc i its data len =
      Inr (LWPB_ERR_OK, m', of_nat (length (items_bytes ds i (the_items m its)))) \<and>
    peek m' data (length (items_bytes ds i (the_items m its))) = items_bytes ds i (the_items m its) \<and>
    same_outside data (data + unat len) m m'"
  by (rule encode_message_ok [OF assms])

end
