(* ===== verification/Encoder_Session.thy ===== *)
theory Encoder_Session
  imports Encoder_Run
begin

text \<open>
  Arbitrary sequences of calls of the encoder, with any fields and values, in any order, whether or
  not they succeed: as a step relation on the memory and the encoder. In a \<open>session\<close> no call follows a
  failed start of a nested message or packed field; \<open>call_seq\<close> is without this restriction.
\<close>

datatype enc_call =
    Call_add "field_ref option" lwpb_value
  | Call_nested_start field_ref
  | Call_nested_end
  | Call_packed_start field_ref
  | Call_packed_end

fun run_call :: "descs \<Rightarrow> enc_call \<Rightarrow> mem \<Rightarrow> lwpb_encoder \<Rightarrow> enc_result" where
  "run_call ds (Call_add fr v) m enc = lwpb_encoder_add_field ds m enc fr v"
| "run_call ds (Call_nested_start fr) m enc =
     andthen (lwpb_encoder_nested_start ds enc fr) (\<lambda>(ret, enc). Inr (ret, m, enc))"
| "run_call ds Call_nested_end m enc = lwpb_encoder_nested_end ds m enc"
| "run_call ds (Call_packed_start fr) m enc =
     andthen (lwpb_encoder_packed_repeated_start ds enc fr) (\<lambda>(ret, enc). Inr (ret, m, enc))"
| "run_call ds Call_packed_end m enc = lwpb_encoder_packed_repeated_end ds m enc"

fun is_start :: "enc_call \<Rightarrow> bool" where
  "is_start (Call_nested_start _) = True"
| "is_start (Call_packed_start _) = True"
| "is_start _ = False"

inductive session ::
    "descs \<Rightarrow> mem \<Rightarrow> msg_ref option \<Rightarrow> addr \<Rightarrow> u64 \<Rightarrow> mem \<Rightarrow> lwpb_encoder \<Rightarrow> bool"
  for ds m0 msg data len where
  started: "length (enc_stack enc0) = LWPB_MAX_DEPTH \<Longrightarrow> lwpb_encoder_start enc0 msg data len = Inr enc \<Longrightarrow>
    session ds m0 msg data len m0 enc"
| called: "session ds m0 msg data len m enc \<Longrightarrow> run_call ds c m enc = Inr (ret, m', enc') \<Longrightarrow>
    ret = LWPB_ERR_OK \<or> \<not> is_start c \<Longrightarrow> session ds m0 msg data len m' enc'"

inductive_cases sessionE: "session ds m0 msg data len m enc"

text \<open>The invariant of a session.\<close>

definition session_inv :: "mem \<Rightarrow> addr \<Rightarrow> u64 \<Rightarrow> mem \<Rightarrow> lwpb_encoder \<Rightarrow> bool" where
  "session_inv m0 data len m enc \<longleftrightarrow> enc_inv m enc \<and> buf_base (frame_buf enc 0) = data \<and>
     buf_end (frame_buf enc 0) = data + unat len \<and> same_outside data (data + unat len) m0 m"

lemma session_room:
  assumes "session_inv m0 data len m enc" and "k \<le> enc_top enc"
  shows "data \<le> buf_pos (frame_buf enc k)" and "buf_end (frame_buf enc k) = data + unat len"
proof -
  have inv: "enc_inv m enc" and "valid_buf m (frame_buf enc 0)" "valid_buf m (frame_buf enc k)"
    using assms by (auto simp: session_inv_def enc_inv_def)
  with assms enc_inv_nested [OF inv, of 0 k]
  show "data \<le> buf_pos (frame_buf enc k)" and "buf_end (frame_buf enc k) = data + unat len"
    by (cases "k = 0"; auto simp: session_inv_def valid_buf_def)+
qed

lemma session_inv_add:
  assumes inv: "session_inv m0 data len m enc" and add: "lwpb_encoder_add_field ds m enc fr v = Inr (ret, m', enc')"
  shows "session_inv m0 data len m' enc'"
proof -
  have enc: "enc_inv m enc"
    using inv by (simp add: session_inv_def)
  note fld = add_field_inv [OF enc add] and shape = add_field_shape [OF enc add]
  have "same_outside data (data + unat len) m m'"
    by (rule same_outside_mono [OF conjunct2 [OF conjunct2 [OF conjunct2 [OF fld]]]])
      (use session_room [OF inv order.refl] in auto)
  with inv fld shape show ?thesis
    by (auto simp: session_inv_def same_shape_def intro: same_outside_trans)
qed

lemma session_inv_open:
  assumes inv: "session_inv m0 data len m enc" and open_: "enc_open_frame f md enc = Inr (LWPB_ERR_OK, enc')"
  shows "session_inv m0 data len m (enc'\<lparr>enc_packed := p\<rparr>)" and "session_inv m0 data len m enc'"
proof -
  have enc: "enc_inv m enc"
    using inv by (simp add: session_inv_def)
  from enc open_ show "session_inv m0 data len m enc'"
  proof (cases rule: open_frame_cases [consumes 2])
    case opened
    with inv enc show ?thesis
      by (simp add: session_inv_def opened_inv opened_frame)
  qed simp
  then show "session_inv m0 data len m (enc'\<lparr>enc_packed := p\<rparr>)"
    by (simp add: session_inv_def)
qed

lemma popped_session_inv:
  "session_inv m0 data len m enc \<Longrightarrow> enc_top enc = Suc t \<Longrightarrow> session_inv m0 data len m (popped p enc)"
  by (auto simp: session_inv_def intro: popped_inv)

text \<open>The ends abort when there is no nested frame.\<close>

lemma pop_nested:
  assumes "enc_inv m enc" and "enc_pop_stack_frame enc = Inr r"
  obtains t where "enc_top enc = Suc t"
  using assms by (cases "enc_top enc")
    (auto simp: enc_pop_stack_frame_def Let_def andthen_eq_Inr lwpb_assert_eq_Inr dest: enc_inv_top(2))

lemma session_inv_call:
  assumes inv: "session_inv m0 data len m enc" and call: "run_call ds c m enc = Inr (ret, m', enc')"
    and ok: "ret = LWPB_ERR_OK \<or> \<not> is_start c"
  shows "session_inv m0 data len m' enc'"
proof (cases c)
  case (Call_add fr v)
  with call show ?thesis by (auto intro: session_inv_add [OF inv])
next
  case (Call_nested_start fr)
  with call ok obtain md where "enc_open_frame fr md enc = Inr (LWPB_ERR_OK, enc')" and "m' = m"
    by (auto simp: lwpb_encoder_nested_start_def andthen_eq_Inr)
  with session_inv_open(2) [OF inv] show ?thesis by simp
next
  case (Call_packed_start fr)
  with call ok obtain enc1 where "enc_open_frame fr None enc = Inr (LWPB_ERR_OK, enc1)" and "m' = m"
      and "enc' = enc1\<lparr>enc_packed := True\<rparr>"
    by (auto simp: lwpb_encoder_packed_repeated_start_def andthen_eq_Inr split: if_splits)
  with session_inv_open(1) [OF inv] show ?thesis by simp
next
  case Call_nested_end
  have enc: "enc_inv m enc"
    using inv by (simp add: session_inv_def)
  obtain t where t: "enc_top enc = Suc t"
    using call Call_nested_end by (auto simp: lwpb_encoder_nested_end_def andthen_eq_Inr elim: pop_nested [OF enc])
  with call Call_nested_end show ?thesis
    by (auto simp: nested_end_add [OF enc t] intro: session_inv_add [OF popped_session_inv [OF inv t]])
next
  case Call_packed_end
  have enc: "enc_inv m enc" and pk: "enc_packed enc"
    using inv call Call_packed_end
    by (auto simp: session_inv_def lwpb_encoder_packed_repeated_end_def andthen_eq_Inr lwpb_assert_eq_Inr)
  obtain t where t: "enc_top enc = Suc t"
    using call Call_packed_end
    by (auto simp: lwpb_encoder_packed_repeated_end_def andthen_eq_Inr elim: pop_nested [OF enc])
  with call Call_packed_end show ?thesis
    by (auto simp: packed_end_add [OF enc t pk] intro: session_inv_add [OF popped_session_inv [OF inv t]])
qed

lemma session_keeps_inv:
  assumes "session ds m0 msg data len m enc" and "data + unat len \<le> length m0" and "length m0 < 2 ^ 63"
  shows "session_inv m0 data len m enc"
  using assms(1)
proof induction
  case (started enc0 enc)
  obtain enc1 where "lwpb_encoder_start enc0 msg data len = Inr enc1" "enc_inv m0 enc1"
    "enc_frame enc1 0 = \<lparr>ef_buf = lwpb_buf_init data len, ef_field_desc = None, ef_msg_desc = msg\<rparr>"
    by (rule encoder_start_inv [OF started(1) assms(2,3), of msg]) blast
  with started(2) show ?case
    by (simp add: session_inv_def)
next
  case (called m enc c ret m' enc')
  then show ?case by (auto intro: session_inv_call)
qed

section \<open>Going on after a failed start\<close>

text \<open>
  Sequences of calls without this restriction, with a flag that tells whether it was kept. A failed start leaves a
  frame pushed whose buffer is the one that an earlier message, or the memory before the first, has left
  in its slot of the stack; the calls that follow go to this buffer.
\<close>

inductive call_seq ::
    "descs \<Rightarrow> mem \<Rightarrow> lwpb_encoder \<Rightarrow> msg_ref option \<Rightarrow> addr \<Rightarrow> u64 \<Rightarrow> bool \<Rightarrow> mem \<Rightarrow> lwpb_encoder \<Rightarrow> bool"
  for ds m0 enc0 msg data len where
  call_seq_start: "lwpb_encoder_start enc0 msg data len = Inr enc \<Longrightarrow> call_seq ds m0 enc0 msg data len True m0 enc"
| call_seq_next: "call_seq ds m0 enc0 msg data len clean m enc \<Longrightarrow> run_call ds c m enc = Inr (ret, m', enc') \<Longrightarrow>
    call_seq ds m0 enc0 msg data len (clean \<and> (ret = LWPB_ERR_OK \<or> \<not> is_start c)) m' enc'"

lemma call_seq_session:
  "call_seq ds m0 enc0 msg data len clean m enc \<Longrightarrow> length (enc_stack enc0) = LWPB_MAX_DEPTH \<Longrightarrow> clean \<Longrightarrow>
    session ds m0 msg data len m enc"
  by (induction rule: call_seq.induct) (auto intro: session.intros)

text \<open>All slots of the stack have buffers without room, or inside of a region.\<close>

definition frame_within :: "addr \<Rightarrow> addr \<Rightarrow> mem \<Rightarrow> lwpb_encoder_stack_frame \<Rightarrow> bool" where
  "frame_within lo hi m frame \<longleftrightarrow> valid_buf m (ef_buf frame) \<and>
     (buf_base (ef_buf frame) = buf_end (ef_buf frame) \<or> lo \<le> buf_base (ef_buf frame) \<and> buf_end (ef_buf frame) \<le> hi)"

definition frames_within :: "addr \<Rightarrow> addr \<Rightarrow> mem \<Rightarrow> lwpb_encoder \<Rightarrow> bool" where
  "frames_within lo hi m enc \<longleftrightarrow> list_all (frame_within lo hi m) (enc_stack enc)"

lemma frames_within_sel [simp]:
  "frames_within lo hi m (enc\<lparr>enc_depth := d\<rparr>) = frames_within lo hi m enc"
  "frames_within lo hi m (enc\<lparr>enc_packed := p\<rparr>) = frames_within lo hi m enc"
  by (simp_all add: frames_within_def)

lemma frames_within_get:
  "enc_get enc i = Inr frame \<Longrightarrow> frames_within lo hi m enc \<Longrightarrow> frame_within lo hi m frame"
  by (auto simp: enc_get_def frames_within_def list_all_length split: if_splits)

lemma frames_within_set:
  "enc_set i f enc = Inr enc' \<Longrightarrow> frames_within lo hi m enc \<Longrightarrow>
    (\<And>frame. frame_within lo hi m frame \<Longrightarrow> frame_within lo hi m (f frame)) \<Longrightarrow> frames_within lo hi m enc'"
  by (auto simp: enc_set_def frames_within_def list_all_length nth_list_update split: if_splits)

lemma frames_within_mem: "frames_within lo hi m enc \<Longrightarrow> length m' = length m \<Longrightarrow> frames_within lo hi m' enc"
  by (auto simp: frames_within_def frame_within_def list_all_iff intro: valid_buf_mem)

lemma frames_within_start:
  assumes "lwpb_encoder_start enc0 msg data len = Inr enc" and "frames_within data (data + unat len) m0 enc0"
    and "data + unat len \<le> length m0" and "length m0 < 2 ^ 63"
  shows "frames_within data (data + unat len) m0 enc"
  using assms(1) unfolding lwpb_encoder_start_def
  by (rule frames_within_set) (use assms(2-4) in \<open>simp_all add: frame_within_def valid_buf_init\<close>)

text \<open>Adding a field writes to the room of the frame only.\<close>

lemma room_within:
  assumes "frame_within lo hi m frame" and "writes_in_room m (ef_buf frame) ret m' buf"
  shows "same_outside lo hi m m'" and "frame_within lo hi m' (f\<lparr>ef_buf := buf\<rparr>)"
proof -
  have so: "same_outside (buf_pos (ef_buf frame)) (buf_end (ef_buf frame)) m m'"
    using assms(2) by (simp add: writes_in_room_def)
  show "same_outside lo hi m m'"
  proof (cases "buf_base (ef_buf frame) = buf_end (ef_buf frame)")
    case True
    with assms(1) have "buf_pos (ef_buf frame) = buf_end (ef_buf frame)"
      by (simp add: frame_within_def valid_buf_def)
    with so have "m' = m"
      by (intro nth_equalityI) (auto simp: same_outside_def not_le [symmetric])
    then show ?thesis by simp
  next
    case False
    with assms(1) show ?thesis
      by (intro same_outside_mono [OF so]) (auto simp: frame_within_def valid_buf_def)
  qed
  show "frame_within lo hi m' (f\<lparr>ef_buf := buf\<rparr>)"
    using assms by (auto simp: frame_within_def writes_in_room_def)
qed

lemma add_field_within:
  assumes "lwpb_encoder_add_field ds m enc fr v = Inr (ret, m', enc')" and "frames_within lo hi m enc"
  shows "same_outside lo hi m m' \<and> frames_within lo hi m' enc'"
proof -
  obtain frame chk where frame: "enc_get enc (enc_depth enc - 1) = Inr frame" and
    rest: "(if chk \<noteq> LWPB_ERR_OK then Inr (chk, m, enc)
       else andthen (deref_field ds fr) (\<lambda>fd.
         andthen (encode_field (enc_packed enc) fd v m (ef_buf frame)) (\<lambda>(ret, m, buf).
         andthen (enc_set (enc_depth enc - 1) (ef_buf_update (\<lambda>_. buf)) enc) (\<lambda>enc.
           Inr (ret, m, enc))))) = Inr (ret, m', enc')"
    using assms(1) unfolding lwpb_encoder_add_field_def by (auto simp: andthen_eq_Inr)
  have fw: "frame_within lo hi m frame"
    by (rule frames_within_get [OF frame assms(2)])
  show ?thesis
  proof (cases "chk = LWPB_ERR_OK")
    case True
    with rest obtain fd buf where enc: "encode_field (enc_packed enc) fd v m (ef_buf frame) = Inr (ret, m', buf)"
      and set: "enc_set (enc_depth enc - 1) (ef_buf_update (\<lambda>_. buf)) enc = Inr enc'"
      by (auto simp: andthen_eq_Inr)
    have room: "writes_in_room m (ef_buf frame) ret m' buf"
      using encode_field_in_room [OF _ enc] fw by (simp add: frame_within_def)
    note so = room_within(1) [OF fw room]
    have "frames_within lo hi m' enc"
      using frames_within_mem [OF assms(2) same_outside_length [OF so]] .
    with so show ?thesis
      using room_within(2) [OF fw room] by (auto intro: frames_within_set [OF set])
  qed (use rest assms(2) in simp)
qed

text \<open>A new frame lies in its parent; without room, its slot keeps its buffer.\<close>

lemma frame_within_fields:
  "frame_within lo hi m frame \<Longrightarrow> frame_within lo hi m (frame\<lparr>ef_field_desc := f, ef_msg_desc := md\<rparr>)"
  by (simp add: frame_within_def)

lemma frame_within_child:
  assumes "frame_within lo hi m frame" and "\<not> lwpb_buf_left (ef_buf frame) < of_nat MSG_RESERVE_BYTES"
  shows "frame_within lo hi m (g\<lparr>ef_buf := lwpb_buf_init (buf_pos (ef_buf frame) + MSG_RESERVE_BYTES)
    (lwpb_buf_left (ef_buf frame) - of_nat MSG_RESERVE_BYTES)\<rparr>)"
proof -
  let ?buf = "ef_buf frame"
  have valid: "valid_buf m ?buf"
    using assms(1) by (simp add: frame_within_def)
  have reserve: "unat (of_nat MSG_RESERVE_BYTES :: u64) = MSG_RESERVE_BYTES"
    by (simp add: MSG_RESERVE_BYTES_def)
  have room: "buf_pos ?buf + MSG_RESERVE_BYTES \<le> buf_end ?buf"
    using assms(2) valid by (auto simp: valid_buf_left_less [OF valid] reserve valid_buf_def MSG_RESERVE_BYTES_def)
  have "unat (lwpb_buf_left ?buf - of_nat MSG_RESERVE_BYTES) = buf_end ?buf - buf_pos ?buf - MSG_RESERVE_BYTES"
    using assms(2) by (subst unat_sub) (auto simp: reserve valid_buf_left [OF valid])
  with room assms(1) show ?thesis
    by (auto simp: frame_within_def valid_buf_def)
qed

lemma open_frame_within:
  assumes "enc_open_frame f md enc = Inr (ret, enc')" and "frames_within lo hi m enc"
  shows "frames_within lo hi m enc'"
proof -
  obtain slot enc1 enc2 frame where "enc_push_stack_frame enc = Inr (slot, enc1)"
    and set: "enc_set slot (\<lambda>fr. fr\<lparr>ef_field_desc := Some f, ef_msg_desc := md\<rparr>) enc1 = Inr enc2"
    and get: "enc_get enc2 (enc_depth enc - 1) = Inr frame"
    and rest: "(if lwpb_buf_left (ef_buf frame) < of_nat MSG_RESERVE_BYTES then Inr (LWPB_ERR_END_OF_BUF, enc2)
       else andthen (enc_set slot (ef_buf_update (\<lambda>_. lwpb_buf_init (buf_pos (ef_buf frame) + MSG_RESERVE_BYTES)
                (lwpb_buf_left (ef_buf frame) - of_nat MSG_RESERVE_BYTES))) enc2) (\<lambda>enc. Inr (LWPB_ERR_OK, enc))) = Inr (ret, enc')"
    using assms(1) unfolding enc_open_frame_def by (auto simp: andthen_eq_Inr)
  then have "frames_within lo hi m enc1"
    using assms(2) by (auto simp: enc_push_stack_frame_def Let_def andthen_eq_Inr lwpb_assert_eq_Inr)
  from frames_within_set [OF set this frame_within_fields] have enc2: "frames_within lo hi m enc2" .
  note fw = frames_within_get [OF get enc2]
  show ?thesis
  proof (cases "lwpb_buf_left (ef_buf frame) < of_nat MSG_RESERVE_BYTES")
    case False
    with rest have "enc_set slot (ef_buf_update (\<lambda>_. lwpb_buf_init (buf_pos (ef_buf frame) + MSG_RESERVE_BYTES)
                (lwpb_buf_left (ef_buf frame) - of_nat MSG_RESERVE_BYTES))) enc2 = Inr enc'"
      by (auto simp: andthen_eq_Inr)
    then show ?thesis
      using frame_within_child [OF fw False] by (auto intro: frames_within_set [OF _ enc2])
  qed (use rest enc2 in simp)
qed

lemma pop_within:
  "enc_pop_stack_frame enc = Inr (slot, enc') \<Longrightarrow> frames_within lo hi m enc \<Longrightarrow> frames_within lo hi m enc'"
  by (auto simp: enc_pop_stack_frame_def Let_def andthen_eq_Inr lwpb_assert_eq_Inr)

lemma call_within:
  assumes call: "run_call ds c m enc = Inr (ret, m', enc')" and enc: "frames_within lo hi m enc"
  shows "same_outside lo hi m m' \<and> frames_within lo hi m' enc'"
proof (cases c)
  case (Call_add fr v)
  with call add_field_within [OF _ enc] show ?thesis by simp
next
  case (Call_nested_start fr)
  with call enc show ?thesis
    by (auto simp: lwpb_encoder_nested_start_def andthen_eq_Inr intro: open_frame_within)
next
  case (Call_packed_start fr)
  with call enc show ?thesis
    by (auto simp: lwpb_encoder_packed_repeated_start_def andthen_eq_Inr split: if_splits intro: open_frame_within)
next
  case Call_nested_end
  with call pop_within [OF _ enc] show ?thesis
    by (auto simp: lwpb_encoder_nested_end_def andthen_eq_Inr dest: add_field_within)
next
  case Call_packed_end
  with call pop_within [OF _ enc] show ?thesis
    by (auto simp: lwpb_encoder_packed_repeated_end_def andthen_eq_Inr dest: add_field_within)
qed

lemma call_seq_within:
  assumes "call_seq ds m0 enc0 msg data len clean m enc" and "frames_within data (data + unat len) m0 enc0"
    and "data + unat len \<le> length m0" and "length m0 < 2 ^ 63"
  shows "same_outside data (data + unat len) m0 m \<and> frames_within data (data + unat len) m enc"
  using assms(1)
proof induction
  case (call_seq_start enc)
  with frames_within_start [OF _ assms(2-4)] show ?case by simp
next
  case (call_seq_next clean m enc c ret m' enc')
  with call_within [OF call_seq_next(2)] show ?case by (blast intro: same_outside_trans)
qed

section \<open>Properties\<close>

text \<open>
  C4: In every sequence of calls in which no call follows a failed start of a nested message or packed
  field, whatever the fields and the values, the encoder writes only between the start and the end of the
  client's buffer, and the frames stay nested inside of it, each behind the bytes reserved in its parent.
  A sequence that goes on after a failed start writes to the buffer that was left in a slot of the stack; it
  still writes only to the client's buffer when, at the start, the buffers in all slots of the stack are
  empty, as in memory that is cleared, or lie in the client's buffer.
\<close>

theorem session_confined:
  assumes "call_seq ds m0 enc0 msg data len clean m enc" and "length (enc_stack enc0) = LWPB_MAX_DEPTH"
    and "data + unat len \<le> length m0" and "length m0 < 2 ^ 63"
  shows "(clean \<or> frames_within data (data + unat len) m0 enc0 \<longrightarrow> same_outside data (data + unat len) m0 m) \<and>
    (clean \<longrightarrow> enc_inv m enc \<and>
      (\<forall>k \<le> enc_top enc. data \<le> buf_base (frame_buf enc k) \<and> buf_end (frame_buf enc k) = data + unat len))"
proof (cases clean)
  case True
  note inv = session_keeps_inv [OF call_seq_session [OF assms(1,2) True] assms(3,4)]
  have "data \<le> buf_base (frame_buf enc k)" if "k \<le> enc_top enc" for k
  proof (cases k)
    case 0
    with inv show ?thesis by (simp add: session_inv_def)
  next
    case (Suc l)
    with that inv have "buf_base (frame_buf enc k) = buf_pos (frame_buf enc l) + MSG_RESERVE_BYTES"
      by (auto simp: session_inv_def enc_inv_def)
    with session_room(1) [OF inv, of l] that Suc show ?thesis by simp
  qed
  with inv session_room(2) [OF inv] show ?thesis
    by (auto simp: session_inv_def)
next
  case False
  with call_seq_within [OF assms(1) _ assms(3,4)] show ?thesis by simp
qed

end
