(* ===== verification/Decoder_Run.thy ===== *)
theory Decoder_Run
  imports Message
begin

text \<open>
  The decoder on the encoding of a message: it notifies its handlers of the message's events in order
  and uses up exactly the bytes of the encoding, whatever surrounds them and whatever was decoded before.
\<close>

section \<open>States of the decoding loop\<close>

text \<open>The decoder with a given argument state, stack, number of frames and mode.\<close>

definition dst :: "'s lwpb_decoder \<Rightarrow> 's \<Rightarrow> lwpb_decoder_stack_frame list \<Rightarrow> nat \<Rightarrow> bool \<Rightarrow> 's lwpb_decoder" where
  "dst dec s st k p = dec\<lparr>dec_arg := s, dec_stack := st, dec_depth := int k, dec_packed := p\<rparr>"

lemma dst_sel [simp]:
  "dec_packed (dst dec s st k p) = p" "dec_depth (dst dec s st k p) = int k"
  "dec_arg (dst dec s st k p) = s" "dec_stack (dst dec s st k p) = st"
  by (simp_all add: dst_def)

lemma dst_upd [simp]:
  "(dst dec s st k p)\<lparr>dec_packed := q\<rparr> = dst dec s st k q"
  "(dst dec s st k p)\<lparr>dec_arg := t\<rparr> = dst dec t st k p"
  "0 \<le> d \<Longrightarrow> (dst dec s st k p)\<lparr>dec_depth := d, dec_packed := q\<rparr> = dst dec s st (nat d) q"
  by (simp_all add: dst_def)

lemma dec_get_dst [simp]: "k < length st \<Longrightarrow> dec_get (dst dec s st (Suc k) p) = Inr (st ! k)"
  by (simp add: dec_get_def)

lemma dec_put_dst [simp]:
  "k < length st \<Longrightarrow> dec_put frame (dst dec s st (Suc k) p) = Inr (dst dec s (st[k := frame]) (Suc k) p)"
  by (simp add: dec_put_def) (simp add: dst_def)

lemma handle_dst [simp]: "handle (dst dec s st k p) ev = handle dec ev"
  by (cases ev) (simp_all add: dst_def fun_eq_iff)

lemma notify_dst [simp]:
  "notify ev (dst dec s st k p) = andthen (handle dec ev s) (\<lambda>s. Inr (dst dec s st k p))"
  by (simp add: notify_def)

lemma push_dst [simp]:
  assumes "Suc k < length st" and "length st = LWPB_MAX_DEPTH"
  shows "dec_push_stack_frame frame (dst dec s st (Suc k) p) =
    Inr (dst dec s (st[Suc k := frame]) (Suc (Suc k)) p)"
  using assms
  by (simp add: dec_push_stack_frame_def Let_def dec_put_def nat_add_distrib) (simp add: dst_def)

declare handle.simps [simp del]

section \<open>Single steps\<close>

lemma run_Enter:
  assumes "k < length st" and "st ! k = \<lparr>df_buf = buf, df_msg_desc = Some i\<rparr>"
  shows "decode_run ds m root (Enter, dst dec s st (Suc k) p, fr, wv) =
    (if lwpb_buf_used buf = 0
     then andthen (handle dec (Msg_start p i) s) (\<lambda>s. decode_run ds m root (Inner, dst dec s st (Suc k) p, fr, wv))
     else decode_run ds m root (Inner, dst dec s st (Suc k) p, fr, wv))"
  using assms by (subst decode_run.simps) (simp add: dec_step_def andthen_assoc)

lemma run_leave:
  assumes "k < length st" and "st ! k = \<lparr>df_buf = buf, df_msg_desc = Some i\<rparr>" and "lwpb_buf_left buf = 0"
  shows "decode_run ds m root (Inner, dst dec s st (Suc k) p, fr, wv) =
    andthen (handle dec (Msg_end p i) s) (\<lambda>s.
      if 1 \<le> k then decode_run ds m root (Enter, dst dec s st k False, fr, wv)
      else Inr (LWPB_ERR_OK, dst dec s st 0 False))"
  using assms
  by (subst decode_run.simps, cases "handle dec (Msg_end p i) s"; cases k)
    (simp_all add: dec_step_def dec_leave_def Let_def nat_add_distrib del: handle.simps)

lemma run_body:
  assumes "k < length st" and "st ! k = frame" and "0 < lwpb_buf_left (df_buf frame)"
    and "decode_key ds m p frame fr = Inr (LWPB_ERR_OK, buf1, wt, fr1)"
    and "decode_wire_value m wt buf1 wv = Inr (LWPB_ERR_OK, buf2, wv2)"
  shows "decode_run ds m root (Inner, dst dec s st (Suc k) p, fr, wv) =
    andthen (dispatch ds root (frame\<lparr>df_buf := buf2\<rparr>) wt fr1 wv2
        (dst dec s (st[k := frame\<lparr>df_buf := buf2\<rparr>]) (Suc k) p)) (\<lambda>r. case r of
      Goto st' \<Rightarrow> decode_run ds m root st' | Return ret dec \<Rightarrow> Inr (ret, dec))"
  using assms by (subst decode_run.simps) (simp add: dec_step_def dec_body_def)

section \<open>Keys and wire values in the encoded bytes\<close>

text \<open>Bytes that lie at the position of a buffer and inside of it.\<close>

definition at_pos :: "mem \<Rightarrow> lwpb_buf \<Rightarrow> u8 list \<Rightarrow> bool" where
  "at_pos m buf bs \<longleftrightarrow> valid_buf m buf \<and> buf_pos buf + length bs \<le> buf_end buf \<and>
     peek m (buf_pos buf) (length bs) = bs"

lemma at_pos_append:
  "at_pos m buf (xs @ ys) \<Longrightarrow> at_pos m buf xs \<and> at_pos m (advance (length xs) buf) ys"
  using peek_appendD [of m "buf_pos buf" xs ys] by (auto simp: at_pos_def valid_buf_def)

lemma at_pos_left: "at_pos m buf bs \<Longrightarrow> bs \<noteq> [] \<Longrightarrow> 0 < lwpb_buf_left buf"
  by (cases "lwpb_buf_left buf = 0") (auto simp: at_pos_def valid_buf_left_0 word_neq_0_conv)

lemma at_pos_varint: "at_pos m buf (varint_bytes v) \<Longrightarrow>
    lwpb_decode_varint m buf = Inr (LWPB_ERR_OK, advance (length (varint_bytes v)) buf, v)"
  by (simp add: at_pos_def varint.read_bytes)

lemma find_number_distinct:
  "distinct (map number fds) \<Longrightarrow> j < length fds \<Longrightarrow> find_number (number (fds ! j)) k fds = Some (k + j)"
proof (induction fds arbitrary: j k)
  case Nil
  then show ?case by simp
next
  case (Cons fd fds)
  then show ?case
    by (cases j) (auto simp: image_iff dest: nth_mem)
qed

lemma decode_key_at:
  assumes "wf_field ds i j" and "known wt"
    and "at_pos m buf (varint_bytes (field_key wt (number (the_field ds i j))))"
  shows "decode_key ds m False \<lparr>df_buf = buf, df_msg_desc = Some i\<rparr> fr =
    Inr (LWPB_ERR_OK, advance (length (varint_bytes (field_key wt (number (the_field ds i j))))) buf, wt, Some (i, j))"
proof -
  have "find_number (number (the_field ds i j)) 0 (msg_fields (ds ! i)) = Some j"
    using assms(1) find_number_distinct [of "msg_fields (ds ! i)" j 0]
    by (simp add: wf_field_def the_field_def)
  with assms show ?thesis
    by (simp add: decode_key_def at_pos_varint find_field_def wf_field_def key_number key_wire_type)
qed

lemma decode_scalar_at:
  assumes "scalar_ev ev" and "at_pos m buf (payload_bytes [] ev)"
  shows "\<exists>wv'. decode_wire_value m (enc_wire_type ev) buf wv =
    Inr (LWPB_ERR_OK, advance (length (payload_bytes [] ev)) buf, wv') \<and> carries wv' ev"
proof (cases ev)
  case (E_varint v)
  with assms show ?thesis by (simp add: decode_wire_value_def at_pos_varint)
next
  case (E_64bit v)
  with assms show ?thesis
    using fixed64.read_bytes [of m buf v] by (simp add: decode_wire_value_def at_pos_def)
next
  case (E_32bit v)
  with assms show ?thesis
    using fixed32.read_bytes [of m buf v] by (simp add: decode_wire_value_def at_pos_def)
qed (use assms in auto)

lemma decode_string_at:
  assumes "at_pos m buf (varint_bytes (of_nat (length bs)) @ bs)"
  shows "decode_wire_value m WT_STRING buf wv =
    Inr (LWPB_ERR_OK, advance (length (varint_bytes (of_nat (length bs))) + length bs) buf,
      wv\<lparr>wv_word := of_nat (length bs), wv_data := buf_pos buf + length (varint_bytes (of_nat (length bs)))\<rparr>) \<and>
    unat (of_nat (length bs) :: u64) = length bs"
proof -
  let ?k = "length (varint_bytes (of_nat (length bs)))"
  note split = at_pos_append [OF assms]
  have valid: "valid_buf m (advance ?k buf)" and room: "buf_pos buf + ?k + length bs \<le> buf_end buf"
    using split by (auto simp: at_pos_def)
  then have len: "unat (of_nat (length bs) :: u64) = length bs"
    by (auto simp: unat_of_nat valid_buf_def)
  have "\<not> lwpb_buf_left (advance ?k buf) < of_nat (length bs)"
    using room by (simp add: valid_buf_left_less [OF valid] len)
  with split len show ?thesis
    by (simp add: decode_wire_value_def at_pos_varint [OF conjunct1 [OF split]] Let_def)
qed

section \<open>Running over a piece of the input\<close>

text \<open>
  From the inner loop on the \<open>k\<close>-th frame, the run comes to the same loop with the position of the
  frame moved to that of \<open>buf'\<close> and the field descriptor \<open>fr'\<close>, having notified the events, and
  the frames below untouched.
\<close>

definition run_ok ::
    "descs \<Rightarrow> mem \<Rightarrow> msg_ref option \<Rightarrow> 's lwpb_decoder \<Rightarrow> msg_ref \<Rightarrow> nat \<Rightarrow> bool \<Rightarrow>
     lwpb_decoder_stack_frame list \<Rightarrow> field_ref option \<Rightarrow> wire_value \<Rightarrow> lwpb_buf \<Rightarrow> field_ref option \<Rightarrow> event list \<Rightarrow> bool" where
  "run_ok ds m root dec i k p st fr wv buf' fr' evs \<longleftrightarrow> (\<exists>st' wv'.
     length st' = length st \<and> take k st' = take k st \<and> st' ! k = \<lparr>df_buf = buf', df_msg_desc = Some i\<rparr> \<and>
     (\<forall>s. decode_run ds m root (Inner, dst dec s st (Suc k) p, fr, wv) =
        andthen (handle_events dec evs s) (\<lambda>s. decode_run ds m root (Inner, dst dec s st' (Suc k) p, fr', wv'))))"

lemma run_ok_Nil: "st ! k = \<lparr>df_buf = buf, df_msg_desc = Some i\<rparr> \<Longrightarrow> run_ok ds m root dec i k p st fr wv buf fr []"
  unfolding run_ok_def by (intro exI [of _ st] exI [of _ wv]) simp

lemma run_ok_append:
  assumes "run_ok ds m root dec i k p st fr wv buf1 fr1 evs1"
    and "\<And>st1 wv1. length st1 = length st \<Longrightarrow> st1 ! k = \<lparr>df_buf = buf1, df_msg_desc = Some i\<rparr> \<Longrightarrow>
      run_ok ds m root dec i k p st1 fr1 wv1 buf2 fr2 evs2"
  shows "run_ok ds m root dec i k p st fr wv buf2 fr2 (evs1 @ evs2)"
proof -
  obtain st1 wv1 where 1: "length st1 = length st" "take k st1 = take k st"
      "st1 ! k = \<lparr>df_buf = buf1, df_msg_desc = Some i\<rparr>"
      "\<And>s. decode_run ds m root (Inner, dst dec s st (Suc k) p, fr, wv) =
        andthen (handle_events dec evs1 s) (\<lambda>s. decode_run ds m root (Inner, dst dec s st1 (Suc k) p, fr1, wv1))"
    using assms(1) unfolding run_ok_def by blast
  then have "run_ok ds m root dec i k p st1 fr1 wv1 buf2 fr2 evs2"
    using assms(2) [of st1 wv1] by blast
  then obtain st2 wv2 where 2: "length st2 = length st1" "take k st2 = take k st1"
      "st2 ! k = \<lparr>df_buf = buf2, df_msg_desc = Some i\<rparr>"
      "\<And>s. decode_run ds m root (Inner, dst dec s st1 (Suc k) p, fr1, wv1) =
        andthen (handle_events dec evs2 s) (\<lambda>s. decode_run ds m root (Inner, dst dec s st2 (Suc k) p, fr2, wv2))"
    unfolding run_ok_def by blast
  from 1 2 show ?thesis
    unfolding run_ok_def
    by (intro exI [of _ st2] exI [of _ wv2])
      (simp add: handle_events_append andthen_assoc cong: andthen_cong)
qed

text \<open>A frame on top: it starts, runs and ends, and the loop goes on in the frame below.\<close>

lemma run_frame:
  assumes st: "length st = LWPB_MAX_DEPTH" "Suc k < LWPB_MAX_DEPTH"
    and top: "st ! Suc k = \<lparr>df_buf = buf, df_msg_desc = Some i'\<rparr>" "lwpb_buf_used buf = 0"
    and below: "st ! k = \<lparr>df_buf = buf0, df_msg_desc = Some i\<rparr>" "lwpb_buf_used buf0 \<noteq> 0"
    and run: "run_ok ds m root dec i' (Suc k) p st fr wv buf' fr' evs" and used_up: "lwpb_buf_left buf' = 0"
  shows "\<exists>st' wv'. length st' = length st \<and> take (Suc k) st' = take (Suc k) st \<and>
    (\<forall>s. decode_run ds m root (Enter, dst dec s st (Suc (Suc k)) p, fr, wv) =
      andthen (handle_events dec (Msg_start p i' # evs @ [Msg_end p i']) s)
        (\<lambda>s. decode_run ds m root (Inner, dst dec s st' (Suc k) False, fr', wv')))"
proof -
  obtain st' wv' where st': "length st' = length st" "take (Suc k) st' = take (Suc k) st"
      "st' ! Suc k = \<lparr>df_buf = buf', df_msg_desc = Some i'\<rparr>"
    and run': "\<And>s. decode_run ds m root (Inner, dst dec s st (Suc (Suc k)) p, fr, wv) =
      andthen (handle_events dec evs s) (\<lambda>s. decode_run ds m root (Inner, dst dec s st' (Suc (Suc k)) p, fr', wv'))"
    using run unfolding run_ok_def by blast
  have "st' ! k = st ! k"
    using st'(2) by (metis lessI nth_take)
  then have enter: "decode_run ds m root (Enter, dst dec s st' (Suc k) False, fr', wv') =
      decode_run ds m root (Inner, dst dec s st' (Suc k) False, fr', wv')" for s
    using run_Enter [where dec = dec, of k st' buf0 i] below st st'(1) by simp
  have leave: "decode_run ds m root (Inner, dst dec s st' (Suc (Suc k)) p, fr', wv') =
      andthen (handle dec (Msg_end p i') s) (\<lambda>s. decode_run ds m root (Inner, dst dec s st' (Suc k) False, fr', wv'))" for s
    using run_leave [where dec = dec, OF _ st'(3) used_up] st st'(1) enter by simp
  have "decode_run ds m root (Enter, dst dec s st (Suc (Suc k)) p, fr, wv) =
      andthen (handle_events dec (Msg_start p i' # evs @ [Msg_end p i']) s)
        (\<lambda>s. decode_run ds m root (Inner, dst dec s st' (Suc k) False, fr', wv'))" for s
    using st top run' leave run_Enter [where dec = dec, OF _ top(1)]
    by (simp add: handle_events_append andthen_assoc del: handle.simps cong: andthen_cong)
  with st' show ?thesis by blast
qed

section \<open>The pieces of a message\<close>

text \<open>A pass of the inner loop that ends in a call of the field handler with a value.\<close>

lemma run_value:
  assumes st: "k < length st" "st ! k = \<lparr>df_buf = buf, df_msg_desc = Some i\<rparr>" and left: "0 < lwpb_buf_left buf"
    and wf: "wf_field ds i j" and fd: "fd = the_field ds i j"
    and key: "decode_key ds m p \<lparr>df_buf = buf, df_msg_desc = Some i\<rparr> fr = Inr (LWPB_ERR_OK, buf1, wt, Some (i, j))"
    and wire: "decode_wire_value m wt buf1 wv = Inr (LWPB_ERR_OK, buf2, wv2)"
    and scalar: "wt \<noteq> WT_STRING \<or> \<not> is_packed_repeated fd" and v: "value_of_wire (field_type fd) wv2 = Some v"
  shows "run_ok ds m root dec i k p st fr wv buf2 (Some (i, j)) [Msg_field p (Some i) (i, j) (Some v)]"
proof -
  let ?st = "st[k := \<lparr>df_buf = buf2, df_msg_desc = Some i\<rparr>]"
  have "decode_run ds m root (Inner, dst dec s st (Suc k) p, fr, wv) =
      andthen (handle dec (Msg_field p (Some i) (i, j) (Some v)) s)
        (\<lambda>s. decode_run ds m root (Inner, dst dec s ?st (Suc k) p, Some (i, j), wv2))" for s
    using run_body [where dec = dec, OF st _ key wire] left scalar v fd
    by (auto simp: dispatch_def wf_field_deref [OF wf] andthen_assoc)
  then show ?thesis
    unfolding run_ok_def using st
    by (intro exI [of _ ?st] exI [of _ wv2]) (auto cong: andthen_cong)
qed

lemma run_scalar:
  assumes st: "k < length st" "st ! k = \<lparr>df_buf = buf, df_msg_desc = Some i\<rparr>"
    and wf: "wf_item ds i (Scalar j v)" and pos: "at_pos m buf (item_bytes ds i (Scalar j v))"
  shows "run_ok ds m root dec i k False st fr wv (advance (length (item_bytes ds i (Scalar j v))) buf)
    (Some (i, j)) (item_events ds root i a (Scalar j v))"
proof -
  let ?fd = "the_field ds i j"
  let ?ev = "scalar_wire (field_type ?fd) v"
  have wff: "wf_field ds i j" and np: "\<not> is_packed_repeated ?fd" and ok: "scalar_ok (field_type ?fd) v"
    using wf by (simp_all add: Let_def)
  note sc = scalar_cases [OF ok]
  have "at_pos m buf (key_bytes ?ev ?fd @ payload_bytes [] ?ev)"
    using pos by (simp add: Let_def scalar_bytes_def)
  from at_pos_append [OF this] have 1: "at_pos m buf (key_bytes ?ev ?fd)"
    and 2: "at_pos m (advance (length (key_bytes ?ev ?fd)) buf) (payload_bytes [] ?ev)"
    by auto
  have key: "decode_key ds m False \<lparr>df_buf = buf, df_msg_desc = Some i\<rparr> fr =
      Inr (LWPB_ERR_OK, advance (length (key_bytes ?ev ?fd)) buf, enc_wire_type ?ev, Some (i, j))"
    using decode_key_at [OF wff _ 1 [unfolded key_bytes_def]] sc(2) by (simp add: key_bytes_def)
  from decode_scalar_at [OF sc(2) 2] obtain wv' where
    wire: "decode_wire_value m (enc_wire_type ?ev) (advance (length (key_bytes ?ev ?fd)) buf) wv =
      Inr (LWPB_ERR_OK, advance (length (key_bytes ?ev ?fd) + length (payload_bytes [] ?ev)) buf, wv')"
    and carries: "carries wv' ?ev"
    by auto
  show ?thesis
    using run_value [OF st at_pos_left [OF 1] wff refl key wire _ sc(5) [OF carries]] np
    by (simp add: Let_def scalar_bytes_def)
qed

lemma payload_not_Nil: "scalar_ev ev \<Longrightarrow> payload_bytes m ev \<noteq> []"
  by (cases ev) (auto simp: le_bytes_def)

lemma run_packed_values:
  assumes "k < length st" "st ! k = \<lparr>df_buf = buf, df_msg_desc = Some i\<rparr>"
    and wff: "wf_field ds i j" and "fr = Some (i, j)"
    and "list_all (scalar_ok (field_type (the_field ds i j))) vs"
    and "at_pos m buf (concat (map (scalar_bytes (the_field ds i j)) vs))"
  shows "run_ok ds m root dec i k True st fr wv
    (advance (length (concat (map (scalar_bytes (the_field ds i j)) vs))) buf)
    (Some (i, j)) (map (\<lambda>v. Msg_field True (Some i) (i, j) (Some v)) vs)"
  using assms
proof (induction vs arbitrary: st buf fr wv)
  case Nil
  then show ?case by (simp add: run_ok_Nil)
next
  case (Cons v vs)
  let ?fd = "the_field ds i j"
  let ?ev = "scalar_wire (field_type ?fd) v"
  let ?buf = "advance (length (payload_bytes [] ?ev)) buf"
  have ok: "scalar_ok (field_type ?fd) v"
    using Cons.prems by simp
  note sc = scalar_cases [OF ok]
  have "at_pos m buf (payload_bytes [] ?ev @ concat (map (scalar_bytes ?fd) vs))"
    using Cons.prems by (simp add: scalar_bytes_def [of _ v])
  from at_pos_append [OF this] have 1: "at_pos m buf (payload_bytes [] ?ev)"
    and 2: "at_pos m ?buf (concat (map (scalar_bytes ?fd) vs))"
    by auto
  have key: "decode_key ds m True \<lparr>df_buf = buf, df_msg_desc = Some i\<rparr> fr =
      Inr (LWPB_ERR_OK, buf, enc_wire_type ?ev, Some (i, j))"
    using sc(4) [OF refl] Cons.prems(4) by (simp add: decode_key_def wf_field_deref [OF wff])
  from decode_scalar_at [OF sc(2) 1] obtain wv' where
    wire: "decode_wire_value m (enc_wire_type ?ev) buf wv = Inr (LWPB_ERR_OK, ?buf, wv')"
    and carries: "carries wv' ?ev"
    by auto
  have ns: "enc_wire_type ?ev \<noteq> WT_STRING"
    using sc(2) by (cases ?ev) auto
  have first: "run_ok ds m root dec i k True st fr wv ?buf (Some (i, j)) [Msg_field True (Some i) (i, j) (Some v)]"
    using run_value [OF Cons.prems(1,2) at_pos_left [OF 1 payload_not_Nil [OF sc(2)]] wff refl key wire _ sc(5) [OF carries]]
      ns by simp
  have rest: "run_ok ds m root dec i k True st1 (Some (i, j)) wv1
      (advance (length (concat (map (scalar_bytes ?fd) vs))) ?buf) (Some (i, j)) (map (\<lambda>v. Msg_field True (Some i) (i, j) (Some v)) vs)"
    if "length st1 = length st" "st1 ! k = \<lparr>df_buf = ?buf, df_msg_desc = Some i\<rparr>" for st1 wv1
    using that Cons.prems(1,4,5) by (intro Cons.IH [OF _ _ wff _ _ 2]) auto
  have "length (concat (map (scalar_bytes ?fd) (v # vs))) =
      length (payload_bytes [] ?ev) + length (concat (map (scalar_bytes ?fd) vs))"
    by (simp add: scalar_bytes_def [of _ v])
  with run_ok_append [OF first rest] show ?case
    by (simp only: advance_advance list.map append_Cons append_Nil)
qed

lemma run_data:
  assumes st: "k < length st" "st ! k = \<lparr>df_buf = buf, df_msg_desc = Some i\<rparr>"
    and wf: "wf_item ds i (Data j bs)" and pos: "at_pos m buf (item_bytes ds i (Data j bs))"
  shows "run_ok ds m root dec i k False st fr wv (advance (length (item_bytes ds i (Data j bs))) buf)
    (Some (i, j)) (item_events ds root i (buf_pos buf) (Data j bs))"
proof -
  let ?fd = "the_field ds i j"
  let ?key = "varint_bytes (field_key WT_STRING (number ?fd))" and ?len = "varint_bytes (of_nat (length bs))"
  have wff: "wf_field ds i j" and np: "\<not> is_packed_repeated ?fd"
    and ty: "field_type ?fd = LWPB_STRING \<or> field_type ?fd = LWPB_BYTES"
    using wf by (simp_all add: Let_def)
  have "at_pos m buf (?key @ ?len @ bs)"
    using pos by (simp add: delimited_def)
  from at_pos_append [OF this] have 1: "at_pos m buf ?key" and 2: "at_pos m (advance (length ?key) buf) (?len @ bs)"
    by auto
  have key: "decode_key ds m False \<lparr>df_buf = buf, df_msg_desc = Some i\<rparr> fr =
      Inr (LWPB_ERR_OK, advance (length ?key) buf, WT_STRING, Some (i, j))"
    using decode_key_at [OF wff _ 1] by (simp add: known_def)
  let ?wv = "wv\<lparr>wv_word := of_nat (length bs), wv_data := buf_pos buf + length ?key + length ?len\<rparr>"
  have wire: "decode_wire_value m WT_STRING (advance (length ?key) buf) wv =
      Inr (LWPB_ERR_OK, advance (length ?key + (length ?len + length bs)) buf, ?wv)"
    using decode_string_at [OF 2] by simp
  have v: "value_of_wire (field_type ?fd) ?wv = Some (data_value ?fd (content_addr (buf_pos buf) ?fd bs) bs)"
    using ty by (auto simp: value_of_wire_def data_value_def content_addr_def)
  show ?thesis
    using run_value [OF st at_pos_left [OF 1] wff refl key wire _ v] np
    by (simp add: Let_def delimited_def)
qed

text \<open>A length-delimited field whose contents get a frame of their own.\<close>

definition content_buf :: "lwpb_buf \<Rightarrow> lwpb_field_desc \<Rightarrow> u8 list \<Rightarrow> lwpb_buf" where
  "content_buf buf fd c = lwpb_buf_init (content_addr (buf_pos buf) fd c) (of_nat (length c))"

lemma at_pos_content:
  assumes "at_pos m buf (delimited fd c)"
  shows "at_pos m (content_buf buf fd c) c" and "buf_end (content_buf buf fd c) = content_addr (buf_pos buf) fd c + length c"
proof -
  let ?key = "varint_bytes (field_key WT_STRING (number fd))" and ?len = "varint_bytes (of_nat (length c))"
  have "at_pos m buf (?key @ ?len @ c)"
    using assms by (simp add: delimited_def)
  from at_pos_append [OF this] have 2: "at_pos m (advance (length ?key) buf) (?len @ c)" by simp
  from at_pos_append [OF 2] have 3: "at_pos m (advance (length ?key + length ?len) buf) c" by simp
  have len: "unat (of_nat (length c) :: u64) = length c"
    using decode_string_at [OF 2] by simp
  then show "buf_end (content_buf buf fd c) = content_addr (buf_pos buf) fd c + length c"
    by (simp add: content_buf_def)
  with 3 len show "at_pos m (content_buf buf fd c) c"
    by (auto simp: at_pos_def content_buf_def content_addr_def valid_buf_def add.assoc)
qed

lemma delimited_length: "0 < length (delimited fd c)"
  by (simp add: delimited_def)

lemma run_delimited:
  assumes st: "length st = LWPB_MAX_DEPTH" "Suc k < LWPB_MAX_DEPTH" "st ! k = \<lparr>df_buf = buf, df_msg_desc = Some i\<rparr>"
    and wff: "wf_field ds i j" and fd: "fd = the_field ds i j" and pos: "at_pos m buf (delimited fd c)"
    and kind: "p \<and> is_packed_repeated fd \<and> i' = i \<and> pre = [] \<or>
      \<not> p \<and> \<not> is_packed_repeated fd \<and> field_type fd = LWPB_MESSAGE \<and> fd_msg_desc fd = Some i' \<and>
      pre = [Msg_field False root (i, j) None]"
    and inner: "\<And>st2 wv2. length st2 = LWPB_MAX_DEPTH \<Longrightarrow>
      st2 ! Suc k = \<lparr>df_buf = content_buf buf fd c, df_msg_desc = Some i'\<rparr> \<Longrightarrow>
      run_ok ds m root dec i' (Suc k) p st2 (Some (i, j)) wv2 (advance (length c) (content_buf buf fd c)) fr' evs"
  shows "run_ok ds m root dec i k False st fr wv (advance (length (delimited fd c)) buf) fr'
    (pre @ [Msg_start p i'] @ evs @ [Msg_end p i'])"
proof -
  let ?key = "varint_bytes (field_key WT_STRING (number fd))" and ?len = "varint_bytes (of_nat (length c))"
  let ?buf = "advance (length (delimited fd c)) buf" and ?content = "content_buf buf fd c"
  let ?wv = "wv\<lparr>wv_word := of_nat (length c), wv_data := buf_pos buf + length ?key + length ?len\<rparr>"
  let ?st = "st[k := \<lparr>df_buf = ?buf, df_msg_desc = Some i\<rparr>, Suc k := \<lparr>df_buf = ?content, df_msg_desc = Some i'\<rparr>]"
  have "at_pos m buf (?key @ ?len @ c)"
    using pos by (simp add: delimited_def)
  from at_pos_append [OF this] have 1: "at_pos m buf ?key" and 2: "at_pos m (advance (length ?key) buf) (?len @ c)"
    by auto
  have key: "decode_key ds m False \<lparr>df_buf = buf, df_msg_desc = Some i\<rparr> fr =
      Inr (LWPB_ERR_OK, advance (length ?key) buf, WT_STRING, Some (i, j))"
    using decode_key_at [OF wff _ 1 [unfolded fd]] by (simp add: known_def fd)
  have wire: "decode_wire_value m WT_STRING (advance (length ?key) buf) wv = Inr (LWPB_ERR_OK, ?buf, ?wv)"
    using decode_string_at [OF 2] by (simp add: delimited_def)
  have new: "new_frame msg ?wv = \<lparr>df_buf = ?content, df_msg_desc = msg\<rparr>" for msg
    by (simp add: new_frame_def content_buf_def content_addr_def)
  have open_: "decode_run ds m root (Inner, dst dec s st (Suc k) False, fr, wv) =
      andthen (handle_events dec pre s) (\<lambda>s. decode_run ds m root (Enter, dst dec s ?st (Suc (Suc k)) p, Some (i, j), ?wv))" for s
    using run_body [where dec = dec, OF _ st(3) _ key wire] st at_pos_left [OF 1] kind
    by (auto simp: dispatch_def wf_field_deref [OF wff, folded fd] andthen_assoc new value_of_wire_def
        cong: andthen_cong)
  have st2: "length ?st = LWPB_MAX_DEPTH" "?st ! Suc k = \<lparr>df_buf = ?content, df_msg_desc = Some i'\<rparr>"
    "?st ! k = \<lparr>df_buf = ?buf, df_msg_desc = Some i\<rparr>"
    using st by auto
  have valid: "valid_buf m ?buf"
    using pos by (auto simp: at_pos_def valid_buf_def)
  have moved: "lwpb_buf_used ?buf \<noteq> 0"
    unfolding valid_buf_used_0 [OF valid] using pos delimited_length [of fd c]
    by (auto simp: at_pos_def valid_buf_def simp del: length_greater_0_conv)
  have content: "valid_buf m (advance (length c) ?content)"
    using at_pos_content [OF pos] by (auto simp: at_pos_def valid_buf_def)
  have empty: "lwpb_buf_left (advance (length c) ?content) = 0"
    unfolding valid_buf_left_0 [OF content]
    using at_pos_content(2) [OF pos] by (simp add: content_buf_def)
  have fresh: "lwpb_buf_used ?content = 0"
    by (simp add: content_buf_def lwpb_buf_used_def size_of_int_def)
  obtain st' wv' where st': "length st' = length ?st" "take (Suc k) st' = take (Suc k) ?st"
    and run: "\<And>s. decode_run ds m root (Enter, dst dec s ?st (Suc (Suc k)) p, Some (i, j), ?wv) =
      andthen (handle_events dec (Msg_start p i' # evs @ [Msg_end p i']) s)
        (\<lambda>s. decode_run ds m root (Inner, dst dec s st' (Suc k) False, fr', wv'))"
    using run_frame [OF st2(1) st(2) st2(2) fresh st2(3) moved inner [OF st2(1,2)] empty] by blast
  have "take k st' = take k (take (Suc k) st')" and "st' ! k = take (Suc k) st' ! k"
    by (simp_all add: min_def)
  then have "take k st' = take k st" and "st' ! k = \<lparr>df_buf = ?buf, df_msg_desc = Some i\<rparr>"
    unfolding st'(2) using st by (simp_all add: min_def)
  then show ?thesis
    unfolding run_ok_def using st' st open_ run
    by (intro exI [of _ st'] exI [of _ wv'])
      (simp add: handle_events_append andthen_assoc cong: andthen_cong)
qed

section \<open>The whole message\<close>

text \<open>The field descriptor that the loop is left with after an item and after several.\<close>

fun item_last :: "descs \<Rightarrow> msg_ref \<Rightarrow> 'd item \<Rightarrow> field_ref option"
and items_last :: "descs \<Rightarrow> msg_ref \<Rightarrow> 'd item list \<Rightarrow> field_ref option \<Rightarrow> field_ref option" where
  "item_last ds i (Scalar j v) = Some (i, j)"
| "item_last ds i (Data j d) = Some (i, j)"
| "item_last ds i (Sub j its) = items_last ds (the (fd_msg_desc (the_field ds i j))) its (Some (i, j))"
| "item_last ds i (Packed j vs) = Some (i, j)"
| "items_last ds i [] fr = fr"
| "items_last ds i (it # its) fr = items_last ds i its (item_last ds i it)"

lemma item_bytes_delimited:
  "item_bytes ds i (Sub j its) = delimited (the_field ds i j) (items_bytes ds (the (fd_msg_desc (the_field ds i j))) its)"
  "item_bytes ds i (Packed j vs) = delimited (the_field ds i j) (concat (map (scalar_bytes (the_field ds i j)) vs))"
  by (simp_all add: Let_def)

lemma run_items:
  "wf_item ds i it \<Longrightarrow> length st = LWPB_MAX_DEPTH \<Longrightarrow> k + item_depth it < LWPB_MAX_DEPTH \<Longrightarrow>
    st ! k = \<lparr>df_buf = buf, df_msg_desc = Some i\<rparr> \<Longrightarrow> at_pos m buf (item_bytes ds i it) \<Longrightarrow>
    run_ok ds m root dec i k False st fr wv (advance (length (item_bytes ds i it)) buf) (item_last ds i it)
      (item_events ds root i (buf_pos buf) it)"
  "wf_items ds i its \<Longrightarrow> length st = LWPB_MAX_DEPTH \<Longrightarrow> k + items_depth its < LWPB_MAX_DEPTH \<Longrightarrow>
    st ! k = \<lparr>df_buf = buf, df_msg_desc = Some i\<rparr> \<Longrightarrow> at_pos m buf (items_bytes ds i its) \<Longrightarrow>
    run_ok ds m root dec i k False st fr wv (advance (length (items_bytes ds i its)) buf) (items_last ds i its fr)
      (items_events ds root i (buf_pos buf) its)"
proof (induction ds i it and ds i its arbitrary: st k buf fr wv and st k buf fr wv
    rule: wf_item_wf_items.induct)
  case (1 ds i j v)
  then show ?case unfolding item_last.simps by (intro run_scalar) auto
next
  case (2 ds i j bs)
  then show ?case unfolding item_last.simps by (intro run_data) auto
next
  case (3 ds i j its)
  let ?fd = "the_field ds i j"
  let ?i = "the (fd_msg_desc ?fd)"
  let ?c = "items_bytes ds ?i its"
  have wf: "wf_field ds i j" "\<not> is_packed_repeated ?fd" "field_type ?fd = LWPB_MESSAGE"
    "fd_msg_desc ?fd = Some ?i" "wf_items ds ?i its"
    using "3.prems"(1) by (auto simp: Let_def)
  have pos: "at_pos m buf (delimited ?fd ?c)"
    using "3.prems"(5) by (simp only: item_bytes_delimited)
  have inner: "run_ok ds m root dec ?i (Suc k) False st2 (Some (i, j)) wv2
      (advance (length ?c) (content_buf buf ?fd ?c)) (items_last ds ?i its (Some (i, j)))
      (items_events ds root ?i (content_addr (buf_pos buf) ?fd ?c) its)"
    if "length st2 = LWPB_MAX_DEPTH" "st2 ! Suc k = \<lparr>df_buf = content_buf buf ?fd ?c, df_msg_desc = Some ?i\<rparr>" for st2 wv2
    using "3.IH" [OF refl wf(5) that(1) _ that(2) at_pos_content(1) [OF pos]] "3.prems"(3)
    by (simp add: content_buf_def)
  have "run_ok ds m root dec i k False st fr wv (advance (length (delimited ?fd ?c)) buf)
    (items_last ds ?i its (Some (i, j))) ([Msg_field False root (i, j) None] @ [Msg_start False ?i] @
      items_events ds root ?i (content_addr (buf_pos buf) ?fd ?c) its @ [Msg_end False ?i])"
    using "3.prems"(3) wf by (intro run_delimited [OF "3.prems"(2) _ "3.prems"(4) wf(1) refl pos _ inner]) auto
  then show ?case
    by (simp only: item_bytes_delimited item_events.simps item_last.simps Let_def append.simps)
next
  case (4 ds i j vs)
  let ?fd = "the_field ds i j"
  let ?c = "concat (map (scalar_bytes ?fd) vs)"
  have wf: "wf_field ds i j" "is_packed_repeated ?fd" "list_all (scalar_ok (field_type ?fd)) vs"
    using "4.prems"(1) by (auto simp: Let_def)
  have pos: "at_pos m buf (delimited ?fd ?c)"
    using "4.prems"(5) by (simp only: item_bytes_delimited)
  have inner: "run_ok ds m root dec i (Suc k) True st2 (Some (i, j)) wv2
      (advance (length ?c) (content_buf buf ?fd ?c)) (Some (i, j)) (map (\<lambda>v. Msg_field True (Some i) (i, j) (Some v)) vs)"
    if "length st2 = LWPB_MAX_DEPTH" "st2 ! Suc k = \<lparr>df_buf = content_buf buf ?fd ?c, df_msg_desc = Some i\<rparr>" for st2 wv2
    using that "4.prems"(3) by (intro run_packed_values [OF _ that(2) wf(1) refl wf(3) at_pos_content(1) [OF pos]]) simp
  have "run_ok ds m root dec i k False st fr wv (advance (length (delimited ?fd ?c)) buf)
    (Some (i, j)) ([] @ [Msg_start True i] @ map (\<lambda>v. Msg_field True (Some i) (i, j) (Some v)) vs @ [Msg_end True i])"
    using "4.prems"(3) wf by (intro run_delimited [OF "4.prems"(2) _ "4.prems"(4) wf(1) refl pos _ inner]) auto
  then show ?case
    by (simp only: item_bytes_delimited item_events.simps item_last.simps append.simps)
next
  case (5 ds i)
  then show ?case by (simp add: run_ok_Nil)
next
  case (6 ds i it its)
  let ?buf = "advance (length (item_bytes ds i it)) buf"
  have "at_pos m buf (item_bytes ds i it @ items_bytes ds i its)"
    using "6.prems"(5) by simp
  from at_pos_append [OF this] have 1: "at_pos m buf (item_bytes ds i it)" and 2: "at_pos m ?buf (items_bytes ds i its)"
    by auto
  have wf: "wf_item ds i it" "wf_items ds i its"
    and depth: "k + item_depth it < LWPB_MAX_DEPTH" "k + items_depth its < LWPB_MAX_DEPTH"
    using "6.prems"(1,3) by simp_all
  have first: "run_ok ds m root dec i k False st fr wv ?buf (item_last ds i it) (item_events ds root i (buf_pos buf) it)"
    by (rule "6.IH"(1) [OF wf(1) "6.prems"(2) depth(1) "6.prems"(4) 1])
  have rest: "run_ok ds m root dec i k False st1 (item_last ds i it) wv1 (advance (length (items_bytes ds i its)) ?buf)
      (items_last ds i its (item_last ds i it)) (items_events ds root i (buf_pos ?buf) its)"
    if "length st1 = length st" "st1 ! k = \<lparr>df_buf = ?buf, df_msg_desc = Some i\<rparr>" for st1 wv1
    by (rule "6.IH"(2) [OF wf(2) _ depth(2) that(2) 2]) (simp add: that(1) "6.prems"(2))
  have "run_ok ds m root dec i k False st fr wv (advance (length (items_bytes ds i its)) ?buf)
      (items_last ds i its (item_last ds i it)) (item_events ds root i (buf_pos buf) it @ items_events ds root i (buf_pos ?buf) its)"
    by (rule run_ok_append [OF first]) (rule rest)
  then show ?case
    by (simp only: items_bytes.simps items_events.simps items_last.simps length_append advance_advance advance_sel)
qed

text \<open>
  Decoding a buffer that starts with a message: the loop comes to where the message ends, with the start and
  the items of the message notified.
\<close>

lemma decode_prefix:
  assumes wf: "wf_items ds i its" and depth: "items_depth its < LWPB_MAX_DEPTH"
    and st: "length (dec_stack dec) = LWPB_MAX_DEPTH"
    and pos: "at_pos m (lwpb_buf_init data len) (items_bytes ds i its)"
  shows "\<exists>st' wv'. length st' = LWPB_MAX_DEPTH \<and>
    st' ! 0 = \<lparr>df_buf = advance (length (items_bytes ds i its)) (lwpb_buf_init data len), df_msg_desc = Some i\<rparr> \<and>
    lwpb_decoder_decode ds m wv dec (Some i) data len =
    andthen (handle_events dec (Msg_start False i # items_events ds (Some i) i data its) (dec_arg dec)) (\<lambda>s.
    andthen (decode_run ds m (Some i) (Inner, dst dec s st' (Suc 0) False, items_last ds i its None, wv')) (\<lambda>(ret, dec).
      if ret \<noteq> LWPB_ERR_OK then Inr (ret, dec, None)
      else Inr (LWPB_ERR_OK, dec, Some (lwpb_buf_used (df_buf (dec_stack dec ! 0))))))"
proof -
  let ?n = "length (items_bytes ds i its)" and ?buf = "lwpb_buf_init data len"
  let ?st = "(dec_stack dec)[0 := \<lparr>df_buf = ?buf, df_msg_desc = Some i\<rparr>]"
  have top: "length ?st = LWPB_MAX_DEPTH" "0 < length ?st" "?st ! 0 = \<lparr>df_buf = ?buf, df_msg_desc = Some i\<rparr>"
    using st by (auto simp: LWPB_MAX_DEPTH_def)
  then have put: "dec_put \<lparr>df_buf = ?buf, df_msg_desc = Some i\<rparr> (dec\<lparr>dec_depth := 1, dec_packed := False\<rparr>) =
      Inr (dst dec (dec_arg dec) ?st (Suc 0) False)"
    by (simp add: dec_put_def dst_def)
  have fresh: "lwpb_buf_used ?buf = 0"
    by (simp add: lwpb_buf_used_def size_of_int_def)
  have "run_ok ds m (Some i) dec i 0 False ?st None wv (advance ?n ?buf) (items_last ds i its None)
      (items_events ds (Some i) i (buf_pos ?buf) its)"
    using depth by (intro run_items(2) [OF wf top(1) _ top(3) pos]) simp
  then obtain st' wv' where st': "length st' = length ?st" "st' ! 0 = \<lparr>df_buf = advance ?n ?buf, df_msg_desc = Some i\<rparr>"
    and run: "\<And>s. decode_run ds m (Some i) (Inner, dst dec s ?st (Suc 0) False, None, wv) =
      andthen (handle_events dec (items_events ds (Some i) i data its) s)
        (\<lambda>s. decode_run ds m (Some i) (Inner, dst dec s st' (Suc 0) False, items_last ds i its None, wv'))"
    unfolding run_ok_def by auto
  have enter: "decode_run ds m (Some i) (Enter, dst dec s ?st (Suc 0) False, None, wv) =
      andthen (handle dec (Msg_start False i) s)
        (\<lambda>s. decode_run ds m (Some i) (Inner, dst dec s ?st (Suc 0) False, None, wv))" for s
    using run_Enter [where dec = dec, OF top(2,3)] fresh by simp
  show ?thesis
    using enter run st' top(1) by (intro exI [of _ st'] exI [of _ wv'])
      (simp add: lwpb_decoder_decode_def put andthen_assoc cong: andthen_cong)
qed

text \<open>The end of the buffer.\<close>

lemma decode_ends:
  assumes "length st = LWPB_MAX_DEPTH" and "st ! 0 = \<lparr>df_buf = buf, df_msg_desc = Some i\<rparr>" and "lwpb_buf_left buf = 0"
  shows "decode_run ds m root (Inner, dst dec s st (Suc 0) False, fr, wv) =
    andthen (handle dec (Msg_end False i) s) (\<lambda>s. Inr (LWPB_ERR_OK, dst dec s st 0 False))"
  using run_leave [where dec = dec and st = st and k = 0, OF _ assms(2,3)] assms(1) by (simp add: LWPB_MAX_DEPTH_def)

lemma advance_whole:
  assumes "n < 2 ^ 64"
  shows "lwpb_buf_left (advance n (lwpb_buf_init data (of_nat n))) = 0" and "lwpb_buf_used (advance n (lwpb_buf_init data (of_nat n))) = of_nat n"
  using assms by (simp_all add: lwpb_buf_left_def lwpb_buf_used_def size_of_int_def unat_of_nat)

lemma decode_message:
  assumes wf: "wf_items ds i its" and depth: "items_depth its < LWPB_MAX_DEPTH"
    and st: "length (dec_stack dec) = LWPB_MAX_DEPTH"
    and mem: "data + length (items_bytes ds i its) \<le> length m" "length m < 2 ^ 63"
    and bytes: "peek m data (length (items_bytes ds i its)) = items_bytes ds i its"
  shows "\<exists>dec'. (\<forall>s. dec_arg (dec' s) = s) \<and>
    lwpb_decoder_decode ds m wv dec (Some i) data (of_nat (length (items_bytes ds i its))) =
    andthen (handle_events dec (message_events ds i data its) (dec_arg dec)) (\<lambda>s.
      Inr (LWPB_ERR_OK, dec' s, Some (of_nat (length (items_bytes ds i its)))))"
proof -
  let ?n = "length (items_bytes ds i its)"
  have n: "?n < 2 ^ 64" using mem by simp
  then have "at_pos m (lwpb_buf_init data (of_nat ?n)) (items_bytes ds i its)"
    using mem bytes by (simp add: at_pos_def valid_buf_def unat_of_nat)
  from decode_prefix [OF wf depth st this, of wv] obtain st' wv' where
    st': "length st' = LWPB_MAX_DEPTH" "st' ! 0 = \<lparr>df_buf = advance ?n (lwpb_buf_init data (of_nat ?n)), df_msg_desc = Some i\<rparr>"
    and decode: "lwpb_decoder_decode ds m wv dec (Some i) data (of_nat ?n) =
      andthen (handle_events dec (Msg_start False i # items_events ds (Some i) i data its) (dec_arg dec)) (\<lambda>s.
      andthen (decode_run ds m (Some i) (Inner, dst dec s st' (Suc 0) False, items_last ds i its None, wv')) (\<lambda>(ret, dec).
        if ret \<noteq> LWPB_ERR_OK then Inr (ret, dec, None)
        else Inr (LWPB_ERR_OK, dec, Some (lwpb_buf_used (df_buf (dec_stack dec ! 0))))))"
    by blast
  have "lwpb_decoder_decode ds m wv dec (Some i) data (of_nat ?n) =
      andthen (handle_events dec (message_events ds i data its) (dec_arg dec)) (\<lambda>s.
        Inr (LWPB_ERR_OK, dst dec s st' 0 False, Some (of_nat ?n)))"
    using st'(2) advance_whole [OF n, of data]
    by (simp add: decode decode_ends [OF st' advance_whole(1) [OF n]] message_events_def handle_events_append andthen_assoc
        cong: andthen_cong)
  then show ?thesis
    by (intro exI [of _ "\<lambda>s. dst dec s st' 0 False"]) simp
qed

section \<open>Strings\<close>

text \<open>The strings of a message in order, and the bytes that an event's string points to.\<close>

fun item_strings :: "'d item \<Rightarrow> 'd list" and items_strings :: "'d item list \<Rightarrow> 'd list" where
  "item_strings (Scalar j v) = []"
| "item_strings (Data j d) = [d]"
| "item_strings (Sub j its) = items_strings its"
| "item_strings (Packed j vs) = []"
| "items_strings [] = []"
| "items_strings (it # its) = item_strings it @ items_strings its"

definition event_string :: "mem \<Rightarrow> event \<Rightarrow> u8 list list" where
  "event_string m ev = (case ev of Msg_field p msg fr (Some v) \<Rightarrow>
     (case v of V_string a n \<Rightarrow> [peek m a (unat n)] | V_bytes a n \<Rightarrow> [peek m a (unat n)] | _ \<Rightarrow> []) | _ \<Rightarrow> [])"

lemma scalar_no_string: "scalar_ok t v \<Longrightarrow> event_string m (Msg_field p msg fr (Some v)) = []"
  by (cases v) (auto simp: event_string_def scalar_ok_def split: field_typ.splits)

lemma event_strings:
  "wf_item ds i it \<Longrightarrow> length m < 2 ^ 63 \<Longrightarrow> a + length (item_bytes ds i it) \<le> length m \<Longrightarrow>
    peek m a (length (item_bytes ds i it)) = item_bytes ds i it \<Longrightarrow>
    concat (map (event_string m) (item_events ds root i a it)) = item_strings it"
  "wf_items ds i its \<Longrightarrow> length m < 2 ^ 63 \<Longrightarrow> a + length (items_bytes ds i its) \<le> length m \<Longrightarrow>
    peek m a (length (items_bytes ds i its)) = items_bytes ds i its \<Longrightarrow>
    concat (map (event_string m) (items_events ds root i a its)) = items_strings its"
proof (induction ds i it and ds i its arbitrary: a and a rule: wf_item_wf_items.induct)
  case (1 ds i j v)
  then show ?case by (auto simp: scalar_no_string Let_def)
next
  case (2 ds i j bs)
  let ?fd = "the_field ds i j"
  have "length bs < 2 ^ 64"
    using "2.prems"(2,3) by (simp add: delimited_def)
  then have len: "unat (of_nat (length bs) :: u64) = length bs"
    by (simp add: unat_of_nat)
  have "peek m (content_addr a ?fd bs) (length bs) = bs"
    using "2.prems"(4) by (intro delimited_content) (simp add: Let_def)
  with len show ?case
    by (simp add: event_string_def data_value_def Let_def)
next
  case (3 ds i j its)
  let ?fd = "the_field ds i j"
  let ?c = "items_bytes ds (the (fd_msg_desc ?fd)) its"
  have "peek m (content_addr a ?fd ?c) (length ?c) = ?c"
    and room: "content_addr a ?fd ?c + length ?c \<le> length m"
    using delimited_content [of m a ?fd ?c] "3.prems"(3,4) by (simp_all add: Let_def)
  with "3.IH" [OF refl _ "3.prems"(2) room] "3.prems"(1) show ?case
    by (simp add: event_string_def Let_def)
next
  case (4 ds i j vs)
  then have "list_all (scalar_ok (field_type (the_field ds i j))) vs"
    by (simp add: Let_def)
  then have "concat (map (\<lambda>v. event_string m (Msg_field True (Some i) (i, j) (Some v))) vs) = []"
    by (auto simp: scalar_no_string list_all_iff)
  then show ?case by (simp add: event_string_def comp_def)
next
  case (5 ds i)
  then show ?case by simp
next
  case (6 ds i it its)
  let ?xs = "item_bytes ds i it" and ?ys = "items_bytes ds i its"
  have "peek m a (length ?xs + length ?ys) = ?xs @ ?ys"
    using "6.prems"(4) by simp
  note pk = peek_appendD [OF this]
  have "a + length ?xs \<le> length m" "a + length ?xs + length ?ys \<le> length m"
    using "6.prems"(3) by simp_all
  with "6.IH"(1) [OF _ "6.prems"(2) _ pk(1)] "6.IH"(2) [OF _ "6.prems"(2) _ pk(2)] "6.prems"(1) show ?case
    by simp
qed

lemma decoded_strings_at:
  assumes "wf_items ds i its" and "length m < 2 ^ 63" and "a + length (items_bytes ds i its) \<le> length m"
    and "peek m a (length (items_bytes ds i its)) = items_bytes ds i its"
  shows "concat (map (event_string m) (message_events ds i a its)) = items_strings its"
  using event_strings(2) [OF assms, of "Some i"] by (simp add: message_events_def event_string_def)

section \<open>Properties\<close>

text \<open>
  C2: The decoder decodes what the wire format means. On the encoding of a well-formed message, at any
  place in memory, it calls the handlers with the events of the message in order, nested messages and
  packed fields included, returns LWPB_ERR_OK and reports all bytes as used. The handlers are
  arbitrary, and may stop the run.
\<close>

theorem decode_refines_events:
  assumes "wf_items ds i its" and "items_depth its < LWPB_MAX_DEPTH" and "length (dec_stack dec) = LWPB_MAX_DEPTH"
    and "data + length (items_bytes ds i its) \<le> length m" and "length m < 2 ^ 63"
    and "peek m data (length (items_bytes ds i its)) = items_bytes ds i its"
  shows "\<exists>dec'. (\<forall>s. dec_arg (dec' s) = s) \<and>
    lwpb_decoder_decode ds m wv dec (Some i) data (of_nat (length (items_bytes ds i its))) =
    andthen (handle_events dec (message_events ds i data its) (dec_arg dec)) (\<lambda>s.
      Inr (LWPB_ERR_OK, dec' s, Some (of_nat (length (items_bytes ds i its)))))"
  by (rule decode_message [OF assms])

text \<open>
  The strings that the field handler is given point at their bytes: among the events of a message
  whose encoding lies in memory, the strings and byte strings, read at the address and with the length
  that the handler is given, are those of the message, in order.
\<close>

theorem decoded_strings:
  assumes "wf_items ds i its" and "length m < 2 ^ 63" and "a + length (items_bytes ds i its) \<le> length m"
    and "peek m a (length (items_bytes ds i its)) = items_bytes ds i its"
  shows "concat (map (event_string m) (message_events ds i a its)) = items_strings its"
  by (rule decoded_strings_at [OF assms])

end
