(* ===== verification/Examples.thy ===== *)
theory Examples
  imports Encoder_Session Decoder_Run
begin

text \<open>
  The properties of the encoder and the decoder applied to a concrete message: an int32, a string of
  three bytes at the start of the memory, a nested message and a packed field.
\<close>

definition sample_encoder :: lwpb_encoder where
  "sample_encoder = \<lparr>enc_stack = replicate 32 \<lparr>ef_buf = lwpb_buf_init 0 0, ef_field_desc = None, ef_msg_desc = None\<rparr>,
     enc_depth = 0, enc_packed = False\<rparr>"

text \<open>A decoder whose handlers record the events.\<close>

definition recorder :: "event list lwpb_decoder" where
  "recorder = \<lparr>dec_arg = [],
     msg_start_handler = Some (\<lambda>p msg s. Inr (s @ [Msg_start p msg])),
     msg_end_handler = Some (\<lambda>p msg s. Inr (s @ [Msg_end p msg])),
     field_handler = Some (\<lambda>p msg fr v s. Inr (s @ [Msg_field p msg fr v])),
     dec_stack = replicate 32 \<lparr>df_buf = lwpb_buf_init 0 0, df_msg_desc = None\<rparr>,
     dec_depth = 0, dec_packed = False\<rparr>"

definition no_wire_value :: wire_value where
  "no_wire_value = \<lparr>wv_word = 0, wv_data = 0\<rparr>"

definition sample_items :: "(addr \<times> u64) item list" where
  "sample_items = [Scalar 0 (V_int32 (- 2)), Data 1 (0, 3), Sub 2 [Scalar 0 (V_int64 (- 5))],
     Packed 3 [V_uint32 1, V_uint32 300]]"

definition sample_mem :: mem where
  "sample_mem = [97, 98, 99, 0] @ replicate 60 0"

definition sample_bytes :: "u8 list" where
  "sample_bytes = [8, 254, 255, 255, 255, 255, 255, 255, 255, 255, 1, 18, 3, 97, 98, 99,
     26, 2, 8, 9, 34, 3, 1, 172, 2]"

lemma record_event: "handle recorder ev s = Inr (s @ [ev])"
  by (cases ev) (simp_all add: recorder_def handle.simps)

lemma record_events: "handle_events recorder evs s = Inr (s @ evs)"
  by (induction evs arbitrary: s) (simp_all add: record_event)

lemma sample_facts:
  "wf_items sample_descs 0 sample_items" "items_depth sample_items < LWPB_MAX_DEPTH"
  "wf_items sample_descs 0 (the_items sample_mem sample_items)"
  "items_depth (the_items sample_mem sample_items) < LWPB_MAX_DEPTH"
  "items_bytes sample_descs 0 (the_items sample_mem sample_items) = sample_bytes"
  "items_room sample_descs 0 (the_items sample_mem sample_items) = 33"
  by code_simp+

lemma sample_lengths:
  "length (enc_stack sample_encoder) = LWPB_MAX_DEPTH" "length (dec_stack recorder) = LWPB_MAX_DEPTH"
  "dec_arg recorder = []" "length sample_mem = 64" "length sample_bytes = 25"
  by (simp_all add: sample_encoder_def recorder_def LWPB_MAX_DEPTH_def sample_mem_def sample_bytes_def)

lemma sample_outside: "sources_outside sample_mem (lwpb_buf_init 4 60) sample_items"
  by (simp add: sources_outside_def sample_items_def source_outside_def sample_lengths)

lemma encode_refines_bytes_witness:
  "\<exists>m'. encode_message sample_descs sample_mem sample_encoder 0 sample_items 4 60 = Inr (LWPB_ERR_OK, m', 25) \<and>
    peek m' 4 25 = sample_bytes"
  using encode_refines_bytes [of sample_descs 0 sample_items sample_encoder 4 60 sample_mem]
  by (auto simp: sample_facts sample_lengths sample_outside)

lemma decode_refines_events_witness:
  "\<exists>dec'. lwpb_decoder_decode sample_descs sample_bytes no_wire_value recorder (Some 0) 0 25 =
    Inr (LWPB_ERR_OK, dec', Some 25) \<and>
    dec_arg dec' = message_events sample_descs 0 0 (the_items sample_mem sample_items)"
proof -
  have "peek sample_bytes 0 25 = sample_bytes"
    by (simp add: peek_def sample_bytes_def)
  with decode_refines_events [of sample_descs 0 "the_items sample_mem sample_items" recorder 0 sample_bytes no_wire_value]
  show ?thesis
    by (auto simp: sample_facts sample_lengths record_events)
qed

lemma decoded_strings_witness:
  "concat (map (event_string sample_bytes) (message_events sample_descs 0 0 (the_items sample_mem sample_items))) =
    [[97, 98, 99]]"
proof -
  have "peek sample_bytes 0 25 = sample_bytes"
    by (simp add: peek_def sample_bytes_def)
  moreover have "items_strings (the_items sample_mem sample_items) = [[97, 98, 99]]"
    by code_simp
  ultimately show ?thesis
    using decoded_strings [of sample_descs 0 "the_items sample_mem sample_items" sample_bytes 0]
    by (simp add: sample_facts sample_lengths)
qed

section \<open>Sessions\<close>

text \<open>A session that adds a field of a nested message and ends the message.\<close>

definition sample_frame :: "addr \<Rightarrow> addr \<Rightarrow> field_ref option \<Rightarrow> msg_ref option \<Rightarrow> lwpb_encoder_stack_frame" where
  "sample_frame a b f msg = \<lparr>ef_buf = \<lparr>buf_base = a, buf_pos = b, buf_end = 30\<rparr>, ef_field_desc = f, ef_msg_desc = msg\<rparr>"

definition started_encoder :: lwpb_encoder where
  "started_encoder = \<lparr>enc_stack = (enc_stack sample_encoder)[0 := sample_frame 0 0 None (Some 0)],
     enc_depth = 1, enc_packed = False\<rparr>"

definition opened_encoder :: lwpb_encoder where
  "opened_encoder = \<lparr>enc_stack = (enc_stack started_encoder)[1 := sample_frame 10 10 (Some (0, 2)) (Some 1)],
     enc_depth = 2, enc_packed = False\<rparr>"

definition filled_encoder :: lwpb_encoder where
  "filled_encoder = \<lparr>enc_stack = (enc_stack started_encoder)[1 := sample_frame 10 12 (Some (0, 2)) (Some 1)],
     enc_depth = 2, enc_packed = False\<rparr>"

definition filled_mem :: mem where
  "filled_mem = (replicate 30 0)[10 := 8, 11 := 9]"

lemma sample_calls:
  "lwpb_encoder_start sample_encoder (Some 0) 0 30 = Inr started_encoder"
  "run_call sample_descs (Call_nested_start (0, 2)) (replicate 30 0) started_encoder =
     Inr (LWPB_ERR_OK, replicate 30 0, opened_encoder)"
  "run_call sample_descs (Call_add (Some (1, 0)) (V_int64 (- 5))) (replicate 30 0) opened_encoder =
     Inr (LWPB_ERR_OK, filled_mem, filled_encoder)"
  by code_simp+

lemma sample_session: "session sample_descs (replicate 30 0) (Some 0) 0 30 filled_mem filled_encoder"
proof -
  have "session sample_descs (replicate 30 0) (Some 0) 0 30 (replicate 30 0) started_encoder"
    by (rule started [OF _ sample_calls(1)]) (simp add: sample_lengths)
  then have "session sample_descs (replicate 30 0) (Some 0) 0 30 (replicate 30 0) opened_encoder"
    by (rule called [OF _ sample_calls(2)]) simp
  then show ?thesis
    by (rule called [OF _ sample_calls(3)]) simp
qed

lemma sample_inv:
  "enc_inv (replicate 30 0) started_encoder" "enc_inv (replicate 30 0) opened_encoder" "enc_inv filled_mem filled_encoder"
  "enc_top started_encoder = 0" "enc_top opened_encoder = 1" "enc_top filled_encoder = 1"
proof -
  have frames: "session ds m0 msg data len m enc \<Longrightarrow> data + unat len \<le> length m0 \<Longrightarrow> length m0 < 2 ^ 63 \<Longrightarrow> enc_inv m enc"
    for ds m0 msg data len m enc
    using session_keeps_inv by (simp add: session_inv_def)
  have 1: "session sample_descs (replicate 30 0) (Some 0) 0 30 (replicate 30 0) started_encoder"
    by (rule started [OF _ sample_calls(1)]) (simp add: sample_lengths)
  then have 2: "session sample_descs (replicate 30 0) (Some 0) 0 30 (replicate 30 0) opened_encoder"
    by (rule called [OF _ sample_calls(2)]) simp
  show "enc_inv (replicate 30 0) started_encoder" "enc_inv (replicate 30 0) opened_encoder"
    "enc_inv filled_mem filled_encoder"
    using frames [OF 1] frames [OF 2] frames [OF sample_session] by simp_all
qed (simp_all add: enc_top_def started_encoder_def opened_encoder_def filled_encoder_def)

lemma sample_stack_within: "frames_within 0 8 (replicate 30 0) sample_encoder"
  by (simp add: frames_within_def frame_within_def sample_encoder_def valid_buf_def list_all_iff)

lemma case_result:
  "(case r of Inl e \<Rightarrow> False | Inr (a, b, c) \<Rightarrow> P a b c) \<longleftrightarrow> (\<exists>a b c. r = Inr (a, b, c) \<and> P a b c)"
  by (auto split: sum.splits)

text \<open>A session that goes on in a nested message for which there was no room.\<close>

lemma sample_failed_calls:
  "\<exists>m enc. call_seq sample_descs (replicate 30 0) sample_encoder (Some 0) 0 8 False m enc"
proof -
  let ?m = "replicate 30 0 :: mem"
  have "case lwpb_encoder_start sample_encoder (Some 0) 0 8 of Inl _ \<Rightarrow> False | Inr enc \<Rightarrow>
      (case run_call sample_descs (Call_nested_start (0, 2)) (replicate 30 0) enc of Inl _ \<Rightarrow> False | Inr (ret, m, enc) \<Rightarrow>
        ret = LWPB_ERR_END_OF_BUF \<and>
        (case run_call sample_descs (Call_add (Some (1, 0)) (V_int64 5)) m enc of Inl _ \<Rightarrow> False | Inr (ret, m, enc) \<Rightarrow>
          ret = LWPB_ERR_END_OF_BUF))"
    by code_simp
  then obtain enc1 m2 enc2 ret m3 enc3 where 1: "lwpb_encoder_start sample_encoder (Some 0) 0 8 = Inr enc1"
    and 2: "run_call sample_descs (Call_nested_start (0, 2)) ?m enc1 = Inr (LWPB_ERR_END_OF_BUF, m2, enc2)"
    and 3: "run_call sample_descs (Call_add (Some (1, 0)) (V_int64 5)) m2 enc2 = Inr (ret, m3, enc3)"
    by (auto simp: case_result simp del: run_call.simps split: sum.split_asm)
  from call_seq_next [OF call_seq_next [OF call_seq_start [OF 1] 2] 3] show ?thesis by auto
qed

lemma session_confined_witness:
  "enc_inv filled_mem filled_encoder \<and> same_outside 0 30 (replicate 30 0) filled_mem \<and>
   (\<exists>m enc. call_seq sample_descs (replicate 30 0) sample_encoder (Some 0) 0 8 False m enc \<and> same_outside 0 8 (replicate 30 0) m)"
proof -
  have "call_seq sample_descs (replicate 30 0) sample_encoder (Some 0) 0 30 True filled_mem filled_encoder"
    using call_seq_next [OF call_seq_next [OF call_seq_start [OF sample_calls(1)] sample_calls(2)] sample_calls(3)] by simp
  from session_confined [OF this] have "enc_inv filled_mem filled_encoder \<and> same_outside 0 30 (replicate 30 0) filled_mem"
    by (simp add: sample_lengths)
  moreover obtain m enc where failed: "call_seq sample_descs (replicate 30 0) sample_encoder (Some 0) 0 8 False m enc"
    using sample_failed_calls by blast
  from session_confined [OF this] sample_stack_within have "same_outside 0 8 (replicate 30 0) m"
    by (simp add: sample_lengths)
  with failed show ?thesis
    using calculation by blast
qed

lemma add_field_refines_witness:
  "enc_abs filled_mem filled_encoder = [(Some (0, 2), [8, 9]), (None, [])]"
proof -
  let ?fd = "sample_field 1 LWPB_OPTIONAL LWPB_SINT64 0 None"
  have add: "lwpb_encoder_add_field sample_descs (replicate 30 0) opened_encoder (Some (1, 0)) (V_int64 (- 5)) =
      Inr (LWPB_ERR_OK, filled_mem, filled_encoder)"
    using sample_calls(3) by simp
  have fd: "deref_field sample_descs (Some (1, 0)) = Inr ?fd"
    and ev: "chosen_value (enc_packed opened_encoder) ?fd (V_int64 (- 5)) = Inr (E_varint 9)"
    and bytes: "field_bytes (enc_packed opened_encoder) ?fd (replicate 30 0) (E_varint 9) = [8, 9]"
    and abs: "enc_abs (replicate 30 0) opened_encoder = [(Some (0, 2), []), (None, [])]"
    by code_simp+
  from add_field_refines [OF sample_inv(2) add fd ev] show ?thesis
    by (simp add: source_ok_def bytes abs)
qed

lemma nested_start_refines_witness:
  "enc_inv (replicate 30 0) opened_encoder \<and>
   enc_abs (replicate 30 0) opened_encoder = abs_open (0, 2) (enc_abs (replicate 30 0) started_encoder)"
proof -
  have "lwpb_encoder_nested_start sample_descs started_encoder (0, 2) = Inr (LWPB_ERR_OK, opened_encoder)"
    by code_simp
  from nested_start_refines [OF sample_inv(1) this] show ?thesis
    by simp
qed

lemma nested_end_refines_witness:
  "\<exists>m' enc'. lwpb_encoder_nested_end sample_descs filled_mem filled_encoder = Inr (LWPB_ERR_OK, m', enc') \<and>
    enc_abs m' enc' = [(None, [26, 2, 8, 9])]"
proof -
  let ?fd = "sample_field 3 LWPB_OPTIONAL LWPB_MESSAGE 0 (Some 1)"
  have fd: "deref_field sample_descs (Some (0, 2)) = Inr ?fd" and ty: "opt_typ (opts ?fd) = LWPB_MESSAGE"
    and desc: "ef_field_desc (enc_frame filled_encoder (Suc 0)) = Some (0, 2)"
      "ef_msg_desc (enc_frame filled_encoder 0) = Some 0" "\<not> enc_packed filled_encoder"
    and used: "lwpb_buf_used (frame_buf filled_encoder (Suc 0)) = 2"
    and abs: "abs_close sample_descs (enc_abs filled_mem filled_encoder) = [(None, [26, 2, 8, 9])]"
    by code_simp+
  from nested_end_refines [OF sample_inv(3) _ desc(3,1,2) fd ty] show ?thesis
    by (auto simp: sample_inv(6) used abs)
qed

end
