(* ===== verification/Decoder_Safety.thy ===== *)
theory Decoder_Safety
  imports Decoder_Run
begin

text \<open>
  What the handlers of the decoder are notified of on arbitrary input, malformed or not: as long as the
  decoder returns, the starts and ends of messages are nested, not deeper than the stack, and the fields
  are fields of the descriptors with values of their types.
\<close>

section \<open>Nested notifications\<close>

text \<open>The member of the union that is set for a field of a type, if the type has one.\<close>

definition value_ok :: "field_typ \<Rightarrow> lwpb_value option \<Rightarrow> bool" where
  "value_ok t v = (case v of
       None \<Rightarrow> (case t of LWPB_MESSAGE \<Rightarrow> True | LWPB_GROUP \<Rightarrow> True | LWPB_TYP_OTHER _ \<Rightarrow> True | _ \<Rightarrow> False)
     | Some x \<Rightarrow> scalar_ok t x \<or> (case x of V_string _ _ \<Rightarrow> t = LWPB_STRING | V_bytes _ _ \<Rightarrow> t = LWPB_BYTES | _ \<Rightarrow> False))"

text \<open>
  A field is notified inside of a message. The handler of a value is given the descriptor of the innermost
  open message, that of a nested message the descriptor of the root.
\<close>

definition field_ok :: "descs \<Rightarrow> msg_ref option \<Rightarrow> msg_ref list \<Rightarrow> msg_ref option \<Rightarrow> field_ref \<Rightarrow> lwpb_value option \<Rightarrow> bool" where
  "field_ok ds root opn msg fr v = (case opn of [] \<Rightarrow> False
     | i # _ \<Rightarrow> (case deref_field ds (Some fr) of Inl _ \<Rightarrow> False
       | Inr fd \<Rightarrow> value_ok (field_type fd) v \<and> msg = (if v = None then root else Some i)))"

text \<open>The messages that are open after some events, the innermost first, or None when they are not nested.\<close>

fun nested :: "descs \<Rightarrow> msg_ref option \<Rightarrow> event list \<Rightarrow> msg_ref list \<Rightarrow> msg_ref list option" where
  "nested ds root [] opn = Some opn"
| "nested ds root (Msg_start p i # evs) opn =
     (if length opn < LWPB_MAX_DEPTH then nested ds root evs (i # opn) else None)"
| "nested ds root (Msg_end p i # evs) opn =
     (if opn \<noteq> [] \<and> hd opn = i then nested ds root evs (tl opn) else None)"
| "nested ds root (Msg_field p msg fr v # evs) opn =
     (if field_ok ds root opn msg fr v then nested ds root evs opn else None)"

lemma nested_append:
  "nested ds root evs opn = Some opn1 \<Longrightarrow> nested ds root (evs @ evs') opn = nested ds root evs' opn1"
  by (induction ds root evs opn rule: nested.induct) (auto split: if_splits)

lemma value_of_wire_ok: "value_ok t (value_of_wire t wv)"
  by (cases t) (simp_all add: value_ok_def value_of_wire_def scalar_ok_def)

section \<open>The invariant of the loop\<close>

text \<open>
  The buffer of a frame, and of one from which something was read. The position may be behind the end; when it
  is so far behind that the used size is 0 again, the next read is outside of the memory.
\<close>

definition frame_ok :: "lwpb_buf \<Rightarrow> bool" where
  "frame_ok buf \<longleftrightarrow> (\<exists>n :: u64. buf_end buf = buf_base buf + unat n \<and> buf_base buf \<le> buf_pos buf \<and> (buf_base buf < buf_pos buf \<longrightarrow> n \<noteq> 0))"

definition moved :: "lwpb_buf \<Rightarrow> bool" where
  "moved buf \<longleftrightarrow> frame_ok buf \<and> buf_base buf < buf_pos buf"

lemma frame_ok_init [simp]: "frame_ok (lwpb_buf_init d n)"
  by (auto simp: frame_ok_def)

lemma wrapped_buf:
  assumes "moved buf" and "lwpb_buf_used buf = 0"
  shows "2 ^ 64 \<le> buf_pos buf" and "0 < lwpb_buf_left buf"
proof -
  obtain n :: u64 where n: "buf_end buf = buf_base buf + unat n" "n \<noteq> 0" and pos: "buf_base buf < buf_pos buf"
    using assms(1) by (auto simp: moved_def frame_ok_def)
  obtain d where d: "buf_pos buf = buf_base buf + d" "0 < d"
    using less_imp_add_positive [OF pos] by metis
  have "(of_nat d :: u64) = 0"
    using assms(2) d(1) by (simp add: lwpb_buf_used_def)
  then have dvd: "2 ^ 64 dvd d"
    by (simp add: word_of_nat_eq_0_iff)
  with d show "2 ^ 64 \<le> buf_pos buf"
    using dvd_imp_le [OF dvd] by simp
  have "lwpb_buf_left buf = n - of_nat d"
    by (simp add: lwpb_buf_left_def size_of_int_def n(1) d(1))
  with \<open>of_nat d = 0\<close> n(2) show "0 < lwpb_buf_left buf"
    by (simp add: word_neq_0_conv)
qed

text \<open>The messages of the frames at the bottom of the stack.\<close>

fun open_msgs :: "lwpb_decoder_stack_frame list \<Rightarrow> nat \<Rightarrow> msg_ref list" where
  "open_msgs st 0 = []"
| "open_msgs st (Suc k) = (case df_msg_desc (st ! k) of None \<Rightarrow> open_msgs st k | Some i \<Rightarrow> i # open_msgs st k)"

lemma open_msgs_length: "length (open_msgs st k) \<le> k"
  by (induction k) (auto split: option.splits)

lemma open_msgs_cong:
  "(\<And>i. i < k \<Longrightarrow> df_msg_desc (st' ! i) = df_msg_desc (st ! i)) \<Longrightarrow> open_msgs st' k = open_msgs st k"
  by (induction k) (simp_all split: option.splits)

lemma open_msgs_upd [simp]: "k \<le> i \<Longrightarrow> open_msgs (st[i := f]) k = open_msgs st k"
  by (rule open_msgs_cong) auto

lemma open_msgs_not_Nil: "df_msg_desc (st ! 0) \<noteq> None \<Longrightarrow> open_msgs st (Suc k) \<noteq> []"
  by (induction k) (auto split: option.splits)

definition entered :: "pc \<Rightarrow> lwpb_decoder_stack_frame list \<Rightarrow> nat \<Rightarrow> msg_ref list" where
  "entered pc st k = (if pc = Enter \<and> lwpb_buf_used (df_buf (st ! k)) = 0 then open_msgs st k else open_msgs st (Suc k))"

definition stack_inv :: "descs \<Rightarrow> pc \<Rightarrow> lwpb_decoder_stack_frame list \<Rightarrow> nat \<Rightarrow> bool \<Rightarrow> field_ref option \<Rightarrow> bool" where
  "stack_inv ds pc st k p fr \<longleftrightarrow> k < LWPB_MAX_DEPTH \<and> length st = LWPB_MAX_DEPTH \<and>
     (\<forall>i < k. moved (df_buf (st ! i))) \<and> frame_ok (df_buf (st ! k)) \<and> df_msg_desc (st ! 0) \<noteq> None \<and>
     (pc = Enter \<and> moved (df_buf (st ! k)) \<longrightarrow> lwpb_buf_used (df_buf (st ! k)) \<noteq> 0) \<and>
     (p \<longrightarrow> df_msg_desc (st ! k) \<noteq> None \<and> (\<exists>fd. deref_field ds fr = Inr fd \<and> is_packed_repeated fd))"

section \<open>Single passes\<close>

lemma key_read:
  assumes "decode_key ds m p frame fr = Inr (ret, buf, wt, fr1)"
  shows "buf_base buf = buf_base (df_buf frame)" "buf_end buf = buf_end (df_buf frame)" "buf_pos (df_buf frame) \<le> buf_pos buf"
    and "ret = LWPB_ERR_OK \<or> ret = LWPB_ERR_END_OF_BUF" and "\<not> p \<Longrightarrow> ret = LWPB_ERR_OK \<Longrightarrow> df_msg_desc frame \<noteq> None"
    and "p \<Longrightarrow> fr1 = fr \<and> (\<exists>fd. deref_field ds fr = Inr fd \<and> field_wire_type fd = Inr wt)"
  using assms
  by (auto simp: decode_key_def andthen_eq_Inr find_field_def deref_msg_def split: if_splits option.splits
      dest!: lwpb_decode_varint_progress)

lemma wire_read:
  assumes "decode_wire_value m wt buf wv = Inr (ret, buf', wv')"
  shows "buf_base buf' = buf_base buf" "buf_end buf' = buf_end buf" "buf_pos buf \<le> buf_pos buf'"
    and "ret = LWPB_ERR_OK \<or> ret = LWPB_ERR_END_OF_BUF"
  using assms
  by (auto simp: decode_wire_value_def andthen_eq_Inr Let_def split: wire_type.splits if_splits
      dest!: lwpb_decode_varint_progress lwpb_decode_32bit_progress lwpb_decode_64bit_progress)

lemma left_frame:
  assumes "frame_ok buf" and "0 < lwpb_buf_left buf" and "buf_base buf' = buf_base buf" "buf_end buf' = buf_end buf" "buf_pos buf < buf_pos buf'"
  shows "moved buf'"
proof -
  obtain n :: u64 where n: "buf_end buf = buf_base buf + unat n" "buf_base buf \<le> buf_pos buf" "buf_base buf < buf_pos buf \<longrightarrow> n \<noteq> 0"
    using assms(1) by (auto simp: frame_ok_def)
  have "n \<noteq> 0" if "buf_base buf = buf_pos buf"
    using that assms(2) n(1) by (auto simp: lwpb_buf_left_def size_of_int_def)
  with n assms(3-5) show ?thesis
    by (auto simp: moved_def frame_ok_def intro!: exI [of _ n])
qed

lemma push_any:
  assumes "length st = LWPB_MAX_DEPTH" and "dec_push_stack_frame frame (dst dec s st (Suc k) p) = Inr dec1"
  shows "Suc k < LWPB_MAX_DEPTH" and "dec1 = dst dec s (st[Suc k := frame]) (Suc (Suc k)) p"
proof -
  show "Suc k < LWPB_MAX_DEPTH"
    using assms(2) by (auto simp: dec_push_stack_frame_def Let_def andthen_eq_Inr lwpb_assert_eq_Inr)
  with assms show "dec1 = dst dec s (st[Suc k := frame]) (Suc (Suc k)) p"
    by simp
qed

lemma push_packed: "dec_push_stack_frame frame (dst dec s st k p) = Inr dec1 \<Longrightarrow> dec1\<lparr>dec_packed := p\<rparr> = dec1"
  by (auto simp: dec_push_stack_frame_def Let_def andthen_eq_Inr dec_put_def dst_def split: if_splits)

text \<open>A frame whose position has wrapped around cannot be read any more.\<close>

lemma run_wrapped:
  assumes "length m < 2 ^ 63" and "k < length st" and "moved (df_buf (st ! k))" and "lwpb_buf_used (df_buf (st ! k)) = 0"
  shows "decode_run ds m root (pc, dst dec s st (Suc k) False, fr, wv) \<noteq> Inr r"
proof -
  note far = wrapped_buf [OF assms(3,4)]
  then have "lwpb_decode_varint m (df_buf (st ! k)) = Inl Fault"
    using assms(1) by (simp add: lwpb_decode_varint_def decode_varint_loop.simps load_def)
  then have inner: "decode_run ds m root (Inner, dst dec s st (Suc k) False, fr, wv) = Inl Fault" for s
    using far(2) assms(2) by (subst decode_run.simps) (simp add: dec_step_def dec_body_def decode_key_def)
  show ?thesis
  proof (cases pc)
    case Enter
    then show ?thesis
      using assms(2) inner
      by (subst decode_run.simps) (auto simp: dec_step_def andthen_eq_Inr split: option.splits if_splits)
  next
    case Inner
    with inner show ?thesis by simp
  qed
qed

text \<open>What the decoder returns after events that lead from some open messages to others.\<close>

definition result_ok ::
    "descs \<Rightarrow> msg_ref option \<Rightarrow> 's lwpb_decoder \<Rightarrow> 's \<Rightarrow> msg_ref list \<Rightarrow> lwpb_err_t \<times> 's lwpb_decoder \<Rightarrow> bool" where
  "result_ok ds root dec s opn r \<longleftrightarrow> (case r of (ret, dec') \<Rightarrow> \<exists>evs opn'. handle_events dec evs s = Inr (dec_arg dec') \<and>
     nested ds root evs opn = Some opn' \<and> (ret = LWPB_ERR_OK \<and> opn' = [] \<or> ret = LWPB_ERR_END_OF_BUF \<and> opn' \<noteq> []))"

lemma result_ok_event:
  assumes "handle dec ev s = Inr s1" and "nested ds root [ev] opn = Some opn1" and "result_ok ds root dec s1 opn1 r"
  shows "result_ok ds root dec s opn r"
proof -
  obtain evs opn' where "handle_events dec evs s1 = Inr (dec_arg (snd r))" "nested ds root evs opn1 = Some opn'"
      "fst r = LWPB_ERR_OK \<and> opn' = [] \<or> fst r = LWPB_ERR_END_OF_BUF \<and> opn' \<noteq> []"
    using assms(3) by (cases r) (auto simp: result_ok_def)
  with assms(1) nested_append [OF assms(2), of evs] show ?thesis
    by (cases r) (auto simp: result_ok_def intro!: exI [of _ "ev # evs"])
qed

lemma result_ok_end: "opn \<noteq> [] \<Longrightarrow> result_ok ds root dec s opn (LWPB_ERR_END_OF_BUF, dst dec s st k p)"
  unfolding result_ok_def prod.case by (intro exI [of _ "[]"] exI [of _ opn]) simp

section \<open>The whole run\<close>

definition run_nested :: "descs \<Rightarrow> mem \<Rightarrow> msg_ref option \<Rightarrow> 's lwpb_decoder \<Rightarrow> 's dec_state \<Rightarrow> bool" where
  "run_nested ds m root dec state \<longleftrightarrow> (\<forall>pc s st k p fr wv r. state = (pc, dst dec s st (Suc k) p, fr, wv) \<longrightarrow>
     stack_inv ds pc st k p fr \<longrightarrow> decode_run ds m root state = Inr r \<longrightarrow> result_ok ds root dec s (entered pc st k) r)"

lemma run_nestedD:
  "run_nested ds m root dec (pc, dst dec s st (Suc k) p, fr, wv) \<Longrightarrow> stack_inv ds pc st k p fr \<Longrightarrow>
    decode_run ds m root (pc, dst dec s st (Suc k) p, fr, wv) = Inr r \<Longrightarrow> result_ok ds root dec s (entered pc st k) r"
  unfolding run_nested_def by blast

lemma enter_nested:
  assumes next_: "\<And>st'. dec_step ds m root (Enter, dst dec s st (Suc k) p, fr, wv) = Inr (Goto st') \<Longrightarrow> run_nested ds m root dec st'"
    and inv: "stack_inv ds Enter st k p fr" and run: "decode_run ds m root (Enter, dst dec s st (Suc k) p, fr, wv) = Inr r"
  shows "result_ok ds root dec s (entered Enter st k) r"
proof -
  have k: "k < length st" and inv': "stack_inv ds Inner st k p fr"
    using inv by (simp_all add: stack_inv_def)
  show ?thesis
  proof (cases "lwpb_buf_used (df_buf (st ! k)) = 0 \<and> df_msg_desc (st ! k) \<noteq> None")
    case True
    then obtain i where i: "df_msg_desc (st ! k) = Some i" by auto
    obtain s1 where s1: "handle dec (Msg_start p i) s = Inr s1"
      and step: "dec_step ds m root (Enter, dst dec s st (Suc k) p, fr, wv) = Inr (Goto (Inner, dst dec s1 st (Suc k) p, fr, wv))"
      using run k True i by (subst (asm) decode_run.simps) (auto simp: dec_step_def andthen_eq_Inr)
    have "decode_run ds m root (Inner, dst dec s1 st (Suc k) p, fr, wv) = Inr r"
      using run step by (subst (asm) decode_run.simps) simp
    from run_nestedD [OF next_ [OF step] inv' this] have "result_ok ds root dec s1 (i # open_msgs st k) r"
      by (simp add: entered_def i)
    moreover have "length (open_msgs st k) < LWPB_MAX_DEPTH"
      using open_msgs_length [of st k] inv by (simp add: stack_inv_def)
    ultimately show ?thesis
      using True by (intro result_ok_event [OF s1]) (simp_all add: entered_def)
  next
    case False
    then have step: "dec_step ds m root (Enter, dst dec s st (Suc k) p, fr, wv) = Inr (Goto (Inner, dst dec s st (Suc k) p, fr, wv))"
      using k by (auto simp: dec_step_def split: option.splits)
    have "decode_run ds m root (Inner, dst dec s st (Suc k) p, fr, wv) = Inr r"
      using run step by (subst (asm) decode_run.simps) simp
    from run_nestedD [OF next_ [OF step] inv' this] False show ?thesis
      by (auto simp: entered_def split: option.splits)
  qed
qed

lemma leave_nested:
  assumes next_: "\<And>st'. dec_step ds m root (Inner, dst dec s st (Suc k) p, fr, wv) = Inr (Goto st') \<Longrightarrow> run_nested ds m root dec st'"
    and inv: "stack_inv ds Inner st k p fr" and run: "decode_run ds m root (Inner, dst dec s st (Suc k) p, fr, wv) = Inr r"
    and left: "lwpb_buf_left (df_buf (st ! k)) = 0" and m: "length m < 2 ^ 63"
  shows "result_ok ds root dec s (entered Inner st k) r"
proof -
  have k: "k < length st"
    using inv by (simp add: stack_inv_def)
  let ?out = "\<lambda>s. if 1 \<le> k then Goto (Enter, dst dec s st k False, fr, wv) else Return LWPB_ERR_OK (dst dec s st 0 False)"
  obtain s1 where s1: "(case df_msg_desc (st ! k) of None \<Rightarrow> s1 = s | Some i \<Rightarrow> handle dec (Msg_end p i) s = Inr s1)"
    and step: "dec_step ds m root (Inner, dst dec s st (Suc k) p, fr, wv) = Inr (?out s1)"
    using run k left by (subst (asm) decode_run.simps)
      (cases k; auto simp: dec_step_def dec_leave_def andthen_eq_Inr nat_add_distrib split: option.splits)
  have "result_ok ds root dec s1 (open_msgs st k) r"
  proof (cases k)
    case 0
    with run step show ?thesis
      by (subst (asm) decode_run.simps) (auto simp: result_ok_def intro!: exI [of _ "[]"])
  next
    case (Suc j)
    have run1: "decode_run ds m root (Enter, dst dec s1 st (Suc j) False, fr, wv) = Inr r"
      using run step Suc by (subst (asm) decode_run.simps) simp
    have moved: "moved (df_buf (st ! j))" "j < length st"
      using inv Suc by (simp_all add: stack_inv_def)
    have "lwpb_buf_used (df_buf (st ! j)) \<noteq> 0"
    proof
      assume "lwpb_buf_used (df_buf (st ! j)) = 0"
      show False
        by (rule run_wrapped [OF m moved(2,1) \<open>lwpb_buf_used (df_buf (st ! j)) = 0\<close>, THEN notE]) (rule run1)
    qed
    moreover from this inv moved Suc have "stack_inv ds Enter st j False fr"
      by (auto simp: stack_inv_def moved_def)
    moreover have "run_nested ds m root dec (Enter, dst dec s1 st (Suc j) False, fr, wv)"
      using step Suc by (intro next_) simp
    ultimately show ?thesis
      using run_nestedD [OF _ _ run1] Suc by (simp add: entered_def)
  qed
  then show ?thesis
  proof (cases "df_msg_desc (st ! k)")
    case (Some i)
    then have "handle dec (Msg_end p i) s = Inr s1" using s1 by simp
    moreover have "nested ds root [Msg_end p i] (i # open_msgs st k) = Some (open_msgs st k)" by simp
    ultimately show ?thesis
      using \<open>result_ok ds root dec s1 (open_msgs st k) r\<close> Some by (simp add: entered_def result_ok_event)
  qed (use s1 in \<open>simp add: entered_def\<close>)
qed

lemma pass_reads:
  assumes inv: "stack_inv ds Inner st k p fr" and left: "0 < lwpb_buf_left (df_buf (st ! k))"
    and key: "decode_key ds m p (st ! k) fr = Inr (LWPB_ERR_OK, buf1, wt, fr1)"
    and wire: "decode_wire_value m wt buf1 wv = Inr (LWPB_ERR_OK, buf2, wv2)"
  shows "moved buf2" and "df_msg_desc (st ! k) \<noteq> None"
    and "p \<Longrightarrow> fr1 = fr \<and> (\<exists>fd. deref_field ds fr = Inr fd \<and> is_packed_repeated fd \<and> field_wire_type fd = Inr wt)"
proof -
  have frame: "frame_ok (df_buf (st ! k))" and p: "p \<longrightarrow> df_msg_desc (st ! k) \<noteq> None \<and> (\<exists>fd. deref_field ds fr = Inr fd \<and> is_packed_repeated fd)"
    using inv by (simp_all add: stack_inv_def)
  show "moved buf2"
    using left_frame [OF frame left] key_read(1,2) [OF key] wire_read(1,2) [OF wire] body_progress [OF key wire] by simp
  show "df_msg_desc (st ! k) \<noteq> None"
    using p key_read(5) [OF key] by blast
  show "fr1 = fr \<and> (\<exists>fd. deref_field ds fr = Inr fd \<and> is_packed_repeated fd \<and> field_wire_type fd = Inr wt)" if p
    using that p key_read(6) [OF key that] by auto
qed

lemma push_inv:
  assumes "stack_inv ds Inner st k p fr" and "Suc k < LWPB_MAX_DEPTH" and "moved buf" and "df_msg_desc (st ! k) \<noteq> None"
    and "q \<Longrightarrow> msg \<noteq> None \<and> (\<exists>fd. deref_field ds fr1 = Inr fd \<and> is_packed_repeated fd)"
  shows "stack_inv ds Enter (st[k := (st ! k)\<lparr>df_buf := buf\<rparr>, Suc k := new_frame msg wv]) (Suc k) q fr1"
    and "entered Enter (st[k := (st ! k)\<lparr>df_buf := buf\<rparr>, Suc k := new_frame msg wv]) (Suc k) = entered Inner st k"
proof -
  let ?st = "st[k := (st ! k)\<lparr>df_buf := buf\<rparr>, Suc k := new_frame msg wv]"
  have len: "length st = LWPB_MAX_DEPTH" using assms(1) by (simp add: stack_inv_def)
  have new: "df_buf (new_frame msg wv) = lwpb_buf_init (wv_data wv) (wv_word wv)" "df_msg_desc (new_frame msg wv) = msg"
    by (simp_all add: new_frame_def)
  have "\<not> moved (lwpb_buf_init (wv_data wv) (wv_word wv))" "lwpb_buf_used (lwpb_buf_init (wv_data wv) (wv_word wv)) = 0"
    by (simp_all add: moved_def lwpb_buf_used_def size_of_int_def)
  with assms len new show "stack_inv ds Enter ?st (Suc k) q fr1"
    by (cases k) (auto simp: stack_inv_def nth_list_update less_Suc_eq)
  show "entered Enter ?st (Suc k) = entered Inner st k"
    using len assms(2) \<open>lwpb_buf_used (lwpb_buf_init (wv_data wv) (wv_word wv)) = 0\<close> new by (simp add: entered_def split: option.splits)
qed

lemma body_nested:
  assumes next_: "\<And>st'. dec_step ds m root (Inner, dst dec s st (Suc k) p, fr, wv) = Inr (Goto st') \<Longrightarrow> run_nested ds m root dec st'"
    and inv: "stack_inv ds Inner st k p fr" and run: "decode_run ds m root (Inner, dst dec s st (Suc k) p, fr, wv) = Inr r"
    and left: "0 < lwpb_buf_left (df_buf (st ! k))" and root: "root \<noteq> None"
  shows "result_ok ds root dec s (entered Inner st k) r"
proof -
  have k: "k < length st" and len: "length st = LWPB_MAX_DEPTH" and nonempty: "open_msgs st (Suc k) \<noteq> []"
    using inv open_msgs_not_Nil [of st k] by (simp_all add: stack_inv_def del: open_msgs.simps)
  obtain ret1 buf1 wt fr1 where key: "decode_key ds m p (st ! k) fr = Inr (ret1, buf1, wt, fr1)"
    using run k left by (subst (asm) decode_run.simps) (auto simp: dec_step_def dec_body_def andthen_eq_Inr)
  show ?thesis
  proof (cases "ret1 = LWPB_ERR_OK")
    case False
    then have "r = (LWPB_ERR_END_OF_BUF, dst dec s (st[k := (st ! k)\<lparr>df_buf := buf1\<rparr>]) (Suc k) p)"
      using run k left key key_read(4) [OF key] by (subst (asm) decode_run.simps) (simp add: dec_step_def dec_body_def)
    with nonempty show ?thesis
      by (simp add: result_ok_end entered_def del: open_msgs.simps)
  next
    case True
    note key = key [unfolded True]
    obtain ret2 buf2 wv2 where wire: "decode_wire_value m wt buf1 wv = Inr (ret2, buf2, wv2)"
      using run k left key by (subst (asm) decode_run.simps) (auto simp: dec_step_def dec_body_def andthen_eq_Inr)
    show ?thesis
    proof (cases "ret2 = LWPB_ERR_OK")
      case False
      then have "r = (LWPB_ERR_END_OF_BUF, dst dec s (st[k := (st ! k)\<lparr>df_buf := buf2\<rparr>]) (Suc k) p)"
        using run k left key wire wire_read(4) [OF wire] by (subst (asm) decode_run.simps) (simp add: dec_step_def dec_body_def)
      with nonempty show ?thesis
        by (simp add: result_ok_end entered_def del: open_msgs.simps)
    next
      case True
      note wire = wire [unfolded True] and reads = pass_reads [OF inv left key wire [unfolded True]]
      let ?frame = "(st ! k)\<lparr>df_buf := buf2\<rparr>"
      let ?st = "st[k := ?frame]"
      have step: "dec_step ds m root (Inner, dst dec s st (Suc k) p, fr, wv) = dispatch ds root ?frame wt fr1 wv2 (dst dec s ?st (Suc k) p)"
        using k left key wire by (simp add: dec_step_def dec_body_def)
      obtain i where i: "df_msg_desc (st ! k) = Some i" using reads(2) by auto
      have open_st: "open_msgs st (Suc k) = i # open_msgs st k" "entered Inner ?st k = entered Inner st k"
        using k i by (simp_all add: entered_def)
      have inv1: "stack_inv ds Inner ?st k p fr1"
        using inv reads k by (auto simp: stack_inv_def moved_def nth_list_update)
      have goto: "result_ok ds root dec s1 (entered pc st1 k1) r"
        if "dispatch ds root ?frame wt fr1 wv2 (dst dec s ?st (Suc k) p) = Inr (Goto (pc, dst dec s1 st1 (Suc k1) p1, fr1, wv2))"
          "stack_inv ds pc st1 k1 p1 fr1" for s1 pc st1 k1 p1
      proof (rule run_nestedD [OF next_])
        show "dec_step ds m root (Inner, dst dec s st (Suc k) p, fr, wv) = Inr (Goto (pc, dst dec s1 st1 (Suc k1) p1, fr1, wv2))"
          using step that(1) by simp
        with run show "decode_run ds m root (pc, dst dec s1 st1 (Suc k1) p1, fr1, wv2) = Inr r"
          by (subst (asm) decode_run.simps) simp
      qed (rule that(2))
      obtain d where disp: "dispatch ds root ?frame wt fr1 wv2 (dst dec s ?st (Suc k) p) = Inr d"
        using run unfolding step [symmetric] by (subst (asm) decode_run.simps) (auto simp: andthen_eq_Inr)
      show ?thesis
      proof (cases fr1)
        case None
        with reads(3) have "\<not> p" by (auto simp: deref_field_def)
        with disp inv1 None goto [of Inner s ?st k p] open_st(2) show ?thesis
          by (simp add: dispatch_def)
      next
        case (Some f)
        then obtain fd where fd: "deref_field ds fr1 = Inr fd"
          using disp by (auto simp: dispatch_def andthen_eq_Inr)
        have push: "result_ok ds root dec s1 (entered Inner st k) r"
          if "dispatch ds root ?frame wt fr1 wv2 (dst dec s ?st (Suc k) p) =
              andthen (dec_push_stack_frame (new_frame msg wv2) (dst dec s1 ?st (Suc k) p)) (\<lambda>dec.
                Inr (Goto (Enter, dec\<lparr>dec_packed := q\<rparr>, fr1, wv2)))" and "q \<Longrightarrow> msg \<noteq> None \<and> is_packed_repeated fd" for s1 q msg
        proof -
          note eq = that(1)
          obtain dec1 where dec1: "dec_push_stack_frame (new_frame msg wv2) (dst dec s1 ?st (Suc k) p) = Inr dec1"
            using disp [unfolded eq] by (auto simp: andthen_eq_Inr)
          have "length ?st = LWPB_MAX_DEPTH" using len by simp
          note dec1' = push_any [OF this dec1]
          from push_inv [OF inv dec1'(1) reads(1,2), of q msg fr1 wv2] that(2) fd
          have "stack_inv ds Enter (?st[Suc k := new_frame msg wv2]) (Suc k) q fr1"
            and "entered Enter (?st[Suc k := new_frame msg wv2]) (Suc k) = entered Inner st k" by auto
          with goto [of Enter s1 "?st[Suc k := new_frame msg wv2]" "Suc k" q] that(1) dec1 dec1'(2) show ?thesis
            by simp
        qed
        show ?thesis
        proof (cases "wt = WT_STRING \<and> is_packed_repeated fd")
          case True
          with Some fd i show ?thesis
            by (intro push [of "df_msg_desc (st ! k)" s True]) (simp_all add: dispatch_def)
        next
          case False
          have ev: "nested ds root [Msg_field p (if value_of_wire (field_type fd) wv2 = None then root else Some i) f
              (value_of_wire (field_type fd) wv2)] (entered Inner st k) = Some (entered Inner st k)"
            using open_st(1) fd Some value_of_wire_ok [of "field_type fd" wv2] by (simp add: entered_def field_ok_def del: open_msgs.simps)
          show ?thesis
          proof (cases "value_of_wire (field_type fd) wv2")
            case None
            have "\<not> p"
            proof
              assume p
              with reads(3) fd None False show False
                by (auto simp: field_wire_type_def value_of_wire_def split: field_typ.splits)
            qed
            from disp False None fd Some i obtain s1 where s1: "handle dec (Msg_field p root f None) s = Inr s1"
              by (auto simp: dispatch_def andthen_eq_Inr)
            have "result_ok ds root dec s1 (entered Inner st k) r"
              using False None fd Some s1 \<open>\<not> p\<close>
              by (intro push [of "fd_msg_desc fd" s1 False]) (auto simp: dispatch_def push_packed intro!: andthen_cong)
            with result_ok_event [OF s1] ev None show ?thesis by simp
          next
            case (Some v)
            from disp False Some fd \<open>fr1 = Some f\<close> i obtain s1 where s1: "handle dec (Msg_field p (Some i) f (Some v)) s = Inr s1"
              by (auto simp: dispatch_def andthen_eq_Inr)
            have "result_ok ds root dec s1 (entered Inner ?st k) r"
              using False Some fd \<open>fr1 = Some f\<close> i s1 inv1 by (intro goto [of Inner s1 ?st k p]) (auto simp: dispatch_def)
            with result_ok_event [OF s1] ev Some open_st(2) show ?thesis by simp
          qed
        qed
      qed
    qed
  qed
qed

lemma decode_run_nested:
  assumes m: "length m < 2 ^ 63" and root: "root \<noteq> None"
  shows "run_nested ds m root dec state"
proof (induction state rule: wf_induct [OF wf_dec_order [of m]])
  case (1 state)
  show ?case
    unfolding run_nested_def
  proof (intro allI impI)
    fix pc s st k p fr wv r
    assume state: "state = (pc, dst dec s st (Suc k) p, fr, wv)" and inv: "stack_inv ds pc st k p fr"
      and run: "decode_run ds m root state = Inr r"
    have next_: "run_nested ds m root dec st'" if "dec_step ds m root (pc, dst dec s st (Suc k) p, fr, wv) = Inr (Goto st')" for st'
      using 1 dec_step_decreases [OF that] state by blast
    show "result_ok ds root dec s (entered pc st k) r"
    proof (cases pc)
      case Enter
      from enter_nested [OF next_ [unfolded Enter]] inv run state Enter show ?thesis by simp
    next
      case Inner
      show ?thesis
      proof (cases "0 < lwpb_buf_left (df_buf (st ! k))")
        case True
        from body_nested [OF next_ [unfolded Inner] _ _ True root] inv run state Inner show ?thesis by simp
      next
        case False
        then have "lwpb_buf_left (df_buf (st ! k)) = 0" by (simp add: word_neq_0_conv [symmetric])
        from leave_nested [OF next_ [unfolded Inner] _ _ this m] inv run state Inner show ?thesis by simp
      qed
    qed
  qed
qed

section \<open>Properties\<close>

text \<open>
  C5: On every input, malformed or not, and for all handlers: when the decoder returns, then its handlers
  were notified of starts and ends of messages that are properly nested, with at most LWPB_MAX_DEPTH messages open
  at a time, and of fields inside of an open message, each a field of the descriptors with a value of its
  type. It returns LWPB_ERR_OK with all messages closed or LWPB_ERR_END_OF_BUF with some left open, and it
  stores the number of used bytes in the first case only.
\<close>

theorem decoder_notifies_nested:
  assumes "lwpb_decoder_decode ds m wv dec (Some i) data len = Inr (ret, dec', used)"
    and "length (dec_stack dec) = LWPB_MAX_DEPTH" and "length m < 2 ^ 63"
  shows "\<exists>evs opn. handle_events dec evs (dec_arg dec) = Inr (dec_arg dec') \<and> nested ds (Some i) evs [] = Some opn \<and>
    (ret = LWPB_ERR_OK \<and> opn = [] \<and> used \<noteq> None \<or> ret = LWPB_ERR_END_OF_BUF \<and> opn \<noteq> [] \<and> used = None)"
proof -
  let ?st = "(dec_stack dec)[0 := \<lparr>df_buf = lwpb_buf_init data len, df_msg_desc = Some i\<rparr>]"
  have len: "length ?st = LWPB_MAX_DEPTH" "0 < length (dec_stack dec)"
    using assms(2) by (simp_all add: LWPB_MAX_DEPTH_def)
  then have put: "dec_put \<lparr>df_buf = lwpb_buf_init data len, df_msg_desc = Some i\<rparr> (dec\<lparr>dec_depth := 1, dec_packed := False\<rparr>) =
      Inr (dst dec (dec_arg dec) ?st (Suc 0) False)"
    by (simp add: dec_put_def dst_def)
  have fresh: "lwpb_buf_used (lwpb_buf_init data len) = 0" "\<not> moved (lwpb_buf_init data len)"
    by (simp_all add: lwpb_buf_used_def size_of_int_def moved_def)
  have inv: "stack_inv ds Enter ?st 0 False None"
    using len fresh by (simp add: stack_inv_def)
  obtain dec1 where run: "decode_run ds m (Some i) (Enter, dst dec (dec_arg dec) ?st (Suc 0) False, None, wv) = Inr (ret, dec1)"
    and ret: "dec1 = dec'" "used = None \<longleftrightarrow> ret \<noteq> LWPB_ERR_OK"
    using assms(1) put by (auto simp: lwpb_decoder_decode_def andthen_eq_Inr split: if_splits)
  have "result_ok ds (Some i) dec (dec_arg dec) [] (ret, dec1)"
    using run_nestedD [OF decode_run_nested [OF assms(3)] inv run] fresh len by (simp add: entered_def)
  then obtain evs opn where "handle_events dec evs (dec_arg dec) = Inr (dec_arg dec1)" "nested ds (Some i) evs [] = Some opn"
      "ret = LWPB_ERR_OK \<and> opn = [] \<or> ret = LWPB_ERR_END_OF_BUF \<and> opn \<noteq> []"
    by (auto simp: result_ok_def)
  with ret show ?thesis
    by (intro exI [of _ evs] exI [of _ opn]) auto
qed

end
