(* ===== verification/Robustness.thy ===== *)
theory Robustness
  imports Examples Decoder_Safety
begin

text \<open>
  How the decoder and the encoder behave where they do not do what they mean to: on input that ends in
  the middle of a field, on unknown fields, below the first level of nesting, on deep nesting, and
  after a nested message for which there was no room. The first two are shown for all messages, the others
  are evaluated on a concrete input.
\<close>

text \<open>The recorded events of decoding the first \<open>n\<close> bytes of the memory as an outer message.\<close>

definition decoded :: "mem \<Rightarrow> u64 \<Rightarrow> (lwpb_err_t \<times> event list \<times> u64 option) run" where
  "decoded m n = andthen (lwpb_decoder_decode sample_descs m no_wire_value recorder (Some 0) 0 n)
     (\<lambda>(ret, dec, used). Inr (ret, dec_arg dec, used))"

section \<open>Input that ends behind a key\<close>

lemma at_pos_init:
  assumes "data + length bs \<le> length m" and "length m < 2 ^ 63" and "peek m data (length bs) = bs"
  shows "at_pos m (lwpb_buf_init data (of_nat (length bs))) bs"
  using assms by (simp add: at_pos_def valid_buf_def unat_of_nat)

text \<open>
  C34: A message that ends after the key of a varint or a string is not rejected: whatever message comes before
  the key, lwpb_decoder_decode reads the value from behind its buffer, because only a key is preceded by a
  check that bytes are left. When the memory ends with the buffer this is an access outside of the memory.
\<close>

theorem decoder_reads_behind_buffer:
  assumes "wf_items ds i its" and "items_depth its < LWPB_MAX_DEPTH" and "length (dec_stack dec) = LWPB_MAX_DEPTH"
    and "wf_field ds i j" and "wt = WT_VARINT \<or> wt = WT_STRING"
    and "bs = items_bytes ds i its @ varint_bytes (field_key wt (number (the_field ds i j)))"
    and "data + length bs = length m" and "length m < 2 ^ 63" and "peek m data (length bs) = bs"
  shows "lwpb_decoder_decode ds m wv dec (Some i) data (of_nat (length bs)) =
    andthen (handle_events dec (Msg_start False i # items_events ds (Some i) i data its) (dec_arg dec)) (\<lambda>s. Inl Fault)"
proof -
  let ?its = "items_bytes ds i its" and ?key = "varint_bytes (field_key wt (number (the_field ds i j)))"
  let ?buf = "lwpb_buf_init data (of_nat (length bs))"
  have "at_pos m ?buf (?its @ ?key)"
    using at_pos_init [OF _ assms(8,9)] assms(6,7) by simp
  from at_pos_append [OF this] have pos: "at_pos m ?buf ?its" and key_pos: "at_pos m (advance (length ?its) ?buf) ?key"
    by auto
  from decode_prefix [OF assms(1-3) pos, of wv] obtain st' wv' where
    st': "length st' = LWPB_MAX_DEPTH" "st' ! 0 = \<lparr>df_buf = advance (length ?its) ?buf, df_msg_desc = Some i\<rparr>"
    and decode: "lwpb_decoder_decode ds m wv dec (Some i) data (of_nat (length bs)) =
      andthen (handle_events dec (Msg_start False i # items_events ds (Some i) i data its) (dec_arg dec)) (\<lambda>s.
      andthen (decode_run ds m (Some i) (Inner, dst dec s st' (Suc 0) False, items_last ds i its None, wv')) (\<lambda>(ret, dec).
        if ret \<noteq> LWPB_ERR_OK then Inr (ret, dec, None)
        else Inr (LWPB_ERR_OK, dec, Some (lwpb_buf_used (df_buf (dec_stack dec ! 0))))))"
    by blast
  have "known wt" using assms(5) by (auto simp: known_def)
  note key = decode_key_at [OF assms(4) this key_pos, of "items_last ds i its None"]
  have left: "0 < lwpb_buf_left (advance (length ?its) ?buf)"
    using at_pos_left [OF key_pos] by simp
  let ?behind = "advance (length ?key) (advance (length ?its) ?buf)"
  have "buf_pos ?behind = length m"
    using assms(6,7) by simp
  then have "lwpb_decode_varint m ?behind = Inl Fault"
    by (simp add: lwpb_decode_varint_def decode_varint_loop.simps load_def)
  then have "decode_wire_value m wt ?behind wv' = Inl Fault"
    using assms(5) by (auto simp: decode_wire_value_def)
  then have "decode_run ds m (Some i) (Inner, dst dec s st' (Suc 0) False, items_last ds i its None, wv') = Inl Fault" for s
    using key left st' by (subst decode_run.simps) (simp add: dec_step_def dec_body_def LWPB_MAX_DEPTH_def)
  then show ?thesis
    by (simp add: decode cong: andthen_cong)
qed

text \<open>An int32, and the key of another one at the end of the memory.\<close>

lemma decoder_reads_behind_buffer_witness: "decoded [8, 5, 8] 3 = Inl Fault"
proof -
  have "lwpb_decoder_decode sample_descs [8, 5, 8] no_wire_value recorder (Some 0) 0 (of_nat (length [8, 5, 8 :: u8])) =
    andthen (handle_events recorder (Msg_start False 0 # items_events sample_descs (Some 0) 0 0 [Scalar 0 (V_int32 5)]) (dec_arg recorder)) (\<lambda>s. Inl Fault)"
  proof (rule decoder_reads_behind_buffer [where j = 0 and wt = WT_VARINT])
    show "wf_items sample_descs 0 [Scalar 0 (V_int32 5) :: u8 list item]" "wf_field sample_descs 0 0" by code_simp+
    show "[8, 5, 8 :: u8] = items_bytes sample_descs 0 [Scalar 0 (V_int32 5)] @
        varint_bytes (field_key WT_VARINT (number (the_field sample_descs 0 0)))" by code_simp
  qed (simp_all add: sample_lengths LWPB_MAX_DEPTH_def peek_def)
  then show ?thesis
    by (simp add: decoded_def record_events del: handle_events.simps)
qed

text \<open>
  After reading behind its buffer of one byte the decoder does not stop: the number of bytes left has
  become negative, which is a huge size_t, and the bytes that follow in memory are delivered as two
  further fields.
\<close>

theorem decoder_runs_on_behind_buffer:
  "decoded [8, 5, 8, 6, 0x80] 1 = Inr (LWPB_ERR_END_OF_BUF,
     [Msg_start False 0, Msg_field False (Some 0) (0, 0) (Some (V_int32 5)),
      Msg_field False (Some 0) (0, 0) (Some (V_int32 6))], None)"
  by code_simp

section \<open>Unknown fields\<close>

lemma find_number_unknown: "n \<notin> number ` set fds \<Longrightarrow> find_number n k fds = None"
  by (induction fds arbitrary: k) auto

text \<open>The value of a number does not depend on the pointer of the wire value.\<close>

lemma number_value_word:
  assumes "field_wire_type fd = Inr wt" and "wt \<noteq> WT_STRING"
  shows "value_of_wire (field_type fd) (wv\<lparr>wv_word := x\<rparr>) = value_of_wire (field_type fd) \<lparr>wv_word = x, wv_data = 0\<rparr>"
    and "value_of_wire (field_type fd) \<lparr>wv_word = x, wv_data = 0\<rparr> \<noteq> None"
  using assms by (auto simp: field_wire_type_def value_of_wire_def wv_int32_def split: field_typ.splits)

text \<open>
  C35: An unknown field is not skipped when a number came before it: after any message whose last decoded
  field is of a type for numbers, of any wire type but WT_STRING, a varint whose number the message does not
  have is delivered as one more value of that field, converted to its type, because the field descriptor is
  never reset. The last field may be one of a nested message that has ended.
\<close>

theorem decoder_unknown_field_delivered:
  assumes "wf_items ds i its" and "items_depth its < LWPB_MAX_DEPTH" and "length (dec_stack dec) = LWPB_MAX_DEPTH"
    and "i < length ds" and "n \<notin> number ` set (msg_fields (ds ! i))" and "n < 2 ^ 29"
    and "items_last ds i its None = Some fr" and "deref_field ds (Some fr) = Inr fd" and "field_wire_type fd = Inr wt"
    and "bs = items_bytes ds i its @ varint_bytes (field_key WT_VARINT n) @ varint_bytes x"
    and "data + length bs \<le> length m" and "length m < 2 ^ 63" and "peek m data (length bs) = bs" and "wt \<noteq> WT_STRING"
  shows "\<exists>dec'. (\<forall>s. dec_arg (dec' s) = s) \<and> lwpb_decoder_decode ds m wv dec (Some i) data (of_nat (length bs)) =
    andthen (handle_events dec (Msg_start False i # items_events ds (Some i) i data its @
        [Msg_field False (Some i) fr (value_of_wire (field_type fd) \<lparr>wv_word = x, wv_data = 0\<rparr>), Msg_end False i]) (dec_arg dec)) (\<lambda>s.
      Inr (LWPB_ERR_OK, dec' s, Some (of_nat (length bs))))"
proof -
  let ?its = "items_bytes ds i its" and ?key = "varint_bytes (field_key WT_VARINT n)" and ?val = "varint_bytes x"
  let ?buf = "lwpb_buf_init data (of_nat (length bs))"
  have "at_pos m ?buf (?its @ ?key @ ?val)"
    using at_pos_init [OF assms(11-13)] assms(10) by simp
  from at_pos_append [OF this] have pos: "at_pos m ?buf ?its" and "at_pos m (advance (length ?its) ?buf) (?key @ ?val)"
    by auto
  from at_pos_append [OF this(2)] have key_pos: "at_pos m (advance (length ?its) ?buf) ?key"
    and val_pos: "at_pos m (advance (length ?its + length ?key) ?buf) ?val" by auto
  from decode_prefix [OF assms(1-3) pos, of wv] assms(7) obtain st' wv' where
    st': "length st' = LWPB_MAX_DEPTH" "st' ! 0 = \<lparr>df_buf = advance (length ?its) ?buf, df_msg_desc = Some i\<rparr>"
    and decode: "lwpb_decoder_decode ds m wv dec (Some i) data (of_nat (length bs)) =
      andthen (handle_events dec (Msg_start False i # items_events ds (Some i) i data its) (dec_arg dec)) (\<lambda>s.
      andthen (decode_run ds m (Some i) (Inner, dst dec s st' (Suc 0) False, Some fr, wv')) (\<lambda>(ret, dec).
        if ret \<noteq> LWPB_ERR_OK then Inr (ret, dec, None)
        else Inr (LWPB_ERR_OK, dec, Some (lwpb_buf_used (df_buf (dec_stack dec ! 0))))))"
    by auto
  have key: "decode_key ds m False \<lparr>df_buf = advance (length ?its) ?buf, df_msg_desc = Some i\<rparr> (Some fr) =
      Inr (LWPB_ERR_OK, advance (length ?its + length ?key) ?buf, WT_VARINT, Some fr)"
    using key_pos assms(4-6) find_number_unknown [OF assms(5), of 0]
    by (simp add: decode_key_def at_pos_varint find_field_def key_number key_wire_type known_def)
  have wire: "decode_wire_value m WT_VARINT (advance (length ?its + length ?key) ?buf) wv' =
      Inr (LWPB_ERR_OK, advance (length bs) ?buf, wv'\<lparr>wv_word := x\<rparr>)"
    using at_pos_varint [OF val_pos] assms(10) by (simp add: decode_wire_value_def add.assoc)
  obtain v where v: "value_of_wire (field_type fd) \<lparr>wv_word = x, wv_data = 0\<rparr> = Some v"
    using number_value_word(2) [OF assms(9,14)] by blast
  let ?st = "st'[0 := \<lparr>df_buf = advance (length bs) ?buf, df_msg_desc = Some i\<rparr>]"
  have field: "decode_run ds m (Some i) (Inner, dst dec s st' (Suc 0) False, Some fr, wv') =
      andthen (handle dec (Msg_field False (Some i) fr (Some v)) s) (\<lambda>s.
        decode_run ds m (Some i) (Inner, dst dec s ?st (Suc 0) False, Some fr, wv'\<lparr>wv_word := x\<rparr>))" for s
    using run_body [where dec = dec, OF _ st'(2) _ key wire] st' at_pos_left [OF key_pos] assms(8,9) v
    by (simp add: dispatch_def andthen_assoc number_value_word(1) [OF assms(9,14)] LWPB_MAX_DEPTH_def)
  have whole: "length bs < 2 ^ 64" using assms(11,12) by simp
  have "?st ! 0 = \<lparr>df_buf = advance (length bs) ?buf, df_msg_desc = Some i\<rparr>" and len: "length ?st = LWPB_MAX_DEPTH"
    using st'(1) by (simp_all add: LWPB_MAX_DEPTH_def)
  note ends = decode_ends [OF len this(1) advance_whole(1) [OF whole]]
  have "lwpb_decoder_decode ds m wv dec (Some i) data (of_nat (length bs)) =
    andthen (handle_events dec (Msg_start False i # items_events ds (Some i) i data its @
        [Msg_field False (Some i) fr (Some v), Msg_end False i]) (dec_arg dec)) (\<lambda>s.
      Inr (LWPB_ERR_OK, dst dec s ?st 0 False, Some (of_nat (length bs))))"
    using advance_whole(2) [OF whole, of data] st'(1)
    by (simp add: decode field ends handle_events_append andthen_assoc LWPB_MAX_DEPTH_def cong: andthen_cong)
  then show ?thesis
    by (intro exI [of _ "\<lambda>s. dst dec s ?st 0 False"]) (simp add: v)
qed

text \<open>Field 5 after an int32: a second value of field 1.\<close>

lemma decoder_unknown_field_delivered_witness:
  "decoded [8, 1, 40, 2] 4 = Inr (LWPB_ERR_OK,
     [Msg_start False 0, Msg_field False (Some 0) (0, 0) (Some (V_int32 1)),
      Msg_field False (Some 0) (0, 0) (Some (V_int32 2)), Msg_end False 0], Some 4)"
proof -
  let ?bs = "[8, 1, 40, 2] :: u8 list"
  have "\<exists>dec'. (\<forall>s. dec_arg (dec' s) = s) \<and> lwpb_decoder_decode sample_descs ?bs no_wire_value recorder (Some 0) 0 (of_nat (length ?bs)) =
    andthen (handle_events recorder (Msg_start False 0 # items_events sample_descs (Some 0) 0 0 [Scalar 0 (V_int32 1)] @
        [Msg_field False (Some 0) (0, 0) (value_of_wire (field_type (the_field sample_descs 0 0)) \<lparr>wv_word = 2, wv_data = 0\<rparr>), Msg_end False 0])
      (dec_arg recorder)) (\<lambda>s. Inr (LWPB_ERR_OK, dec' s, Some (of_nat (length ?bs))))"
  proof (rule decoder_unknown_field_delivered [where n = 5 and x = 2])
    show "wf_items sample_descs 0 [Scalar 0 (V_int32 1) :: u8 list item]" "0 < length sample_descs"
      "5 \<notin> number ` set (msg_fields (sample_descs ! 0))" "deref_field sample_descs (Some (0, 0)) = Inr (the_field sample_descs 0 0)"
      "field_wire_type (the_field sample_descs 0 0) = Inr WT_VARINT" by code_simp+
    show "?bs = items_bytes sample_descs 0 [Scalar 0 (V_int32 1)] @ varint_bytes (field_key WT_VARINT 5) @ varint_bytes 2"
      by code_simp
  qed (simp_all add: sample_lengths LWPB_MAX_DEPTH_def peek_def)
  moreover have "value_of_wire (field_type (the_field sample_descs 0 0)) \<lparr>wv_word = 2, wv_data = 0\<rparr> = Some (V_int32 2)"
    by code_simp
  ultimately show ?thesis
    by (auto simp: decoded_def record_events sample_lengths simp del: handle_events.simps)
qed

section \<open>Concrete inputs\<close>

text \<open>
  For a nested message inside of a nested message the field handler is given the descriptor of the
  root message, 0, and not that of the message 1 that contains the field.
\<close>

theorem decoder_nested_root_desc:
  "decoded [26, 2, 18, 0] 4 = Inr (LWPB_ERR_OK,
     [Msg_start False 0, Msg_field False (Some 0) (0, 2) None, Msg_start False 1,
      Msg_field False (Some 0) (1, 1) None, Msg_start False 0, Msg_end False 0,
      Msg_end False 1, Msg_end False 0], Some 4)"
  by code_simp

text \<open>
  A varint for a string field is not rejected: the wire type of the key is not compared with the type
  of the field, so the handler is given a string of the length that the varint says, at the address
  that an earlier string had, here 200 bytes from an address in a message of 7 bytes.
\<close>

theorem decoder_wire_type_unchecked:
  "decoded [18, 1, 97, 16, 200, 1] 6 = Inr (LWPB_ERR_OK,
     [Msg_start False 0, Msg_field False (Some 0) (0, 1) (Some (V_string 2 1)),
      Msg_field False (Some 0) (0, 1) (Some (V_string 2 200)), Msg_end False 0], Some 6)"
  by code_simp

text \<open>A message in which messages are nested to a given depth.\<close>

fun nested_bytes :: "nat \<Rightarrow> u8 list" where
  "nested_bytes 0 = []"
| "nested_bytes (Suc n) = (let bs = nested_bytes n in
     (if odd n then 26 else 18) # of_nat (length bs) # bs)"

text \<open>
  Input can make the decoder abort the program: a message of 64 bytes that nests 32 messages inside of
  the root fails the assertion on the depth of the stack instead of being rejected with an error.
\<close>

theorem decoder_aborts_on_deep_nesting:
  "decoded (nested_bytes 32) 64 = Inl Abort"
  by code_simp

text \<open>
  When lwpb_encoder_nested_start finds no room it returns LWPB_ERR_END_OF_BUF but leaves a frame
  pushed whose buffer is stale, so that the next field goes to that buffer and not to the message: here
  it is rejected as a field of another message although it belongs to the message under construction.
\<close>

theorem nested_start_error_leaves_frame:
  "(case lwpb_encoder_start sample_encoder (Some 0) 0 8 of Inl e \<Rightarrow> False | Inr enc \<Rightarrow>
    (case lwpb_encoder_nested_start sample_descs enc (0, 2) of Inl e \<Rightarrow> False | Inr (ret, enc') \<Rightarrow>
      ret = LWPB_ERR_END_OF_BUF \<and>
      lwpb_encoder_add_int32 sample_descs (replicate 8 0) enc (Some (0, 0)) 1 \<noteq>
        lwpb_encoder_add_int32 sample_descs (replicate 8 0) enc' (Some (0, 0)) 1 \<and>
      lwpb_encoder_add_int32 sample_descs (replicate 8 0) enc' (Some (0, 0)) 1 =
        Inr (LWPB_ERR_UNKNOWN_FIELD, replicate 8 0, enc')))"
  by code_simp

section \<open>Malformed input\<close>

text \<open>
  The nested notifications of arbitrary input, here a nested message that is longer than what is left.
\<close>

lemma decoder_notifies_nested_witness:
  "\<exists>dec' evs opn. lwpb_decoder_decode sample_descs [8, 1, 26, 100, 8] no_wire_value recorder (Some 0) 0 5 = Inr (LWPB_ERR_END_OF_BUF, dec', None) \<and>
    handle_events recorder evs [] = Inr (dec_arg dec') \<and> nested sample_descs (Some 0) evs [] = Some opn \<and> opn \<noteq> []"
proof -
  have "(case lwpb_decoder_decode sample_descs [8, 1, 26, 100, 8] no_wire_value recorder (Some 0) 0 5 of
      Inr (ret, dec', used) \<Rightarrow> ret = LWPB_ERR_END_OF_BUF | Inl _ \<Rightarrow> False)"
    by code_simp
  then obtain dec' used where run: "lwpb_decoder_decode sample_descs [8, 1, 26, 100, 8] no_wire_value recorder (Some 0) 0 5 =
      Inr (LWPB_ERR_END_OF_BUF, dec', used)"
    by (auto split: sum.splits)
  from decoder_notifies_nested [OF run] run show ?thesis
    by (auto simp: sample_lengths)
qed

end
