(* ===== verification/World.thy ===== *)
theory World
  imports Encoder Decoder
begin

text \<open>
  The surroundings of the RPC code: the heap that malloc and free manage, the automatic arrays of a
  function, and the system calls of the socket transports.

  Buffers, strings and arrays are regions of one flat memory. The kernel is an environment: its answers
  are a script of the state, arbitrary in every theorem, and the calls that have an effect outside of the
  process are recorded in a log. What a C object contains before it is written is arbitrary too.
\<close>

section \<open>The state\<close>

record indeterminate =
  any_bytes :: "addr \<Rightarrow> u8"
  any_encoder :: lwpb_encoder
  any_frames :: "lwpb_decoder_stack_frame list"
  any_wire :: wire_value

text \<open>An answer of the kernel: an int, received data, or the set of descriptors that are ready.\<close>

datatype answer = Int_answer int | Data_answer "u8 list" | Ready_answer "int list"

datatype syscall = Sys_send int "u8 list" | Sys_close int

text \<open>
  The live blocks of the heap with their sizes, the number of bytes that malloc can still hand out, and
  the state of the application, on which the handlers work.
\<close>

record 's world =
  w_mem :: mem
  w_blocks :: "(addr \<times> nat) list"
  w_avail :: nat
  w_any :: indeterminate
  w_answers :: "answer list"
  w_log :: "syscall list"
  w_app :: 's

type_synonym void_ptr = "addr option"

text \<open>A pointer moved forward, and the difference of two pointers as a size_t.\<close>

definition ptr_add :: "void_ptr \<Rightarrow> nat \<Rightarrow> void_ptr" where
  "ptr_add p n = map_option (\<lambda>a. a + n) p"

definition ptr_diff :: "void_ptr \<Rightarrow> void_ptr \<Rightarrow> u64" where
  "ptr_diff p q = size_of_int ((case p of None \<Rightarrow> 0 | Some a \<Rightarrow> int a) - (case q of None \<Rightarrow> 0 | Some b \<Rightarrow> int b))"

lemma ptr_diff_in:
  assumes "b \<le> p" and "p \<le> b + unat (n :: u64)"
  shows "unat (ptr_diff (Some p) (Some b)) = p - b" and "unat (n - ptr_diff (Some p) (Some b)) = unat n - (p - b)"
proof -
  have "unat n < 2 ^ 64"
    using unsigned_less [of n] by simp
  then have "p - b < 2 ^ 64"
    using assms(2) by linarith
  then show d: "unat (ptr_diff (Some p) (Some b)) = p - b"
    using unat_size_diff [OF assms(1)] by (simp add: ptr_diff_def)
  then have "ptr_diff (Some p) (Some b) \<le> n"
    using assms by (simp add: word_le_nat_alt)
  then show "unat (n - ptr_diff (Some p) (Some b)) = unat n - (p - b)"
    by (simp add: unat_sub d)
qed

text \<open>Calling through a function pointer.\<close>

definition fun_ptr :: "'a option \<Rightarrow> 'a run" where
  "fun_ptr f = (case f of None \<Rightarrow> Inl Fault | Some f \<Rightarrow> Inr f)"

lemma fun_ptr_simps [simp]: "fun_ptr (Some f) = Inr f" "fun_ptr None = Inl Fault"
  by (simp_all add: fun_ptr_def)

lemma fun_ptr_Inr: "fun_ptr f = Inr g \<longleftrightarrow> f = Some g"
  by (auto simp: fun_ptr_def split: option.splits)

section \<open>Memory\<close>

definition fresh_bytes :: "indeterminate \<Rightarrow> addr \<Rightarrow> nat \<Rightarrow> u8 list" where
  "fresh_bytes a p n = map (any_bytes a) [p..<p + n]"

lemma length_fresh_bytes [simp]: "length (fresh_bytes a p n) = n"
  by (simp add: fresh_bytes_def)

text \<open>
  malloc and free of \<open>stdlib.h\<close>. A block never overlaps an earlier one; freeing what is not the
  start of a live block is undefined.
\<close>

definition c_malloc :: "nat \<Rightarrow> 's world \<Rightarrow> void_ptr \<times> 's world" where
  "c_malloc n w =
     (if n \<le> w_avail w then
        (let p = length (w_mem w) in
         (Some p, w\<lparr>w_mem := w_mem w @ fresh_bytes (w_any w) p n, w_blocks := (p, n) # w_blocks w,
            w_avail := w_avail w - n\<rparr>))
      else (None, w))"

definition c_free :: "void_ptr \<Rightarrow> 's world \<Rightarrow> 's world run" where
  "c_free p w = (case p of None \<Rightarrow> Inr w
     | Some a \<Rightarrow> if a \<in> fst ` set (w_blocks w)
                 then Inr (w\<lparr>w_blocks := filter (\<lambda>b. fst b \<noteq> a) (w_blocks w)\<rparr>) else Inl Undef)"

text \<open>The blocks lie in the memory and do not overlap.\<close>

fun apart :: "addr \<times> nat \<Rightarrow> addr \<times> nat \<Rightarrow> bool" where
  "apart (a, n) (b, k) \<longleftrightarrow> a \<noteq> b \<and> (a + n \<le> b \<or> b + k \<le> a)"

definition heap_ok :: "'s world \<Rightarrow> bool" where
  "heap_ok w \<longleftrightarrow> list_all (\<lambda>(a, n). a + n \<le> length (w_mem w) \<and> 0 < n) (w_blocks w) \<and>
     sorted_wrt apart (w_blocks w)"

definition live_blocks :: "'s world \<Rightarrow> addr set" where
  "live_blocks w = fst ` set (w_blocks w)"

lemma heap_ok_malloc: "heap_ok w \<Longrightarrow> 0 < n \<Longrightarrow> c_malloc n w = (p, w') \<Longrightarrow> heap_ok w'"
  by (fastforce simp: heap_ok_def c_malloc_def Let_def list_all_iff split: if_splits)

lemma heap_ok_free: "heap_ok w \<Longrightarrow> c_free p w = Inr w' \<Longrightarrow> heap_ok w'"
  by (auto simp: heap_ok_def c_free_def list_all_iff sorted_wrt_filter split: option.splits if_splits)

lemma malloc_fresh: "heap_ok w \<Longrightarrow> c_malloc n w = (Some p, w') \<Longrightarrow> p \<notin> live_blocks w"
  by (fastforce simp: heap_ok_def c_malloc_def Let_def live_blocks_def list_all_iff split: if_splits)

lemma malloc_live:
  "c_malloc n w = (p, w') \<Longrightarrow> live_blocks w' = (case p of None \<Rightarrow> live_blocks w | Some a \<Rightarrow> insert a (live_blocks w))"
  by (force simp: c_malloc_def Let_def live_blocks_def split: if_splits)

lemma free_live:
  "a \<in> live_blocks w \<Longrightarrow> \<exists>w'. c_free (Some a) w = Inr w' \<and> live_blocks w' = live_blocks w - {a}"
  by (auto simp: c_free_def live_blocks_def)

text \<open>An automatic array: storage for the time of a block of code.\<close>

definition with_array :: "nat \<Rightarrow> (addr \<Rightarrow> 's world \<Rightarrow> ('a \<times> 's world) run) \<Rightarrow> 's world \<Rightarrow> ('a \<times> 's world) run" where
  "with_array n body w =
     (let p = length (w_mem w) in
      andthen (body p (w\<lparr>w_mem := w_mem w @ fresh_bytes (w_any w) p n\<rparr>)) (\<lambda>(r, w).
        Inr (r, w\<lparr>w_mem := take p (w_mem w)\<rparr>)))"

section \<open>System calls\<close>

text \<open>
  Calls that yield an int: accept, fcntl, socket, setsockopt, bind, listen, connect and getaddrinfo. An
  answer of another kind stands for the failure of the call.
\<close>

definition sys_int :: "'s world \<Rightarrow> int \<times> 's world" where
  "sys_int w = (case w_answers w of
       [] \<Rightarrow> (- 1, w)
     | a # as \<Rightarrow> (case a of Int_answer i \<Rightarrow> i | _ \<Rightarrow> - 1, w\<lparr>w_answers := as\<rparr>))"

definition sys_close :: "int \<Rightarrow> 's world \<Rightarrow> 's world" where
  "sys_close fd w = w\<lparr>w_log := w_log w @ [Sys_close fd]\<rparr>"

text \<open>send of data that is not in the memory fails (EFAULT); the code never looks at the result.\<close>

definition sys_send_bytes :: "int \<Rightarrow> u8 list \<Rightarrow> 's world \<Rightarrow> 's world" where
  "sys_send_bytes fd bs w = w\<lparr>w_log := w_log w @ [Sys_send fd bs]\<rparr>"

definition sys_send :: "int \<Rightarrow> void_ptr \<Rightarrow> u64 \<Rightarrow> 's world \<Rightarrow> 's world" where
  "sys_send fd p len w = (case p of
       None \<Rightarrow> if len = 0 then sys_send_bytes fd [] w else w
     | Some a \<Rightarrow> if len = 0 then sys_send_bytes fd [] w
                 else if a + unat len \<le> length (w_mem w) then sys_send_bytes fd (peek (w_mem w) a (unat len)) w
                 else w)"

text \<open>
  recv stores at most the given number of bytes and yields their number: 0 when the peer has closed the
  connection, and -1 on an error, among them a buffer outside of the memory.
\<close>

definition sys_recv :: "void_ptr \<Rightarrow> u64 \<Rightarrow> 's world \<Rightarrow> int \<times> 's world" where
  "sys_recv p len w = (case w_answers w of
       [] \<Rightarrow> (- 1, w)
     | a # as \<Rightarrow> (let w = w\<lparr>w_answers := as\<rparr> in case a of
         Data_answer bs \<Rightarrow> (let bs = take (unat len) bs in
           if bs = [] then (0, w)
           else case p of None \<Rightarrow> (- 1, w)
             | Some b \<Rightarrow> if b + length bs \<le> length (w_mem w)
                 then (int (length bs), w\<lparr>w_mem := poke (w_mem w) b bs\<rparr>) else (- 1, w))
       | _ \<Rightarrow> (- 1, w)))"

text \<open>
  select examines the descriptors of the set that are below \<open>nfds\<close> and leaves those that are ready in
  the set: an empty one after a timeout, None after an error.
\<close>

definition sys_select :: "int \<Rightarrow> int list \<Rightarrow> 's world \<Rightarrow> int list option \<times> 's world" where
  "sys_select nfds fds w = (case w_answers w of
       [] \<Rightarrow> (Some [], w)
     | a # as \<Rightarrow> (case a of
           Ready_answer ready \<Rightarrow> Some (filter (\<lambda>fd. fd < nfds \<and> fd \<in> set ready) fds)
         | _ \<Rightarrow> None, w\<lparr>w_answers := as\<rparr>))"

lemma sys_int_sel [simp]:
  "w_mem (snd (sys_int w)) = w_mem w" "w_blocks (snd (sys_int w)) = w_blocks w"
  "w_log (snd (sys_int w)) = w_log w" "w_app (snd (sys_int w)) = w_app w" "w_avail (snd (sys_int w)) = w_avail w"
  by (simp_all add: sys_int_def split: list.split)

lemma sys_recv_bound: "sys_recv p len w = (n, w') \<Longrightarrow> n \<le> int (unat len)"
  using order_trans [OF _ uint_ge_0 [of len], of "- 1"]
  by (auto simp: sys_recv_def Let_def of_nat_min split: list.splits answer.splits option.splits if_splits)

lemma sys_recv_length: "sys_recv p len w = (n, w') \<Longrightarrow> length (w_mem w') = length (w_mem w) \<and> w_blocks w' = w_blocks w"
  by (auto simp: sys_recv_def Let_def split: list.splits answer.splits option.splits if_splits)

text \<open>Data that arrive at the address \<open>p\<close> of a buffer with \<open>n\<close> bytes from \<open>b\<close>, which has room for them.\<close>

definition room_at :: "addr \<Rightarrow> addr \<Rightarrow> u64 \<Rightarrow> u8 list \<Rightarrow> mem \<Rightarrow> bool" where
  "room_at b p n bs m \<longleftrightarrow> b \<le> p \<and> p + length bs \<le> b + unat n \<and> b + unat n \<le> length m \<and> bs \<noteq> []"

definition after_recv :: "u8 list \<Rightarrow> addr \<Rightarrow> answer list \<Rightarrow> 's world \<Rightarrow> 's world" where
  "after_recv bs p as w = w\<lparr>w_answers := as, w_mem := poke (w_mem w) p bs\<rparr>"

lemma after_recv_answers [simp]: "after_recv bs p as (w\<lparr>w_answers := x\<rparr>) = after_recv bs p as w"
  by (simp add: after_recv_def)

lemma recv_room_at:
  assumes "room_at b p n bs (w_mem w)" and "w_answers w = Data_answer bs # as"
  shows "sys_recv (Some p) (n - ptr_diff (Some p) (Some b)) w = (int (length bs), after_recv bs p as w)"
    and "ptr_diff (Some (p + length bs)) (Some b) = of_nat (p + length bs - b)"
proof -
  have "b \<le> p" "p \<le> b + unat n" and "length bs \<le> unat n - (p - b)" "p + length bs \<le> length (w_mem w)" "bs \<noteq> []"
    using assms(1) by (auto simp: room_at_def)
  then show "sys_recv (Some p) (n - ptr_diff (Some p) (Some b)) w = (int (length bs), after_recv bs p as w)"
    using assms(2) ptr_diff_in(2) [of b p n] by (simp add: sys_recv_def after_recv_def Let_def)
  show "ptr_diff (Some (p + length bs)) (Some b) = of_nat (p + length bs - b)"
    using \<open>b \<le> p\<close> by (simp add: ptr_diff_def of_nat_diff flip: size_of_int_nat)
qed

end
