(* ===== verification/Transport.thy ===== *)
theory Transport
  imports World
begin

text \<open>
  The structures of the RPC layer (src/src/include/lwpb/rpc/transport.h, client.h and server.h, and the
  service descriptors of src/src/include/lwpb/core/types.h), and the transport base class of
  src/src/lwpb/rpc/transport.c with its interface to memory allocators.

  Clients, servers and transports are objects that the code refers to by pointer: their index in the
  lists of the process state. The handlers of the application work on the world; they do not change these
  objects.
\<close>

section \<open>Service descriptors\<close>

type_synonym service_ref = nat
type_synonym method_ref = "nat \<times> nat"

text \<open>A method is referred to by its service and its index in the \<open>methods\<close> array; names are C strings.\<close>

record lwpb_method_desc =
  mtd_service :: service_ref
  mtd_req_desc :: "msg_ref option"
  mtd_res_desc :: "msg_ref option"
  mtd_name :: addr

record lwpb_service_desc =
  svc_methods :: "lwpb_method_desc list"
  svc_name :: addr

type_synonym services = "lwpb_service_desc list"

definition deref_method :: "services \<Rightarrow> method_ref option \<Rightarrow> lwpb_method_desc run" where
  "deref_method svs p = (case p of None \<Rightarrow> Inl Fault
     | Some (i, j) \<Rightarrow> andthen (deref svs (Some i)) (\<lambda>sv. deref (svc_methods sv) (Some j)))"

datatype lwpb_rpc_result_t = LWPB_RPC_OK | LWPB_RPC_NOT_CONNECTED | LWPB_RPC_FAILED

section \<open>Clients and servers\<close>

type_synonym client_ref = nat
type_synonym server_ref = nat
type_synonym transport_ref = nat

text \<open>The request handler also yields what it stores through its pointer to the length.\<close>

type_synonym 's request_handler =
  "client_ref \<Rightarrow> method_ref \<Rightarrow> msg_ref option \<Rightarrow> void_ptr \<Rightarrow> u64 \<Rightarrow> void_ptr \<Rightarrow> 's world \<Rightarrow>
   (lwpb_err_t \<times> u64 \<times> 's world) run"

type_synonym 's response_handler =
  "client_ref \<Rightarrow> method_ref \<Rightarrow> msg_ref option \<Rightarrow> void_ptr \<Rightarrow> u64 \<Rightarrow> void_ptr \<Rightarrow> 's world \<Rightarrow>
   (lwpb_err_t \<times> 's world) run"

type_synonym 's done_handler =
  "client_ref \<Rightarrow> method_ref \<Rightarrow> lwpb_rpc_result_t \<Rightarrow> void_ptr \<Rightarrow> 's world \<Rightarrow> 's world run"

record 's lwpb_client =
  cl_transport :: "transport_ref option"
  cl_arg :: void_ptr
  cl_request_handler :: "'s request_handler option"
  cl_response_handler :: "'s response_handler option"
  cl_done_handler :: "'s done_handler option"

text \<open>The arguments of the call handler: request descriptor, buffer and length, then those of the response.\<close>

type_synonym 's call_handler =
  "server_ref \<Rightarrow> method_ref \<Rightarrow> msg_ref option \<Rightarrow> void_ptr \<Rightarrow> u64 \<Rightarrow> msg_ref option \<Rightarrow> void_ptr \<Rightarrow> u64 \<Rightarrow>
   void_ptr \<Rightarrow> 's world \<Rightarrow> (lwpb_err_t \<times> u64 \<times> 's world) run"

record 's lwpb_server =
  srv_service_list :: "service_ref list option"
  srv_transport :: "transport_ref option"
  srv_arg :: void_ptr
  srv_call_handler :: "'s call_handler option"

section \<open>Transports\<close>

text \<open>
  Allocating yields the error code and the values of the buffer and the length after the call. A buffer
  pointer is NULL before every call.
\<close>

record 's lwpb_allocator_funs =
  alloc_buf :: "'s world \<Rightarrow> (lwpb_err_t \<times> void_ptr \<times> u64 \<times> 's world) run"
  free_buf :: "void_ptr \<Rightarrow> 's world \<Rightarrow> 's world run"

text \<open>
  The base structure; the transports extend it with their own members. The static tables of transport
  functions are known by the name of the file that defines them.
\<close>

datatype funs_name = Direct_funs | Socket_server_funs | Socket_client_funs

record 's lwpb_transport =
  allocator_funs :: "'s lwpb_allocator_funs"
  transport_funs :: funs_name

text \<open>The state of a process whose transports are extended by \<open>'t\<close>.\<close>

record ('s, 't) rpc =
  rpc_transports :: "('s, 't) lwpb_transport_scheme list"
  rpc_clients :: "'s lwpb_client list"
  rpc_servers :: "'s lwpb_server list"
  rpc_world :: "'s world"

record ('s, 't) lwpb_transport_funs =
  register_client :: "transport_ref \<Rightarrow> client_ref \<Rightarrow> ('s, 't) rpc \<Rightarrow> ('s, 't) rpc run"
  call :: "transport_ref \<Rightarrow> client_ref \<Rightarrow> method_ref \<Rightarrow> ('s, 't) rpc \<Rightarrow> (lwpb_err_t \<times> ('s, 't) rpc) run"
  cancel :: "transport_ref \<Rightarrow> client_ref \<Rightarrow> ('s, 't) rpc \<Rightarrow> ('s, 't) rpc run"
  register_server :: "transport_ref \<Rightarrow> server_ref \<Rightarrow> ('s, 't) rpc \<Rightarrow> ('s, 't) rpc run"

section \<open>transport.c\<close>

definition default_alloc_buf :: "'s world \<Rightarrow> (lwpb_err_t \<times> void_ptr \<times> u64 \<times> 's world) run" where
  "default_alloc_buf w = (let (buf, w) = c_malloc 1024 w in
     Inr (if buf \<noteq> None then LWPB_ERR_OK else LWPB_ERR_MEM, buf, 1024, w))"

definition default_free_buf :: "void_ptr \<Rightarrow> 's world \<Rightarrow> 's world run" where
  "default_free_buf buf w = c_free buf w"

definition default_allocator_funs :: "'s lwpb_allocator_funs" where
  "default_allocator_funs = \<lparr>alloc_buf = default_alloc_buf, free_buf = default_free_buf\<rparr>"

definition lwpb_transport_init :: "('s, 't) lwpb_transport_scheme \<Rightarrow> funs_name \<Rightarrow> ('s, 't) lwpb_transport_scheme" where
  "lwpb_transport_init t funs = t\<lparr>allocator_funs := default_allocator_funs, transport_funs := funs\<rparr>"

definition lwpb_transport_set_allocator ::
    "('s, 't) lwpb_transport_scheme \<Rightarrow> 's lwpb_allocator_funs \<Rightarrow> ('s, 't) lwpb_transport_scheme" where
  "lwpb_transport_set_allocator t funs = t\<lparr>allocator_funs := funs\<rparr>"

definition lwpb_transport_alloc_buf ::
    "('s, 't) lwpb_transport_scheme \<Rightarrow> 's world \<Rightarrow> (lwpb_err_t \<times> void_ptr \<times> u64 \<times> 's world) run" where
  "lwpb_transport_alloc_buf t w = alloc_buf (allocator_funs t) w"

definition lwpb_transport_free_buf ::
    "('s, 't) lwpb_transport_scheme \<Rightarrow> void_ptr \<Rightarrow> 's world \<Rightarrow> 's world run" where
  "lwpb_transport_free_buf t buf w = free_buf (allocator_funs t) buf w"

section \<open>The interface of memory allocators\<close>

text \<open>
  What transport.h promises of the allocator functions: a buffer that was allocated is not in use, stays
  in use until it is freed, and the other buffers are not touched. \<open>live\<close> is the set of the buffers in
  use and \<open>ok\<close> the invariant of the allocator.
\<close>

locale allocator =
  fixes alloc :: "'s world \<Rightarrow> (lwpb_err_t \<times> void_ptr \<times> u64 \<times> 's world) run"
    and dealloc :: "void_ptr \<Rightarrow> 's world \<Rightarrow> 's world run"
    and ok :: "'s world \<Rightarrow> bool"
    and live :: "'s world \<Rightarrow> addr set"
  assumes alloc_total: "ok w \<Longrightarrow> \<exists>ret buf len w'. alloc w = Inr (ret, buf, len, w')"
    and alloc_ok: "ok w \<Longrightarrow> alloc w = Inr (ret, buf, len, w') \<Longrightarrow> ok w'"
    and alloc_live: "ok w \<Longrightarrow> alloc w = Inr (LWPB_ERR_OK, buf, len, w') \<Longrightarrow>
      \<exists>a. buf = Some a \<and> a \<notin> live w \<and> live w' = insert a (live w)"
    and alloc_fails: "ok w \<Longrightarrow> alloc w = Inr (ret, buf, len, w') \<Longrightarrow> ret \<noteq> LWPB_ERR_OK \<Longrightarrow>
      buf = None \<and> live w' = live w"
    and dealloc_live: "ok w \<Longrightarrow> a \<in> live w \<Longrightarrow> \<exists>w'. dealloc (Some a) w = Inr w' \<and> ok w' \<and> live w' = live w - {a}"
begin

text \<open>A section of code that keeps the buffers in use as they are.\<close>

definition keeps :: "('s world \<Rightarrow> ('a \<times> 's world) run) \<Rightarrow> bool" where
  "keeps f \<longleftrightarrow> (\<forall>w r w'. ok w \<longrightarrow> f w = Inr (r, w') \<longrightarrow> ok w' \<and> live w' = live w)"

text \<open>Freeing a buffer when it is not NULL.\<close>

definition release :: "void_ptr \<Rightarrow> 's world \<Rightarrow> 's world run" where
  "release p w = (if p \<noteq> None then dealloc p w else Inr w)"

lemma release_None [simp]: "release None w = Inr w"
  by (simp add: release_def)

lemma release_two:
  assumes "ok w" and "live w = insert a (insert b L)" and "a \<notin> insert b L" and "b \<notin> L"
  shows "\<exists>w1 w2. release (Some a) w = Inr w1 \<and> release (Some b) w1 = Inr w2 \<and> ok w2 \<and> live w2 = L"
proof -
  obtain w1 where w1: "dealloc (Some a) w = Inr w1" "ok w1" "live w1 = insert b L"
    using dealloc_live [OF assms(1), of a] assms(2,3) by auto
  moreover obtain w2 where "dealloc (Some b) w1 = Inr w2" "ok w2" "live w2 = L"
    using dealloc_live [OF w1(2), of b] w1(3) assms(4) by auto
  ultimately show ?thesis
    by (auto simp: release_def)
qed

lemma release_one:
  assumes "ok w" and "live w = insert a L" and "a \<notin> L"
  shows "\<exists>w1. release (Some a) w = Inr w1 \<and> ok w1 \<and> live w1 = L"
  using dealloc_live [OF assms(1), of a] assms(2,3) by (auto simp: release_def)

end

interpretation heap: allocator default_alloc_buf default_free_buf heap_ok live_blocks
proof unfold_locales
  fix w w' :: "'s world" and ret buf len
  assume ok: "heap_ok w"
  show "\<exists>ret buf len w'. default_alloc_buf w = Inr (ret, buf, len, w')"
    by (simp add: default_alloc_buf_def split: prod.split)
  show "heap_ok w'" if "default_alloc_buf w = Inr (ret, buf, len, w')"
    using that heap_ok_malloc [OF ok, of 1024] by (auto simp: default_alloc_buf_def split: prod.splits)
  show "\<exists>a. buf = Some a \<and> a \<notin> live_blocks w \<and> live_blocks w' = insert a (live_blocks w)"
    if "default_alloc_buf w = Inr (LWPB_ERR_OK, buf, len, w')"
    using that malloc_fresh [OF ok, of 1024] malloc_live [of 1024 w]
    by (auto simp: default_alloc_buf_def split: prod.splits if_splits)
  show "buf = None \<and> live_blocks w' = live_blocks w"
    if "default_alloc_buf w = Inr (ret, buf, len, w')" "ret \<noteq> LWPB_ERR_OK"
    using that malloc_live [of 1024 w] by (auto simp: default_alloc_buf_def split: prod.splits if_splits)
next
  fix w :: "'s world" and a
  assume ok: "heap_ok w" and live: "a \<in> live_blocks w"
  from free_live [OF live] obtain w' where "c_free (Some a) w = Inr w'" "live_blocks w' = live_blocks w - {a}"
    by blast
  with heap_ok_free [OF ok] show "\<exists>w'. default_free_buf (Some a) w = Inr w' \<and> heap_ok w' \<and> live_blocks w' = live_blocks w - {a}"
    by (auto simp: default_free_buf_def)
qed

end
