(* ===== verification/Client.thy ===== *)
theory Client
  imports Transport
begin

text \<open>
  The RPC client and server of src/src/lwpb/rpc/client.c and server.c. They forward to the function table
  of their transport; \<open>tables\<close> is the contents of the static tables.
\<close>

type_synonym ('s, 't) fun_tables = "funs_name \<Rightarrow> ('s, 't) lwpb_transport_funs"

section \<open>Access to objects\<close>

text \<open>
  A table whose functions cast the transport to another structure. It stands for the tables that do not
  belong to the transports of a process.
\<close>

definition wrong_funs :: "('s, 't) lwpb_transport_funs" where
  "wrong_funs = \<lparr>register_client = (\<lambda>t c st. Inl Undef), call = (\<lambda>t c md st. Inl Undef),
     cancel = (\<lambda>t c st. Inl Undef), register_server = (\<lambda>t s st. Inl Undef)\<rparr>"

definition set_client :: "client_ref \<Rightarrow> ('s lwpb_client \<Rightarrow> 's lwpb_client) \<Rightarrow> ('s, 't) rpc \<Rightarrow> ('s, 't) rpc run" where
  "set_client c f st = andthen (deref (rpc_clients st) (Some c)) (\<lambda>cl.
     Inr (st\<lparr>rpc_clients := (rpc_clients st)[c := f cl]\<rparr>))"

definition set_server :: "server_ref \<Rightarrow> ('s lwpb_server \<Rightarrow> 's lwpb_server) \<Rightarrow> ('s, 't) rpc \<Rightarrow> ('s, 't) rpc run" where
  "set_server s f st = andthen (deref (rpc_servers st) (Some s)) (\<lambda>sv.
     Inr (st\<lparr>rpc_servers := (rpc_servers st)[s := f sv]\<rparr>))"

text \<open>The function table of a transport.\<close>

definition funs_of :: "('s, 't) fun_tables \<Rightarrow> transport_ref option \<Rightarrow> ('s, 't) rpc \<Rightarrow> ('s, 't) lwpb_transport_funs run" where
  "funs_of tables t st = andthen (deref (rpc_transports st) t) (\<lambda>tr. Inr (tables (transport_funs tr)))"

section \<open>The client\<close>

definition lwpb_client_init ::
    "('s, 't) fun_tables \<Rightarrow> client_ref \<Rightarrow> transport_ref option \<Rightarrow> ('s, 't) rpc \<Rightarrow> ('s, 't) rpc run" where
  "lwpb_client_init tables c transport st =
     andthen (lwpb_assert (transport \<noteq> None)) (\<lambda>_.
     andthen (set_client c (\<lambda>cl. cl\<lparr>cl_transport := transport, cl_arg := None, cl_request_handler := None,
       cl_response_handler := None, cl_done_handler := None\<rparr>) st) (\<lambda>st.
     andthen (funs_of tables transport st) (\<lambda>funs. register_client funs (the transport) c st)))"

definition lwpb_client_arg :: "client_ref \<Rightarrow> void_ptr \<Rightarrow> ('s, 't) rpc \<Rightarrow> ('s, 't) rpc run" where
  "lwpb_client_arg c arg = set_client c (\<lambda>cl. cl\<lparr>cl_arg := arg\<rparr>)"

definition lwpb_client_handler ::
    "client_ref \<Rightarrow> 's request_handler option \<Rightarrow> 's response_handler option \<Rightarrow> 's done_handler option \<Rightarrow>
     ('s, 't) rpc \<Rightarrow> ('s, 't) rpc run" where
  "lwpb_client_handler c request_handler response_handler done_handler =
     set_client c (\<lambda>cl. cl\<lparr>cl_request_handler := request_handler, cl_response_handler := response_handler,
       cl_done_handler := done_handler\<rparr>)"

definition lwpb_client_call ::
    "('s, 't) fun_tables \<Rightarrow> client_ref \<Rightarrow> method_ref \<Rightarrow> ('s, 't) rpc \<Rightarrow> (lwpb_err_t \<times> ('s, 't) rpc) run" where
  "lwpb_client_call tables c method_desc st =
     andthen (deref (rpc_clients st) (Some c)) (\<lambda>cl.
     andthen (lwpb_assert (cl_transport cl \<noteq> None)) (\<lambda>_.
     andthen (lwpb_assert (cl_request_handler cl \<noteq> None)) (\<lambda>_.
     andthen (lwpb_assert (cl_response_handler cl \<noteq> None)) (\<lambda>_.
     andthen (lwpb_assert (cl_done_handler cl \<noteq> None)) (\<lambda>_.
     andthen (funs_of tables (cl_transport cl) st) (\<lambda>funs.
       call funs (the (cl_transport cl)) c method_desc st))))))"

definition lwpb_client_cancel ::
    "('s, 't) fun_tables \<Rightarrow> client_ref \<Rightarrow> ('s, 't) rpc \<Rightarrow> ('s, 't) rpc run" where
  "lwpb_client_cancel tables c st =
     andthen (deref (rpc_clients st) (Some c)) (\<lambda>cl.
     andthen (funs_of tables (cl_transport cl) st) (\<lambda>funs. cancel funs (the (cl_transport cl)) c st))"

section \<open>The server\<close>

definition lwpb_server_init ::
    "('s, 't) fun_tables \<Rightarrow> server_ref \<Rightarrow> service_ref list option \<Rightarrow> transport_ref option \<Rightarrow> ('s, 't) rpc \<Rightarrow>
     ('s, 't) rpc run" where
  "lwpb_server_init tables s service_list transport st =
     andthen (lwpb_assert (transport \<noteq> None)) (\<lambda>_.
     andthen (set_server s (\<lambda>sv. sv\<lparr>srv_service_list := service_list, srv_transport := transport,
       srv_arg := None, srv_call_handler := None\<rparr>) st) (\<lambda>st.
     andthen (funs_of tables transport st) (\<lambda>funs. register_server funs (the transport) s st)))"

definition lwpb_server_arg :: "server_ref \<Rightarrow> void_ptr \<Rightarrow> ('s, 't) rpc \<Rightarrow> ('s, 't) rpc run" where
  "lwpb_server_arg s arg = set_server s (\<lambda>sv. sv\<lparr>srv_arg := arg\<rparr>)"

definition lwpb_server_handler :: "server_ref \<Rightarrow> 's call_handler option \<Rightarrow> ('s, 't) rpc \<Rightarrow> ('s, 't) rpc run" where
  "lwpb_server_handler s call_handler = set_server s (\<lambda>sv. sv\<lparr>srv_call_handler := call_handler\<rparr>)"

section \<open>Objects of a process\<close>

text \<open>
  What every operation keeps: pointers of clients and servers to transports are NULL or valid, and no
  object is created or destroyed.
\<close>

definition rpc_ok :: "('s, 't) rpc \<Rightarrow> bool" where
  "rpc_ok st \<longleftrightarrow>
     list_all (\<lambda>cl. \<forall>t. cl_transport cl = Some t \<longrightarrow> t < length (rpc_transports st)) (rpc_clients st) \<and>
     list_all (\<lambda>sv. \<forall>t. srv_transport sv = Some t \<longrightarrow> t < length (rpc_transports st)) (rpc_servers st)"

lemma set_client_Inr:
  "set_client c f st = Inr st' \<longleftrightarrow> c < length (rpc_clients st) \<and>
     st' = st\<lparr>rpc_clients := (rpc_clients st)[c := f (rpc_clients st ! c)]\<rparr>"
  by (auto simp: set_client_def deref_def)

lemma set_server_Inr:
  "set_server s f st = Inr st' \<longleftrightarrow> s < length (rpc_servers st) \<and>
     st' = st\<lparr>rpc_servers := (rpc_servers st)[s := f (rpc_servers st ! s)]\<rparr>"
  by (auto simp: set_server_def deref_def)

lemma funs_of_Inr:
  "funs_of tables t st = Inr funs \<longleftrightarrow> (\<exists>i. t = Some i \<and> i < length (rpc_transports st) \<and>
     funs = tables (transport_funs (rpc_transports st ! i)))"
  by (auto simp: funs_of_def andthen_eq_Inr deref_def split: option.splits)

lemma list_all_update: "list_all P xs \<Longrightarrow> P x \<Longrightarrow> list_all P (xs[i := x])"
  by (auto simp: list_all_iff dest!: set_update_subset_insert [THEN subsetD])

section \<open>The interface of transports\<close>

text \<open>
  What the client and the server rely on: the functions of a transport change that transport only, keep
  its invariant \<open>tinv\<close>, and otherwise change the world.
\<close>

definition touches ::
    "(('s, 't) lwpb_transport_scheme \<Rightarrow> bool) \<Rightarrow> transport_ref \<Rightarrow> ('s, 't) rpc \<Rightarrow> ('s, 't) rpc \<Rightarrow> bool" where
  "touches tinv t st st' \<longleftrightarrow> t < length (rpc_transports st) \<and>
     (\<exists>tr w. st' = st\<lparr>rpc_transports := (rpc_transports st)[t := tr], rpc_world := w\<rparr> \<and>
        (tinv (rpc_transports st ! t) \<longrightarrow> tinv tr))"

definition rpc_inv :: "(('s, 't) lwpb_transport_scheme \<Rightarrow> bool) \<Rightarrow> ('s, 't) rpc \<Rightarrow> bool" where
  "rpc_inv tinv st \<longleftrightarrow> rpc_ok st \<and> list_all tinv (rpc_transports st)"

lemma touches_inv: "touches tinv t st st' \<Longrightarrow> rpc_inv tinv st \<Longrightarrow> rpc_inv tinv st'"
  by (auto simp: touches_def rpc_inv_def rpc_ok_def list_all_length intro!: list_all_update)
    (simp add: nth_list_update)

text \<open>One operation of a client or a server.\<close>

inductive rpc_step :: "('s, 't) fun_tables \<Rightarrow> ('s, 't) rpc \<Rightarrow> ('s, 't) rpc \<Rightarrow> bool" for tables where
  step_client_init: "lwpb_client_init tables c t st = Inr st' \<Longrightarrow> rpc_step tables st st'"
| step_client_arg: "lwpb_client_arg c arg st = Inr st' \<Longrightarrow> rpc_step tables st st'"
| step_client_handler: "lwpb_client_handler c rq rs dn st = Inr st' \<Longrightarrow> rpc_step tables st st'"
| step_client_call: "lwpb_client_call tables c md st = Inr (ret, st') \<Longrightarrow> rpc_step tables st st'"
| step_client_cancel: "lwpb_client_cancel tables c st = Inr st' \<Longrightarrow> rpc_step tables st st'"
| step_server_init: "lwpb_server_init tables s sl t st = Inr st' \<Longrightarrow> rpc_step tables st st'"
| step_server_arg: "lwpb_server_arg s arg st = Inr st' \<Longrightarrow> rpc_step tables st st'"
| step_server_handler: "lwpb_server_handler s h st = Inr st' \<Longrightarrow> rpc_step tables st st'"

locale transport =
  fixes tables :: "('s, 't) fun_tables"
    and funs :: "('s, 't) lwpb_transport_funs"
    and tinv :: "('s, 't) lwpb_transport_scheme \<Rightarrow> bool"
  assumes table: "tinv tr \<Longrightarrow> tables (transport_funs tr) = funs"
    and register_client: "register_client funs t c st = Inr st' \<Longrightarrow> t < length (rpc_transports st) \<Longrightarrow> touches tinv t st st'"
    and call: "call funs t c md st = Inr (ret, st') \<Longrightarrow> t < length (rpc_transports st) \<Longrightarrow> touches tinv t st st'"
    and cancel: "cancel funs t c st = Inr st' \<Longrightarrow> t < length (rpc_transports st) \<Longrightarrow> touches tinv t st st'"
    and register_server: "register_server funs t s st = Inr st' \<Longrightarrow> t < length (rpc_transports st) \<Longrightarrow> touches tinv t st st'"
begin

lemma funs_ofD:
  "funs_of tables t st = Inr f \<Longrightarrow> rpc_inv tinv st \<Longrightarrow> \<exists>i. t = Some i \<and> i < length (rpc_transports st) \<and> f = funs"
  by (auto simp: funs_of_Inr rpc_inv_def list_all_length table)

text \<open>Every operation of clients and servers keeps the process state well-formed.\<close>

lemma set_client_inv:
  assumes "set_client c f st = Inr st'" and "rpc_inv tinv st"
    and "\<And>cl t. cl_transport (f cl) = Some t \<Longrightarrow> cl_transport cl = Some t \<or> t < length (rpc_transports st)"
  shows "rpc_inv tinv st'"
  using assms by (auto simp: set_client_Inr rpc_inv_def rpc_ok_def list_all_length nth_list_update)

lemma set_server_inv:
  assumes "set_server s f st = Inr st'" and "rpc_inv tinv st"
    and "\<And>sv t. srv_transport (f sv) = Some t \<Longrightarrow> srv_transport sv = Some t \<or> t < length (rpc_transports st)"
  shows "rpc_inv tinv st'"
  using assms by (auto simp: set_server_Inr rpc_inv_def rpc_ok_def list_all_length nth_list_update) blast

lemma client_init_inv:
  assumes "lwpb_client_init tables c t st = Inr st'" and "rpc_inv tinv st"
  shows "rpc_inv tinv st'"
proof -
  obtain st1 f where set: "set_client c (\<lambda>cl. cl\<lparr>cl_transport := t, cl_arg := None, cl_request_handler := None,
       cl_response_handler := None, cl_done_handler := None\<rparr>) st = Inr st1"
    and f: "funs_of tables t st1 = Inr f" and reg: "register_client f (the t) c st1 = Inr st'"
    using assms(1) by (auto simp: lwpb_client_init_def andthen_eq_Inr)
  have "rpc_transports st1 = rpc_transports st"
    using set by (auto simp: set_client_Inr)
  moreover obtain i where "t = Some i" "i < length (rpc_transports st1)"
    using f by (auto simp: funs_of_Inr)
  ultimately have inv: "rpc_inv tinv st1"
    by (intro set_client_inv [OF set assms(2)]) simp
  with funs_ofD [OF f inv] reg show ?thesis
    by (auto intro: touches_inv [OF register_client])
qed

lemma server_init_inv:
  assumes "lwpb_server_init tables s sl t st = Inr st'" and "rpc_inv tinv st"
  shows "rpc_inv tinv st'"
proof -
  obtain st1 f where set: "set_server s (\<lambda>sv. sv\<lparr>srv_service_list := sl, srv_transport := t,
       srv_arg := None, srv_call_handler := None\<rparr>) st = Inr st1"
    and f: "funs_of tables t st1 = Inr f" and reg: "register_server f (the t) s st1 = Inr st'"
    using assms(1) by (auto simp: lwpb_server_init_def andthen_eq_Inr)
  have "rpc_transports st1 = rpc_transports st"
    using set by (auto simp: set_server_Inr)
  moreover obtain i where "t = Some i" "i < length (rpc_transports st1)"
    using f by (auto simp: funs_of_Inr)
  ultimately have inv: "rpc_inv tinv st1"
    by (intro set_server_inv [OF set assms(2)]) simp
  with funs_ofD [OF f inv] reg show ?thesis
    by (auto intro: touches_inv [OF register_server])
qed

lemma client_call_inv:
  assumes "lwpb_client_call tables c md st = Inr (ret, st')" and "rpc_inv tinv st"
  shows "rpc_inv tinv st'"
proof -
  obtain t f where f: "funs_of tables t st = Inr f" and "call f (the t) c md st = Inr (ret, st')"
    using assms(1) by (auto simp: lwpb_client_call_def andthen_eq_Inr)
  with funs_ofD [OF f assms(2)] assms(2) show ?thesis
    by (auto intro: touches_inv [OF call])
qed

lemma client_cancel_inv:
  assumes "lwpb_client_cancel tables c st = Inr st'" and "rpc_inv tinv st"
  shows "rpc_inv tinv st'"
proof -
  obtain t f where f: "funs_of tables t st = Inr f" and "cancel f (the t) c st = Inr st'"
    using assms(1) by (auto simp: lwpb_client_cancel_def andthen_eq_Inr)
  with funs_ofD [OF f assms(2)] assms(2) show ?thesis
    by (auto intro: touches_inv [OF cancel])
qed

lemma step_inv: "rpc_step tables st st' \<Longrightarrow> rpc_inv tinv st \<Longrightarrow> rpc_inv tinv st'"
  by (induction rule: rpc_step.induct)
    (auto simp: lwpb_client_arg_def lwpb_client_handler_def lwpb_server_arg_def lwpb_server_handler_def
      intro: client_init_inv client_call_inv client_cancel_inv server_init_inv elim: set_client_inv set_server_inv)

end

end
