(* ===== verification/Direct.thy ===== *)
theory Direct
  imports Client
begin

text \<open>
  The direct transport of src/src/lwpb/rpc/direct.c, which connects one client with one server of the
  same process. The body of its call function is shared with the socket server transport, whose
  transport_call has the same statements.
\<close>

section \<open>A call inside of the process\<close>

text \<open>Telling the client the result of the call.\<close>

definition report ::
    "client_ref \<Rightarrow> 's lwpb_client \<Rightarrow> method_ref \<Rightarrow> lwpb_rpc_result_t \<Rightarrow> lwpb_err_t \<Rightarrow> 's world \<Rightarrow> (lwpb_err_t \<times> 's world) run" where
  "report c cl md result ret w = andthen (fun_ptr (cl_done_handler cl)) (\<lambda>done_handler.
     andthen (done_handler c md result (cl_arg cl) w) (\<lambda>w. Inr (ret, w)))"

text \<open>Processing the response in the client.\<close>

definition call_respond ::
    "client_ref \<Rightarrow> 's lwpb_client \<Rightarrow> method_ref \<Rightarrow> lwpb_method_desc \<Rightarrow> void_ptr \<Rightarrow> u64 \<Rightarrow> 's world \<Rightarrow>
     (lwpb_err_t \<times> 's world) run" where
  "call_respond c cl md mtd res_buf res_len w =
     andthen (fun_ptr (cl_response_handler cl)) (\<lambda>response_handler.
     andthen (response_handler c md (mtd_res_desc mtd) res_buf res_len (cl_arg cl) w) (\<lambda>(ret, w).
       report c cl md LWPB_RPC_OK ret w))"

text \<open>Processing the call on the server.\<close>

definition call_on_server ::
    "'s lwpb_server list \<Rightarrow> server_ref \<Rightarrow> client_ref \<Rightarrow> 's lwpb_client \<Rightarrow> method_ref \<Rightarrow> lwpb_method_desc \<Rightarrow>
     void_ptr \<Rightarrow> u64 \<Rightarrow> void_ptr \<Rightarrow> u64 \<Rightarrow> 's world \<Rightarrow> (lwpb_err_t \<times> 's world) run" where
  "call_on_server servers s c cl md mtd req_buf req_len res_buf res_len w =
     andthen (deref servers (Some s)) (\<lambda>sv.
     andthen (fun_ptr (srv_call_handler sv)) (\<lambda>call_handler.
     andthen (call_handler s md (mtd_req_desc mtd) req_buf req_len (mtd_res_desc mtd) res_buf res_len
       (srv_arg sv) w) (\<lambda>(ret, res_len, w).
       if ret \<noteq> LWPB_ERR_OK then report c cl md LWPB_RPC_FAILED ret w
       else call_respond c cl md mtd res_buf res_len w)))"

text \<open>From encoding the request to the label \<open>out\<close>, with both buffers allocated.\<close>

definition call_phases ::
    "services \<Rightarrow> 's lwpb_server list \<Rightarrow> server_ref option \<Rightarrow> client_ref \<Rightarrow> 's lwpb_client \<Rightarrow> method_ref \<Rightarrow>
     void_ptr \<Rightarrow> u64 \<Rightarrow> void_ptr \<Rightarrow> u64 \<Rightarrow> 's world \<Rightarrow> (lwpb_err_t \<times> 's world) run" where
  "call_phases svs servers server c cl md req_buf req_len res_buf res_len w =
     andthen (fun_ptr (cl_request_handler cl)) (\<lambda>request_handler.
     andthen (deref_method svs (Some md)) (\<lambda>mtd.
     andthen (request_handler c md (mtd_req_desc mtd) req_buf req_len (cl_arg cl) w) (\<lambda>(ret, req_len, w).
       if ret \<noteq> LWPB_ERR_OK then Inr (ret, w)
       else case server of
           None \<Rightarrow> report c cl md LWPB_RPC_NOT_CONNECTED ret w
         | Some s \<Rightarrow> call_on_server servers s c cl md mtd req_buf req_len res_buf res_len w)))"

text \<open>Freeing a buffer at the label \<open>out\<close>.\<close>

definition free_if_set :: "('s, 't) lwpb_transport_scheme \<Rightarrow> void_ptr \<Rightarrow> 's world \<Rightarrow> 's world run" where
  "free_if_set tr buf w = (if buf \<noteq> None then lwpb_transport_free_buf tr buf w else Inr w)"

definition local_call ::
    "services \<Rightarrow> ('s, 't) lwpb_transport_scheme \<Rightarrow> 's lwpb_server list \<Rightarrow> server_ref option \<Rightarrow> client_ref \<Rightarrow>
     's lwpb_client \<Rightarrow> method_ref \<Rightarrow> 's world \<Rightarrow> (lwpb_err_t \<times> 's world) run" where
  "local_call svs tr servers server c cl md w =
     andthen (lwpb_transport_alloc_buf tr w) (\<lambda>(ret, req_buf, req_len, w).
     andthen (if ret \<noteq> LWPB_ERR_OK then Inr (ret, None, w)
       else andthen (lwpb_transport_alloc_buf tr w) (\<lambda>(ret, res_buf, res_len, w).
         if ret \<noteq> LWPB_ERR_OK then Inr (ret, res_buf, w)
         else andthen (call_phases svs servers server c cl md req_buf req_len res_buf res_len w) (\<lambda>(ret, w).
           Inr (ret, res_buf, w)))) (\<lambda>(ret, res_buf, w).
     andthen (free_if_set tr req_buf w) (\<lambda>w.
     andthen (free_if_set tr res_buf w) (\<lambda>w. Inr (ret, w)))))"

section \<open>The transport\<close>

record 's lwpb_transport_direct = "'s lwpb_transport" +
  direct_client :: "client_ref option"
  direct_server :: "server_ref option"

type_synonym 's direct_rpc = "('s, \<lparr>direct_client :: client_ref option, direct_server :: server_ref option\<rparr>) rpc"

definition direct_register_client :: "transport_ref \<Rightarrow> client_ref \<Rightarrow> 's direct_rpc \<Rightarrow> 's direct_rpc run" where
  "direct_register_client t c st = andthen (deref (rpc_transports st) (Some t)) (\<lambda>direct.
     andthen (lwpb_assert (direct_client direct = None)) (\<lambda>_.
       Inr (st\<lparr>rpc_transports := (rpc_transports st)[t := direct\<lparr>direct_client := Some c\<rparr>]\<rparr>)))"

definition direct_transport_call ::
    "services \<Rightarrow> transport_ref \<Rightarrow> client_ref \<Rightarrow> method_ref \<Rightarrow> 's direct_rpc \<Rightarrow> (lwpb_err_t \<times> 's direct_rpc) run" where
  "direct_transport_call svs t c md st = andthen (deref (rpc_transports st) (Some t)) (\<lambda>direct.
     andthen (deref (rpc_clients st) (Some c)) (\<lambda>cl.
     andthen (local_call svs direct (rpc_servers st) (direct_server direct) c cl md (rpc_world st)) (\<lambda>(ret, w).
       Inr (ret, st\<lparr>rpc_world := w\<rparr>))))"

definition direct_transport_cancel :: "transport_ref \<Rightarrow> client_ref \<Rightarrow> ('s, 't) rpc \<Rightarrow> ('s, 't) rpc run" where
  "direct_transport_cancel t c st = Inr st"

definition direct_register_server :: "transport_ref \<Rightarrow> server_ref \<Rightarrow> 's direct_rpc \<Rightarrow> 's direct_rpc run" where
  "direct_register_server t s st = andthen (deref (rpc_transports st) (Some t)) (\<lambda>direct.
     andthen (lwpb_assert (direct_server direct = None)) (\<lambda>_.
       Inr (st\<lparr>rpc_transports := (rpc_transports st)[t := direct\<lparr>direct_server := Some s\<rparr>]\<rparr>)))"

definition direct_funs :: "services \<Rightarrow>
    ('s, \<lparr>direct_client :: client_ref option, direct_server :: server_ref option\<rparr>) lwpb_transport_funs" where
  "direct_funs svs = \<lparr>register_client = direct_register_client, call = direct_transport_call svs,
     cancel = direct_transport_cancel, register_server = direct_register_server\<rparr>"

definition lwpb_transport_direct_init :: "'s lwpb_transport_direct \<Rightarrow> 's lwpb_transport_direct" where
  "lwpb_transport_direct_init direct =
     (lwpb_transport_init direct Direct_funs)\<lparr>direct_client := None, direct_server := None\<rparr>"

text \<open>The static tables of a process whose transports are direct transports.\<close>

fun direct_tables :: "services \<Rightarrow>
    ('s, \<lparr>direct_client :: client_ref option, direct_server :: server_ref option\<rparr>) fun_tables" where
  "direct_tables svs Direct_funs = direct_funs svs"
| "direct_tables svs _ = wrong_funs"

section \<open>The direct transport is a transport\<close>

definition direct_inv :: "'s lwpb_transport_direct \<Rightarrow> bool" where
  "direct_inv d \<longleftrightarrow> transport_funs d = Direct_funs"

lemma touches_world: "t < length (rpc_transports st) \<Longrightarrow> touches tinv t st (st\<lparr>rpc_world := w\<rparr>)"
  unfolding touches_def by (intro conjI exI [of _ "rpc_transports st ! t"] exI [of _ w]) simp_all

lemma touches_transport:
  assumes "t < length (rpc_transports st)" and "tinv (rpc_transports st ! t) \<Longrightarrow> tinv tr"
  shows "touches tinv t st (st\<lparr>rpc_transports := (rpc_transports st)[t := tr]\<rparr>)"
  using assms unfolding touches_def by (intro conjI exI [of _ tr] exI [of _ "rpc_world st"]) simp_all

lemma touches_refl: "t < length (rpc_transports st) \<Longrightarrow> touches tinv t st st"
  using touches_world [of t st tinv "rpc_world st"] by simp

interpretation direct: transport "direct_tables svs" "direct_funs svs" direct_inv
proof unfold_locales
  show "direct_inv tr \<Longrightarrow> direct_tables svs (transport_funs tr) = direct_funs svs" for tr :: "'s lwpb_transport_direct"
    by (simp add: direct_inv_def)
qed (auto simp: direct_funs_def direct_register_client_def direct_transport_call_def direct_transport_cancel_def
    direct_register_server_def andthen_eq_Inr lwpb_assert_eq_Inr direct_inv_def
    intro: touches_transport touches_world touches_refl)

section \<open>Buffers\<close>

text \<open>
  Handlers that return, and keep the allocator's invariant and the buffers in use, whenever they are
  given buffers in use.
\<close>

definition in_use :: "('s world \<Rightarrow> addr set) \<Rightarrow> void_ptr \<Rightarrow> 's world \<Rightarrow> bool" where
  "in_use live p w \<longleftrightarrow> (\<exists>a. p = Some a \<and> a \<in> live w)"

definition keeps_live :: "('s world \<Rightarrow> bool) \<Rightarrow> ('s world \<Rightarrow> addr set) \<Rightarrow> 's world \<Rightarrow> 's world \<Rightarrow> bool" where
  "keeps_live ok live w w' \<longleftrightarrow> ok w' \<and> live w' = live w"

definition request_keeps :: "('s world \<Rightarrow> bool) \<Rightarrow> ('s world \<Rightarrow> addr set) \<Rightarrow> 's request_handler \<Rightarrow> bool" where
  "request_keeps ok live h \<longleftrightarrow> (\<forall>c md d p n arg w. ok w \<longrightarrow> in_use live p w \<longrightarrow>
     (\<exists>ret k w'. h c md d p n arg w = Inr (ret, k, w') \<and> keeps_live ok live w w'))"

definition response_keeps :: "('s world \<Rightarrow> bool) \<Rightarrow> ('s world \<Rightarrow> addr set) \<Rightarrow> 's response_handler \<Rightarrow> bool" where
  "response_keeps ok live h \<longleftrightarrow> (\<forall>c md d p n arg w. ok w \<longrightarrow> in_use live p w \<longrightarrow>
     (\<exists>ret w'. h c md d p n arg w = Inr (ret, w') \<and> keeps_live ok live w w'))"

definition done_keeps :: "('s world \<Rightarrow> bool) \<Rightarrow> ('s world \<Rightarrow> addr set) \<Rightarrow> 's done_handler \<Rightarrow> bool" where
  "done_keeps ok live h \<longleftrightarrow> (\<forall>c md r arg w. ok w \<longrightarrow>
     (\<exists>w'. h c md r arg w = Inr w' \<and> keeps_live ok live w w'))"

definition call_keeps :: "('s world \<Rightarrow> bool) \<Rightarrow> ('s world \<Rightarrow> addr set) \<Rightarrow> 's call_handler \<Rightarrow> bool" where
  "call_keeps ok live h \<longleftrightarrow> (\<forall>s md d p n d' p' n' arg w. ok w \<longrightarrow> in_use live p w \<longrightarrow> in_use live p' w \<longrightarrow>
     (\<exists>ret k w'. h s md d p n d' p' n' arg w = Inr (ret, k, w') \<and> keeps_live ok live w w'))"

definition client_keeps :: "('s world \<Rightarrow> bool) \<Rightarrow> ('s world \<Rightarrow> addr set) \<Rightarrow> 's lwpb_client \<Rightarrow> bool" where
  "client_keeps ok live cl \<longleftrightarrow> (\<exists>rq rs dn.
     cl_request_handler cl = Some rq \<and> cl_response_handler cl = Some rs \<and> cl_done_handler cl = Some dn \<and>
     request_keeps ok live rq \<and> response_keeps ok live rs \<and> done_keeps ok live dn)"

definition server_keeps :: "('s world \<Rightarrow> bool) \<Rightarrow> ('s world \<Rightarrow> addr set) \<Rightarrow> 's lwpb_server \<Rightarrow> bool" where
  "server_keeps ok live sv \<longleftrightarrow> (\<exists>h. srv_call_handler sv = Some h \<and> call_keeps ok live h)"

lemma request_keepsD: "request_keeps ok live h \<Longrightarrow> ok w \<Longrightarrow> in_use live p w \<Longrightarrow>
    \<exists>ret k w'. h c md d p n arg w = Inr (ret, k, w') \<and> keeps_live ok live w w'"
  and response_keepsD: "response_keeps ok live h' \<Longrightarrow> ok w \<Longrightarrow> in_use live p w \<Longrightarrow>
    \<exists>ret w'. h' c md d p n arg w = Inr (ret, w') \<and> keeps_live ok live w w'"
  and done_keepsD: "done_keeps ok live f \<Longrightarrow> ok w \<Longrightarrow> \<exists>w'. f c md r arg w = Inr w' \<and> keeps_live ok live w w'"
  and call_keepsD: "call_keeps ok live g \<Longrightarrow> ok w \<Longrightarrow> in_use live p w \<Longrightarrow> in_use live p' w \<Longrightarrow>
    \<exists>ret k w'. g s md d p n d' p' n' arg w = Inr (ret, k, w') \<and> keeps_live ok live w w'"
  unfolding request_keeps_def response_keeps_def done_keeps_def call_keeps_def by iprover+

lemma keeps_live_trans: "keeps_live ok live w w1 \<Longrightarrow> keeps_live ok live w1 w2 \<Longrightarrow> keeps_live ok live w w2"
  by (simp add: keeps_live_def)

lemma in_use_kept: "in_use live p w \<Longrightarrow> keeps_live ok live w w1 \<Longrightarrow> in_use live p w1"
  by (simp add: in_use_def keeps_live_def)

context allocator
begin

lemma report_keeps:
  assumes "client_keeps ok live cl" and kept: "keeps_live ok live w w1"
  shows "\<exists>ret' w'. report c cl md r ret w1 = Inr (ret', w') \<and> keeps_live ok live w w'"
proof -
  have "ok w1"
    using kept by (simp add: keeps_live_def)
  with assms(1) obtain dn w2 where "cl_done_handler cl = Some dn" and "dn c md r (cl_arg cl) w1 = Inr w2"
    and "keeps_live ok live w1 w2"
    unfolding client_keeps_def by (metis done_keepsD)
  with keeps_live_trans [OF kept] show ?thesis
    by (auto simp: report_def)
qed

lemma respond_keeps:
  assumes cl: "client_keeps ok live cl" and kept: "keeps_live ok live w w1" and use: "in_use live res w"
  shows "\<exists>ret w'. call_respond c cl md mtd res k w1 = Inr (ret, w') \<and> keeps_live ok live w w'"
proof -
  obtain h where h: "cl_response_handler cl = Some h" "response_keeps ok live h"
    using cl unfolding client_keeps_def by blast
  have "ok w1"
    using kept by (simp add: keeps_live_def)
  from response_keepsD [OF h(2) this in_use_kept [OF use kept]] obtain ret w2
    where "h c md (mtd_res_desc mtd) res k (cl_arg cl) w1 = Inr (ret, w2)" and kept2: "keeps_live ok live w1 w2"
    by blast
  with report_keeps [OF cl keeps_live_trans [OF kept kept2]] h(1) show ?thesis
    by (simp add: call_respond_def)
qed

lemma server_call_keeps:
  assumes cl: "client_keeps ok live cl" and sv: "deref servers (Some s) = Inr v" "server_keeps ok live v"
    and kept: "keeps_live ok live w w1" and use: "in_use live req w" "in_use live res w"
  shows "\<exists>ret w'. call_on_server servers s c cl md mtd req n res k w1 = Inr (ret, w') \<and> keeps_live ok live w w'"
proof -
  obtain h where h: "srv_call_handler v = Some h" "call_keeps ok live h"
    using sv(2) unfolding server_keeps_def by blast
  have "ok w1"
    using kept by (simp add: keeps_live_def)
  from call_keepsD [OF h(2) this use [THEN in_use_kept [OF _ kept]]] obtain ret k' w2
    where call: "h s md (mtd_req_desc mtd) req n (mtd_res_desc mtd) res k (srv_arg v) w1 = Inr (ret, k', w2)"
      and kept2: "keeps_live ok live w1 w2"
    by blast
  note kept' = keeps_live_trans [OF kept kept2]
  show ?thesis
    using report_keeps [OF cl kept'] respond_keeps [OF cl kept' use(2)] by (simp add: call_on_server_def sv h call)
qed

lemma phases_keep:
  assumes "ok w" and "in_use live req w" and "in_use live res w"
    and cl: "client_keeps ok live cl" and md: "deref_method svs (Some md) = Inr mtd"
    and sv: "\<And>s. server = Some s \<Longrightarrow> \<exists>v. deref servers server = Inr v \<and> server_keeps ok live v"
  shows "\<exists>ret w'. call_phases svs servers server c cl md req n res k w = Inr (ret, w') \<and> keeps_live ok live w w'"
proof -
  obtain h where h: "cl_request_handler cl = Some h" "request_keeps ok live h"
    using cl unfolding client_keeps_def by blast
  obtain ret n' w1 where req: "h c md (mtd_req_desc mtd) req n (cl_arg cl) w = Inr (ret, n', w1)"
    and w1: "keeps_live ok live w w1"
    using request_keepsD [OF h(2) assms(1,2)] by blast
  show ?thesis
  proof (cases server)
    case None
    with report_keeps [OF cl w1] w1 show ?thesis
      by (simp add: call_phases_def h md req)
  next
    case (Some s)
    with sv obtain v where "deref servers (Some s) = Inr v" "server_keeps ok live v"
      by auto
    from server_call_keeps [OF cl this w1 assms(2,3)] Some w1 show ?thesis
      by (simp add: call_phases_def h md req)
  qed
qed

lemma local_call_balanced:
  assumes tr: "alloc_buf (allocator_funs tr) = alloc" "free_buf (allocator_funs tr) = dealloc" and "ok w"
    and cl: "client_keeps ok live cl" and md: "deref_method svs (Some md) = Inr mtd"
    and sv: "\<And>s. server = Some s \<Longrightarrow> \<exists>v. deref servers server = Inr v \<and> server_keeps ok live v"
  shows "\<exists>ret w'. local_call svs tr servers server c cl md w = Inr (ret, w') \<and> ok w' \<and> live w' = live w"
proof -
  have free: "free_if_set tr p w = release p w" for p w
    by (simp add: free_if_set_def release_def lwpb_transport_free_buf_def tr)
  obtain ret req n w1 where req: "alloc w = Inr (ret, req, n, w1)"
    using alloc_total [OF assms(3)] by blast
  note ok1 = alloc_ok [OF assms(3) req]
  show ?thesis
  proof (cases "ret = LWPB_ERR_OK")
    case False
    with alloc_fails [OF assms(3) req] ok1 req show ?thesis
      by (simp add: local_call_def lwpb_transport_alloc_buf_def tr free)
  next
    case ret: True
    then obtain a where a: "req = Some a" "a \<notin> live w" "live w1 = insert a (live w)"
      using alloc_live [OF assms(3)] req by blast
    obtain ret2 res k w2 where res: "alloc w1 = Inr (ret2, res, k, w2)"
      using alloc_total [OF ok1] by blast
    note ok2 = alloc_ok [OF ok1 res]
    show ?thesis
    proof (cases "ret2 = LWPB_ERR_OK")
      case False
      with alloc_fails [OF ok1 res] have "res = None" "live w2 = insert a (live w)"
        using a by simp_all
      with release_one [OF ok2 _ a(2)] req res ret False a(1) show ?thesis
        by (auto simp: local_call_def lwpb_transport_alloc_buf_def tr free)
    next
      case ret2: True
      then obtain b where b: "res = Some b" "b \<notin> live w1" "live w2 = insert b (live w1)"
        using alloc_live [OF ok1] res by blast
      have "in_use live req w2" "in_use live res w2"
        using a b by (auto simp: in_use_def)
      then have "\<exists>ret w'. call_phases svs servers server c cl md req n res k w2 = Inr (ret, w') \<and> keeps_live ok live w2 w'"
        by (rule phases_keep [OF ok2 _ _ cl md sv])
      then obtain ret3 w3
        where phases: "call_phases svs servers server c cl md req n res k w2 = Inr (ret3, w3)"
          and w3: "ok w3" "live w3 = insert a (insert b (live w))"
        using a b by (auto simp: keeps_live_def insert_commute)
      have "a \<notin> insert b (live w)" "b \<notin> live w"
        using a b by auto
      from release_two [OF w3 this] req res ret ret2 phases a(1) b(1) show ?thesis
        by (auto simp: local_call_def lwpb_transport_alloc_buf_def tr free)
    qed
  qed
qed

end

section \<open>Reports to the client\<close>

text \<open>
  Counting the results that the client is told: \<open>log\<close> reads them off the world, the done handler adds
  one, and the other handlers add none.
\<close>

definition client_logs :: "('s world \<Rightarrow> lwpb_rpc_result_t list) \<Rightarrow> 's lwpb_client \<Rightarrow> bool" where
  "client_logs log cl \<longleftrightarrow>
     (\<forall>h c md d p n arg w ret k w'. cl_request_handler cl = Some h \<longrightarrow> h c md d p n arg w = Inr (ret, k, w') \<longrightarrow> log w' = log w) \<and>
     (\<forall>h c md d p n arg w ret w'. cl_response_handler cl = Some h \<longrightarrow> h c md d p n arg w = Inr (ret, w') \<longrightarrow> log w' = log w) \<and>
     (\<forall>h c md r arg w w'. cl_done_handler cl = Some h \<longrightarrow> h c md r arg w = Inr w' \<longrightarrow> log w' = log w @ [r])"

definition server_logs :: "('s world \<Rightarrow> lwpb_rpc_result_t list) \<Rightarrow> 's lwpb_server \<Rightarrow> bool" where
  "server_logs log sv \<longleftrightarrow> (\<forall>h s md d p n d' p' n' arg w ret k w'. srv_call_handler sv = Some h \<longrightarrow>
     h s md d p n d' p' n' arg w = Inr (ret, k, w') \<longrightarrow> log w' = log w)"

definition allocator_logs :: "('s world \<Rightarrow> lwpb_rpc_result_t list) \<Rightarrow> 's lwpb_allocator_funs \<Rightarrow> bool" where
  "allocator_logs log a \<longleftrightarrow> (\<forall>w ret p n w'. alloc_buf a w = Inr (ret, p, n, w') \<longrightarrow> log w' = log w) \<and>
     (\<forall>p w w'. free_buf a p w = Inr w' \<longrightarrow> log w' = log w)"

text \<open>The results that go with an error code.\<close>

definition reported :: "bool \<Rightarrow> lwpb_err_t \<Rightarrow> lwpb_rpc_result_t list \<Rightarrow> bool" where
  "reported connected ret rs \<longleftrightarrow>
     (if ret = LWPB_ERR_OK then rs = [if connected then LWPB_RPC_OK else LWPB_RPC_NOT_CONNECTED]
      else rs = [] \<or> (connected \<and> (rs = [LWPB_RPC_FAILED] \<or> rs = [LWPB_RPC_OK])))"

lemma logsD:
  "client_logs log cl \<Longrightarrow> cl_request_handler cl = Some rq \<Longrightarrow> rq c md d p n arg w = Inr (ret, k, w') \<Longrightarrow> log w' = log w"
  "client_logs log cl \<Longrightarrow> cl_response_handler cl = Some rs \<Longrightarrow> rs c md d p n arg w = Inr (ret, w') \<Longrightarrow> log w' = log w"
  "client_logs log cl \<Longrightarrow> cl_done_handler cl = Some dn \<Longrightarrow> dn c md r arg w = Inr w' \<Longrightarrow> log w' = log w @ [r]"
  "server_logs log sv \<Longrightarrow> srv_call_handler sv = Some h \<Longrightarrow> h s md d p n d' p' n' arg w = Inr (ret, k, w') \<Longrightarrow> log w' = log w"
  unfolding client_logs_def server_logs_def by metis+

lemma report_logs:
  assumes "client_logs log cl" and "report c cl md r ret w = Inr (ret', w')"
  shows "ret' = ret \<and> log w' = log w @ [r]"
proof -
  obtain h where "cl_done_handler cl = Some h" "h c md r (cl_arg cl) w = Inr w'" and "ret' = ret"
    using assms(2) by (auto simp: report_def andthen_eq_Inr fun_ptr_Inr)
  with logsD(3) [OF assms(1)] show ?thesis by blast
qed

lemma respond_logs:
  assumes "client_logs log cl" and "call_respond c cl md mtd p n w = Inr (ret, w')"
  shows "log w' = log w @ [LWPB_RPC_OK]"
proof -
  obtain h ret' w1 where "cl_response_handler cl = Some h" "h c md (mtd_res_desc mtd) p n (cl_arg cl) w = Inr (ret', w1)"
    and "report c cl md LWPB_RPC_OK ret' w1 = Inr (ret, w')"
    using assms(2) by (auto simp: call_respond_def andthen_eq_Inr fun_ptr_Inr)
  with logsD(2) [OF assms(1)] report_logs [OF assms(1)] show ?thesis by metis
qed

lemma server_call_logs:
  assumes cl: "client_logs log cl" and sv: "list_all (server_logs log) servers"
    and call: "call_on_server servers s c cl md mtd req n res k w = Inr (ret, w')"
  shows "\<exists>rs. log w' = log w @ rs \<and> reported True ret rs"
proof -
  obtain v h r1 k1 w1 where v: "deref servers (Some s) = Inr v" "srv_call_handler v = Some h"
    and h: "h s md (mtd_req_desc mtd) req n (mtd_res_desc mtd) res k (srv_arg v) w = Inr (r1, k1, w1)"
    and rest: "(if r1 \<noteq> LWPB_ERR_OK then report c cl md LWPB_RPC_FAILED r1 w1
       else call_respond c cl md mtd res k1 w1) = Inr (ret, w')"
    using call by (auto simp: call_on_server_def andthen_eq_Inr fun_ptr_Inr)
  have "server_logs log v"
    using sv v(1) by (auto simp: deref_def list_all_length split: if_splits)
  note log1 = logsD(4) [OF this v(2) h]
  show ?thesis
  proof (cases "r1 = LWPB_ERR_OK")
    case True
    then have "call_respond c cl md mtd res k1 w1 = Inr (ret, w')"
      using rest by simp
    from respond_logs [OF cl this] log1 show ?thesis by (simp add: reported_def)
  next
    case False
    then have "report c cl md LWPB_RPC_FAILED r1 w1 = Inr (ret, w')"
      using rest by simp
    from report_logs [OF cl this] False log1 show ?thesis by (simp add: reported_def)
  qed
qed

lemma phases_report:
  assumes call: "call_phases svs servers server c cl md req n res k w = Inr (ret, w')"
    and cl: "client_logs log cl" and sv: "list_all (server_logs log) servers"
  shows "\<exists>rs. log w' = log w @ rs \<and> reported (server \<noteq> None) ret rs"
proof -
  obtain rq where rq: "cl_request_handler cl = Some rq"
    using call by (auto simp: call_phases_def andthen_eq_Inr fun_ptr_Inr)
  obtain mtd where mtd: "deref_method svs (Some md) = Inr mtd"
    using call by (auto simp: call_phases_def andthen_eq_Inr)
  obtain r1 n1 w1 where req: "rq c md (mtd_req_desc mtd) req n (cl_arg cl) w = Inr (r1, n1, w1)"
    using call by (auto simp: call_phases_def rq mtd andthen_eq_Inr)
  note log1 = logsD(1) [OF cl rq req]
  show ?thesis
  proof (cases "r1 = LWPB_ERR_OK")
    case False
    with call log1 show ?thesis by (simp add: call_phases_def rq mtd req reported_def)
  next
    case True
    show ?thesis
    proof (cases server)
      case None
      with call True have "report c cl md LWPB_RPC_NOT_CONNECTED r1 w1 = Inr (ret, w')"
        by (simp add: call_phases_def rq mtd req)
      from report_logs [OF cl this] None True log1 show ?thesis by (simp add: reported_def)
    next
      case (Some s)
      with call True have "call_on_server servers s c cl md mtd req n1 res k w1 = Inr (ret, w')"
        by (simp add: call_phases_def rq mtd req)
      from server_call_logs [OF cl sv this] Some log1 show ?thesis by simp
    qed
  qed
qed

lemma local_call_reports:
  assumes call: "local_call svs tr servers server c cl md w = Inr (ret, w')"
    and al: "allocator_logs log (allocator_funs tr)" and cl: "client_logs log cl" and sv: "list_all (server_logs log) servers"
  shows "\<exists>rs. log w' = log w @ rs \<and> reported (server \<noteq> None) ret rs"
proof -
  have free: "free_if_set tr p u = Inr u' \<Longrightarrow> log u' = log u" for p u u'
    using al by (auto simp: free_if_set_def lwpb_transport_free_buf_def allocator_logs_def split: if_splits)
  have alloc: "lwpb_transport_alloc_buf tr u = Inr (r, p, n, u') \<Longrightarrow> log u' = log u" for u r p n u'
    using al by (auto simp: lwpb_transport_alloc_buf_def allocator_logs_def)
  have after: "\<exists>rs. log w' = log w @ rs \<and> reported (server \<noteq> None) ret rs"
    if "\<exists>rs. log u = log w @ rs \<and> reported (server \<noteq> None) ret rs"
      and "andthen (free_if_set tr p u) (\<lambda>w. andthen (free_if_set tr q w) (\<lambda>w. Inr (ret, w))) = Inr (ret', w')"
    for u p q ret'
    using that free by (auto simp: andthen_eq_Inr)
  obtain r1 req n w1 where 1: "lwpb_transport_alloc_buf tr w = Inr (r1, req, n, w1)"
    using call by (auto simp: local_call_def andthen_eq_Inr)
  show ?thesis
  proof (cases "r1 = LWPB_ERR_OK")
    case False
    then have "andthen (free_if_set tr req w1) (\<lambda>w. andthen (free_if_set tr None w) (\<lambda>w. Inr (r1, w))) = Inr (ret, w')"
      using call by (simp add: local_call_def 1)
    moreover from this have "ret = r1"
      by (auto simp: andthen_eq_Inr)
    ultimately show ?thesis
      using alloc [OF 1] False after [of w1 req None] by (simp add: reported_def)
  next
    case ok: True
    obtain r2 res k w2 where 2: "lwpb_transport_alloc_buf tr w1 = Inr (r2, res, k, w2)"
      using call ok by (auto simp: local_call_def 1 andthen_eq_Inr)
    show ?thesis
    proof (cases "r2 = LWPB_ERR_OK")
      case False
      then have "andthen (free_if_set tr req w2) (\<lambda>w. andthen (free_if_set tr res w) (\<lambda>w. Inr (r2, w))) = Inr (ret, w')"
        using call ok by (simp add: local_call_def 1 2)
      moreover from this have "ret = r2"
        by (auto simp: andthen_eq_Inr)
      ultimately show ?thesis
        using alloc [OF 1] alloc [OF 2] False after [of w2 req res] by (simp add: reported_def)
    next
      case True
      then obtain r3 w3 where 3: "call_phases svs servers server c cl md req n res k w2 = Inr (r3, w3)"
        and fr: "andthen (free_if_set tr req w3) (\<lambda>w. andthen (free_if_set tr res w) (\<lambda>w. Inr (r3, w))) = Inr (ret, w')"
        using call ok by (auto simp: local_call_def 1 2 andthen_eq_Inr)
      from fr have "ret = r3"
        by (auto simp: andthen_eq_Inr)
      with fr phases_report [OF 3 cl sv] alloc [OF 1] alloc [OF 2] after [of w3 req res] show ?thesis
        by simp
    qed
  qed
qed

section \<open>Properties\<close>

lemma direct_call_world:
  assumes "c < length (rpc_clients st)" and "cl = rpc_clients st ! c" and "cl_transport cl = Some t"
    and "t < length (rpc_transports st)" and "direct = rpc_transports st ! t" and "direct_inv direct"
    and "cl_request_handler cl \<noteq> None" "cl_response_handler cl \<noteq> None" "cl_done_handler cl \<noteq> None"
  shows "lwpb_client_call (direct_tables svs) c md st =
    andthen (local_call svs direct (rpc_servers st) (direct_server direct) c cl md (rpc_world st)) (\<lambda>(ret, w).
      Inr (ret, st\<lparr>rpc_world := w\<rparr>))"
  using assms by (simp add: lwpb_client_call_def funs_of_def direct_inv_def direct_funs_def direct_transport_call_def)

text \<open>
  C15: A call over the direct transport returns, and every buffer that it allocated has been freed, on
  every branch: the buffers in use afterwards are those in use before, and nothing but the world has
  changed. The handlers are required to return, and to keep the buffers in use, when they are given
  buffers in use.
\<close>

theorem direct_call_balanced:
  assumes "c < length (rpc_clients st)" and "cl_transport (rpc_clients st ! c) = Some t"
    and "t < length (rpc_transports st)" and "direct_inv (rpc_transports st ! t)"
    and "allocator_funs (rpc_transports st ! t) = default_allocator_funs" and "heap_ok (rpc_world st)"
    and "client_keeps heap_ok live_blocks (rpc_clients st ! c)" and "deref_method svs (Some md) = Inr mtd"
    and "\<And>s. direct_server (rpc_transports st ! t) = Some s \<Longrightarrow>
      s < length (rpc_servers st) \<and> server_keeps heap_ok live_blocks (rpc_servers st ! s)"
  shows "\<exists>ret w. lwpb_client_call (direct_tables svs) c md st = Inr (ret, st\<lparr>rpc_world := w\<rparr>) \<and>
    heap_ok w \<and> live_blocks w = live_blocks (rpc_world st)"
proof -
  let ?cl = "rpc_clients st ! c" and ?d = "rpc_transports st ! t"
  have "\<exists>ret w. local_call svs ?d (rpc_servers st) (direct_server ?d) c ?cl md (rpc_world st) = Inr (ret, w) \<and>
      heap_ok w \<and> live_blocks w = live_blocks (rpc_world st)"
    using assms(5,9) by (intro heap.local_call_balanced [OF _ _ assms(6,7,8)]) (auto simp: default_allocator_funs_def)
  moreover have "cl_request_handler ?cl \<noteq> None" "cl_response_handler ?cl \<noteq> None" "cl_done_handler ?cl \<noteq> None"
    using assms(7) by (auto simp: client_keeps_def)
  ultimately show ?thesis
    using direct_call_world [OF assms(1) refl assms(2,3) refl assms(4), of svs md] by auto
qed

text \<open>
  C18: The client is told the result of a call over the direct transport as its error code says. A call
  that returns LWPB_ERR_OK reports exactly one result: LWPB_RPC_OK when a server is registered and
  LWPB_RPC_NOT_CONNECTED when there is none. A call that fails reports at most one, and never
  LWPB_RPC_NOT_CONNECTED. \<open>results\<close> reads the reported results off the state of the application; the
  done handler adds its result and the other handlers add none.
\<close>

theorem direct_call_reports:
  assumes "lwpb_client_call (direct_tables svs) c md st = Inr (ret, st')"
    and "cl_transport (rpc_clients st ! c) = Some t" and "rpc_inv direct_inv st"
    and "allocator_funs (rpc_transports st ! t) = default_allocator_funs"
    and "client_logs (\<lambda>w. results (w_app w)) (rpc_clients st ! c)"
    and "list_all (server_logs (\<lambda>w. results (w_app w))) (rpc_servers st)"
  shows "\<exists>rs. results (w_app (rpc_world st')) = results (w_app (rpc_world st)) @ rs \<and>
    reported (direct_server (rpc_transports st ! t) \<noteq> None) ret rs"
proof -
  let ?cl = "rpc_clients st ! c" and ?d = "rpc_transports st ! t"
  have c: "c < length (rpc_clients st)"
    using assms(1) by (auto simp: lwpb_client_call_def deref_def split: if_splits)
  with assms(2,3) have t: "t < length (rpc_transports st)"
    by (auto simp: rpc_inv_def rpc_ok_def list_all_length)
  with assms(3) have d: "direct_inv ?d"
    by (simp add: rpc_inv_def list_all_length)
  have hs: "cl_request_handler ?cl \<noteq> None" "cl_response_handler ?cl \<noteq> None" "cl_done_handler ?cl \<noteq> None"
    using assms(1) c by (auto simp: lwpb_client_call_def andthen_eq_Inr lwpb_assert_eq_Inr)
  from assms(1) direct_call_world [OF c refl assms(2) t refl d hs, of svs md] obtain w
    where call: "local_call svs ?d (rpc_servers st) (direct_server ?d) c ?cl md (rpc_world st) = Inr (ret, w)"
      and st': "st' = st\<lparr>rpc_world := w\<rparr>"
    by (auto simp: andthen_eq_Inr)
  have "allocator_logs (\<lambda>w. results (w_app w)) (allocator_funs ?d)"
    by (auto simp: assms(4) allocator_logs_def default_allocator_funs_def default_alloc_buf_def default_free_buf_def
        c_malloc_def c_free_def Let_def split: if_splits option.splits)
  from local_call_reports [OF call this assms(5,6)] show ?thesis
    by (simp add: st')
qed

section \<open>Registration\<close>

text \<open>
  A client that has a direct transport is the client of this transport, and a server likewise: registering asserts that
  nobody is registered yet. So no two clients have the same transport.
\<close>

definition direct_linked :: "'s direct_rpc \<Rightarrow> bool" where
  "direct_linked st \<longleftrightarrow> rpc_inv direct_inv st \<and>
     (\<forall>c < length (rpc_clients st). \<forall>t. cl_transport (rpc_clients st ! c) = Some t \<longrightarrow> direct_client (rpc_transports st ! t) = Some c) \<and>
     (\<forall>s < length (rpc_servers st). \<forall>t. srv_transport (rpc_servers st ! s) = Some t \<longrightarrow> direct_server (rpc_transports st ! t) = Some s)"

text \<open>No registration is lost or replaced, and no object is created or destroyed.\<close>

definition registrations_kept :: "'s direct_rpc \<Rightarrow> 's direct_rpc \<Rightarrow> bool" where
  "registrations_kept st st' \<longleftrightarrow> length (rpc_transports st') = length (rpc_transports st) \<and>
     length (rpc_clients st') = length (rpc_clients st) \<and> length (rpc_servers st') = length (rpc_servers st) \<and>
     (\<forall>t < length (rpc_transports st).
       (\<forall>c. direct_client (rpc_transports st ! t) = Some c \<longrightarrow> direct_client (rpc_transports st' ! t) = Some c) \<and>
       (\<forall>s. direct_server (rpc_transports st ! t) = Some s \<longrightarrow> direct_server (rpc_transports st' ! t) = Some s))"

lemma registrations_kept_refl: "registrations_kept st st"
  by (simp add: registrations_kept_def)

lemma registrations_kept_trans: "registrations_kept st st1 \<Longrightarrow> registrations_kept st1 st2 \<Longrightarrow> registrations_kept st st2"
  by (simp add: registrations_kept_def)

lemma direct_funs_of:
  "rpc_inv direct_inv st \<Longrightarrow> funs_of (direct_tables svs) (Some t) st = Inr f \<longleftrightarrow> t < length (rpc_transports st) \<and> f = direct_funs svs"
  by (auto simp: funs_of_Inr rpc_inv_def list_all_length direct_inv_def)

lemma direct_client_init_Inr:
  assumes "rpc_inv direct_inv st" and "lwpb_client_init (direct_tables svs) c t st = Inr st'"
  shows "\<exists>i cl. t = Some i \<and> c < length (rpc_clients st) \<and> i < length (rpc_transports st) \<and> cl_transport cl = Some i \<and>
    direct_client (rpc_transports st ! i) = None \<and>
    st' = st\<lparr>rpc_clients := (rpc_clients st)[c := cl],
      rpc_transports := (rpc_transports st)[i := (rpc_transports st ! i)\<lparr>direct_client := Some c\<rparr>]\<rparr>"
proof -
  obtain i where t: "t = Some i"
    using assms(2) by (auto simp: lwpb_client_init_def andthen_eq_Inr lwpb_assert_eq_Inr)
  let ?cl = "(rpc_clients st ! c)\<lparr>cl_transport := t, cl_arg := None, cl_request_handler := None, cl_response_handler := None, cl_done_handler := None\<rparr>"
  from assms(2) t obtain f where "funs_of (direct_tables svs) (Some i) (st\<lparr>rpc_clients := (rpc_clients st)[c := ?cl]\<rparr>) = Inr f"
    and reg: "register_client f i c (st\<lparr>rpc_clients := (rpc_clients st)[c := ?cl]\<rparr>) = Inr st'" and c: "c < length (rpc_clients st)"
    by (auto simp: lwpb_client_init_def andthen_eq_Inr set_client_Inr)
  then have "i < length (rpc_transports st)" "f = direct_funs svs"
    using assms(1) by (auto simp: funs_of_Inr rpc_inv_def list_all_length direct_inv_def)
  with reg c t show ?thesis
    by (intro exI [of _ i] exI [of _ ?cl]) (auto simp: direct_funs_def direct_register_client_def andthen_eq_Inr lwpb_assert_eq_Inr deref_def)
qed

lemma direct_server_init_Inr:
  assumes "rpc_inv direct_inv st" and "lwpb_server_init (direct_tables svs) s sl t st = Inr st'"
  shows "\<exists>i sv. t = Some i \<and> s < length (rpc_servers st) \<and> i < length (rpc_transports st) \<and> srv_transport sv = Some i \<and>
    direct_server (rpc_transports st ! i) = None \<and>
    st' = st\<lparr>rpc_servers := (rpc_servers st)[s := sv],
      rpc_transports := (rpc_transports st)[i := (rpc_transports st ! i)\<lparr>direct_server := Some s\<rparr>]\<rparr>"
proof -
  obtain i where t: "t = Some i"
    using assms(2) by (auto simp: lwpb_server_init_def andthen_eq_Inr lwpb_assert_eq_Inr)
  let ?sv = "(rpc_servers st ! s)\<lparr>srv_service_list := sl, srv_transport := t, srv_arg := None, srv_call_handler := None\<rparr>"
  from assms(2) t obtain f where "funs_of (direct_tables svs) (Some i) (st\<lparr>rpc_servers := (rpc_servers st)[s := ?sv]\<rparr>) = Inr f"
    and reg: "register_server f i s (st\<lparr>rpc_servers := (rpc_servers st)[s := ?sv]\<rparr>) = Inr st'" and s: "s < length (rpc_servers st)"
    by (auto simp: lwpb_server_init_def andthen_eq_Inr set_server_Inr)
  then have "i < length (rpc_transports st)" "f = direct_funs svs"
    using assms(1) by (auto simp: funs_of_Inr rpc_inv_def list_all_length direct_inv_def)
  with reg s t show ?thesis
    by (intro exI [of _ i] exI [of _ ?sv]) (auto simp: direct_funs_def direct_register_server_def andthen_eq_Inr lwpb_assert_eq_Inr deref_def)
qed

lemma direct_call_Inr:
  assumes "rpc_inv direct_inv st" and "lwpb_client_call (direct_tables svs) c md st = Inr (ret, st')"
  shows "\<exists>w. st' = st\<lparr>rpc_world := w\<rparr>"
  using assms by (auto simp: lwpb_client_call_def andthen_eq_Inr lwpb_assert_eq_Inr direct_funs_of direct_funs_def direct_transport_call_def)

lemma direct_cancel_Inr:
  assumes "rpc_inv direct_inv st" and "lwpb_client_cancel (direct_tables svs) c st = Inr st'"
  shows "st' = st"
proof -
  obtain r f where f: "funs_of (direct_tables svs) r st = Inr f" and run: "cancel f (the r) c st = Inr st'"
    using assms(2) by (auto simp: lwpb_client_cancel_def andthen_eq_Inr)
  then obtain t where "r = Some t"
    by (auto simp: funs_of_Inr)
  with f run assms(1) show ?thesis
    by (simp add: direct_funs_of direct_funs_def direct_transport_cancel_def)
qed

lemma direct_linkedD:
  assumes "direct_linked st"
  shows "c < length (rpc_clients st) \<Longrightarrow> cl_transport (rpc_clients st ! c) = Some t \<Longrightarrow> direct_client (rpc_transports st ! t) = Some c"
    and "s < length (rpc_servers st) \<Longrightarrow> srv_transport (rpc_servers st ! s) = Some t \<Longrightarrow> direct_server (rpc_transports st ! t) = Some s"
  using assms by (simp_all add: direct_linked_def)

lemma link_client:
  assumes linked: "direct_linked st" and free: "direct_client (rpc_transports st ! i) = None" and "i < length (rpc_transports st)"
    and cl: "cl_transport cl = Some i" and st': "st' = st\<lparr>rpc_clients := (rpc_clients st)[c := cl],
      rpc_transports := (rpc_transports st)[i := (rpc_transports st ! i)\<lparr>direct_client := Some c\<rparr>]\<rparr>" and inv': "rpc_inv direct_inv st'"
  shows "direct_linked st' \<and> registrations_kept st st'"
proof -
  have "direct_client (rpc_transports st' ! t) = Some c'"
    if "c' < length (rpc_clients st')" "cl_transport (rpc_clients st' ! c') = Some t" for c' t
    using that direct_linkedD(1) [OF linked, of c' t] free assms(3) cl st'
    by (cases "c' = c"; cases "t = i") auto
  moreover have "direct_server (rpc_transports st' ! t) = Some s"
    if "s < length (rpc_servers st')" "srv_transport (rpc_servers st' ! s) = Some t" for s t
    using that direct_linkedD(2) [OF linked, of s t] assms(3) st' by (cases "t = i") auto
  moreover have "registrations_kept st st'"
    using free assms(3) st' by (auto simp: registrations_kept_def nth_list_update)
  ultimately show ?thesis
    using inv' by (simp add: direct_linked_def)
qed

lemma link_server:
  assumes linked: "direct_linked st" and free: "direct_server (rpc_transports st ! i) = None" and "i < length (rpc_transports st)"
    and sv: "srv_transport sv = Some i" and st': "st' = st\<lparr>rpc_servers := (rpc_servers st)[s := sv],
      rpc_transports := (rpc_transports st)[i := (rpc_transports st ! i)\<lparr>direct_server := Some s\<rparr>]\<rparr>" and inv': "rpc_inv direct_inv st'"
  shows "direct_linked st' \<and> registrations_kept st st'"
proof -
  have "direct_server (rpc_transports st' ! t) = Some s'"
    if "s' < length (rpc_servers st')" "srv_transport (rpc_servers st' ! s') = Some t" for s' t
    using that direct_linkedD(2) [OF linked, of s' t] free assms(3) sv st'
    by (cases "s' = s"; cases "t = i") auto
  moreover have "direct_client (rpc_transports st' ! t) = Some c"
    if "c < length (rpc_clients st')" "cl_transport (rpc_clients st' ! c) = Some t" for c t
    using that direct_linkedD(1) [OF linked, of c t] assms(3) st' by (cases "t = i") auto
  moreover have "registrations_kept st st'"
    using free assms(3) st' by (auto simp: registrations_kept_def nth_list_update)
  ultimately show ?thesis
    using inv' by (simp add: direct_linked_def)
qed

lemma direct_step_linked:
  assumes "rpc_step (direct_tables svs) st st'" and linked: "direct_linked st"
  shows "direct_linked st' \<and> registrations_kept st st'"
proof -
  have inv: "rpc_inv direct_inv st"
    using linked by (simp add: direct_linked_def)
  have inv': "rpc_inv direct_inv st'"
    using direct.step_inv [OF assms(1) inv] .
  from assms(1) show ?thesis
  proof cases
    case (step_client_init c t)
    from direct_client_init_Inr [OF inv this] show ?thesis
      using link_client [OF linked _ _ _ _ inv'] by blast
  next
    case (step_server_init s sl t)
    from direct_server_init_Inr [OF inv this] show ?thesis
      using link_server [OF linked _ _ _ _ inv'] by blast
  next
    case (step_client_call c md ret)
    from direct_call_Inr [OF inv this] linked inv' show ?thesis
      by (auto simp: direct_linked_def registrations_kept_def)
  next
    case (step_client_cancel c)
    from direct_cancel_Inr [OF inv this] linked show ?thesis
      by (simp add: registrations_kept_refl)
  next
    case step_client_arg
    with linked inv' show ?thesis
      by (auto simp: direct_linked_def registrations_kept_def lwpb_client_arg_def set_client_Inr nth_list_update split: if_splits)
  next
    case step_client_handler
    with linked inv' show ?thesis
      by (auto simp: direct_linked_def registrations_kept_def lwpb_client_handler_def set_client_Inr nth_list_update split: if_splits)
  next
    case step_server_arg
    with linked inv' show ?thesis
      by (auto simp: direct_linked_def registrations_kept_def lwpb_server_arg_def set_server_Inr nth_list_update split: if_splits)
  next
    case step_server_handler
    with linked inv' show ?thesis
      by (auto simp: direct_linked_def registrations_kept_def lwpb_server_handler_def set_server_Inr nth_list_update split: if_splits)
  qed
qed

lemma direct_steps_linked:
  "(rpc_step (direct_tables svs))\<^sup>*\<^sup>* st st' \<Longrightarrow> direct_linked st \<Longrightarrow> direct_linked st' \<and> registrations_kept st st'"
proof (induction rule: rtranclp_induct)
  case base
  then show ?case by (simp add: registrations_kept_refl)
next
  case (step st1 st2)
  then show ?case
    using direct_step_linked registrations_kept_trans by blast
qed

lemma direct_init_again:
  assumes "rpc_inv direct_inv st" and "t < length (rpc_transports st)"
  shows "c < length (rpc_clients st) \<Longrightarrow> direct_client (rpc_transports st ! t) \<noteq> None \<Longrightarrow> lwpb_client_init (direct_tables svs) c (Some t) st = Inl Abort"
    and "s < length (rpc_servers st) \<Longrightarrow> direct_server (rpc_transports st ! t) \<noteq> None \<Longrightarrow> lwpb_server_init (direct_tables svs) s sl (Some t) st = Inl Abort"
  using assms by (auto simp: lwpb_client_init_def lwpb_server_init_def set_client_def set_server_def deref_def funs_of_def rpc_inv_def list_all_length
      direct_inv_def direct_funs_def direct_register_client_def direct_register_server_def)

text \<open>
  C19: A direct transport belongs to one client and one server for good. In a process in which each client
  that has a direct transport is the one that is registered with it, and each server likewise, as at the start when nobody
  has a transport, this stays so whatever sequence of initialising, configuring, calling and cancelling is
  performed; so no two clients and no two servers have the same transport. What is registered stays
  registered, and each further client or server that is initialised with the transport of another one, also the same one
  again, fails an assertion.
\<close>

theorem direct_registration_exclusive:
  assumes "(rpc_step (direct_tables svs))\<^sup>*\<^sup>* st st'" and "direct_linked st"
  shows "direct_linked st' \<and> registrations_kept st st' \<and>
    (\<forall>c c' t. c < length (rpc_clients st) \<and> cl_transport (rpc_clients st' ! c) = Some t \<and> c' < length (rpc_clients st) \<longrightarrow>
      lwpb_client_init (direct_tables svs) c' (Some t) st' = Inl Abort \<and> (cl_transport (rpc_clients st' ! c') = Some t \<longrightarrow> c' = c)) \<and>
    (\<forall>s s' t sl. s < length (rpc_servers st) \<and> srv_transport (rpc_servers st' ! s) = Some t \<and> s' < length (rpc_servers st) \<longrightarrow>
      lwpb_server_init (direct_tables svs) s' sl (Some t) st' = Inl Abort \<and> (srv_transport (rpc_servers st' ! s') = Some t \<longrightarrow> s' = s))"
proof -
  have linked: "direct_linked st'" "registrations_kept st st'"
    using direct_steps_linked [OF assms] by simp_all
  then have inv: "rpc_inv direct_inv st'" "rpc_ok st'"
    by (simp_all add: direct_linked_def rpc_inv_def)
  have lens: "length (rpc_clients st') = length (rpc_clients st)" "length (rpc_servers st') = length (rpc_servers st)"
    using linked(2) by (simp_all add: registrations_kept_def)
  have "lwpb_client_init (direct_tables svs) c' (Some t) st' = Inl Abort \<and> (cl_transport (rpc_clients st' ! c') = Some t \<longrightarrow> c' = c)"
    if "c < length (rpc_clients st)" "cl_transport (rpc_clients st' ! c) = Some t" "c' < length (rpc_clients st)" for c c' t
    using that lens inv direct_linkedD(1) [OF linked(1), of c t] direct_linkedD(1) [OF linked(1), of c' t]
    by (auto simp: rpc_ok_def list_all_length intro!: direct_init_again(1))
  moreover have "lwpb_server_init (direct_tables svs) s' sl (Some t) st' = Inl Abort \<and> (srv_transport (rpc_servers st' ! s') = Some t \<longrightarrow> s' = s)"
    if "s < length (rpc_servers st)" "srv_transport (rpc_servers st' ! s) = Some t" "s' < length (rpc_servers st)" for s s' t sl
    using that lens inv direct_linkedD(2) [OF linked(1), of s t] direct_linkedD(2) [OF linked(1), of s' t]
    by (auto simp: rpc_ok_def list_all_length intro!: direct_init_again(2))
  ultimately show ?thesis
    using linked by blast
qed

end
