(* ===== verification/Socket_Helper.thy ===== *)
theory Socket_Helper
  imports Transport Encoder_Run Decoder_Run
begin

text \<open>
  The wire protocol of the socket transports: src/src/lwpb/rpc/socket_helper.c, with the descriptors of
  socket_protocol_pb2.c. A packet is a pre-header of three 32 bit integers in network byte order, a
  header that is an encoded socket_protocol.Header message, and the request or response.
\<close>

section \<open>The descriptors of the header\<close>

text \<open>The defaults of the fields, which no code reads, are not modelled.\<close>

definition header_field :: "u32 \<Rightarrow> field_label \<Rightarrow> field_typ \<Rightarrow> string \<Rightarrow> lwpb_field_desc" where
  "header_field n l t name = \<lparr>number = n, opts = \<lparr>opt_label = l, opt_typ = t, opt_flags = 0\<rparr>,
     fd_msg_desc = None, fd_name = name, fd_def = V_null 0\<rparr>"

definition socket_protocol_descs :: descs where
  "socket_protocol_descs = [\<lparr>msg_fields =
     [header_field 1 LWPB_REQUIRED LWPB_ENUM ''type'',
      header_field 2 LWPB_OPTIONAL LWPB_STRING ''service'',
      header_field 3 LWPB_OPTIONAL LWPB_STRING ''method''], md_name = ''Header''\<rparr>]"

definition socket_protocol_Header :: msg_ref where
  "socket_protocol_Header = 0"

definition socket_protocol_Header_type :: field_ref where
  "socket_protocol_Header_type = (0, 0)"

definition socket_protocol_Header_service :: field_ref where
  "socket_protocol_Header_service = (0, 1)"

definition socket_protocol_Header_method :: field_ref where
  "socket_protocol_Header_method = (0, 2)"

definition SOCKET_PROTOCOL_REQUEST :: s32 where
  "SOCKET_PROTOCOL_REQUEST = 0"

definition SOCKET_PROTOCOL_RESPONSE :: s32 where
  "SOCKET_PROTOCOL_RESPONSE = 1"

section \<open>Sending\<close>

definition PROTOCOL_MAGIC :: u32 where
  "PROTOCOL_MAGIC = 0xdeadbeaf"

text \<open>The bytes of htonl of an integer in memory, and ntohl of an integer that is read from memory.\<close>

definition be32 :: "u32 \<Rightarrow> u8 list" where
  "be32 x = [ucast (drop_bit 24 x), ucast (drop_bit 16 x), ucast (drop_bit 8 x), ucast x]"

definition load_be32 :: "mem \<Rightarrow> addr \<Rightarrow> u32 run" where
  "load_be32 m a = andthen (loads m a 4) (\<lambda>bs.
     Inr (push_bit 24 (ucast (bs ! 0)) OR push_bit 16 (ucast (bs ! 1)) OR push_bit 8 (ucast (bs ! 2)) OR ucast (bs ! 3)))"

record pre_header =
  ph_magic :: u32
  ph_header_len :: u32
  ph_msg_len :: u32

text \<open>The members of the structure in memory, set through htonl; its size is 12.\<close>

definition pre_header_bytes :: "pre_header \<Rightarrow> u8 list" where
  "pre_header_bytes h = be32 (ph_magic h) @ be32 (ph_header_len h) @ be32 (ph_msg_len h)"

definition send_packet :: "int \<Rightarrow> addr \<Rightarrow> u64 \<Rightarrow> void_ptr \<Rightarrow> u64 \<Rightarrow> 's world \<Rightarrow> 's world" where
  "send_packet socket header len buf buf_len w =
     (let w = sys_send_bytes socket (pre_header_bytes \<lparr>ph_magic = PROTOCOL_MAGIC, ph_header_len = ucast len,
            ph_msg_len = ucast buf_len\<rparr>) w;
          w = sys_send socket (Some header) len w
      in sys_send socket buf buf_len w)"

text \<open>Both functions end without a return statement; no caller uses their value.\<close>

definition send_request ::
    "services \<Rightarrow> int \<Rightarrow> method_ref option \<Rightarrow> void_ptr \<Rightarrow> u64 \<Rightarrow> 's world \<Rightarrow> (unit \<times> 's world) run" where
  "send_request svs socket method_desc req_buf req_len = with_array 128 (\<lambda>header w.
     andthen (lwpb_encoder_start (lwpb_encoder_init (any_encoder (w_any w))) (Some socket_protocol_Header) header 128) (\<lambda>enc.
     andthen (lwpb_encoder_add_enum socket_protocol_descs (w_mem w) enc (Some socket_protocol_Header_type)
       SOCKET_PROTOCOL_REQUEST) (\<lambda>(_, m, enc).
     andthen (deref_method svs method_desc) (\<lambda>mtd.
     andthen (deref svs (Some (mtd_service mtd))) (\<lambda>sv.
     andthen (lwpb_encoder_add_string socket_protocol_descs m enc (Some socket_protocol_Header_service) (svc_name sv)) (\<lambda>(_, m, enc).
     andthen (lwpb_encoder_add_string socket_protocol_descs m enc (Some socket_protocol_Header_method) (mtd_name mtd)) (\<lambda>(_, m, enc).
     andthen (lwpb_encoder_finish enc) (\<lambda>len.
       Inr ((), send_packet socket header len req_buf req_len (w\<lparr>w_mem := m\<rparr>))))))))))"

definition send_response :: "int \<Rightarrow> void_ptr \<Rightarrow> u64 \<Rightarrow> 's world \<Rightarrow> (unit \<times> 's world) run" where
  "send_response socket res_buf res_len = with_array 128 (\<lambda>header w.
     andthen (lwpb_encoder_start (lwpb_encoder_init (any_encoder (w_any w))) (Some socket_protocol_Header) header 128) (\<lambda>enc.
     andthen (lwpb_encoder_add_enum socket_protocol_descs (w_mem w) enc (Some socket_protocol_Header_type)
       SOCKET_PROTOCOL_RESPONSE) (\<lambda>(_, m, enc).
     andthen (lwpb_encoder_finish enc) (\<lambda>len.
       Inr ((), send_packet socket header len res_buf res_len (w\<lparr>w_mem := m\<rparr>))))))"

section \<open>Receiving\<close>

definition MSG_TYPE_REQUEST :: u32 where
  "MSG_TYPE_REQUEST = 0"

definition MSG_TYPE_RESPONSE :: u32 where
  "MSG_TYPE_RESPONSE = 1"

record protocol_header_info =
  hi_msg_type :: u32
  hi_service_desc :: "service_ref option"
  hi_method_desc :: "method_ref option"
  hi_header_len :: u64
  hi_msg_len :: u64
  hi_service_list :: "service_ref list option"

text \<open>The structure that the callers of parse_request pass; it is filled in before it is read.\<close>

definition blank_info :: protocol_header_info where
  "blank_info = \<lparr>hi_msg_type = 0, hi_service_desc = None, hi_method_desc = None, hi_header_len = 0,
     hi_msg_len = 0, hi_service_list = None\<rparr>"

text \<open>
  enum protocol_parse_err_t. parse_request also returns the error codes of the decoder as such, so its
  result is the number.
\<close>

definition PARSE_ERR_OK :: nat where
  "PARSE_ERR_OK = 0"

definition PARSE_ERR_END_OF_BUF :: nat where
  "PARSE_ERR_END_OF_BUF = 1"

definition PARSE_ERR_INVALID_MAGIC :: nat where
  "PARSE_ERR_INVALID_MAGIC = 2"

text \<open>strncmp of \<open>string.h\<close>: whether the strings are equal in at most \<open>n\<close> characters.\<close>

fun strncmp_eq :: "mem \<Rightarrow> addr \<Rightarrow> addr \<Rightarrow> nat \<Rightarrow> bool run" where
  "strncmp_eq m p q 0 = Inr True"
| "strncmp_eq m p q (Suc n) = andthen (load m p) (\<lambda>a. andthen (load m q) (\<lambda>b.
     if a \<noteq> b then Inr False else if a = 0 then Inr True else strncmp_eq m (Suc p) (Suc q) n))"

text \<open>Whether a received string is a name: the length is compared first.\<close>

definition is_name :: "mem \<Rightarrow> addr \<Rightarrow> u64 \<Rightarrow> addr \<Rightarrow> bool run" where
  "is_name m str len name = andthen (strlen m name) (\<lambda>k.
     if len \<noteq> of_nat k then Inr False else strncmp_eq m str name (unat len))"

fun find_service :: "services \<Rightarrow> mem \<Rightarrow> addr \<Rightarrow> u64 \<Rightarrow> service_ref list \<Rightarrow> service_ref option run" where
  "find_service svs m str len [] = Inr None"
| "find_service svs m str len (s # ss) = andthen (deref svs (Some s)) (\<lambda>sv.
     andthen (is_name m str len (svc_name sv)) (\<lambda>eq.
       if eq then Inr (Some s) else find_service svs m str len ss))"

fun find_method :: "mem \<Rightarrow> addr \<Rightarrow> u64 \<Rightarrow> nat \<Rightarrow> lwpb_method_desc list \<Rightarrow> nat option run" where
  "find_method m str len i [] = Inr None"
| "find_method m str len i (mtd # mtds) = andthen (is_name m str len (mtd_name mtd)) (\<lambda>eq.
     if eq then Inr (Some i) else find_method m str len (Suc i) mtds)"

text \<open>Without a match the descriptors keep their values.\<close>

definition handle_service ::
    "services \<Rightarrow> mem \<Rightarrow> lwpb_value option \<Rightarrow> protocol_header_info \<Rightarrow> protocol_header_info run" where
  "handle_service svs m v info = (case hi_service_list info of None \<Rightarrow> Inr info
     | Some services \<Rightarrow> andthen (the_value v) (\<lambda>v. andthen (value_ptr v) (\<lambda>(str, len).
         andthen (find_service svs m str len services) (\<lambda>r. case r of
             None \<Rightarrow> Inr info
           | Some s \<Rightarrow> Inr (info\<lparr>hi_service_desc := Some s\<rparr>)))))"

definition handle_method ::
    "services \<Rightarrow> mem \<Rightarrow> lwpb_value option \<Rightarrow> protocol_header_info \<Rightarrow> protocol_header_info run" where
  "handle_method svs m v info =
     (if hi_service_list info \<noteq> None \<and> hi_service_desc info \<noteq> None then
        andthen (deref svs (hi_service_desc info)) (\<lambda>sv. andthen (the_value v) (\<lambda>v. andthen (value_ptr v) (\<lambda>(str, len).
          andthen (find_method m str len 0 (svc_methods sv)) (\<lambda>r. case r of
              None \<Rightarrow> Inr info
            | Some j \<Rightarrow> Inr (info\<lparr>hi_method_desc := Some (the (hi_service_desc info), j)\<rparr>)))))
      else Inr info)"

definition parse_request_field_handler :: "services \<Rightarrow> mem \<Rightarrow> protocol_header_info fld_handler" where
  "parse_request_field_handler svs m packed msg_desc field_desc v info =
     (if msg_desc \<noteq> Some socket_protocol_Header then Inr info
      else andthen (if field_desc = socket_protocol_Header_type
            then andthen (the_value v) (\<lambda>v. andthen (value_lo32 v) (\<lambda>x. Inr (info\<lparr>hi_msg_type := x\<rparr>)))
            else Inr info) (\<lambda>info.
        andthen (if field_desc = socket_protocol_Header_service then handle_service svs m v info else Inr info) (\<lambda>info.
          if field_desc = socket_protocol_Header_method then handle_method svs m v info else Inr info)))"

text \<open>The decoder of parse_request, an automatic variable, with its handler set.\<close>

definition parse_decoder :: "services \<Rightarrow> 's world \<Rightarrow> protocol_header_info \<Rightarrow> protocol_header_info lwpb_decoder" where
  "parse_decoder svs w info =
     (let dec = \<lparr>dec_arg = info, msg_start_handler = None, msg_end_handler = None, field_handler = None,
            dec_stack = any_frames (w_any w), dec_depth = 0, dec_packed = False\<rparr>
      in lwpb_decoder_field_handler (lwpb_decoder_arg (lwpb_decoder_init info dec) info)
           (Some (parse_request_field_handler svs (w_mem w))))"

text \<open>The lengths are added as size_t. \<open>info\<close> is what the caller's structure contains before.\<close>

definition parse_request ::
    "services \<Rightarrow> 's world \<Rightarrow> void_ptr \<Rightarrow> u64 \<Rightarrow> protocol_header_info \<Rightarrow> service_ref list option \<Rightarrow>
     (nat \<times> protocol_header_info) run" where
  "parse_request svs w buf len info service_list =
     (if len < 12 then Inr (PARSE_ERR_END_OF_BUF, info)
      else case buf of None \<Rightarrow> Inl Fault
        | Some p \<Rightarrow> andthen (load_be32 (w_mem w) p) (\<lambda>magic.
            if magic \<noteq> PROTOCOL_MAGIC then Inr (PARSE_ERR_INVALID_MAGIC, info)
            else andthen (load_be32 (w_mem w) (p + 4)) (\<lambda>header_len.
              andthen (load_be32 (w_mem w) (p + 8)) (\<lambda>msg_len.
                let info = info\<lparr>hi_header_len := ucast header_len + 12, hi_msg_len := ucast msg_len\<rparr> in
                if len < hi_header_len info + hi_msg_len info then Inr (PARSE_ERR_END_OF_BUF, info)
                else let info = info\<lparr>hi_service_list := service_list, hi_msg_type := 0, hi_service_desc := None,
                       hi_method_desc := None\<rparr> in
                  andthen (lwpb_decoder_decode socket_protocol_descs (w_mem w) (any_wire (w_any w))
                    (parse_decoder svs w info) (Some socket_protocol_Header) (p + 12) (ucast header_len)) (\<lambda>(ret, dec, used).
                  Inr (err_code ret, dec_arg dec))))))"

end
