(* ===== verification/Socket_Protocol.thy ===== *)
theory Socket_Protocol
  imports Socket_Helper Encoder_Session
begin

text \<open>
  What the two ends of a socket connection agree on: parse_request finds in a received packet what
  send_request or send_response put into it.
\<close>

declare handle.simps [simp del]

section \<open>Integers in network byte order\<close>

lemma be32_length [simp]: "length (be32 x) = 4"
  by (simp add: be32_def)

lemma be32_word:
  "push_bit 24 (ucast (ucast (drop_bit 24 x) :: u8)) OR push_bit 16 (ucast (ucast (drop_bit 16 x) :: u8)) OR
   push_bit 8 (ucast (ucast (drop_bit 8 x) :: u8)) OR ucast (ucast x :: u8) = (x :: u32)"
proof (rule bit_word_eqI)
  fix n
  assume "n < LENGTH(32)"
  then show "bit (push_bit 24 (ucast (ucast (drop_bit 24 x) :: u8)) OR push_bit 16 (ucast (ucast (drop_bit 16 x) :: u8)) OR
      push_bit 8 (ucast (ucast (drop_bit 8 x) :: u8)) OR ucast (ucast x :: u8) :: u32) n = bit x n"
    by (cases "n < 8"; cases "n < 16"; cases "n < 24") (auto simp: bit_simps)
qed

lemma load_be32:
  assumes "peek m a 4 = be32 x"
  shows "load_be32 m a = Inr x"
proof -
  have "length (peek m a 4) = 4"
    by (simp add: assms)
  then have "a + 4 \<le> length m"
    by (auto simp: peek_def)
  with assms show ?thesis
    by (simp add: load_be32_def loads_peek be32_def be32_word numeral_3_eq_3)
qed

section \<open>C strings\<close>

definition c_string :: "mem \<Rightarrow> addr \<Rightarrow> u8 list \<Rightarrow> bool" where
  "c_string m a s \<longleftrightarrow> peek m a (Suc (length s)) = s @ [0] \<and> 0 \<notin> set s"

lemma c_string_strlen: "c_string m a s \<Longrightarrow> strlen m a = Inr (length s)"
  by (auto simp: c_string_def intro: strlen_peek)

lemma c_string_peek: "c_string m a s \<Longrightarrow> peek m a (length s) = s"
  using peek_appendD(1) [of m a s "[0]"] by (simp add: c_string_def)

lemma c_string_bound: "c_string m a s \<Longrightarrow> a + length s < length m"
proof -
  assume "c_string m a s"
  then have "length (peek m a (Suc (length s))) = Suc (length s)"
    by (simp add: c_string_def)
  then show ?thesis
    by (auto simp: peek_def)
qed

lemma strncmp_peek:
  assumes "peek m p n = xs" "length xs = n" "peek m q n = ys" "length ys = n" and "0 \<notin> set ys"
  shows "strncmp_eq m p q n = Inr (xs = ys)"
  using assms
proof (induction n arbitrary: p q xs ys)
  case 0
  then show ?case by simp
next
  case (Suc n)
  obtain x xs' y ys' where xs: "xs = x # xs'" "length xs' = n" and ys: "ys = y # ys'" "length ys' = n"
    using Suc.prems(2,4) by (auto simp: length_Suc_conv)
  have "peek m (Suc p) n = xs'" "peek m (Suc q) n = ys'"
    using peek_appendD(2) [of m p "[x]" xs'] peek_appendD(2) [of m q "[y]" ys'] Suc.prems(1,3) xs ys by simp_all
  moreover have "load m p = Inr x" "load m q = Inr y"
    using load_peek [of m p n x xs'] load_peek [of m q n y ys'] Suc.prems(1,3) xs ys by simp_all
  ultimately show ?case
    using Suc.IH [OF _ xs(2) _ ys(2)] Suc.prems(5) xs ys by simp
qed

lemma is_name_string:
  assumes "peek m p (length bs) = bs" and "length bs < 2 ^ 64" and "c_string m a s" and "length s < 2 ^ 64"
  shows "is_name m p (of_nat (length bs)) a = Inr (bs = s)"
proof (cases "length bs = length s")
  case True
  have "strncmp_eq m p a (length bs) = Inr (bs = s)"
    using assms(1,3) c_string_peek [OF assms(3)] True
    by (intro strncmp_peek) (auto simp: c_string_def)
  then show ?thesis
    using assms(2,4) True by (simp add: is_name_def c_string_strlen [OF assms(3)] unat_of_nat)
next
  case False
  then have "(of_nat (length bs) :: u64) \<noteq> of_nat (length s)"
    using assms(2,4) by (auto simp: word_of_nat_eq_iff take_bit_nat_eq_self)
  with False show ?thesis
    by (auto simp: is_name_def c_string_strlen [OF assms(3)])
qed

section \<open>Looking up names\<close>

text \<open>The names of the services of a list and of their methods.\<close>

definition names_are ::
    "services \<Rightarrow> mem \<Rightarrow> (service_ref \<Rightarrow> u8 list) \<Rightarrow> (method_ref \<Rightarrow> u8 list) \<Rightarrow> service_ref list \<Rightarrow> bool" where
  "names_are svs m sn mn ss \<longleftrightarrow> (\<forall>s \<in> set ss. s < length svs \<and> c_string m (svc_name (svs ! s)) (sn s) \<and>
     (\<forall>j < length (svc_methods (svs ! s)). c_string m (mtd_name (svc_methods (svs ! s) ! j)) (mn (s, j))))"

lemma find_service_named:
  assumes "peek m p (length bs) = bs" and "length bs < 2 ^ 64" and "length m < 2 ^ 63" and "names_are svs m sn mn ss"
  shows "find_service svs m p (of_nat (length bs)) ss = Inr (find (\<lambda>s. sn s = bs) ss)"
  using assms(4)
proof (induction ss)
  case Nil
  then show ?case by simp
next
  case (Cons s ss)
  then have s: "s < length svs" "c_string m (svc_name (svs ! s)) (sn s)" and ss: "names_are svs m sn mn ss"
    by (auto simp: names_are_def)
  then have "length (sn s) < 2 ^ 64"
    using c_string_bound [OF s(2)] assms(3) by simp
  from is_name_string [OF assms(1,2) s(2) this] Cons.IH [OF ss] s(1) show ?case
    by auto
qed

lemma find_method_named:
  assumes "peek m p (length bs) = bs" and "length bs < 2 ^ 64" and "length m < 2 ^ 63"
    and "\<And>k. k < length mtds \<Longrightarrow> c_string m (mtd_name (mtds ! k)) (mn (i + k))"
  shows "find_method m p (of_nat (length bs)) i mtds = Inr (find (\<lambda>j. mn j = bs) [i..<i + length mtds])"
  using assms(4)
proof (induction mtds arbitrary: i)
  case Nil
  then show ?case by simp
next
  case (Cons mtd mtds)
  have mtd: "c_string m (mtd_name mtd) (mn i)"
    using Cons.prems [of 0] by simp
  then have len: "length (mn i) < 2 ^ 64"
    using c_string_bound [OF mtd] assms(3) by simp
  have "c_string m (mtd_name (mtds ! k)) (mn (Suc i + k))" if "k < length mtds" for k
    using Cons.prems [of "Suc k"] that by simp
  note IH = Cons.IH [of "Suc i", OF this]
  have upt: "[i..<i + length (mtd # mtds)] = i # [Suc i..<Suc i + length mtds]"
    by (simp add: upt_conv_Cons del: upt_Suc)
  show ?case
    unfolding upt using is_name_string [OF assms(1,2) mtd len] by (auto simp: IH)
qed

section \<open>Packets\<close>

definition header_bytes :: "message \<Rightarrow> u8 list" where
  "header_bytes its = items_bytes socket_protocol_descs 0 its"

definition packet :: "message \<Rightarrow> u8 list \<Rightarrow> u8 list" where
  "packet its body = pre_header_bytes \<lparr>ph_magic = PROTOCOL_MAGIC, ph_header_len = of_nat (length (header_bytes its)),
     ph_msg_len = of_nat (length body)\<rparr> @ header_bytes its @ body"

definition request_header :: "u8 list \<Rightarrow> u8 list \<Rightarrow> message" where
  "request_header service method = [Scalar 0 (V_enum SOCKET_PROTOCOL_REQUEST), Data 1 service, Data 2 method]"

definition response_header :: message where
  "response_header = [Scalar 0 (V_enum SOCKET_PROTOCOL_RESPONSE)]"

text \<open>The structure when parse_request starts to decode the header.\<close>

definition parse_info :: "message \<Rightarrow> u8 list \<Rightarrow> service_ref list option \<Rightarrow> protocol_header_info" where
  "parse_info its body sl = \<lparr>hi_msg_type = 0, hi_service_desc = None, hi_method_desc = None,
     hi_header_len = of_nat (12 + length (header_bytes its)), hi_msg_len = of_nat (length body), hi_service_list = sl\<rparr>"

lemma pre_header_length [simp]: "length (pre_header_bytes h) = 12"
  by (simp add: pre_header_bytes_def)

lemma packet_parts:
  assumes "peek m p (length (packet its body)) = packet its body"
  shows "load_be32 m p = Inr PROTOCOL_MAGIC" and "load_be32 m (p + 4) = Inr (of_nat (length (header_bytes its)))"
    and "load_be32 m (p + 8) = Inr (of_nat (length body))"
    and "peek m (p + 12) (length (header_bytes its)) = header_bytes its"
    and "peek m (p + 12 + length (header_bytes its)) (length body) = body"
proof -
  let ?h = "header_bytes its" and ?m = "be32 PROTOCOL_MAGIC" and ?l = "be32 (of_nat (length (header_bytes its)))"
    and ?b = "be32 (of_nat (length body))"
  have "peek m p (length ?m + length (?l @ ?b @ ?h @ body)) = ?m @ ?l @ ?b @ ?h @ body"
    using assms by (simp add: packet_def pre_header_bytes_def)
  note 1 = peek_appendD [OF this]
  then have "peek m (p + 4) (length ?l + length (?b @ ?h @ body)) = ?l @ ?b @ ?h @ body"
    by simp
  note 2 = peek_appendD [OF this]
  then have "peek m (p + 8) (length ?b + length (?h @ body)) = ?b @ ?h @ body"
    by (simp add: add.commute)
  note 3 = peek_appendD [OF this]
  then have "peek m (p + 12) (length ?h + length body) = ?h @ body"
    by (simp add: add.commute)
  note 4 = peek_appendD [OF this]
  show "load_be32 m p = Inr PROTOCOL_MAGIC" "load_be32 m (p + 4) = Inr (of_nat (length ?h))"
    "load_be32 m (p + 8) = Inr (of_nat (length body))"
    using 1(1) 2(1) 3(1) by (auto intro: load_be32)
  show "peek m (p + 12) (length ?h) = ?h" "peek m (p + 12 + length ?h) (length body) = body"
    by (rule 4)+
qed

lemma parse_packet:
  assumes wf: "wf_items socket_protocol_descs 0 its" "items_depth its < LWPB_MAX_DEPTH"
    and st: "length (any_frames (w_any w)) = LWPB_MAX_DEPTH"
    and pk: "peek (w_mem w) p (length (packet its body)) = packet its body"
    and len: "length (packet its body) \<le> unat len" "length (header_bytes its) < 2 ^ 32" "length body < 2 ^ 32"
    and mem: "p + length (packet its body) \<le> length (w_mem w)" "length (w_mem w) < 2 ^ 63"
  shows "parse_request svs w (Some p) len info sl =
    andthen (handle_events (parse_decoder svs w (parse_info its body sl))
      (message_events socket_protocol_descs 0 (p + 12) its) (parse_info its body sl)) (\<lambda>i. Inr (PARSE_ERR_OK, i))"
proof -
  let ?h = "header_bytes its"
  have size: "length (packet its body) = 12 + length ?h + length body"
    by (simp add: packet_def)
  have ucast: "ucast (of_nat n :: u32) = (of_nat n :: u64)" if "n < 2 ^ 32" for n
    using that by (simp add: unsigned_of_nat take_bit_nat_eq_self)
  have hl: "ucast (of_nat (length ?h) :: u32) = (of_nat (length ?h) :: u64)"
    and bl: "ucast (of_nat (length body) :: u32) = (of_nat (length body) :: u64)"
    using ucast len by blast+
  have "\<not> len < (12 :: u64)"
    using len(1) size by (simp add: word_less_nat_alt)
  moreover have "\<not> len < (of_nat (length ?h) + 12) + of_nat (length body)"
  proof -
    have "unat (of_nat (12 + length ?h + length body) :: u64) = 12 + length ?h + length body"
      using len by (subst unat_of_nat) simp
    then have "\<not> len < of_nat (12 + length ?h + length body)"
      using len(1) size by (simp add: word_less_nat_alt)
    then show ?thesis by (simp add: add.commute add.left_commute)
  qed
  moreover have "info\<lparr>hi_header_len := of_nat (length ?h) + 12, hi_msg_len := of_nat (length body),
      hi_service_list := sl, hi_msg_type := 0, hi_service_desc := None, hi_method_desc := None\<rparr> = parse_info its body sl"
    by (simp add: parse_info_def)
  moreover obtain dec' where "\<forall>s. dec_arg (dec' s) = s"
    and "lwpb_decoder_decode socket_protocol_descs (w_mem w) (any_wire (w_any w)) (parse_decoder svs w (parse_info its body sl))
        (Some 0) (p + 12) (of_nat (length ?h)) =
      andthen (handle_events (parse_decoder svs w (parse_info its body sl)) (message_events socket_protocol_descs 0 (p + 12) its)
        (parse_info its body sl)) (\<lambda>s. Inr (LWPB_ERR_OK, dec' s, Some (of_nat (length ?h))))"
    using decode_message [OF wf, of "parse_decoder svs w (parse_info its body sl)" "p + 12" "w_mem w" "any_wire (w_any w)"]
      st mem packet_parts(4) [OF pk] size
    by (auto simp: header_bytes_def parse_decoder_def lwpb_decoder_field_handler_def lwpb_decoder_arg_def lwpb_decoder_init_def)
  ultimately show ?thesis
    by (simp add: parse_request_def packet_parts [OF pk] hl bl Let_def socket_protocol_Header_def andthen_assoc
        PARSE_ERR_OK_def cong: andthen_cong)
qed

section \<open>Receiving a request\<close>

text \<open>The service and the method that the names of a request denote in a service list.\<close>

definition named_service :: "(service_ref \<Rightarrow> u8 list) \<Rightarrow> service_ref list option \<Rightarrow> u8 list \<Rightarrow> service_ref option" where
  "named_service sn sl name = (case sl of None \<Rightarrow> None | Some ss \<Rightarrow> find (\<lambda>s. sn s = name) ss)"

definition named_method :: "services \<Rightarrow> (method_ref \<Rightarrow> u8 list) \<Rightarrow> service_ref option \<Rightarrow> u8 list \<Rightarrow> method_ref option" where
  "named_method svs mn service name = (case service of None \<Rightarrow> None
     | Some s \<Rightarrow> map_option (Pair s) (find (\<lambda>j. mn (s, j) = name) [0..<length (svc_methods (svs ! s))]))"

definition request_info :: "services \<Rightarrow> (service_ref \<Rightarrow> u8 list) \<Rightarrow> (method_ref \<Rightarrow> u8 list) \<Rightarrow> service_ref list option \<Rightarrow>
    u8 list \<Rightarrow> u8 list \<Rightarrow> u8 list \<Rightarrow> protocol_header_info" where
  "request_info svs sn mn sl service method body =
     (parse_info (request_header service method) body sl)\<lparr>hi_msg_type := MSG_TYPE_REQUEST,
       hi_service_desc := named_service sn sl service,
       hi_method_desc := named_method svs mn (named_service sn sl service) method\<rparr>"

lemma header_fields:
  "the_field socket_protocol_descs 0 0 = header_field 1 LWPB_REQUIRED LWPB_ENUM ''type''"
  "the_field socket_protocol_descs 0 (Suc 0) = header_field 2 LWPB_OPTIONAL LWPB_STRING ''service''"
  "the_field socket_protocol_descs 0 2 = header_field 3 LWPB_OPTIONAL LWPB_STRING ''method''"
  by (simp_all add: the_field_def socket_protocol_descs_def)

lemma header_field_sel [simp]:
  "number (header_field n l t name) = n" "field_type (header_field n l t name) = t"
  "\<not> is_packed_repeated (header_field n l t name)" "fd_msg_desc (header_field n l t name) = None"
  by (simp_all add: header_field_def is_packed_repeated_def)

lemma wf_header_field: "j < 3 \<Longrightarrow> wf_field socket_protocol_descs 0 j"
proof -
  assume "j < 3"
  then have "j = 0 \<or> j = Suc 0 \<or> j = 2"
    by auto
  then show ?thesis
    by (elim disjE) (simp_all add: wf_field_def header_fields, simp_all add: socket_protocol_descs_def)
qed

lemma wf_headers:
  "wf_items socket_protocol_descs 0 (request_header s t)" "items_depth (request_header s t) < LWPB_MAX_DEPTH"
  "wf_items socket_protocol_descs 0 response_header" "items_depth response_header < LWPB_MAX_DEPTH"
  by (simp_all add: request_header_def response_header_def wf_header_field header_fields scalar_ok_def
      LWPB_MAX_DEPTH_def numeral_2_eq_2 [symmetric])

lemma handle_field:
  "handle (parse_decoder svs w info) (Msg_field p msg fr v) i = parse_request_field_handler svs (w_mem w) p msg fr v i"
  "handle (parse_decoder svs w info) (Msg_start p k) i = Inr i"
  "handle (parse_decoder svs w info) (Msg_end p k) i = Inr i"
  by (simp_all add: handle.simps parse_decoder_def lwpb_decoder_field_handler_def lwpb_decoder_arg_def lwpb_decoder_init_def)

lemma handle_service_named:
  assumes "peek m p (length bs) = bs" "length bs < 2 ^ 63" "length m < 2 ^ 63"
    and "\<And>ss. hi_service_list info = Some ss \<Longrightarrow> names_are svs m sn mn ss" and "hi_service_desc info = None"
  shows "handle_service svs m (Some (V_string p (of_nat (length bs)))) info =
    Inr (info\<lparr>hi_service_desc := named_service sn (hi_service_list info) bs\<rparr>)"
proof (cases "hi_service_list info")
  case None
  with assms(5) show ?thesis by (simp add: handle_service_def named_service_def)
next
  case (Some ss)
  have "find_service svs m p (of_nat (length bs)) ss = Inr (find (\<lambda>s. sn s = bs) ss)"
    using assms(2) by (intro find_service_named [OF assms(1) _ assms(3) assms(4) [OF Some]]) simp
  with Some assms(5) show ?thesis
    by (auto simp: handle_service_def named_service_def the_value_def split: option.split)
qed

lemma handle_method_named:
  assumes "peek m p (length bs) = bs" "length bs < 2 ^ 63" "length m < 2 ^ 63"
    and "\<And>ss. hi_service_list info = Some ss \<Longrightarrow> names_are svs m sn mn ss" and "hi_method_desc info = None"
    and desc: "hi_service_desc info = named_service sn (hi_service_list info) name"
  shows "handle_method svs m (Some (V_string p (of_nat (length bs)))) info =
    Inr (info\<lparr>hi_method_desc := named_method svs mn (hi_service_desc info) bs\<rparr>)"
proof (cases "hi_service_desc info")
  case None
  with assms(5) show ?thesis by (simp add: handle_method_def named_method_def)
next
  case (Some s)
  then obtain ss where ss: "hi_service_list info = Some ss" "find (\<lambda>s. sn s = name) ss = Some s"
    using desc by (auto simp: named_service_def split: option.splits)
  then have "s \<in> set ss"
    by (auto simp: find_Some_iff)
  with assms(4) [OF ss(1)] have s: "s < length svs"
    and names: "\<And>j. j < length (svc_methods (svs ! s)) \<Longrightarrow> c_string m (mtd_name (svc_methods (svs ! s) ! j)) (mn (s, j))"
    by (auto simp: names_are_def)
  have "find_method m p (of_nat (length bs)) 0 (svc_methods (svs ! s)) =
      Inr (find (\<lambda>j. mn (s, j) = bs) [0..<0 + length (svc_methods (svs ! s))])"
    using assms(2) names by (intro find_method_named [OF assms(1) _ assms(3)]) simp_all
  with Some ss(1) s assms(5) show ?thesis
    by (auto simp: handle_method_def named_method_def the_value_def split: option.split)
qed

lemma parse_request_packet:
  assumes st: "length (any_frames (w_any w)) = LWPB_MAX_DEPTH"
    and pk: "peek (w_mem w) p (length (packet (request_header s t) body)) = packet (request_header s t) body"
    and len: "length (packet (request_header s t) body) \<le> unat len" "length (header_bytes (request_header s t)) < 2 ^ 32"
      "length body < 2 ^ 32"
    and mem: "p + length (packet (request_header s t) body) \<le> length (w_mem w)" "length (w_mem w) < 2 ^ 63"
    and names: "\<And>ss. sl = Some ss \<Longrightarrow> names_are svs (w_mem w) sn mn ss"
  shows "parse_request svs w (Some p) len info sl = Inr (PARSE_ERR_OK, request_info svs sn mn sl s t body)"
proof -
  let ?its = "request_header s t"
  let ?m = "w_mem w" and ?i = "parse_info ?its body sl"
  define a where "a = content_addr (p + 12 + length (item_bytes socket_protocol_descs 0 (Scalar 0 (V_enum SOCKET_PROTOCOL_REQUEST))))
    (the_field socket_protocol_descs 0 1) s"
  define b where "b = content_addr (p + 12 + length (item_bytes socket_protocol_descs 0 (Scalar 0 (V_enum SOCKET_PROTOCOL_REQUEST))) +
    length (item_bytes socket_protocol_descs 0 (Data 1 s))) (the_field socket_protocol_descs 0 2) t"
  have evs: "message_events socket_protocol_descs 0 (p + 12) ?its =
    [Msg_start False 0, Msg_field False (Some 0) (0, 0) (Some (V_enum SOCKET_PROTOCOL_REQUEST)),
     Msg_field False (Some 0) (0, 1) (Some (V_string a (of_nat (length s)))),
     Msg_field False (Some 0) (0, 2) (Some (V_string b (of_nat (length t)))), Msg_end False 0]"
    by (simp add: message_events_def request_header_def data_value_def header_fields a_def b_def Let_def)
  have size: "length s < 2 ^ 63" "length t < 2 ^ 63"
    using mem by (simp_all add: packet_def header_bytes_def request_header_def delimited_def)
  have "p + 12 + length (items_bytes socket_protocol_descs 0 ?its) \<le> length ?m"
    using mem(1) by (simp add: packet_def header_bytes_def)
  from decoded_strings_at [OF wf_headers(1) mem(2) this packet_parts(4) [OF pk, unfolded header_bytes_def]]
  have "concat (map (event_string ?m) (message_events socket_protocol_descs 0 (p + 12) ?its)) = [s, t]"
    by (simp add: request_header_def)
  then have strings: "peek ?m a (length s) = s" "peek ?m b (length t) = t"
    unfolding evs using size by (simp_all add: event_string_def unat_of_nat)
  have sv: "handle_service svs ?m (Some (V_string a (of_nat (length s)))) (?i\<lparr>hi_msg_type := SOCKET_PROTOCOL_REQUEST\<rparr>) =
      Inr (?i\<lparr>hi_msg_type := SOCKET_PROTOCOL_REQUEST, hi_service_desc := named_service sn sl s\<rparr>)"
    using handle_service_named [OF strings(1) size(1) mem(2), where info = "?i\<lparr>hi_msg_type := SOCKET_PROTOCOL_REQUEST\<rparr>"
        and svs = svs and sn = sn and mn = mn] names
    by (simp add: parse_info_def)
  have md: "handle_method svs ?m (Some (V_string b (of_nat (length t))))
      (?i\<lparr>hi_msg_type := SOCKET_PROTOCOL_REQUEST, hi_service_desc := named_service sn sl s\<rparr>) =
      Inr (request_info svs sn mn sl s t body)"
    using handle_method_named [OF strings(2) size(2) mem(2),
        where info = "?i\<lparr>hi_msg_type := SOCKET_PROTOCOL_REQUEST, hi_service_desc := named_service sn sl s\<rparr>"
        and svs = svs and sn = sn and mn = mn and name = s] names
    by (simp add: parse_info_def request_info_def SOCKET_PROTOCOL_REQUEST_def MSG_TYPE_REQUEST_def)
  have "handle_events (parse_decoder svs w ?i) (message_events socket_protocol_descs 0 (p + 12) ?its) ?i =
      Inr (request_info svs sn mn sl s t body)"
    by (simp add: evs handle_field parse_request_field_handler_def socket_protocol_Header_def socket_protocol_Header_type_def
        socket_protocol_Header_service_def socket_protocol_Header_method_def the_value_def sv md)
  with parse_packet [OF wf_headers(1,2) st pk len mem] show ?thesis
    by simp
qed

section \<open>Sending\<close>

text \<open>The three calls of send that a packet consists of.\<close>

definition packet_sends :: "int \<Rightarrow> message \<Rightarrow> u8 list \<Rightarrow> syscall list" where
  "packet_sends fd its body =
     [Sys_send fd (pre_header_bytes \<lparr>ph_magic = PROTOCOL_MAGIC, ph_header_len = of_nat (length (header_bytes its)),
        ph_msg_len = of_nat (length body)\<rparr>), Sys_send fd (header_bytes its), Sys_send fd body]"

text \<open>What arrives at the other end of a connection.\<close>

definition received :: "int \<Rightarrow> syscall list \<Rightarrow> u8 list" where
  "received fd calls = concat (map (\<lambda>c. case c of Sys_send fd' bs \<Rightarrow> if fd' = fd then bs else [] | _ \<Rightarrow> []) calls)"

lemma received_packet: "received fd (packet_sends fd its body) = packet its body"
  by (simp add: received_def packet_sends_def packet_def)

lemma encode_enum_header:
  assumes "encode_message socket_protocol_descs m enc 0 [Scalar 0 (V_enum k)] p 128 = Inr (LWPB_ERR_OK, m', n)"
  shows "\<exists>enc1 enc2. lwpb_encoder_start (lwpb_encoder_init enc) (Some 0) p 128 = Inr enc1 \<and>
    lwpb_encoder_add_enum socket_protocol_descs m enc1 (Some (0, 0)) k = Inr (LWPB_ERR_OK, m', enc2) \<and>
    lwpb_encoder_finish enc2 = Inr n"
  using assms by (auto simp: encode_message_def andthen_eq_Inr and_if_ok_def lwpb_encoder_add_enum_def split: if_splits)

lemma encode_request_header:
  assumes "encode_message socket_protocol_descs m enc 0
      [Scalar 0 (V_enum k), Data 1 (a, of_nat (length s)), Data 2 (b, of_nat (length t))] p 128 = Inr (LWPB_ERR_OK, m', n)"

  shows "\<exists>enc1 m1 enc2 m2 enc3 enc4. lwpb_encoder_start (lwpb_encoder_init enc) (Some 0) p 128 = Inr enc1 \<and>
    lwpb_encoder_add_enum socket_protocol_descs m enc1 (Some (0, 0)) k = Inr (LWPB_ERR_OK, m1, enc2) \<and>
    lwpb_encoder_add_bytes socket_protocol_descs m1 enc2 (Some (0, 1)) a (of_nat (length s)) = Inr (LWPB_ERR_OK, m2, enc3) \<and>
    lwpb_encoder_add_bytes socket_protocol_descs m2 enc3 (Some (0, 2)) b (of_nat (length t)) = Inr (LWPB_ERR_OK, m', enc4) \<and>
    lwpb_encoder_finish enc4 = Inr n"
  using assms by (auto simp: encode_message_def andthen_eq_Inr and_if_ok_def lwpb_encoder_add_enum_def split: if_splits)

text \<open>A header whose names have at most 122 characters fits into the 128 bytes that are set aside for it.\<close>

lemma small_varint: "n < 128 \<Longrightarrow> length (varint_bytes (of_nat n)) \<le> 1"
  using length_varint_bytes_le [of "of_nat n" 0] by (simp add: unat_of_nat)

lemma header_keys:
  "unat (field_key WT_STRING 2) = 18" "unat (field_key WT_STRING 3) = 26"
  "length (item_bytes socket_protocol_descs 0 (Scalar 0 (V_enum SOCKET_PROTOCOL_REQUEST))) = 2"
  "length (item_bytes socket_protocol_descs 0 (Scalar 0 (V_enum SOCKET_PROTOCOL_RESPONSE))) = 2"
  by code_simp+

lemma delimited_room:
  assumes "unat (field_key WT_STRING (number fd)) < 128" and "length c < 128"
  shows "length (delimited fd c) \<le> 2 + length c"
  using length_varint_bytes_le [of "field_key WT_STRING (number fd)" 0] small_varint [OF assms(2)] assms(1)
  by (simp add: delimited_def)

lemma request_room:
  assumes "length s + length t \<le> 122"
  shows "items_room socket_protocol_descs 0 (request_header s t) \<le> 128"
proof -
  have "length (delimited (the_field socket_protocol_descs 0 1) s) \<le> 2 + length s"
    by (rule delimited_room) (use assms in \<open>simp_all add: header_fields header_keys\<close>)
  moreover have "length (delimited (the_field socket_protocol_descs 0 2) t) \<le> 2 + length t"
    by (rule delimited_room) (use assms in \<open>simp_all add: header_fields header_keys\<close>)
  ultimately show ?thesis
    using assms header_keys(3) by (simp add: request_header_def del: item_bytes.simps(1))
qed

lemma response_room: "items_room socket_protocol_descs 0 response_header \<le> 128"
  using header_keys(4) by (simp add: response_header_def del: item_bytes.simps(1))

lemma header_bytes_room: "items_room socket_protocol_descs 0 its \<le> 128 \<Longrightarrow> length (header_bytes its) \<le> 128"
  using items_bytes_room [of socket_protocol_descs 0 its] by (simp add: header_bytes_def)

lemma take_same_outside:
  assumes "same_outside (length xs) b (xs @ ys) m"
  shows "take (length xs) m = xs"
  using assms by (intro nth_equalityI) (auto simp: same_outside_def nth_append)

text \<open>Sending the packet from the array that holds its header.\<close>

lemma send_packet_sends:
  assumes hdr: "peek (w_mem w) p (length (header_bytes its)) = header_bytes its" "p + 128 \<le> length (w_mem w)"
      "length (header_bytes its) \<le> 128"
    and body: "b + unat len \<le> length (w_mem w)" "unat len < 2 ^ 32"
  shows "send_packet fd p (of_nat (length (header_bytes its))) (Some b) len w =
    w\<lparr>w_log := w_log w @ packet_sends fd its (peek (w_mem w) b (unat len))\<rparr>"
proof -
  have hl: "unat (of_nat (length (header_bytes its)) :: u64) = length (header_bytes its)"
    using hdr(3) by (simp add: unat_of_nat)
  have "(ucast len :: u32) = of_nat (unat len)"
    by simp
  moreover have "ucast (of_nat (length (header_bytes its)) :: u64) = (of_nat (length (header_bytes its)) :: u32)"
    by (simp add: unsigned_of_nat take_bit_nat_eq_self hdr(3) order_le_less_trans [OF hdr(3)])
  ultimately show ?thesis
    using hdr body hl
    by (auto simp: send_packet_def Let_def sys_send_def sys_send_bytes_def packet_sends_def peek_def unat_eq_0
        simp flip: unat_eq_zero)
qed

lemma send_request_sends:
  assumes md: "deref_method svs (Some md) = Inr mtd" "deref svs (Some (mtd_service mtd)) = Inr sv"
    and names: "c_string (w_mem w) (svc_name sv) s" "c_string (w_mem w) (mtd_name mtd) t" "length s + length t \<le> 122"
    and enc: "length (enc_stack (any_encoder (w_any w))) = LWPB_MAX_DEPTH" and mem: "length (w_mem w) + 128 < 2 ^ 63"
    and body: "b + unat len \<le> length (w_mem w)" "unat len < 2 ^ 32"
  shows "send_request svs fd (Some md) (Some b) len w =
    Inr ((), w\<lparr>w_log := w_log w @ packet_sends fd (request_header s t) (peek (w_mem w) b (unat len))\<rparr>)"
proof -
  let ?p = "length (w_mem w)" and ?fresh = "fresh_bytes (w_any w) (length (w_mem w)) 128"
  let ?M = "w_mem w @ ?fresh"
  let ?its = "[Scalar 0 (V_enum SOCKET_PROTOCOL_REQUEST), Data 1 (svc_name sv, of_nat (length s) :: u64), Data 2 (mtd_name mtd, of_nat (length t))]"
  have in_old: "a + n \<le> ?p \<Longrightarrow> peek ?M a n = peek (w_mem w) a n" for a n
    by (simp add: peek_def)
  have names': "c_string ?M (svc_name sv) s" "c_string ?M (mtd_name mtd) t"
    using names(1,2) c_string_bound [OF names(1)] c_string_bound [OF names(2)] by (auto simp: c_string_def in_old)
  have un: "unat (of_nat (length s) :: u64) = length s" "unat (of_nat (length t) :: u64) = length t"
    using names(3) by (simp_all add: unat_of_nat)
  have its: "the_items ?M ?its = request_header s t"
    by (simp add: request_header_def contents_def un c_string_peek [OF names'(1)] c_string_peek [OF names'(2)])
  have wf: "wf_items socket_protocol_descs 0 ?its" "items_depth ?its < LWPB_MAX_DEPTH"
    using wf_headers(1,2) [of s t] unfolding its [symmetric] by (simp_all only: wf_map_item depth_map_item)
  have out: "sources_outside ?M (lwpb_buf_init ?p 128) ?its"
    using c_string_bound [OF names(1)] c_string_bound [OF names(2)] by (auto simp: sources_outside_def source_outside_def un)
  have room: "items_room socket_protocol_descs 0 (the_items ?M ?its) \<le> unat (128 :: u64)"
    unfolding its using request_room [OF names(3)] by simp
  from encode_message_ok [OF wf enc _ _ _ room out] mem obtain m' where
    encode: "encode_message socket_protocol_descs ?M (any_encoder (w_any w)) 0 ?its ?p 128 =
      Inr (LWPB_ERR_OK, m', of_nat (length (header_bytes (request_header s t))))"
    and bytes: "peek m' ?p (length (header_bytes (request_header s t))) = header_bytes (request_header s t)"
    and so: "same_outside ?p (?p + 128) ?M m'"
    unfolding its header_bytes_def by auto
  from encode_request_header [OF encode] obtain enc1 m1 enc2 m2 enc3 enc4 where
    start: "lwpb_encoder_start (lwpb_encoder_init (any_encoder (w_any w))) (Some 0) ?p 128 = Inr enc1"
    and add1: "lwpb_encoder_add_enum socket_protocol_descs ?M enc1 (Some (0, 0)) SOCKET_PROTOCOL_REQUEST = Inr (LWPB_ERR_OK, m1, enc2)"
    and add2: "lwpb_encoder_add_bytes socket_protocol_descs m1 enc2 (Some (0, 1)) (svc_name sv) (of_nat (length s)) = Inr (LWPB_ERR_OK, m2, enc3)"
    and add3: "lwpb_encoder_add_bytes socket_protocol_descs m2 enc3 (Some (0, 2)) (mtd_name mtd) (of_nat (length t)) = Inr (LWPB_ERR_OK, m', enc4)"
    and finish: "lwpb_encoder_finish enc4 = Inr (of_nat (length (header_bytes (request_header s t))))"
    by blast
  have ses: "session socket_protocol_descs ?M (Some 0) ?p 128 ?M enc1"
    by (rule started [OF _ start]) (simp add: lwpb_encoder_init_def enc)
  have ses1: "session socket_protocol_descs ?M (Some 0) ?p 128 m1 enc2"
    by (rule called [OF ses, of "Call_add (Some (0, 0)) (V_enum SOCKET_PROTOCOL_REQUEST)" LWPB_ERR_OK])
      (use add1 in \<open>simp_all add: lwpb_encoder_add_enum_def\<close>)
  have ses2: "session socket_protocol_descs ?M (Some 0) ?p 128 m2 enc3"
    by (rule called [OF ses1, of "Call_add (Some (0, 1)) (V_string (svc_name sv) (of_nat (length s)))" LWPB_ERR_OK])
      (use add2 in \<open>simp_all add: lwpb_encoder_add_bytes_def\<close>)
  have keeps: "c_string m a x" if "session socket_protocol_descs ?M (Some 0) ?p 128 m e" "c_string (w_mem w) a x" for m e a x
  proof -
    have "same_outside ?p (?p + 128) ?M m"
      using session_keeps_inv [OF that(1)] mem by (simp add: session_inv_def)
    from same_outside_peek [OF this, of a "Suc (length x)"] that(2) c_string_bound [OF that(2)] show ?thesis
      by (simp add: c_string_def in_old)
  qed
  have str1: "lwpb_encoder_add_string socket_protocol_descs m1 enc2 (Some (0, 1)) (svc_name sv) = Inr (LWPB_ERR_OK, m2, enc3)"
    using add2 c_string_strlen [OF keeps [OF ses1 names(1)]] by (simp add: lwpb_encoder_add_string_def lwpb_encoder_add_bytes_def)
  have str2: "lwpb_encoder_add_string socket_protocol_descs m2 enc3 (Some (0, 2)) (mtd_name mtd) = Inr (LWPB_ERR_OK, m', enc4)"
    using add3 c_string_strlen [OF keeps [OF ses2 names(2)]] by (simp add: lwpb_encoder_add_string_def lwpb_encoder_add_bytes_def)
  have len': "length m' = ?p + 128"
    using so by (simp add: same_outside_def)
  have same: "peek m' b (unat len) = peek (w_mem w) b (unat len)" "take ?p m' = w_mem w"
    using same_outside_peek [OF so, of b "unat len"] body in_old take_same_outside [OF so] by auto
  have sent: "send_packet fd ?p (of_nat (length (header_bytes (request_header s t)))) (Some b) len (w\<lparr>w_mem := m'\<rparr>) =
      w\<lparr>w_mem := m', w_log := w_log w @ packet_sends fd (request_header s t) (peek (w_mem w) b (unat len))\<rparr>"
    using send_packet_sends [of "w\<lparr>w_mem := m'\<rparr>" ?p "request_header s t" b len fd] bytes body
      header_bytes_room [OF request_room [OF names(3)]] by (simp add: same len')
  show ?thesis
    by (simp add: send_request_def with_array_def Let_def socket_protocol_Header_def socket_protocol_Header_type_def
        socket_protocol_Header_service_def socket_protocol_Header_method_def start add1 md str1 [unfolded One_nat_def] str2 finish sent same)
qed

lemma send_response_sends:
  assumes enc: "length (enc_stack (any_encoder (w_any w))) = LWPB_MAX_DEPTH" and mem: "length (w_mem w) + 128 < 2 ^ 63"
    and body: "b + unat len \<le> length (w_mem w)" "unat len < 2 ^ 32"
  shows "send_response fd (Some b) len w =
    Inr ((), w\<lparr>w_log := w_log w @ packet_sends fd response_header (peek (w_mem w) b (unat len))\<rparr>)"
proof -
  let ?p = "length (w_mem w)" and ?fresh = "fresh_bytes (w_any w) (length (w_mem w)) 128"
  let ?M = "w_mem w @ ?fresh" and ?its = "[Scalar 0 (V_enum SOCKET_PROTOCOL_RESPONSE)] :: (addr \<times> u64) item list"
  have its: "the_items ?M ?its = response_header"
    by (simp add: response_header_def)
  have wf: "wf_items socket_protocol_descs 0 ?its" "items_depth ?its < LWPB_MAX_DEPTH"
    using wf_headers(3,4) unfolding its [symmetric] by (simp_all only: wf_map_item depth_map_item)
  have room: "items_room socket_protocol_descs 0 (the_items ?M ?its) \<le> unat (128 :: u64)"
    unfolding its using response_room by simp
  have "sources_outside ?M (lwpb_buf_init ?p 128) ?its"
    by (simp add: sources_outside_def)
  from encode_message_ok [OF wf enc _ _ _ room this] mem obtain m' where
    encode: "encode_message socket_protocol_descs ?M (any_encoder (w_any w)) 0 ?its ?p 128 =
      Inr (LWPB_ERR_OK, m', of_nat (length (header_bytes response_header)))"
    and bytes: "peek m' ?p (length (header_bytes response_header)) = header_bytes response_header"
    and so: "same_outside ?p (?p + 128) ?M m'"
    unfolding its header_bytes_def by auto
  from encode_enum_header [OF encode] obtain enc1 enc2 where
    start: "lwpb_encoder_start (lwpb_encoder_init (any_encoder (w_any w))) (Some 0) ?p 128 = Inr enc1"
    and add: "lwpb_encoder_add_enum socket_protocol_descs ?M enc1 (Some (0, 0)) SOCKET_PROTOCOL_RESPONSE = Inr (LWPB_ERR_OK, m', enc2)"
    and finish: "lwpb_encoder_finish enc2 = Inr (of_nat (length (header_bytes response_header)))"
    by blast
  have len': "length m' = ?p + 128"
    using so by (simp add: same_outside_def)
  have "peek ?M b (unat len) = peek (w_mem w) b (unat len)"
    using body by (simp add: peek_def)
  then have same: "peek m' b (unat len) = peek (w_mem w) b (unat len)" "take ?p m' = w_mem w"
    using same_outside_peek [OF so, of b "unat len"] body take_same_outside [OF so] by auto
  have sent: "send_packet fd ?p (of_nat (length (header_bytes response_header))) (Some b) len (w\<lparr>w_mem := m'\<rparr>) =
      w\<lparr>w_mem := m', w_log := w_log w @ packet_sends fd response_header (peek (w_mem w) b (unat len))\<rparr>"
    using send_packet_sends [of "w\<lparr>w_mem := m'\<rparr>" ?p response_header b len fd] bytes body
      header_bytes_room [OF response_room] by (simp add: same len')
  show ?thesis
    by (simp add: send_response_def with_array_def Let_def socket_protocol_Header_def socket_protocol_Header_type_def
        start add finish sent same)
qed

section \<open>Properties\<close>

lemma packet_length: "length (packet its body) = 12 + length (header_bytes its) + length body"
  by (simp add: packet_def)

text \<open>
  C13: Requests round trip. What send_request sends over a connection, once all of it has arrived in a
  buffer of the receiver, is parsed as a request with LWPB_ERR_OK: the service is the first one of the
  service list that has the name of the sender's service, the method the first one of that service that
  has the name of the sender's method, and behind the header lie exactly the bytes of the request
  message. The names have at most 122 characters together, which is what fits into the header buffer.
\<close>

theorem request_roundtrip:
  assumes "deref_method svs (Some md) = Inr mtd" "deref svs (Some (mtd_service mtd)) = Inr sv"
    and "c_string (w_mem w) (svc_name sv) s" "c_string (w_mem w) (mtd_name mtd) t" "length s + length t \<le> 122"
    and "length (enc_stack (any_encoder (w_any w))) = LWPB_MAX_DEPTH" and "length (w_mem w) + 128 < 2 ^ 63"
    and "b + unat len \<le> length (w_mem w)" "unat len < 2 ^ 32"
    and "send_request svs fd (Some md) (Some b) len w = Inr (u, w')"
    and "pk = received fd (drop (length (w_log w)) (w_log w'))"
    and "peek (w_mem v) p (length pk) = pk" "p + length pk \<le> length (w_mem v)" "length (w_mem v) < 2 ^ 63"
    and "length (any_frames (w_any v)) = LWPB_MAX_DEPTH" and "length pk \<le> unat n"
    and "names_are svs' (w_mem v) sn mn ss"
  shows "\<exists>info. parse_request svs' v (Some p) n info0 (Some ss) = Inr (PARSE_ERR_OK, info) \<and>
    hi_msg_type info = MSG_TYPE_REQUEST \<and> hi_service_desc info = find (\<lambda>i. sn i = s) ss \<and>
    hi_method_desc info = named_method svs' mn (hi_service_desc info) t \<and>
    peek (w_mem v) (p + unat (hi_header_len info)) (unat (hi_msg_len info)) = peek (w_mem w) b (unat len)"
proof -
  let ?body = "peek (w_mem w) b (unat len)" and ?its = "request_header s t"
  have pk: "pk = packet ?its ?body"
    using send_request_sends [OF assms(1-9)] assms(10,11) by (auto simp: received_packet)
  have hl: "length (header_bytes ?its) \<le> 128" and bl: "length ?body = unat len"
    using header_bytes_room [OF request_room [OF assms(5)]] assms(8) by simp_all
  have parse: "parse_request svs' v (Some p) n info0 (Some ss) = Inr (PARSE_ERR_OK, request_info svs' sn mn (Some ss) s t ?body)"
    using assms(9,12-17) hl bl by (intro parse_request_packet) (simp_all add: pk)
  have at: "p + unat (of_nat (12 + length (header_bytes ?its)) :: u64) = p + 12 + length (header_bytes ?its)"
    using hl by (subst unat_of_nat) simp
  have msg: "unat (of_nat (length ?body) :: u64) = length ?body"
    by (simp add: bl)
  let ?i = "request_info svs' sn mn (Some ss) s t ?body"
  have "hi_header_len ?i = of_nat (12 + length (header_bytes ?its))" and "hi_msg_len ?i = of_nat (length ?body)"
    by (simp_all add: request_info_def parse_info_def)
  then have "peek (w_mem v) (p + unat (hi_header_len ?i)) (unat (hi_msg_len ?i)) = ?body"
    using packet_parts(5) [OF assms(12) [unfolded pk]] by (simp only: at msg)
  with parse show ?thesis
    by (intro exI [of _ ?i]) (simp add: request_info_def named_service_def)
qed

text \<open>
  A request that has not arrived completely is not acted upon: on every proper prefix of a packet
  parse_request returns PARSE_ERR_END_OF_BUF, whatever the names and the lengths are, and does not look
  at what lies behind the prefix.
\<close>

theorem parse_incomplete:
  assumes "peek (w_mem v) p (unat n) = take (unat n) (packet its body)" and "unat n < length (packet its body)"
    and "length (header_bytes its) < 2 ^ 32" and "length body < 2 ^ 32"
  shows "\<exists>info. parse_request svs v (Some p) n info0 sl = Inr (PARSE_ERR_END_OF_BUF, info)"
proof (cases "n < 12")
  case True
  then show ?thesis by (simp add: parse_request_def)
next
  case False
  let ?h = "header_bytes its" and ?m = "be32 PROTOCOL_MAGIC" and ?l = "be32 (of_nat (length (header_bytes its)))"
    and ?b = "be32 (of_nat (length body))"
  have n: "12 \<le> unat n"
    using False by (simp add: word_less_nat_alt not_less)
  have "take 12 (peek (w_mem v) p (unat n)) = peek (w_mem v) p 12"
    using n by (simp add: peek_def)
  then have "peek (w_mem v) p 12 = take 12 (packet its body)"
    using n by (simp add: assms(1) min_def)
  then have "peek (w_mem v) p (length ?m + length (?l @ ?b)) = ?m @ ?l @ ?b"
    by (simp add: packet_def pre_header_bytes_def)
  note 1 = peek_appendD [OF this]
  then have "peek (w_mem v) (p + 4) (length ?l + length ?b) = ?l @ ?b"
    by simp
  note 2 = peek_appendD [OF this]
  have loads: "load_be32 (w_mem v) p = Inr PROTOCOL_MAGIC" "load_be32 (w_mem v) (p + 4) = Inr (of_nat (length ?h))"
    "load_be32 (w_mem v) (p + 8) = Inr (of_nat (length body))"
    using 1(1) 2 by (auto intro!: load_be32 simp: add.commute)
  have "unat (of_nat (12 + length ?h + length body) :: u64) = 12 + length ?h + length body"
    using assms(3,4) by (subst unat_of_nat) simp
  then have "n < of_nat (12 + length ?h + length body)"
    using assms(2) by (simp add: word_less_nat_alt packet_length del: of_nat_add)
  moreover have "ucast (of_nat k :: u32) = (of_nat k :: u64)" if "k < 2 ^ 32" for k
    using that by (simp add: unsigned_of_nat take_bit_nat_eq_self)
  ultimately show ?thesis
    using False assms(3,4) by (simp add: parse_request_def loads Let_def add.commute add.left_commute)
qed

end
