(* ===== verification/Socket_Server.thy ===== *)
theory Socket_Server
  imports Direct Socket_Protocol
begin

text \<open>
  The socket server transport of src/src/lwpb/rpc/socket_server.c: a listening socket and up to four
  client connections, each with a receive buffer, that are served by calls of the update function.
  Logging is not modelled, nor is what only goes into a log message.
\<close>

section \<open>State\<close>

definition LWPB_TRANSPORT_SOCKET_SERVER_CONNS :: nat where
  "LWPB_TRANSPORT_SOCKET_SERVER_CONNS = 4"

text \<open>A connection; -1 is no socket. The member \<open>client\<close>, which no code uses, is left out.\<close>

record lwpb_socket_server_conn =
  conn_index :: nat
  conn_socket :: int
  conn_buf :: void_ptr
  conn_pos :: void_ptr
  conn_len :: u64

record 's lwpb_transport_socket_server = "'s lwpb_transport" +
  ss_server :: "server_ref option"
  ss_socket :: int
  ss_num_conns :: int
  ss_conns :: "lwpb_socket_server_conn list"

section \<open>Connections\<close>

text \<open>Two calls of fcntl; LWPB_FAIL aborts.\<close>

definition make_nonblock :: "'s world \<Rightarrow> 's world run" where
  "make_nonblock w = (let (opts, w) = sys_int w in
     if opts < 0 then Inl Abort
     else let (ret, w) = sys_int w in if ret < 0 then Inl Abort else Inr w)"

fun free_conn :: "nat \<Rightarrow> lwpb_socket_server_conn list \<Rightarrow> nat option" where
  "free_conn i [] = None"
| "free_conn i (conn # conns) = (if conn_socket conn = - 1 then Some i else free_conn (Suc i) conns)"

definition no_more_conns :: "u8 list" where
  "no_more_conns = map of_char ''No more connections allowed'' @ [10, 0]"

definition handle_new_connection ::
    "'s lwpb_transport_socket_server \<Rightarrow> 's world \<Rightarrow> ('s lwpb_transport_socket_server \<times> 's world) run" where
  "handle_new_connection ss w = (let (socket, w) = sys_int w in
     if socket < 0 then Inr (ss, w)
     else andthen (make_nonblock w) (\<lambda>w. case free_conn 0 (ss_conns ss) of
         None \<Rightarrow> Inr (ss, sys_close socket (sys_send_bytes socket no_more_conns w))
       | Some i \<Rightarrow>
           (let conn = (ss_conns ss ! i)\<lparr>conn_socket := socket\<rparr> in
            andthen (if conn_buf conn = None
                then andthen (lwpb_transport_alloc_buf ss w) (\<lambda>(_, buf, len, w).
                  Inr (conn\<lparr>conn_buf := buf, conn_len := len\<rparr>, w))
                else Inr (conn, w)) (\<lambda>(conn, w).
              Inr (ss\<lparr>ss_conns := (ss_conns ss)[i := conn\<lparr>conn_pos := conn_buf conn\<rparr>],
                ss_num_conns := ss_num_conns ss + 1\<rparr>, w)))))"

definition close_connection ::
    "'s lwpb_transport_socket_server \<Rightarrow> nat \<Rightarrow> 's world \<Rightarrow> 's lwpb_transport_socket_server \<times> 's world" where
  "close_connection ss i w =
     (ss\<lparr>ss_conns := (ss_conns ss)[i := (ss_conns ss ! i)\<lparr>conn_socket := - 1\<rparr>], ss_num_conns := ss_num_conns ss - 1\<rparr>,
      sys_close (conn_socket (ss_conns ss ! i)) w)"

text \<open>Serving a request that was parsed. The error codes of the allocator and the handler are ignored.\<close>

definition serve_request ::
    "services \<Rightarrow> 's lwpb_transport_socket_server \<Rightarrow> 's lwpb_server \<Rightarrow> lwpb_socket_server_conn \<Rightarrow>
     protocol_header_info \<Rightarrow> 's world \<Rightarrow> 's world run" where
  "serve_request svs ss sv conn info w =
     andthen (lwpb_transport_alloc_buf ss w) (\<lambda>(_, res_buf, res_len, w).
     andthen (fun_ptr (srv_call_handler sv)) (\<lambda>call_handler.
     andthen (deref_method svs (hi_method_desc info)) (\<lambda>mtd.
     andthen (call_handler (the (ss_server ss)) (the (hi_method_desc info)) (mtd_req_desc mtd)
       (ptr_add (conn_buf conn) (unat (hi_header_len info))) (hi_msg_len info) (mtd_res_desc mtd) res_buf res_len
       (srv_arg sv) w) (\<lambda>(_, res_len, w).
     andthen (send_response (conn_socket conn) res_buf res_len w) (\<lambda>(_, w).
       lwpb_transport_free_buf ss res_buf w)))))"

definition handle_connection ::
    "services \<Rightarrow> 's lwpb_server list \<Rightarrow> 's lwpb_transport_socket_server \<Rightarrow> nat \<Rightarrow> 's world \<Rightarrow>
     ('s lwpb_transport_socket_server \<times> 's world) run" where
  "handle_connection svs servers ss i w =
     (let conn = ss_conns ss ! i; used = ptr_diff (conn_pos conn) (conn_buf conn);
          (len, w) = sys_recv (conn_pos conn) (conn_len conn - used) w in
      if len \<le> 0 then Inr (close_connection ss i w)
      else
        (let conn = conn\<lparr>conn_pos := ptr_add (conn_pos conn) (nat len)\<rparr>;
             ss = ss\<lparr>ss_conns := (ss_conns ss)[i := conn]\<rparr>;
             used = ptr_diff (conn_pos conn) (conn_buf conn) in
         andthen (deref servers (ss_server ss)) (\<lambda>sv.
         andthen (parse_request svs w (conn_buf conn) used blank_info (srv_service_list sv)) (\<lambda>(ret, info).
           if ret \<noteq> PARSE_ERR_OK then Inr (ss, w)
           else andthen (serve_request svs ss sv conn info w) (\<lambda>w. Inr (ss, w))))))"

section \<open>The transport functions\<close>

type_synonym 's socket_server_rpc = "('s, \<lparr>ss_server :: server_ref option, ss_socket :: int, ss_num_conns :: int,
  ss_conns :: lwpb_socket_server_conn list\<rparr>) rpc"

definition socket_server_register_client ::
    "transport_ref \<Rightarrow> client_ref \<Rightarrow> 's socket_server_rpc \<Rightarrow> 's socket_server_rpc run" where
  "socket_server_register_client t c st = Inl Abort"

definition socket_server_transport_call ::
    "services \<Rightarrow> transport_ref \<Rightarrow> client_ref \<Rightarrow> method_ref \<Rightarrow> 's socket_server_rpc \<Rightarrow>
     (lwpb_err_t \<times> 's socket_server_rpc) run" where
  "socket_server_transport_call svs t c md st = andthen (deref (rpc_transports st) (Some t)) (\<lambda>ss.
     andthen (deref (rpc_clients st) (Some c)) (\<lambda>cl.
     andthen (local_call svs ss (rpc_servers st) (ss_server ss) c cl md (rpc_world st)) (\<lambda>(ret, w).
       Inr (ret, st\<lparr>rpc_world := w\<rparr>))))"

definition socket_server_transport_cancel :: "transport_ref \<Rightarrow> client_ref \<Rightarrow> ('s, 't) rpc \<Rightarrow> ('s, 't) rpc run" where
  "socket_server_transport_cancel t c st = Inr st"

definition socket_server_register_server ::
    "transport_ref \<Rightarrow> server_ref \<Rightarrow> 's socket_server_rpc \<Rightarrow> 's socket_server_rpc run" where
  "socket_server_register_server t s st = andthen (deref (rpc_transports st) (Some t)) (\<lambda>ss.
     andthen (lwpb_assert (ss_server ss = None)) (\<lambda>_.
       Inr (st\<lparr>rpc_transports := (rpc_transports st)[t := ss\<lparr>ss_server := Some s\<rparr>]\<rparr>)))"

definition socket_server_funs :: "services \<Rightarrow> ('s, \<lparr>ss_server :: server_ref option, ss_socket :: int,
    ss_num_conns :: int, ss_conns :: lwpb_socket_server_conn list\<rparr>) lwpb_transport_funs" where
  "socket_server_funs svs = \<lparr>register_client = socket_server_register_client, call = socket_server_transport_call svs,
     cancel = socket_server_transport_cancel, register_server = socket_server_register_server\<rparr>"

fun socket_server_tables :: "services \<Rightarrow> ('s, \<lparr>ss_server :: server_ref option, ss_socket :: int,
    ss_num_conns :: int, ss_conns :: lwpb_socket_server_conn list\<rparr>) fun_tables" where
  "socket_server_tables svs Socket_server_funs = socket_server_funs svs"
| "socket_server_tables svs _ = wrong_funs"

section \<open>The life of the server\<close>

definition lwpb_transport_socket_server_init ::
    "'s lwpb_transport_socket_server \<Rightarrow> 's lwpb_transport_socket_server" where
  "lwpb_transport_socket_server_init ss =
     (lwpb_transport_init ss Socket_server_funs)\<lparr>ss_server := None, ss_socket := - 1, ss_num_conns := 0,
        ss_conns := map (\<lambda>i. (ss_conns ss ! i)\<lparr>conn_index := i, conn_socket := - 1, conn_buf := None\<rparr>)
          [0..<LWPB_TRANSPORT_SOCKET_SERVER_CONNS]\<rparr>"

text \<open>
  The calls are getaddrinfo, socket, setsockopt, fcntl twice, bind and listen. When getaddrinfo fails, the
  pointer that is given to freeaddrinfo was never assigned.
\<close>

definition lwpb_transport_socket_server_open ::
    "'s lwpb_transport_socket_server \<Rightarrow> 's world \<Rightarrow> (lwpb_err_t \<times> 's lwpb_transport_socket_server \<times> 's world) run" where
  "lwpb_transport_socket_server_open ss w =
     (if ss_socket ss \<noteq> - 1 then Inr (LWPB_ERR_OK, ss, w)
      else let (status, w) = sys_int w in
        if status \<noteq> 0 then Inl Undef
        else let (socket, w) = sys_int w; ss = ss\<lparr>ss_socket := socket\<rparr> in
          if socket = - 1 then Inr (LWPB_ERR_NET_INIT, ss, w)
          else let (ret, w) = sys_int w in
            if ret = - 1 then Inr (LWPB_ERR_NET_INIT, ss, w)
            else andthen (make_nonblock w) (\<lambda>w.
              let (ret, w) = sys_int w in
              if ret = - 1 then Inr (LWPB_ERR_NET_INIT, ss, w)
              else let (ret, w) = sys_int w in
                if ret = - 1 then Inr (LWPB_ERR_NET_INIT, ss, sys_close socket w)
                else Inr (LWPB_ERR_OK, ss, w)))"

fun close_connections ::
    "nat list \<Rightarrow> 's lwpb_transport_socket_server \<Rightarrow> 's world \<Rightarrow> 's lwpb_transport_socket_server \<times> 's world" where
  "close_connections [] ss w = (ss, w)"
| "close_connections (i # is) ss w =
     (let (ss, w) = if conn_socket (ss_conns ss ! i) \<noteq> - 1 then close_connection ss i w else (ss, w)
      in close_connections is ss w)"

text \<open>The last statement of the source compares the socket with -1 instead of assigning it.\<close>

definition lwpb_transport_socket_server_close ::
    "'s lwpb_transport_socket_server \<Rightarrow> 's world \<Rightarrow> 's lwpb_transport_socket_server \<times> 's world" where
  "lwpb_transport_socket_server_close ss w =
     (if ss_socket ss = - 1 then (ss, w)
      else let (ss, w) = close_connections [0..<LWPB_TRANSPORT_SOCKET_SERVER_CONNS] ss w in (ss, sys_close (ss_socket ss) w))"

text \<open>The set of descriptors, and the highest one as the loop computes it.\<close>

definition active_sockets :: "'s lwpb_transport_socket_server \<Rightarrow> int list" where
  "active_sockets ss = ss_socket ss # filter (\<lambda>fd. fd \<noteq> - 1) (map conn_socket (ss_conns ss))"

definition high_socket :: "'s lwpb_transport_socket_server \<Rightarrow> int" where
  "high_socket ss = last (active_sockets ss)"

fun handle_connections ::
    "services \<Rightarrow> 's lwpb_server list \<Rightarrow> int list \<Rightarrow> nat list \<Rightarrow> 's lwpb_transport_socket_server \<Rightarrow> 's world \<Rightarrow>
     ('s lwpb_transport_socket_server \<times> 's world) run" where
  "handle_connections svs servers ready [] ss w = Inr (ss, w)"
| "handle_connections svs servers ready (i # is) ss w =
     andthen (let fd = conn_socket (ss_conns ss ! i) in
       if fd \<noteq> - 1 \<and> fd \<in> set ready then handle_connection svs servers ss i w else Inr (ss, w)) (\<lambda>(ss, w).
       handle_connections svs servers ready is ss w)"

text \<open>Without a listening socket the function returns no value, which is None here.\<close>

definition lwpb_transport_socket_server_update ::
    "services \<Rightarrow> 's lwpb_server list \<Rightarrow> 's lwpb_transport_socket_server \<Rightarrow> 's world \<Rightarrow>
     (lwpb_err_t option \<times> 's lwpb_transport_socket_server \<times> 's world) run" where
  "lwpb_transport_socket_server_update svs servers ss w =
     (if ss_socket ss = - 1 then Inr (None, ss, w)
      else let (ready, w) = sys_select (high_socket ss + 1) (active_sockets ss) w in case ready of
          None \<Rightarrow> Inl Abort
        | Some ready \<Rightarrow>
            if ready = [] then Inr (Some LWPB_ERR_OK, ss, w)
            else andthen (if ss_socket ss \<in> set ready then handle_new_connection ss w else Inr (ss, w)) (\<lambda>(ss, w).
              andthen (handle_connections svs servers ready [0..<LWPB_TRANSPORT_SOCKET_SERVER_CONNS] ss w) (\<lambda>(ss, w).
                Inr (Some LWPB_ERR_OK, ss, w))))"

end
