(* ===== verification/Socket_Server_Inv.thy ===== *)
theory Socket_Server_Inv
  imports Socket_Server
begin

text \<open>
  The invariant of the socket server and its preservation by every operation: the connection counter is
  right, and the position of every open connection lies in its receive buffer.
\<close>

section \<open>The invariant\<close>

definition conn_open :: "lwpb_socket_server_conn \<Rightarrow> bool" where
  "conn_open conn \<longleftrightarrow> conn_socket conn \<noteq> - 1"

definition conn_ok :: "lwpb_socket_server_conn \<Rightarrow> bool" where
  "conn_ok conn \<longleftrightarrow> (conn_open conn \<longrightarrow> (case conn_buf conn of
       None \<Rightarrow> conn_pos conn = None
     | Some b \<Rightarrow> (\<exists>p. conn_pos conn = Some p \<and> b \<le> p \<and> p \<le> b + unat (conn_len conn))))"

definition ss_inv :: "'s lwpb_transport_socket_server \<Rightarrow> bool" where
  "ss_inv ss \<longleftrightarrow> transport_funs ss = Socket_server_funs \<and>
     map conn_index (ss_conns ss) = [0..<LWPB_TRANSPORT_SOCKET_SERVER_CONNS] \<and>
     ss_num_conns ss = int (length (filter conn_open (ss_conns ss))) \<and> list_all conn_ok (ss_conns ss)"

lemma ss_inv_length: "ss_inv ss \<Longrightarrow> length (ss_conns ss) = LWPB_TRANSPORT_SOCKET_SERVER_CONNS"
  by (metis ss_inv_def length_map length_upt minus_nat.diff_0)

lemma count_update:
  "i < length xs \<Longrightarrow> int (length (filter P (xs[i := y]))) =
     int (length (filter P xs)) - of_bool (P (xs ! i)) + of_bool (P y)"
proof (induction xs arbitrary: i)
  case Nil
  then show ?case by simp
next
  case (Cons x xs)
  then show ?case by (cases i) auto
qed

text \<open>Replacing a connection by one with the same index.\<close>

lemma ss_inv_update:
  assumes "ss_inv ss" and "i < length (ss_conns ss)" and "conn_index conn = conn_index (ss_conns ss ! i)" and "conn_ok conn"
    and "transport_funs ss' = transport_funs ss" and "ss_conns ss' = (ss_conns ss)[i := conn]"
    and "ss_num_conns ss' = ss_num_conns ss - of_bool (conn_open (ss_conns ss ! i)) + of_bool (conn_open conn)"
  shows "ss_inv ss'"
proof -
  have "map conn_index ((ss_conns ss)[i := conn]) = map conn_index (ss_conns ss)"
    using assms(2,3) by (simp add: map_update) (metis list_update_id nth_map)
  with assms show ?thesis
    by (auto simp: ss_inv_def count_update intro: list_all_update)
qed

lemma free_conn_Some: "free_conn k conns = Some i \<Longrightarrow> k \<le> i \<and> i < k + length conns \<and> conn_socket (conns ! (i - k)) = - 1"
proof (induction k conns rule: free_conn.induct)
  case (1 k)
  then show ?case by simp
next
  case (2 k conn conns)
  then show ?case by (auto split: if_splits simp: nth_Cons')
qed

section \<open>Every operation keeps it\<close>

lemma init_inv: "ss_inv (lwpb_transport_socket_server_init ss)"
  by (simp add: ss_inv_def lwpb_transport_socket_server_init_def lwpb_transport_init_def comp_def conn_open_def
      conn_ok_def list_all_iff)

lemma new_connection_inv:
  assumes inv: "ss_inv ss" and run: "handle_new_connection ss w = Inr (ss', w')"
  shows "ss_inv ss'"
proof -
  obtain socket w1 where acc: "sys_int w = (socket, w1)"
    by (cases "sys_int w")
  show ?thesis
  proof (cases "socket < 0 \<or> free_conn 0 (ss_conns ss) = None")
    case True
    with acc inv run show ?thesis
      by (auto simp: handle_new_connection_def andthen_eq_Inr split: if_splits)
  next
    case False
    then obtain i where i: "free_conn 0 (ss_conns ss) = Some i" and s: "0 \<le> socket"
      by auto
    note slot = free_conn_Some [OF i, simplified]
    obtain w2 where "make_nonblock w1 = Inr w2"
      using run acc s by (auto simp: handle_new_connection_def andthen_eq_Inr)
    with run acc s i obtain conn w3 where conn: "(if conn_buf (ss_conns ss ! i) = None
        then andthen (lwpb_transport_alloc_buf ss w2) (\<lambda>(_, buf, len, w).
          Inr ((ss_conns ss ! i)\<lparr>conn_socket := socket, conn_buf := buf, conn_len := len\<rparr>, w))
        else Inr ((ss_conns ss ! i)\<lparr>conn_socket := socket\<rparr>, w2)) = Inr (conn, w3)"
      and ss': "ss' = ss\<lparr>ss_conns := (ss_conns ss)[i := conn\<lparr>conn_pos := conn_buf conn\<rparr>], ss_num_conns := ss_num_conns ss + 1\<rparr>"
      by (auto simp: handle_new_connection_def Let_def andthen_eq_Inr simp del: split_paired_Ex split: if_split_asm)
    have idx: "conn_index conn = conn_index (ss_conns ss ! i)" "conn_socket conn = socket"
      using conn by (auto simp: andthen_eq_Inr split: if_splits)
    show ?thesis
      by (rule ss_inv_update [OF inv conjunct1 [OF slot], where conn = "conn\<lparr>conn_pos := conn_buf conn\<rparr>"])
        (use slot idx s in \<open>auto simp: ss' conn_open_def conn_ok_def split: option.split\<close>)
  qed
qed

lemma close_connection_inv:
  assumes "ss_inv ss" and "i < length (ss_conns ss)" and "conn_open (ss_conns ss ! i)"
  shows "ss_inv (fst (close_connection ss i w))"
  by (rule ss_inv_update [OF assms(1,2), where conn = "(ss_conns ss ! i)\<lparr>conn_socket := - 1\<rparr>"])
    (use assms(3) in \<open>simp_all add: close_connection_def conn_ok_def conn_open_def\<close>)

lemma handle_connection_inv:
  assumes inv: "ss_inv ss" and i: "i < length (ss_conns ss)" and "conn_open (ss_conns ss ! i)"
    and run: "handle_connection svs servers ss i w = Inr (ss', w')"
  shows "ss_inv ss'"
proof -
  let ?conn = "ss_conns ss ! i"
  obtain len w1 where recv: "sys_recv (conn_pos ?conn) (conn_len ?conn - ptr_diff (conn_pos ?conn) (conn_buf ?conn)) w = (len, w1)"
    by force
  show ?thesis
  proof (cases "len \<le> 0")
    case True
    with run recv have "ss' = fst (close_connection ss i w1)"
      by (simp add: handle_connection_def Let_def)
    with close_connection_inv [OF inv i assms(3)] show ?thesis
      by simp
  next
    case False
    let ?new = "?conn\<lparr>conn_pos := ptr_add (conn_pos ?conn) (nat len)\<rparr>"
    have ss': "ss' = ss\<lparr>ss_conns := (ss_conns ss)[i := ?new]\<rparr>"
      using run recv False by (auto simp: handle_connection_def Let_def andthen_eq_Inr split: if_splits)
    have ok: "conn_ok ?conn"
      using inv i by (simp add: ss_inv_def list_all_length)
    have "conn_ok ?new"
    proof (cases "conn_buf ?conn")
      case None
      with ok assms(3) show ?thesis by (simp add: conn_ok_def conn_open_def ptr_add_def)
    next
      case (Some b)
      with ok assms(3) obtain p where p: "conn_pos ?conn = Some p" "b \<le> p" "p \<le> b + unat (conn_len ?conn)"
        by (auto simp: conn_ok_def)
      with sys_recv_bound [OF recv] Some False
      have "nat len \<le> unat (conn_len ?conn) - (p - b)"
        using ptr_diff_in(2) [OF p(2,3)] by (simp add: nat_le_iff)
      with p Some show ?thesis by (auto simp: conn_ok_def ptr_add_def)
    qed
    then show ?thesis
      by (intro ss_inv_update [OF inv i, where conn = ?new]) (simp_all add: ss' conn_open_def)
  qed
qed

lemma close_connections_inv:
  "ss_inv ss \<Longrightarrow> list_all (\<lambda>i. i < LWPB_TRANSPORT_SOCKET_SERVER_CONNS) is \<Longrightarrow> ss_inv (fst (close_connections is ss w))"
proof (induction "is" ss w rule: close_connections.induct)
  case (1 ss w)
  then show ?case by simp
next
  case (2 i "is" ss w)
  show ?case
  proof (cases "conn_socket (ss_conns ss ! i) = - 1")
    case True
    with 2 show ?thesis by simp
  next
    case False
    obtain ss1 w1 where c: "close_connection ss i w = (ss1, w1)"
      by force
    have "ss_inv ss1"
      using close_connection_inv [of ss i w] "2.prems" ss_inv_length [OF "2.prems"(1)] False c
      by (simp add: conn_open_def)
    with 2 False c show ?thesis by simp
  qed
qed

lemma handle_connections_inv:
  "ss_inv ss \<Longrightarrow> list_all (\<lambda>i. i < LWPB_TRANSPORT_SOCKET_SERVER_CONNS) is \<Longrightarrow>
    handle_connections svs servers ready is ss w = Inr (ss', w') \<Longrightarrow> ss_inv ss'"
proof (induction "is" arbitrary: ss w)
  case Nil
  then show ?case by simp
next
  case (Cons i "is")
  from Cons.prems(3) obtain ss1 w1 where
    one: "(let fd = conn_socket (ss_conns ss ! i) in
      if fd \<noteq> - 1 \<and> fd \<in> set ready then handle_connection svs servers ss i w else Inr (ss, w)) = Inr (ss1, w1)"
    and rest: "handle_connections svs servers ready is ss1 w1 = Inr (ss', w')"
    by (auto simp: andthen_eq_Inr)
  have "ss_inv ss1"
    using one Cons.prems(1,2) handle_connection_inv [OF Cons.prems(1), of i svs servers w ss1 w1] ss_inv_length [OF Cons.prems(1)]
    by (auto simp: Let_def conn_open_def split: if_splits)
  with Cons.IH [OF _ _ rest] Cons.prems(2) show ?case by simp
qed

lemma open_inv:
  "ss_inv ss \<Longrightarrow> lwpb_transport_socket_server_open ss w = Inr (ret, ss', w') \<Longrightarrow> ss_inv ss'"
proof -
  assume inv: "ss_inv ss" and run: "lwpb_transport_socket_server_open ss w = Inr (ret, ss', w')"
  have "ss' = ss \<or> (\<exists>s. ss' = ss\<lparr>ss_socket := s\<rparr>)"
    using run by (auto simp: lwpb_transport_socket_server_open_def Let_def case_prod_beta andthen_eq_Inr split: if_splits)
  with inv show ?thesis
    by (auto simp: ss_inv_def)
qed

lemma close_inv: "ss_inv ss \<Longrightarrow> ss_inv (fst (lwpb_transport_socket_server_close ss w))"
  using close_connections_inv [of ss "[0..<LWPB_TRANSPORT_SOCKET_SERVER_CONNS]" w]
  by (auto simp: lwpb_transport_socket_server_close_def list_all_iff split: prod.split)

lemma update_inv:
  assumes "ss_inv ss" and "lwpb_transport_socket_server_update svs servers ss w = Inr (ret, ss', w')"
  shows "ss_inv ss'"
proof -
  have rest: "ss_inv s1 \<Longrightarrow> handle_connections svs servers ready [0..<LWPB_TRANSPORT_SOCKET_SERVER_CONNS] s1 w1 = Inr (s2, w2) \<Longrightarrow> ss_inv s2"
    for ready s1 w1 s2 w2
    by (rule handle_connections_inv) (simp_all add: list_all_iff)
  obtain ready w1 where sel: "sys_select (high_socket ss + 1) (active_sockets ss) w = (ready, w1)"
    by force
  have "ss' = ss \<or> (\<exists>r s1 w2. (s1 = ss \<or> handle_new_connection ss w1 = Inr (s1, w2)) \<and>
      handle_connections svs servers r [0..<LWPB_TRANSPORT_SOCKET_SERVER_CONNS] s1 w2 = Inr (ss', w'))"
    using assms(2) sel
    by (auto simp: lwpb_transport_socket_server_update_def andthen_eq_Inr split: if_splits option.splits)
  with assms(1) new_connection_inv [OF assms(1)] rest show ?thesis
    by blast
qed

section \<open>The server in its process\<close>

text \<open>
  The steps of a process with socket servers: what clients and servers do, the life of the servers, and
  anything that happens to the world in between, the answers of the kernel among it.
\<close>

definition set_socket_server ::
    "transport_ref \<Rightarrow> 's lwpb_transport_socket_server \<Rightarrow> 's world \<Rightarrow> 's socket_server_rpc \<Rightarrow> 's socket_server_rpc" where
  "set_socket_server t ss w st = st\<lparr>rpc_transports := (rpc_transports st)[t := ss], rpc_world := w\<rparr>"

inductive socket_server_step :: "services \<Rightarrow> 's socket_server_rpc \<Rightarrow> 's socket_server_rpc \<Rightarrow> bool" for svs where
  server_rpc: "rpc_step (socket_server_tables svs) st st' \<Longrightarrow> socket_server_step svs st st'"
| server_world: "socket_server_step svs st (st\<lparr>rpc_world := w\<rparr>)"
| server_open: "t < length (rpc_transports st) \<Longrightarrow>
    lwpb_transport_socket_server_open (rpc_transports st ! t) (rpc_world st) = Inr (ret, ss, w) \<Longrightarrow>
    socket_server_step svs st (set_socket_server t ss w st)"
| server_close: "t < length (rpc_transports st) \<Longrightarrow>
    lwpb_transport_socket_server_close (rpc_transports st ! t) (rpc_world st) = (ss, w) \<Longrightarrow>
    socket_server_step svs st (set_socket_server t ss w st)"
| server_update: "t < length (rpc_transports st) \<Longrightarrow>
    lwpb_transport_socket_server_update svs (rpc_servers st) (rpc_transports st ! t) (rpc_world st) = Inr (r, ss, w) \<Longrightarrow>
    socket_server_step svs st (set_socket_server t ss w st)"

interpretation socket_server: transport "socket_server_tables svs" "socket_server_funs svs" ss_inv
proof unfold_locales
  show "ss_inv tr \<Longrightarrow> socket_server_tables svs (transport_funs tr) = socket_server_funs svs"
    for tr :: "'s lwpb_transport_socket_server"
    by (simp add: ss_inv_def)
qed (auto simp: socket_server_funs_def socket_server_register_client_def socket_server_transport_call_def
    socket_server_transport_cancel_def socket_server_register_server_def andthen_eq_Inr lwpb_assert_eq_Inr ss_inv_def
    intro: touches_transport touches_world touches_refl)

lemma set_socket_server_inv: "rpc_inv ss_inv st \<Longrightarrow> ss_inv ss \<Longrightarrow> rpc_inv ss_inv (set_socket_server t ss w st)"
  by (simp add: rpc_inv_def rpc_ok_def set_socket_server_def list_all_update)

lemma rpc_inv_nth: "rpc_inv tinv st \<Longrightarrow> t < length (rpc_transports st) \<Longrightarrow> tinv (rpc_transports st ! t)"
  by (simp add: rpc_inv_def list_all_length)

lemma socket_server_step_inv: "socket_server_step svs st st' \<Longrightarrow> rpc_inv ss_inv st \<Longrightarrow> rpc_inv ss_inv st'"
proof (induction rule: socket_server_step.induct)
  case (server_rpc st st')
  then show ?case by (rule socket_server.step_inv)
next
  case (server_world st w)
  then show ?case by (simp add: rpc_inv_def rpc_ok_def)
next
  case (server_open t st ret ss w)
  then have "ss_inv ss"
    by (intro open_inv [OF rpc_inv_nth]) simp_all
  with server_open.prems show ?case by (rule set_socket_server_inv)
next
  case (server_close t st ss w)
  then have "ss_inv ss"
    using close_inv [OF rpc_inv_nth [OF server_close.prems server_close.hyps(1)], of "rpc_world st"] by simp
  with server_close.prems show ?case by (rule set_socket_server_inv)
next
  case (server_update t st r ss w)
  then have "ss_inv ss"
    by (intro update_inv [OF rpc_inv_nth]) simp_all
  with server_update.prems show ?case by (rule set_socket_server_inv)
qed

lemma socket_server_steps_inv:
  "(socket_server_step svs)\<^sup>*\<^sup>* st st' \<Longrightarrow> rpc_inv ss_inv st \<Longrightarrow> rpc_inv ss_inv st'"
  by (induction rule: rtranclp_induct) (auto intro: socket_server_step_inv)

text \<open>
  C14: The connections of a socket server are counted right, in every state that a process can reach from
  one whose transports were just initialised: by registering and calling, opening, closing and updating
  servers, with every behaviour of the kernel and of the handlers. The counter is the number of open
  connections, at most four, and the receive position of an open connection lies in its buffer, so that
  the next recv is given exactly the room that is left.
\<close>

theorem server_connections_counted:
  assumes "(socket_server_step svs)\<^sup>*\<^sup>* st st'" and "rpc_ok st"
    and "\<And>ss. ss \<in> set (rpc_transports st) \<Longrightarrow> \<exists>ss0. ss = lwpb_transport_socket_server_init ss0"
    and "ss \<in> set (rpc_transports st')"
  shows "ss_num_conns ss = int (length (filter conn_open (ss_conns ss))) \<and> ss_num_conns ss \<le> 4 \<and>
    (\<forall>conn \<in> set (ss_conns ss). \<forall>b. conn_open conn \<and> conn_buf conn = Some b \<longrightarrow>
      (\<exists>p. conn_pos conn = Some p \<and> b \<le> p \<and>
        p + unat (conn_len conn - ptr_diff (conn_pos conn) (conn_buf conn)) = b + unat (conn_len conn)))"
proof -
  have "rpc_inv ss_inv st"
    using assms(2,3) init_inv by (force simp: rpc_inv_def list_all_iff)
  with socket_server_steps_inv [OF assms(1)] assms(4) have inv: "ss_inv ss"
    by (auto simp: rpc_inv_def list_all_iff)
  have num: "ss_num_conns ss = int (length (filter conn_open (ss_conns ss)))" and ok: "list_all conn_ok (ss_conns ss)"
    using inv by (simp_all add: ss_inv_def)
  moreover have "length (filter conn_open (ss_conns ss)) \<le> 4"
    using length_filter_le [of conn_open "ss_conns ss"] ss_inv_length [OF inv]
    by (simp add: LWPB_TRANSPORT_SOCKET_SERVER_CONNS_def)
  moreover have "\<exists>p. conn_pos conn = Some p \<and> b \<le> p \<and>
        p + unat (conn_len conn - ptr_diff (conn_pos conn) (conn_buf conn)) = b + unat (conn_len conn)"
    if conn: "conn \<in> set (ss_conns ss)" "conn_open conn" "conn_buf conn = Some b" for conn b
  proof -
    obtain p where p: "conn_pos conn = Some p" "b \<le> p" "p \<le> b + unat (conn_len conn)"
      using bspec [OF ok [unfolded list_all_iff] conn(1)] conn(2,3) by (auto simp: conn_ok_def)
    with ptr_diff_in(2) [OF p(2,3)] conn(3) show ?thesis
      by (intro exI [of _ p]) simp
  qed
  ultimately show ?thesis
    by auto
qed

end
