(* ===== verification/Socket_Server_Serve.thy ===== *)
theory Socket_Server_Serve
  imports Socket_Server_Inv
begin

text \<open>
  How the socket server serves requests: a complete request is answered, and what goes wrong afterwards
  and on requests that it does not know.
\<close>

section \<open>Receiving\<close>

text \<open>A connection whose buffer has room for the data that arrive next.\<close>

definition room_for :: "lwpb_socket_server_conn \<Rightarrow> addr \<Rightarrow> addr \<Rightarrow> u8 list \<Rightarrow> mem \<Rightarrow> bool" where
  "room_for conn b p bs m \<longleftrightarrow> conn_buf conn = Some b \<and> conn_pos conn = Some p \<and> b \<le> p \<and>
     p + length bs \<le> b + unat (conn_len conn) \<and> b + unat (conn_len conn) \<le> length m \<and> bs \<noteq> []"

lemma handle_received:
  assumes room: "room_for conn b p bs (w_mem w)" and ans: "w_answers w = Data_answer bs # as"
    and conn: "i < length (ss_conns ss)" "conn = ss_conns ss ! i" and sv: "deref servers (ss_server ss) = Inr sv"
  shows "handle_connection svs servers ss i w =
    (let w1 = after_recv bs p as w; conn' = conn\<lparr>conn_pos := Some (p + length bs)\<rparr>;
         ss' = ss\<lparr>ss_conns := (ss_conns ss)[i := conn']\<rparr> in
     andthen (parse_request svs w1 (Some b) (of_nat (p + length bs - b)) blank_info (srv_service_list sv)) (\<lambda>(ret, info).
       if ret \<noteq> PARSE_ERR_OK then Inr (ss', w1)
       else andthen (serve_request svs ss' sv conn' info w1) (\<lambda>w. Inr (ss', w))))"
proof -
  have buf: "conn_buf conn = Some b" "conn_pos conn = Some p" and "bs \<noteq> []" and at: "room_at b p (conn_len conn) bs (w_mem w)"
    using room by (auto simp: room_for_def room_at_def)
  then show ?thesis
    using recv_room_at [OF at ans] conn sv by (simp add: handle_connection_def Let_def ptr_add_def)
qed

section \<open>Serving\<close>

text \<open>
  A request for a method of the services of the server: the buffer of a connection starts with its packet,
  \<open>n\<close> bytes of the buffer have been received, and the names in memory are those that \<open>sn\<close> and \<open>mn\<close> give.
\<close>

definition request_in ::
    "services \<Rightarrow> 's lwpb_server \<Rightarrow> (service_ref \<Rightarrow> u8 list) \<Rightarrow> (method_ref \<Rightarrow> u8 list) \<Rightarrow> addr \<Rightarrow> nat \<Rightarrow>
     u8 list \<Rightarrow> u8 list \<Rightarrow> u8 list \<Rightarrow> 's world \<Rightarrow> bool" where
  "request_in svs sv sn mn b n service method body w \<longleftrightarrow>
     (let pk = packet (request_header service method) body in
      peek (w_mem w) b (length pk) = pk \<and> length pk \<le> n \<and> n < 2 ^ 32 \<and> b + n \<le> length (w_mem w) \<and>
      length (w_mem w) < 2 ^ 63 \<and> length (any_frames (w_any w)) = LWPB_MAX_DEPTH \<and>
      (\<forall>ss. srv_service_list sv = Some ss \<longrightarrow> names_are svs (w_mem w) sn mn ss))"

definition requested_method ::
    "services \<Rightarrow> 's lwpb_server \<Rightarrow> (service_ref \<Rightarrow> u8 list) \<Rightarrow> (method_ref \<Rightarrow> u8 list) \<Rightarrow> u8 list \<Rightarrow> u8 list \<Rightarrow>
     method_ref option" where
  "requested_method svs sv sn mn service method =
     named_method svs mn (named_service sn (srv_service_list sv) service) method"

lemma parse_request_in:
  assumes "request_in svs sv sn mn b n service method body w"
  shows "parse_request svs w (Some b) (of_nat n) info (srv_service_list sv) =
    Inr (PARSE_ERR_OK, request_info svs sn mn (srv_service_list sv) service method body)"
proof -
  let ?pk = "packet (request_header service method) body"
  have pk: "peek (w_mem w) b (length ?pk) = ?pk" and n: "length ?pk \<le> n" "n < 2 ^ 32" "b + n \<le> length (w_mem w)"
    and mem: "length (w_mem w) < 2 ^ 63" "length (any_frames (w_any w)) = LWPB_MAX_DEPTH"
    and names: "\<And>ss. srv_service_list sv = Some ss \<Longrightarrow> names_are svs (w_mem w) sn mn ss"
    using assms by (auto simp: request_in_def Let_def)
  have "unat (of_nat n :: u64) = n"
    using n(2) by (simp add: unat_of_nat)
  then show ?thesis
    using n mem(1) packet_length [of "request_header service method" body]
    by (intro parse_request_packet [OF mem(2) pk _ _ _ _ mem(1) names]) simp_all
qed

lemma request_info_sel:
  assumes "request_in svs sv sn mn b n service method body w"
  shows "hi_method_desc (request_info svs sn mn (srv_service_list sv) service method body) =
      requested_method svs sv sn mn service method"
    and "unat (hi_header_len (request_info svs sn mn (srv_service_list sv) service method body)) =
      12 + length (header_bytes (request_header service method))"
    and "hi_msg_len (request_info svs sn mn (srv_service_list sv) service method body) = of_nat (length body)"
proof -
  have "12 + length (header_bytes (request_header service method)) < 2 ^ 64"
    using assms by (simp add: request_in_def Let_def packet_length)
  then have "unat (of_nat (12 + length (header_bytes (request_header service method))) :: u64) =
      12 + length (header_bytes (request_header service method))"
    by (subst unat_of_nat) simp
  then show "unat (hi_header_len (request_info svs sn mn (srv_service_list sv) service method body)) =
      12 + length (header_bytes (request_header service method))"
    unfolding request_info_def parse_info_def by (simp del: of_nat_add)
qed (simp_all add: request_info_def parse_info_def requested_method_def)

text \<open>
  The world in which the call handler runs, and what the handler must do for its response to be sent: it
  returns, keeps the response buffer, and says how many bytes of it are the response.
\<close>

definition handler_answers ::
    "'s call_handler \<Rightarrow> server_ref \<Rightarrow> method_ref \<Rightarrow> lwpb_method_desc \<Rightarrow> addr \<Rightarrow> u8 list \<Rightarrow> addr \<Rightarrow> void_ptr \<Rightarrow>
     's world \<Rightarrow> u64 \<Rightarrow> 's world \<Rightarrow> bool" where
  "handler_answers h s md mtd req body res arg w n w' \<longleftrightarrow>
     (\<exists>ret. h s md (mtd_req_desc mtd) (Some req) (of_nat (length body)) (mtd_res_desc mtd) (Some res) 1024 arg w =
        Inr (ret, n, w')) \<and>
     res \<in> live_blocks w' \<and> res + unat n \<le> length (w_mem w') \<and> unat n < 2 ^ 32 \<and>
     length (w_mem w') + 128 < 2 ^ 63 \<and> length (enc_stack (any_encoder (w_any w'))) = LWPB_MAX_DEPTH"

lemma serve_known:
  assumes req: "request_in svs sv sn mn b k service method body w" "requested_method svs sv sn mn service method = Some md"
      "deref_method svs (Some md) = Inr mtd"
    and ss: "allocator_funs ss = default_allocator_funs" "conn_buf conn = Some b"
    and sv: "srv_call_handler sv = Some h" "c_malloc 1024 w = (Some a, w1)"
    and ans: "handler_answers h (the (ss_server ss)) md mtd (b + 12 + length (header_bytes (request_header service method))) body a
      (srv_arg sv) w1 n w2"
  shows "\<exists>w3. serve_request svs ss sv conn (request_info svs sn mn (srv_service_list sv) service method body) w = Inr w3 \<and>
    w_log w3 = w_log w2 @ packet_sends (conn_socket conn) response_header (peek (w_mem w2) a (unat n)) \<and>
    live_blocks w3 = live_blocks w2 - {a} \<and> w_mem w3 = w_mem w2"
proof -
  note info = request_info_sel [OF req(1)]
  obtain ret where call: "h (the (ss_server ss)) md (mtd_req_desc mtd)
      (Some (b + 12 + length (header_bytes (request_header service method)))) (of_nat (length body)) (mtd_res_desc mtd)
      (Some a) 1024 (srv_arg sv) w1 = Inr (ret, n, w2)"
    and live: "a \<in> live_blocks w2" and buf: "a + unat n \<le> length (w_mem w2)" "unat n < 2 ^ 32"
    and mem: "length (w_mem w2) + 128 < 2 ^ 63" and enc: "length (enc_stack (any_encoder (w_any w2))) = LWPB_MAX_DEPTH"
    using ans by (auto simp: handler_answers_def)
  let ?w = "w2\<lparr>w_log := w_log w2 @ packet_sends (conn_socket conn) response_header (peek (w_mem w2) a (unat n))\<rparr>"
  have "a \<in> live_blocks ?w"
    using live by (simp add: live_blocks_def)
  from free_live [OF this] obtain w3 where w3: "c_free (Some a) ?w = Inr w3" "live_blocks w3 = live_blocks ?w - {a}"
    by blast
  have "w_log w3 = w_log ?w" "w_mem w3 = w_mem ?w"
    using w3(1) by (auto simp: c_free_def split: if_splits)
  with w3 call send_response_sends [OF enc mem buf] show ?thesis
    by (simp add: serve_request_def lwpb_transport_alloc_buf_def lwpb_transport_free_buf_def ss default_allocator_funs_def
        default_alloc_buf_def default_free_buf_def sv info req(2,3) ptr_add_def live_blocks_def add.assoc)
qed

text \<open>A pass over the connections of which one is ready.\<close>

lemma handle_connections_none:
  "(\<And>j. j \<in> set is \<Longrightarrow> conn_socket (ss_conns ss ! j) \<notin> set ready) \<Longrightarrow> handle_connections svs servers ready is ss w = Inr (ss, w)"
  by (induction "is") (simp_all add: Let_def)

lemma handle_connections_one:
  assumes "set ready = {fd}" and "i \<in> set is" "distinct is" and "conn_socket (ss_conns ss ! i) = fd" "fd \<noteq> - 1"
    and "\<And>j. j \<in> set is \<Longrightarrow> j \<noteq> i \<Longrightarrow> conn_socket (ss_conns ss ! j) \<noteq> fd"
    and "handle_connection svs servers ss i w = Inr (ss\<lparr>ss_conns := (ss_conns ss)[i := conn]\<rparr>, w')"
  shows "handle_connections svs servers ready is ss w = Inr (ss\<lparr>ss_conns := (ss_conns ss)[i := conn]\<rparr>, w')"
  using assms
proof (induction "is")
  case Nil
  then show ?case by simp
next
  case (Cons j "is")
  show ?case
  proof (cases "j = i")
    case True
    have "conn_socket ((ss_conns ss)[i := conn] ! k) \<notin> set ready" if "k \<in> set is" for k
    proof -
      have "k \<noteq> i"
        using that Cons.prems(3) True by auto
      with that Cons.prems(1,6) show ?thesis by simp
    qed
    then have "handle_connections svs servers ready is (ss\<lparr>ss_conns := (ss_conns ss)[i := conn]\<rparr>) w' =
        Inr (ss\<lparr>ss_conns := (ss_conns ss)[i := conn]\<rparr>, w')"
      by (intro handle_connections_none) simp
    with True Cons.prems show ?thesis by (simp add: Let_def)
  next
    case False
    with Cons show ?thesis by (simp add: Let_def)
  qed
qed

lemma handle_connection_serves:
  assumes conn: "i < length (ss_conns ss)" "conn = ss_conns ss ! i" and funs: "allocator_funs ss = default_allocator_funs"
    and arrives: "w_answers w = Data_answer bs # as" "room_for conn b p bs (w_mem w)"
    and sv: "deref servers (ss_server ss) = Inr sv" "srv_call_handler sv = Some h"
    and req: "request_in svs sv sn mn b (p + length bs - b) service method body (after_recv bs p as w)"
    and md: "requested_method svs sv sn mn service method = Some md" "deref_method svs (Some md) = Inr mtd"
    and malloc: "c_malloc 1024 (after_recv bs p as w) = (Some a, w1)"
    and ans: "handler_answers h (the (ss_server ss)) md mtd (b + 12 + length (header_bytes (request_header service method)))
      body a (srv_arg sv) w1 n w2"
  shows "\<exists>w3. handle_connection svs servers ss i w =
      Inr (ss\<lparr>ss_conns := (ss_conns ss)[i := conn\<lparr>conn_pos := Some (p + length bs)\<rparr>]\<rparr>, w3) \<and>
    w_log w3 = w_log w2 @ packet_sends (conn_socket conn) response_header (peek (w_mem w2) a (unat n)) \<and>
    live_blocks w3 = live_blocks w2 - {a}"
proof -
  let ?conn = "conn\<lparr>conn_pos := Some (p + length bs)\<rparr>"
  let ?ss = "ss\<lparr>ss_conns := (ss_conns ss)[i := ?conn]\<rparr>"
  have "conn_buf ?conn = Some b"
    using arrives(2) by (simp add: room_for_def)
  with serve_known [OF req md _ _ sv(2) malloc, of ?ss ?conn n w2] funs ans obtain w3
    where serve: "serve_request svs ?ss sv ?conn (request_info svs sn mn (srv_service_list sv) service method body)
        (after_recv bs p as w) = Inr w3"
      and w3: "w_log w3 = w_log w2 @ packet_sends (conn_socket conn) response_header (peek (w_mem w2) a (unat n))"
        "live_blocks w3 = live_blocks w2 - {a}"
    by auto
  then show ?thesis
    by (simp add: handle_received [OF arrives(2,1) conn sv(1)] Let_def parse_request_in [OF req])
qed

text \<open>A server with an open connection that select looks at and that no other connection shares.\<close>

definition server_ready :: "'s lwpb_transport_socket_server \<Rightarrow> nat \<Rightarrow> lwpb_socket_server_conn \<Rightarrow> bool" where
  "server_ready ss i conn \<longleftrightarrow>
     ss_inv ss \<and> ss_socket ss \<noteq> - 1 \<and> allocator_funs ss = default_allocator_funs \<and>
     i < LWPB_TRANSPORT_SOCKET_SERVER_CONNS \<and> conn = ss_conns ss ! i \<and> conn_open conn \<and>
     conn_socket conn \<noteq> ss_socket ss \<and> conn_socket conn \<le> high_socket ss \<and>
     (\<forall>j < LWPB_TRANSPORT_SOCKET_SERVER_CONNS. j \<noteq> i \<longrightarrow> conn_socket (ss_conns ss ! j) \<noteq> conn_socket conn)"

lemma server_readyD:
  assumes "server_ready ss i conn"
  shows "i < length (ss_conns ss)" "conn = ss_conns ss ! i" "allocator_funs ss = default_allocator_funs"
  using assms ss_inv_length [of ss] by (simp_all add: server_ready_def)

lemma server_update_ready:
  assumes ready: "server_ready ss i conn" and ans: "w_answers w = Ready_answer [conn_socket conn] # as"
    and one: "handle_connection svs servers ss i (w\<lparr>w_answers := as\<rparr>) = Inr (ss\<lparr>ss_conns := (ss_conns ss)[i := conn']\<rparr>, w')"
  shows "lwpb_transport_socket_server_update svs servers ss w =
    Inr (Some LWPB_ERR_OK, ss\<lparr>ss_conns := (ss_conns ss)[i := conn']\<rparr>, w')"
proof -
  let ?fd = "conn_socket conn"
  have i: "i < LWPB_TRANSPORT_SOCKET_SERVER_CONNS" and conn: "conn = ss_conns ss ! i" "conn_open conn"
    and fds: "?fd \<noteq> ss_socket ss" "?fd \<le> high_socket ss" "ss_socket ss \<noteq> - 1"
    and alone: "\<And>j. j < LWPB_TRANSPORT_SOCKET_SERVER_CONNS \<Longrightarrow> j \<noteq> i \<Longrightarrow> conn_socket (ss_conns ss ! j) \<noteq> ?fd"
    using ready by (auto simp: server_ready_def)
  have "active_sockets ss \<noteq> []" "?fd \<in> set (active_sockets ss)"
    using conn server_readyD(1) [OF ready] by (auto simp: active_sockets_def conn_open_def)
  then obtain r where sel: "sys_select (high_socket ss + 1) (active_sockets ss) w = (Some r, w\<lparr>w_answers := as\<rparr>)"
    and r: "r \<noteq> []" "set r = {?fd}"
    using fds(2) ans by (auto simp: sys_select_def filter_empty_conv)
  have "handle_connections svs servers r [0..<LWPB_TRANSPORT_SOCKET_SERVER_CONNS] ss (w\<lparr>w_answers := as\<rparr>) =
      Inr (ss\<lparr>ss_conns := (ss_conns ss)[i := conn']\<rparr>, w')"
    by (rule handle_connections_one [OF r(2) _ _ _ _ _ one]) (use i conn alone in \<open>auto simp: conn_open_def\<close>)
  with fds sel r show ?thesis
    by (simp add: lwpb_transport_socket_server_update_def)
qed

lemma request_in_more:
  assumes "request_in svs sv sn mn b (p - b) service method body w" and "room_for conn b p bs (w_mem w)"
    and "p + length bs - b < 2 ^ 32"
    and "\<And>ss. srv_service_list sv = Some ss \<Longrightarrow> names_are svs (w_mem (after_recv bs p as w)) sn mn ss"
  shows "request_in svs sv sn mn b (p + length bs - b) service method body (after_recv bs p as w)"
proof -
  let ?pk = "packet (request_header service method) body"
  have pk: "peek (w_mem w) b (length ?pk) = ?pk" "b + length ?pk \<le> p" and fit: "b \<le> p" "p + length bs \<le> length (w_mem w)"
    using assms(1,2) by (auto simp: request_in_def Let_def room_for_def)
  have "peek (poke (w_mem w) p bs) b (length ?pk) = ?pk"
    using peek_poke_disjoint [OF fit(2), of b "length ?pk"] pk fit by simp
  with assms pk fit show ?thesis
    by (simp add: request_in_def Let_def after_recv_def)
qed

section \<open>Properties\<close>

text \<open>
  C12: A complete request is answered. When the data that complete a request for a known method arrive on
  an open connection, the next update of the server calls the call handler with the method, the message
  and a fresh response buffer, sends the response packet with the bytes that the handler produced over
  this connection and frees the response buffer. The request may have arrived in any number of pieces.
\<close>

theorem server_answers_request:
  assumes ready: "server_ready ss i conn"
    and arrives: "w_answers w = Ready_answer [conn_socket conn] # Data_answer bs # as" "room_for conn b p bs (w_mem w)"
    and sv: "deref servers (ss_server ss) = Inr sv" "srv_call_handler sv = Some h"
    and req: "request_in svs sv sn mn b (p + length bs - b) service method body (after_recv bs p as w)"
    and md: "requested_method svs sv sn mn service method = Some md" "deref_method svs (Some md) = Inr mtd"
    and malloc: "c_malloc 1024 (after_recv bs p as w) = (Some a, w1)"
    and ans: "handler_answers h (the (ss_server ss)) md mtd (b + 12 + length (header_bytes (request_header service method)))
      body a (srv_arg sv) w1 n w2"
  shows "\<exists>w3. lwpb_transport_socket_server_update svs servers ss w =
      Inr (Some LWPB_ERR_OK, ss\<lparr>ss_conns := (ss_conns ss)[i := conn\<lparr>conn_pos := Some (p + length bs)\<rparr>]\<rparr>, w3) \<and>
    w_log w3 = w_log w2 @ packet_sends (conn_socket conn) response_header (peek (w_mem w2) a (unat n)) \<and>
    live_blocks w3 = live_blocks w2 - {a}"
proof -
  have "w_answers (w\<lparr>w_answers := Data_answer bs # as\<rparr>) = Data_answer bs # as"
    by simp
  from handle_connection_serves [OF server_readyD [OF ready] this _ sv _ md _ ans] show ?thesis
    using server_update_ready [OF ready arrives(1)] arrives(2) req malloc by fastforce
qed

text \<open>
  C38: The server never forgets a request. The receive position is not reset once a request was served, so
  whatever data arrive next on the connection, the first byte of the next request for instance, make the
  server call the call handler for the first request once more and send a second response.
\<close>

theorem server_repeats_request:
  assumes "i < length (ss_conns ss)" and "conn = ss_conns ss ! i" and "allocator_funs ss = default_allocator_funs"
    and "w_answers w = Data_answer bs # as" and "room_for conn b p bs (w_mem w)"
    and "deref servers (ss_server ss) = Inr sv" and "srv_call_handler sv = Some h"
    and "request_in svs sv sn mn b (p - b) service method body w" and "p + length bs - b < 2 ^ 32"
    and "\<And>l. srv_service_list sv = Some l \<Longrightarrow> names_are svs (w_mem (after_recv bs p as w)) sn mn l"
    and "requested_method svs sv sn mn service method = Some md" and "deref_method svs (Some md) = Inr mtd"
    and "c_malloc 1024 (after_recv bs p as w) = (Some a, w1)"
    and "handler_answers h (the (ss_server ss)) md mtd (b + 12 + length (header_bytes (request_header service method)))
      body a (srv_arg sv) w1 n w2"
  shows "\<exists>ss' w3. handle_connection svs servers ss i w = Inr (ss', w3) \<and>
    w_log w3 = w_log w2 @ packet_sends (conn_socket conn) response_header (peek (w_mem w2) a (unat n))"
  using handle_connection_serves [OF assms(1-7) request_in_more [OF assms(8,5,9,10)] assms(11-14)] by blast

text \<open>
  C39: A request for a method or service that the server does not know crashes it. The unknown method is
  noticed, but left as a "TODO", and the NULL method descriptor is dereferenced.
\<close>

theorem server_crashes_on_unknown_method:
  assumes "i < length (ss_conns ss)" and "conn = ss_conns ss ! i" and "allocator_funs ss = default_allocator_funs"
    and "w_answers w = Data_answer bs # as" and "room_for conn b p bs (w_mem w)"
    and "deref servers (ss_server ss) = Inr sv" and "srv_call_handler sv \<noteq> None"
    and "request_in svs sv sn mn b (p + length bs - b) service method body (after_recv bs p as w)"
    and "requested_method svs sv sn mn service method = None"
  shows "handle_connection svs servers ss i w = Inl Fault"
proof -
  obtain h where "srv_call_handler sv = Some h"
    using assms(7) by blast
  then have "serve_request svs ss' sv conn' (request_info svs sn mn (srv_service_list sv) service method body) w' = Inl Fault"
    if "allocator_funs ss' = default_allocator_funs" for ss' :: "'a lwpb_transport_socket_server" and conn' w'
    using that request_info_sel(1) [OF assms(8)] assms(9)
    by (simp add: serve_request_def lwpb_transport_alloc_buf_def default_allocator_funs_def default_alloc_buf_def
        deref_method_def split: prod.split)
  with assms(3) show ?thesis
    by (simp add: handle_received [OF assms(5,4,1,2,6)] Let_def parse_request_in [OF assms(8)])
qed

lemma close_connections_frame:
  "ss_socket (fst (close_connections is ss w)) = ss_socket ss" "w_answers (snd (close_connections is ss w)) = w_answers w"
  by (induction "is" ss w rule: close_connections.induct) (auto simp: close_connection_def sys_close_def Let_def)

lemma close_result:
  assumes "ss_socket ss \<noteq> - 1"
  shows "ss_socket (fst (lwpb_transport_socket_server_close ss w)) = ss_socket ss"
    and "last (w_log (snd (lwpb_transport_socket_server_close ss w))) = Sys_close (ss_socket ss)"
proof -
  obtain ss1 w1 where "close_connections [0..<LWPB_TRANSPORT_SOCKET_SERVER_CONNS] ss w = (ss1, w1)"
    by force
  with assms close_connections_frame(1) [of "[0..<LWPB_TRANSPORT_SOCKET_SERVER_CONNS]" ss w]
  show "ss_socket (fst (lwpb_transport_socket_server_close ss w)) = ss_socket ss"
    and "last (w_log (snd (lwpb_transport_socket_server_close ss w))) = Sys_close (ss_socket ss)"
    by (simp_all add: lwpb_transport_socket_server_close_def sys_close_def)
qed

text \<open>
  Closing the server does not forget its socket: the last statement of the function compares the
  socket with -1 where it means to assign it. A server that was closed still has its descriptor, closes
  it a second time when it is closed again, and cannot be opened again: open reports success and makes no
  system call.
\<close>

theorem server_close_keeps_socket:
  assumes "ss_socket ss \<noteq> - 1" and "lwpb_transport_socket_server_close ss w = (ss', w')"
  shows "ss_socket ss' = ss_socket ss \<and> last (w_log w') = Sys_close (ss_socket ss) \<and>
    last (w_log (snd (lwpb_transport_socket_server_close ss' v))) = Sys_close (ss_socket ss) \<and>
    lwpb_transport_socket_server_open ss' v = Inr (LWPB_ERR_OK, ss', v)"
proof -
  have "ss_socket ss' = ss_socket ss" and "last (w_log w') = Sys_close (ss_socket ss)"
    using close_result [OF assms(1), of w] assms(2) by simp_all
  with close_result(2) [of ss' v] assms(1) show ?thesis
    by (simp add: lwpb_transport_socket_server_open_def)
qed

text \<open>
  A server whose last open connection has a smaller descriptor than its listening socket accepts no
  connections. The bound that is given to select is the descriptor of that connection instead of the
  highest one, so select does not look at the listening socket, and the update does nothing however many
  clients are waiting.
\<close>

theorem server_ignores_listening_socket:
  assumes "ss_socket ss \<noteq> - 1" and "high_socket ss < ss_socket ss" and "w_answers w = Ready_answer ready # as"
    and "\<And>conn. conn \<in> set (ss_conns ss) \<Longrightarrow> conn_socket conn \<notin> set ready"
  shows "lwpb_transport_socket_server_update svs servers ss w = Inr (Some LWPB_ERR_OK, ss, w\<lparr>w_answers := as\<rparr>)"
  using assms by (auto simp: lwpb_transport_socket_server_update_def sys_select_def active_sockets_def filter_empty_conv
      split: if_splits)

end
