(* ===== verification/Socket_Client.thy ===== *)
theory Socket_Client
  imports Direct Socket_Protocol
begin

text \<open>
  The socket client transport of src/src/lwpb/rpc/socket_client.c: one connection to a server, over which
  requests are sent and from which responses are read by calls of the update function.
\<close>

section \<open>State\<close>

record 's lwpb_transport_socket_client = "'s lwpb_transport" +
  sc_client :: "client_ref option"
  sc_socket :: int
  sc_buf :: void_ptr
  sc_pos :: void_ptr
  sc_len :: u64
  sc_last_method :: "method_ref option"

type_synonym 's socket_client_rpc = "('s, \<lparr>sc_client :: client_ref option, sc_socket :: int, sc_buf :: void_ptr,
  sc_pos :: void_ptr, sc_len :: u64, sc_last_method :: method_ref option\<rparr>) rpc"

section \<open>Receiving responses\<close>

definition client_make_nonblock :: "'s world \<Rightarrow> 's world run" where
  "client_make_nonblock w = (let (opts, w) = sys_int w in
     if opts < 0 then Inl Abort
     else let (ret, w) = sys_int w in if ret < 0 then Inl Abort else Inr w)"

text \<open>The done handler is not called, and the error code of the response handler is ignored.\<close>

definition handle_data ::
    "services \<Rightarrow> 's lwpb_client list \<Rightarrow> 's lwpb_transport_socket_client \<Rightarrow> 's world \<Rightarrow>
     ('s lwpb_transport_socket_client \<times> 's world) run" where
  "handle_data svs clients sc w =
     (let (len, w) = sys_recv (sc_pos sc) (sc_len sc - ptr_diff (sc_pos sc) (sc_buf sc)) w in
      if len \<le> 0 then Inl Abort
      else
        (let sc = sc\<lparr>sc_pos := ptr_add (sc_pos sc) (nat len)\<rparr> in
         andthen (parse_request svs w (sc_buf sc) (ptr_diff (sc_pos sc) (sc_buf sc)) blank_info None) (\<lambda>(ret, info).
           if ret \<noteq> PARSE_ERR_OK then Inr (sc, w)
           else andthen (deref clients (sc_client sc)) (\<lambda>cl.
             andthen (fun_ptr (cl_response_handler cl)) (\<lambda>response_handler.
             andthen (deref_method svs (sc_last_method sc)) (\<lambda>mtd.
             andthen (response_handler (the (sc_client sc)) (the (sc_last_method sc)) (mtd_res_desc mtd)
               (ptr_add (sc_buf sc) (unat (hi_header_len info))) (hi_msg_len info) (cl_arg cl) w) (\<lambda>(_, w).
               Inr (sc, w))))))))"

section \<open>The transport functions\<close>

definition socket_client_register_client ::
    "transport_ref \<Rightarrow> client_ref \<Rightarrow> 's socket_client_rpc \<Rightarrow> 's socket_client_rpc run" where
  "socket_client_register_client t c st = andthen (deref (rpc_transports st) (Some t)) (\<lambda>sc.
     andthen (lwpb_assert (sc_client sc = None)) (\<lambda>_.
       Inr (st\<lparr>rpc_transports := (rpc_transports st)[t := sc\<lparr>sc_client := Some c\<rparr>]\<rparr>)))"

text \<open>From the allocated request buffer to the label \<open>out\<close>.\<close>

definition encode_and_send ::
    "services \<Rightarrow> 's lwpb_transport_socket_client \<Rightarrow> client_ref \<Rightarrow> 's lwpb_client \<Rightarrow> method_ref \<Rightarrow> void_ptr \<Rightarrow> u64 \<Rightarrow>
     's world \<Rightarrow> (lwpb_err_t \<times> 's lwpb_transport_socket_client \<times> 's world) run" where
  "encode_and_send svs sc c cl md req_buf req_len w =
     andthen (fun_ptr (cl_request_handler cl)) (\<lambda>request_handler.
     andthen (deref_method svs (Some md)) (\<lambda>mtd.
     andthen (request_handler c md (mtd_req_desc mtd) req_buf req_len (cl_arg cl) w) (\<lambda>(ret, req_len, w).
       if ret \<noteq> LWPB_ERR_OK then Inr (ret, sc, w)
       else let sc = sc\<lparr>sc_last_method := Some md\<rparr> in
         andthen (send_request svs (sc_socket sc) (Some md) req_buf req_len w) (\<lambda>(_, w). Inr (ret, sc, w)))))"

definition client_call ::
    "services \<Rightarrow> 's lwpb_transport_socket_client \<Rightarrow> client_ref \<Rightarrow> 's lwpb_client \<Rightarrow> method_ref \<Rightarrow> 's world \<Rightarrow>
     (lwpb_err_t \<times> 's lwpb_transport_socket_client \<times> 's world) run" where
  "client_call svs sc c cl md w =
     (if sc_socket sc = - 1 then
        andthen (fun_ptr (cl_done_handler cl)) (\<lambda>done_handler.
        andthen (done_handler c md LWPB_RPC_NOT_CONNECTED (cl_arg cl) w) (\<lambda>w. Inr (LWPB_ERR_OK, sc, w)))
      else
        andthen (lwpb_transport_alloc_buf sc w) (\<lambda>(ret, req_buf, req_len, w).
        andthen (if ret \<noteq> LWPB_ERR_OK then Inr (ret, sc, w) else encode_and_send svs sc c cl md req_buf req_len w)
          (\<lambda>(ret, sc, w).
        andthen (if req_buf \<noteq> None then lwpb_transport_free_buf sc req_buf w else Inr w) (\<lambda>w. Inr (ret, sc, w)))))"

definition socket_client_transport_call ::
    "services \<Rightarrow> transport_ref \<Rightarrow> client_ref \<Rightarrow> method_ref \<Rightarrow> 's socket_client_rpc \<Rightarrow>
     (lwpb_err_t \<times> 's socket_client_rpc) run" where
  "socket_client_transport_call svs t c md st = andthen (deref (rpc_transports st) (Some t)) (\<lambda>sc.
     andthen (deref (rpc_clients st) (Some c)) (\<lambda>cl.
     andthen (client_call svs sc c cl md (rpc_world st)) (\<lambda>(ret, sc, w).
       Inr (ret, st\<lparr>rpc_transports := (rpc_transports st)[t := sc], rpc_world := w\<rparr>))))"

definition socket_client_transport_cancel :: "transport_ref \<Rightarrow> client_ref \<Rightarrow> ('s, 't) rpc \<Rightarrow> ('s, 't) rpc run" where
  "socket_client_transport_cancel t c st = Inr st"

definition socket_client_register_server ::
    "transport_ref \<Rightarrow> server_ref \<Rightarrow> 's socket_client_rpc \<Rightarrow> 's socket_client_rpc run" where
  "socket_client_register_server t s st = Inl Abort"

definition socket_client_funs :: "services \<Rightarrow> ('s, \<lparr>sc_client :: client_ref option, sc_socket :: int,
    sc_buf :: void_ptr, sc_pos :: void_ptr, sc_len :: u64, sc_last_method :: method_ref option\<rparr>) lwpb_transport_funs" where
  "socket_client_funs svs = \<lparr>register_client = socket_client_register_client, call = socket_client_transport_call svs,
     cancel = socket_client_transport_cancel, register_server = socket_client_register_server\<rparr>"

fun socket_client_tables :: "services \<Rightarrow> ('s, \<lparr>sc_client :: client_ref option, sc_socket :: int,
    sc_buf :: void_ptr, sc_pos :: void_ptr, sc_len :: u64, sc_last_method :: method_ref option\<rparr>) fun_tables" where
  "socket_client_tables svs Socket_client_funs = socket_client_funs svs"
| "socket_client_tables svs _ = wrong_funs"

section \<open>The life of the client\<close>

text \<open>The position, the length and the last method keep their values.\<close>

definition lwpb_transport_socket_client_init ::
    "'s lwpb_transport_socket_client \<Rightarrow> 's lwpb_transport_socket_client" where
  "lwpb_transport_socket_client_init sc =
     (lwpb_transport_init sc Socket_client_funs)\<lparr>sc_client := None, sc_socket := - 1, sc_buf := None\<rparr>"

text \<open>The calls are getaddrinfo, socket, setsockopt, connect, and fcntl twice.\<close>

definition lwpb_transport_socket_client_open ::
    "'s lwpb_transport_socket_client \<Rightarrow> 's world \<Rightarrow> (lwpb_err_t \<times> 's lwpb_transport_socket_client \<times> 's world) run" where
  "lwpb_transport_socket_client_open sc w =
     (if sc_socket sc \<noteq> - 1 then Inr (LWPB_ERR_OK, sc, w)
      else andthen (lwpb_transport_alloc_buf sc w) (\<lambda>(ret, buf, len, w).
        let sc = sc\<lparr>sc_buf := buf, sc_len := len\<rparr> in
        if ret \<noteq> LWPB_ERR_OK then Inr (ret, sc, w)
        else let sc = sc\<lparr>sc_pos := buf\<rparr>; (status, w) = sys_int w in
          if status \<noteq> 0 then Inl Undef
          else let (socket, w) = sys_int w; sc = sc\<lparr>sc_socket := socket\<rparr> in
            if socket = - 1 then Inr (LWPB_ERR_NET_INIT, sc, w)
            else let (ret, w) = sys_int w in
              if ret = - 1 then Inr (LWPB_ERR_NET_INIT, sc, w)
              else let (ret, w) = sys_int w in
                if ret = - 1 then Inr (LWPB_ERR_NET_INIT, sc, w)
                else andthen (client_make_nonblock w) (\<lambda>w. Inr (LWPB_ERR_OK, sc, w))))"

text \<open>The last statement of the source compares the socket with -1 instead of assigning it.\<close>

definition lwpb_transport_socket_client_close ::
    "'s lwpb_transport_socket_client \<Rightarrow> 's world \<Rightarrow> ('s lwpb_transport_socket_client \<times> 's world) run" where
  "lwpb_transport_socket_client_close sc w =
     (if sc_socket sc = - 1 then Inr (sc, w)
      else andthen (lwpb_transport_free_buf sc (sc_buf sc) w) (\<lambda>w. Inr (sc, sys_close (sc_socket sc) w)))"

text \<open>Without a socket the function returns no value, which is None here.\<close>

definition lwpb_transport_socket_client_update ::
    "services \<Rightarrow> 's lwpb_client list \<Rightarrow> 's lwpb_transport_socket_client \<Rightarrow> 's world \<Rightarrow>
     (lwpb_err_t option \<times> 's lwpb_transport_socket_client \<times> 's world) run" where
  "lwpb_transport_socket_client_update svs clients sc w =
     (if sc_socket sc = - 1 then Inr (None, sc, w)
      else let (ready, w) = sys_select (sc_socket sc + 1) [sc_socket sc] w in case ready of
          None \<Rightarrow> Inl Abort
        | Some ready \<Rightarrow>
            if ready = [] then Inr (Some LWPB_ERR_OK, sc, w)
            else andthen (handle_data svs clients sc w) (\<lambda>(sc, w). Inr (Some LWPB_ERR_OK, sc, w)))"

section \<open>The socket client is a transport\<close>

definition sc_inv :: "'s lwpb_transport_socket_client \<Rightarrow> bool" where
  "sc_inv sc \<longleftrightarrow> transport_funs sc = Socket_client_funs \<and> (sc_socket sc \<noteq> - 1 \<longrightarrow> (case sc_buf sc of
     None \<Rightarrow> sc_pos sc = None | Some b \<Rightarrow> (\<exists>p. sc_pos sc = Some p \<and> b \<le> p \<and> p \<le> b + unat (sc_len sc))))"

lemma sc_inv_upd [simp]:
  "sc_inv (sc\<lparr>sc_client := c\<rparr>) = sc_inv sc" "sc_inv (sc\<lparr>sc_last_method := md\<rparr>) = sc_inv sc"
  by (simp_all add: sc_inv_def split: option.split)

lemma client_call_frame:
  assumes "client_call svs sc c cl md w = Inr (ret, sc', w')"
  shows "sc' = sc \<or> sc' = sc\<lparr>sc_last_method := Some md\<rparr>"
proof (cases "sc_socket sc = - 1")
  case True
  with assms show ?thesis by (auto simp: client_call_def andthen_eq_Inr)
next
  case False
  with assms obtain r req n w1 w2 where 
    "(if r \<noteq> LWPB_ERR_OK then Inr (r, sc, w1) else encode_and_send svs sc c cl md req n w1) = Inr (ret, sc', w2)"
    by (auto simp: client_call_def andthen_eq_Inr)
  then show ?thesis
    by (auto simp: encode_and_send_def andthen_eq_Inr Let_def split: if_splits)
qed

interpretation socket_client: transport "socket_client_tables svs" "socket_client_funs svs" sc_inv
proof unfold_locales
  show "sc_inv tr \<Longrightarrow> socket_client_tables svs (transport_funs tr) = socket_client_funs svs"
    for tr :: "'s lwpb_transport_socket_client"
    by (simp add: sc_inv_def)
next
  fix t c md ret and st st' :: "'s socket_client_rpc"
  assume run: "call (socket_client_funs svs) t c md st = Inr (ret, st')" and t: "t < length (rpc_transports st)"
  then obtain sc cl sc' w where sc: "sc = rpc_transports st ! t" and "client_call svs sc c cl md (rpc_world st) = Inr (ret, sc', w)"
    and st': "st' = st\<lparr>rpc_transports := (rpc_transports st)[t := sc'], rpc_world := w\<rparr>"
    by (auto simp: socket_client_funs_def socket_client_transport_call_def andthen_eq_Inr)
  then have "sc' = sc \<or> sc' = sc\<lparr>sc_last_method := Some md\<rparr>"
    by (intro client_call_frame)
  then have "sc_inv sc \<longrightarrow> sc_inv sc'"
    by (elim disjE) simp_all
  with t sc st' show "touches sc_inv t st st'"
    unfolding touches_def by blast
qed (auto simp: socket_client_funs_def socket_client_register_client_def socket_client_transport_cancel_def
    socket_client_register_server_def andthen_eq_Inr lwpb_assert_eq_Inr intro: touches_transport touches_refl)

section \<open>Every operation keeps the invariant\<close>

lemma client_init_sc_inv: "sc_inv (lwpb_transport_socket_client_init sc)"
  by (simp add: sc_inv_def lwpb_transport_socket_client_init_def lwpb_transport_init_def)

lemma client_open_inv:
  assumes inv: "sc_inv sc" and run: "lwpb_transport_socket_client_open sc w = Inr (ret, sc', w')"
  shows "sc_inv sc'"
proof (cases "sc_socket sc = - 1")
  case False
  with inv run show ?thesis by (simp add: lwpb_transport_socket_client_open_def)
next
  case True
  with run obtain buf len where "sc' = sc\<lparr>sc_buf := buf, sc_len := len\<rparr> \<or>
      (\<exists>s. sc' = sc\<lparr>sc_buf := buf, sc_len := len, sc_pos := buf, sc_socket := s\<rparr>)"
    by (auto simp: lwpb_transport_socket_client_open_def Let_def case_prod_beta andthen_eq_Inr split: if_splits)
  with inv True show ?thesis
    by (auto simp: sc_inv_def split: option.split)
qed

lemma handle_data_inv:
  assumes inv: "sc_inv sc" and "sc_socket sc \<noteq> - 1" and run: "handle_data svs clients sc w = Inr (sc', w')"
  shows "sc_inv sc'"
proof -
  obtain len w1 where recv: "sys_recv (sc_pos sc) (sc_len sc - ptr_diff (sc_pos sc) (sc_buf sc)) w = (len, w1)"
    by force
  with run have len: "0 < len" and sc': "sc' = sc\<lparr>sc_pos := ptr_add (sc_pos sc) (nat len)\<rparr>"
    by (auto simp: handle_data_def Let_def andthen_eq_Inr split: if_splits)
  show ?thesis
  proof (cases "sc_buf sc")
    case None
    with inv assms(2) show ?thesis by (simp add: sc_inv_def sc' ptr_add_def)
  next
    case (Some b)
    with inv assms(2) obtain p where p: "sc_pos sc = Some p" "b \<le> p" "p \<le> b + unat (sc_len sc)"
      by (auto simp: sc_inv_def)
    with sys_recv_bound [OF recv] Some have "nat len \<le> unat (sc_len sc) - (p - b)"
      using ptr_diff_in(2) [OF p(2,3)] by (simp add: nat_le_iff)
    with p Some inv assms(2) show ?thesis by (auto simp: sc_inv_def sc' ptr_add_def)
  qed
qed

section \<open>Sending a request\<close>

lemma client_call_run:
  assumes "sc_socket sc \<noteq> - 1" and "allocator_funs sc = default_allocator_funs" and "cl_request_handler cl = Some h"
    and "c_malloc 1024 w = (Some a, w1)" and "deref_method svs (Some md) = Inr mtd" and "deref svs (Some (mtd_service mtd)) = Inr sv"
    and "h c md (mtd_req_desc mtd) (Some a) 1024 (cl_arg cl) w1 = Inr (LWPB_ERR_OK, n, w2)"
    and "a \<in> live_blocks w2" and "a + unat n \<le> length (w_mem w2)" and "unat n < 2 ^ 32"
    and "c_string (w_mem w2) (svc_name sv) s" "c_string (w_mem w2) (mtd_name mtd) t" "length s + length t \<le> 122"
    and "length (enc_stack (any_encoder (w_any w2))) = LWPB_MAX_DEPTH" and "length (w_mem w2) + 128 < 2 ^ 63"
  shows "\<exists>w3. client_call svs sc c cl md w = Inr (LWPB_ERR_OK, sc\<lparr>sc_last_method := Some md\<rparr>, w3) \<and>
    w_log w3 = w_log w2 @ packet_sends (sc_socket sc) (request_header s t) (peek (w_mem w2) a (unat n)) \<and>
    live_blocks w3 = live_blocks w2 - {a}"
proof -
  let ?w = "w2\<lparr>w_log := w_log w2 @ packet_sends (sc_socket sc) (request_header s t) (peek (w_mem w2) a (unat n))\<rparr>"
  have send: "send_request svs (sc_socket sc) (Some md) (Some a) n w2 = Inr ((), ?w)"
    by (rule send_request_sends [OF assms(5,6,11-15,9,10)])
  have "a \<in> live_blocks ?w"
    using assms(8) by (simp add: live_blocks_def)
  from free_live [OF this] obtain w3 where w3: "c_free (Some a) ?w = Inr w3" "live_blocks w3 = live_blocks ?w - {a}"
    by blast
  have "w_log w3 = w_log ?w"
    using w3(1) by (auto simp: c_free_def split: if_splits)
  with w3 assms(1-5,7) send show ?thesis
    by (simp add: client_call_def encode_and_send_def lwpb_transport_alloc_buf_def lwpb_transport_free_buf_def
        default_allocator_funs_def default_alloc_buf_def default_free_buf_def live_blocks_def)
qed

text \<open>
  A client that is ready to call: it is connected, its request handler produces \<open>body\<close> in the buffer \<open>a\<close> that
  was allocated for it, and \<open>s\<close> and \<open>t\<close> are the names of the service and of the method. The world \<open>w2\<close> is
  that after the request handler.
\<close>

definition makes_request ::
    "services \<Rightarrow> 's lwpb_transport_socket_client \<Rightarrow> client_ref \<Rightarrow> 's lwpb_client \<Rightarrow> method_ref \<Rightarrow> u8 list \<Rightarrow> u8 list \<Rightarrow>
     addr \<Rightarrow> u8 list \<Rightarrow> 's world \<Rightarrow> 's world \<Rightarrow> bool" where
  "makes_request svs sc c cl md s t a body w w2 \<longleftrightarrow>
     sc_socket sc \<noteq> - 1 \<and> allocator_funs sc = default_allocator_funs \<and> length s + length t \<le> 122 \<and>
     (\<exists>mtd sv. deref_method svs (Some md) = Inr mtd \<and> deref svs (Some (mtd_service mtd)) = Inr sv \<and>
        c_string (w_mem w2) (svc_name sv) s \<and> c_string (w_mem w2) (mtd_name mtd) t \<and>
        (\<exists>h w1 n. cl_request_handler cl = Some h \<and> c_malloc 1024 w = (Some a, w1) \<and>
           h c md (mtd_req_desc mtd) (Some a) 1024 (cl_arg cl) w1 = Inr (LWPB_ERR_OK, n, w2) \<and>
           unat n < 2 ^ 32 \<and> a + unat n \<le> length (w_mem w2) \<and> body = peek (w_mem w2) a (unat n))) \<and>
     a \<in> live_blocks w2 \<and> length (enc_stack (any_encoder (w_any w2))) = LWPB_MAX_DEPTH \<and>
     length (w_mem w2) + 128 < 2 ^ 63"

lemma makes_request_log:
  assumes "makes_request svs sc c cl md s t a body w w2"
  shows "\<exists>w3. client_call svs sc c cl md w = Inr (LWPB_ERR_OK, sc\<lparr>sc_last_method := Some md\<rparr>, w3) \<and>
    w_log w3 = w_log w2 @ packet_sends (sc_socket sc) (request_header s t) body"
  using assms client_call_run unfolding makes_request_def by blast

section \<open>Properties\<close>

text \<open>
  C24: A call over a connected socket sends the request. When the request handler succeeds, the call
  returns LWPB_ERR_OK, has sent exactly the packet that names the method and contains the bytes that the
  handler produced, has freed the request buffer, and remembers the method for the response.
\<close>

theorem client_call_sends:
  assumes "makes_request svs sc c cl md s t a body w w2"
  shows "\<exists>w3. client_call svs sc c cl md w = Inr (LWPB_ERR_OK, sc\<lparr>sc_last_method := Some md\<rparr>, w3) \<and>
    w_log w3 = w_log w2 @ packet_sends (sc_socket sc) (request_header s t) body \<and> live_blocks w3 = live_blocks w2 - {a}"
  using assms client_call_run unfolding makes_request_def by blast

text \<open>
  Closing a socket client that was closed before frees its receive buffer a second time. As in the
  server, the last statement of the function compares the socket with -1 where it means to assign it, so
  the client does not know that it is closed.
\<close>

theorem client_close_twice_frees_twice:
  assumes "sc_socket sc \<noteq> - 1" and "allocator_funs sc = default_allocator_funs" and "sc_buf sc = Some b"
    and "lwpb_transport_socket_client_close sc w = Inr (sc', w')"
  shows "lwpb_transport_socket_client_close sc' w' = Inl Undef"
proof -
  from assms obtain w1 where free: "c_free (Some b) w = Inr w1" and "sc' = sc" "w' = sys_close (sc_socket sc) w1"
    by (auto simp: lwpb_transport_socket_client_close_def andthen_eq_Inr lwpb_transport_free_buf_def
        default_allocator_funs_def default_free_buf_def)
  moreover have "b \<notin> fst ` set (w_blocks w1)"
    using free by (auto simp: c_free_def split: if_splits)
  ultimately show ?thesis
    using assms(1-3) by (simp add: lwpb_transport_socket_client_close_def lwpb_transport_free_buf_def
        default_allocator_funs_def default_free_buf_def c_free_def sys_close_def)
qed

end
