(* ===== verification/Socket_Client_Deliver.thy ===== *)
theory Socket_Client_Deliver
  imports Socket_Client
begin

text \<open>
  How the socket client delivers responses: a complete response reaches the response handler, and what
  goes wrong afterwards.
\<close>

declare handle.simps [simp del]

section \<open>Receiving a response\<close>

definition response_info :: "u8 list \<Rightarrow> protocol_header_info" where
  "response_info body = (parse_info response_header body None)\<lparr>hi_msg_type := MSG_TYPE_RESPONSE\<rparr>"

text \<open>
  A buffer at \<open>b\<close> of which \<open>n\<close> bytes have been received starts with the packet of a response.
\<close>

definition response_in :: "addr \<Rightarrow> nat \<Rightarrow> u8 list \<Rightarrow> 's world \<Rightarrow> bool" where
  "response_in b n body w \<longleftrightarrow>
     (let pk = packet response_header body in
      peek (w_mem w) b (length pk) = pk \<and> length pk \<le> n \<and> n < 2 ^ 32 \<and> b + n \<le> length (w_mem w) \<and>
      length (w_mem w) < 2 ^ 63 \<and> length (any_frames (w_any w)) = LWPB_MAX_DEPTH)"

lemma parse_response_in:
  assumes "response_in b n body w"
  shows "parse_request svs w (Some b) (of_nat n) info None = Inr (PARSE_ERR_OK, response_info body)"
proof -
  let ?pk = "packet response_header body" and ?i = "parse_info response_header body None"
  have pk: "peek (w_mem w) b (length ?pk) = ?pk" and n: "length ?pk \<le> n" "n < 2 ^ 32" "b + n \<le> length (w_mem w)"
    and mem: "length (w_mem w) < 2 ^ 63" "length (any_frames (w_any w)) = LWPB_MAX_DEPTH"
    using assms by (auto simp: response_in_def Let_def)
  have len: "unat (of_nat n :: u64) = n"
    using n(2) by (simp add: unat_of_nat)
  have evs: "message_events socket_protocol_descs 0 (b + 12) response_header =
      [Msg_start False 0, Msg_field False (Some 0) (0, 0) (Some (V_enum SOCKET_PROTOCOL_RESPONSE)), Msg_end False 0]"
    by (simp add: message_events_def response_header_def Let_def)
  have "handle_events (parse_decoder svs w ?i) (message_events socket_protocol_descs 0 (b + 12) response_header) ?i =
      Inr (response_info body)"
    by (simp add: evs handle_field parse_request_field_handler_def socket_protocol_Header_def socket_protocol_Header_type_def
        socket_protocol_Header_service_def socket_protocol_Header_method_def the_value_def response_info_def
        MSG_TYPE_RESPONSE_def SOCKET_PROTOCOL_RESPONSE_def)
  then show ?thesis
    using parse_packet [OF wf_headers(3,4) mem(2) pk, of "of_nat n" svs info None] n mem(1) len
      packet_length [of response_header body] by simp
qed

lemma response_info_sel:
  "unat (hi_header_len (response_info body)) = 12 + length (header_bytes response_header)"
  "hi_msg_len (response_info body) = of_nat (length body)"
proof -
  have "length (header_bytes response_header) \<le> 128"
    using header_bytes_room [OF response_room] .
  then have "unat (of_nat (12 + length (header_bytes response_header)) :: u64) = 12 + length (header_bytes response_header)"
    by (subst unat_of_nat) simp
  then show "unat (hi_header_len (response_info body)) = 12 + length (header_bytes response_header)"
    unfolding response_info_def parse_info_def by (simp del: of_nat_add)
qed (simp add: response_info_def parse_info_def)

text \<open>The buffer of a client has room for the data that arrive next.\<close>

definition client_room :: "'s lwpb_transport_socket_client \<Rightarrow> addr \<Rightarrow> addr \<Rightarrow> u8 list \<Rightarrow> mem \<Rightarrow> bool" where
  "client_room sc b p bs m \<longleftrightarrow> sc_buf sc = Some b \<and> sc_pos sc = Some p \<and> room_at b p (sc_len sc) bs m"

lemma handle_data_delivers:
  assumes room: "client_room sc b p bs (w_mem w)" and ans: "w_answers w = Data_answer bs # as"
    and res: "response_in b (p + length bs - b) body (after_recv bs p as w)"
    and cl: "deref clients (sc_client sc) = Inr cl" "cl_response_handler cl = Some h"
    and md: "sc_last_method sc = Some md" "deref_method svs (Some md) = Inr mtd"
  shows "handle_data svs clients sc w =
    andthen (h (the (sc_client sc)) md (mtd_res_desc mtd) (Some (b + 12 + length (header_bytes response_header)))
        (of_nat (length body)) (cl_arg cl) (after_recv bs p as w)) (\<lambda>(_, w').
      Inr (sc\<lparr>sc_pos := Some (p + length bs)\<rparr>, w'))"
proof -
  have buf: "sc_buf sc = Some b" "sc_pos sc = Some p" and at: "room_at b p (sc_len sc) bs (w_mem w)"
    using room by (auto simp: client_room_def)
  then have "bs \<noteq> []"
    by (simp add: room_at_def)
  then show ?thesis
    using recv_room_at [OF at ans] parse_response_in [OF res] buf cl md
    by (simp add: handle_data_def Let_def ptr_add_def response_info_sel add.assoc)
qed

lemma client_update_ready:
  assumes "sc_socket sc \<noteq> - 1" and "w_answers w = Ready_answer [sc_socket sc] # as"
  shows "lwpb_transport_socket_client_update svs clients sc w =
    andthen (handle_data svs clients sc (w\<lparr>w_answers := as\<rparr>)) (\<lambda>(sc, w). Inr (Some LWPB_ERR_OK, sc, w))"
  using assms by (simp add: lwpb_transport_socket_client_update_def sys_select_def)

text \<open>Where the handler finds the response.\<close>

lemma response_in_read:
  "response_in b n body w \<Longrightarrow> peek (w_mem w) (b + 12 + length (header_bytes response_header)) (length body) = body"
  using packet_parts(5) [of "w_mem w" b response_header body] by (simp add: response_in_def Let_def)

section \<open>Properties\<close>

text \<open>
  C25: A complete response is delivered. When the data that complete the response arrive, in any number of
  pieces, the next update of the client calls the response handler for the method that was called last,
  with the address and the length of the response message in the receive buffer.
\<close>

theorem client_delivers_response:
  assumes "sc_socket sc \<noteq> - 1" and "w_answers w = Ready_answer [sc_socket sc] # Data_answer bs # as"
    and "client_room sc b p bs (w_mem w)"
    and "response_in b (p + length bs - b) body (after_recv bs p as w)"
    and "deref clients (sc_client sc) = Inr cl" and "cl_response_handler cl = Some h"
    and "sc_last_method sc = Some md" and "deref_method svs (Some md) = Inr mtd"
    and "a = b + 12 + length (header_bytes response_header)"
    and "h (the (sc_client sc)) md (mtd_res_desc mtd) (Some a) (of_nat (length body)) (cl_arg cl) (after_recv bs p as w) =
      Inr (ret, w')"
  shows "lwpb_transport_socket_client_update svs clients sc w =
      Inr (Some LWPB_ERR_OK, sc\<lparr>sc_pos := Some (p + length bs)\<rparr>, w') \<and>
    peek (w_mem (after_recv bs p as w)) a (length body) = body"
  using handle_data_delivers [of sc b p bs "w\<lparr>w_answers := Data_answer bs # as\<rparr>" as body clients cl h md svs mtd]
    client_update_ready [OF assms(1,2)] response_in_read [OF assms(4)] assms by simp

text \<open>
  The client never forgets a response. The receive position is not reset once a response was
  delivered, so whatever data arrive next, the response to the next call for instance, make the client
  deliver the first response again, as that of the method that was called last.
\<close>

theorem client_repeats_response:
  assumes "w_answers w = Data_answer bs # as" and "client_room sc b p bs (w_mem w)"
    and "response_in b (p - b) body w" and "p + length bs - b < 2 ^ 32"
    and "deref clients (sc_client sc) = Inr cl" and "cl_response_handler cl = Some h"
    and "sc_last_method sc = Some md" and "deref_method svs (Some md) = Inr mtd"
    and "a = b + 12 + length (header_bytes response_header)"
    and "h (the (sc_client sc)) md (mtd_res_desc mtd) (Some a) (of_nat (length body)) (cl_arg cl) (after_recv bs p as w) =
      Inr (ret, w')"
  shows "handle_data svs clients sc w = Inr (sc\<lparr>sc_pos := Some (p + length bs)\<rparr>, w') \<and>
    peek (w_mem (after_recv bs p as w)) a (length body) = body"
proof -
  let ?pk = "packet response_header body"
  have pk: "peek (w_mem w) b (length ?pk) = ?pk" "b + length ?pk \<le> p" and fit: "b \<le> p" "p + length bs \<le> length (w_mem w)"
    using assms(2,3) by (auto simp: response_in_def Let_def client_room_def room_at_def)
  then have "peek (poke (w_mem w) p bs) b (length ?pk) = ?pk"
    using peek_poke_disjoint [OF fit(2), of b "length ?pk"] by simp
  with assms(3,4) pk fit have res: "response_in b (p + length bs - b) body (after_recv bs p as w)"
    by (simp add: response_in_def Let_def after_recv_def)
  show ?thesis
    using handle_data_delivers [OF assms(2,1) res assms(5-8)] response_in_read [OF res] assms(9,10) by simp
qed

end
