(* ===== verification/Rpc_Examples.thy ===== *)
theory Rpc_Examples
  imports Socket_Server_Serve Socket_Client_Deliver Examples
begin

text \<open>
  The properties of the RPC layer applied to a concrete process: one service "S" with one method "M",
  whose names are at the start of the memory, and handlers that work on a list of reported results.
\<close>

section \<open>The sample process\<close>

definition rpc_services :: services where
  "rpc_services = [\<lparr>svc_methods = [\<lparr>mtd_service = 0, mtd_req_desc = None, mtd_res_desc = None, mtd_name = 2\<rparr>],
     svc_name = 0\<rparr>]"

definition rpc_method :: lwpb_method_desc where
  "rpc_method = \<lparr>mtd_service = 0, mtd_req_desc = None, mtd_res_desc = None, mtd_name = 2\<rparr>"

definition rpc_any :: indeterminate where
  "rpc_any = \<lparr>any_bytes = (\<lambda>_. 0), any_encoder = sample_encoder,
     any_frames = replicate 32 \<lparr>df_buf = lwpb_buf_init 0 0, df_msg_desc = None\<rparr>, any_wire = no_wire_value\<rparr>"

text \<open>The names, a block of 60 bytes, and the room that malloc has.\<close>

definition rpc_world0 :: "lwpb_rpc_result_t list world" where
  "rpc_world0 = \<lparr>w_mem = [83, 0, 77, 0] @ replicate 60 0, w_blocks = [(4, 60)], w_avail = 4096, w_any = rpc_any,
     w_answers = [], w_log = [], w_app = []\<rparr>"

text \<open>A request handler that produces one byte, and a done handler that records the result.\<close>

definition rpc_client :: "transport_ref option \<Rightarrow> lwpb_rpc_result_t list lwpb_client" where
  "rpc_client t = \<lparr>cl_transport = t, cl_arg = None,
     cl_request_handler = Some (\<lambda>c md d p n arg w. Inr (LWPB_ERR_OK, 1, w)),
     cl_response_handler = Some (\<lambda>c md d p n arg w. Inr (LWPB_ERR_OK, w)),
     cl_done_handler = Some (\<lambda>c md r arg w. Inr (w\<lparr>w_app := w_app w @ [r]\<rparr>))\<rparr>"

text \<open>A call handler whose response is one byte.\<close>

definition rpc_server :: "lwpb_rpc_result_t list lwpb_server" where
  "rpc_server = \<lparr>srv_service_list = Some [0], srv_transport = Some 0, srv_arg = None,
     srv_call_handler = Some (\<lambda>s md d p n d' p' k arg w. Inr (LWPB_ERR_OK, 1, w))\<rparr>"

definition rpc_names :: "u8 list \<Rightarrow> nat \<Rightarrow> u8 list" where
  "rpc_names n _ = n"

lemma rpc_deref:
  "deref_method rpc_services (Some (0, 0)) = Inr rpc_method"
  "deref rpc_services (Some (mtd_service rpc_method)) = Inr (rpc_services ! 0)"
  by (simp_all add: deref_method_def rpc_services_def rpc_method_def)

lemma rpc_strings:
  "c_string ([83, 0, 77, 0] @ m) (svc_name (rpc_services ! 0)) [83]"
  "c_string ([83, 0, 77, 0] @ m) (mtd_name rpc_method) [77]"
  by (simp_all add: c_string_def peek_def rpc_services_def rpc_method_def)

lemma rpc_named:
  "names_are rpc_services ([83, 0, 77, 0] @ m) (\<lambda>_. [83]) (\<lambda>_. [77]) [0]"
  by (simp add: names_are_def c_string_def peek_def rpc_services_def)

lemma rpc_any_sel [simp]:
  "length (enc_stack (any_encoder rpc_any)) = LWPB_MAX_DEPTH" "length (any_frames rpc_any) = LWPB_MAX_DEPTH"
  by (simp_all add: rpc_any_def sample_lengths) (simp add: LWPB_MAX_DEPTH_def)

text \<open>The packet of a request for the method with a body of one byte.\<close>

definition rpc_packet :: "u8 list" where
  "rpc_packet = [222, 173, 190, 175, 0, 0, 0, 8, 0, 0, 0, 1, 8, 0, 18, 1, 83, 26, 1, 77, 0]"

lemma rpc_packet: "packet (request_header [83] [77]) [0] = rpc_packet"
  "length (header_bytes (request_header [83] [77])) = 8"
  by code_simp+

section \<open>The direct transport\<close>

definition direct_process :: "lwpb_rpc_result_t list direct_rpc" where
  "direct_process = \<lparr>rpc_transports = [\<lparr>allocator_funs = default_allocator_funs, transport_funs = Direct_funs,
       direct_client = Some 0, direct_server = Some 0\<rparr>],
     rpc_clients = [rpc_client (Some 0)], rpc_servers = [rpc_server], rpc_world = rpc_world0\<rparr>"

lemma direct_process_sel:
  "rpc_transports direct_process = [\<lparr>allocator_funs = default_allocator_funs, transport_funs = Direct_funs,
     direct_client = Some 0, direct_server = Some 0\<rparr>]"
  "rpc_clients direct_process = [rpc_client (Some 0)]" "rpc_servers direct_process = [rpc_server]"
  "cl_transport (rpc_client t) = t" "live_blocks (rpc_world direct_process) = {4}" "heap_ok (rpc_world direct_process)"
  "w_app (rpc_world direct_process) = []"
  by (simp_all add: direct_process_def rpc_client_def rpc_world0_def live_blocks_def heap_ok_def)

lemma rpc_handlers:
  "client_keeps heap_ok live_blocks (rpc_client t)" "server_keeps heap_ok live_blocks rpc_server"
  "client_logs w_app (rpc_client t)" "server_logs w_app rpc_server"
  by (simp_all add: heap_ok_def client_keeps_def rpc_client_def request_keeps_def response_keeps_def done_keeps_def
      keeps_live_def live_blocks_def server_keeps_def rpc_server_def call_keeps_def client_logs_def server_logs_def)

lemma direct_process_inv: "rpc_inv direct_inv direct_process"
  by (simp add: rpc_inv_def rpc_ok_def direct_process_sel direct_inv_def rpc_server_def)

lemma direct_call_balanced_witness:
  "\<exists>ret w. lwpb_client_call (direct_tables rpc_services) 0 (0, 0) direct_process = Inr (ret, direct_process\<lparr>rpc_world := w\<rparr>) \<and>
    heap_ok w \<and> live_blocks w = {4}"
  using direct_call_balanced [of 0 direct_process 0 rpc_services "(0, 0)" rpc_method]
  by (simp add: direct_process_sel rpc_handlers rpc_deref direct_inv_def)

lemma direct_call_reports_witness:
  "\<exists>st'. lwpb_client_call (direct_tables rpc_services) 0 (0, 0) direct_process = Inr (LWPB_ERR_OK, st') \<and>
    w_app (rpc_world st') = [LWPB_RPC_OK]"
proof -
  obtain st' where call: "lwpb_client_call (direct_tables rpc_services) 0 (0, 0) direct_process = Inr (LWPB_ERR_OK, st')"
    by (auto simp: lwpb_client_call_def direct_process_def rpc_client_def funs_of_def direct_funs_def
        direct_transport_call_def local_call_def lwpb_transport_alloc_buf_def default_allocator_funs_def
        default_alloc_buf_def c_malloc_def rpc_world0_def Let_def call_phases_def rpc_deref call_on_server_def
        rpc_server_def call_respond_def report_def free_if_set_def lwpb_transport_free_buf_def default_free_buf_def c_free_def)
  from direct_call_reports [OF this, of 0 "\<lambda>x. x"] show ?thesis
    using call direct_process_inv rpc_handlers by (simp add: direct_process_sel reported_def)
qed

text \<open>A process in which nobody is registered yet, and a session with it.\<close>

definition unlinked_process :: "lwpb_rpc_result_t list direct_rpc" where
  "unlinked_process = \<lparr>rpc_transports = [lwpb_transport_direct_init \<lparr>allocator_funs = default_allocator_funs,
       transport_funs = Socket_client_funs, direct_client = Some 7, direct_server = Some 7\<rparr>],
     rpc_clients = [rpc_client None, rpc_client None], rpc_servers = [rpc_server\<lparr>srv_transport := None\<rparr>], rpc_world = rpc_world0\<rparr>"

lemma unlinked_process_linked: "direct_linked unlinked_process"
proof -
  have "cl_transport (rpc_clients unlinked_process ! c) = None" if "c < 2" for c
    using that by (cases c) (simp_all add: unlinked_process_def rpc_client_def)
  moreover have "length (rpc_clients unlinked_process) = 2"
    by (simp add: unlinked_process_def)
  ultimately show ?thesis
    by (simp add: direct_linked_def rpc_inv_def rpc_ok_def list_all_length)
      (simp add: unlinked_process_def direct_inv_def lwpb_transport_direct_init_def lwpb_transport_init_def)
qed

definition session_end :: "lwpb_rpc_result_t list direct_rpc run" where
  "session_end = andthen (lwpb_client_init (direct_tables rpc_services) 0 (Some 0) unlinked_process) (\<lambda>st.
     andthen (lwpb_client_handler 0 (cl_request_handler (rpc_client None)) (cl_response_handler (rpc_client None)) (cl_done_handler (rpc_client None)) st) (\<lambda>st.
     andthen (lwpb_server_init (direct_tables rpc_services) 0 (Some [0]) (Some 0) st) (\<lambda>st.
     andthen (lwpb_server_handler 0 (srv_call_handler rpc_server) st) (\<lambda>st.
     andthen (lwpb_client_call (direct_tables rpc_services) 0 (0, 0) st) (\<lambda>(ret, st). Inr st)))))"

lemma session_end_reached:
  assumes "session_end = Inr st"
  shows "(rpc_step (direct_tables rpc_services))\<^sup>*\<^sup>* unlinked_process st"
proof -
  obtain st1 st2 st3 st4 ret where
    "lwpb_client_init (direct_tables rpc_services) 0 (Some 0) unlinked_process = Inr st1"
    "lwpb_client_handler 0 (cl_request_handler (rpc_client None)) (cl_response_handler (rpc_client None)) (cl_done_handler (rpc_client None)) st1 = Inr st2"
    "lwpb_server_init (direct_tables rpc_services) 0 (Some [0]) (Some 0) st2 = Inr st3"
    "lwpb_server_handler 0 (srv_call_handler rpc_server) st3 = Inr st4"
    "lwpb_client_call (direct_tables rpc_services) 0 (0, 0) st4 = Inr (ret, st)"
    using assms by (auto simp: session_end_def andthen_eq_Inr)
  from rpc_step.intros(1) [OF this(1)] rpc_step.intros(3) [OF this(2)] rpc_step.intros(6) [OF this(3)] rpc_step.intros(8) [OF this(4)]
    rpc_step.intros(4) [OF this(5)] show ?thesis
    by (meson converse_rtranclp_into_rtranclp rtranclp.rtrancl_refl)
qed

lemma session_end: "\<exists>st. session_end = Inr st \<and> cl_transport (rpc_clients st ! 0) = Some 0 \<and> srv_transport (rpc_servers st ! 0) = Some 0 \<and>
    w_app (rpc_world st) = [LWPB_RPC_OK]"
  by (auto simp: session_end_def lwpb_client_init_def lwpb_client_handler_def lwpb_server_init_def lwpb_server_handler_def set_client_def set_server_def
      direct_register_client_def direct_register_server_def lwpb_transport_direct_init_def lwpb_transport_init_def unlinked_process_def
      lwpb_client_call_def rpc_client_def funs_of_def direct_funs_def
      direct_transport_call_def local_call_def lwpb_transport_alloc_buf_def default_allocator_funs_def
      default_alloc_buf_def c_malloc_def rpc_world0_def Let_def call_phases_def rpc_deref call_on_server_def
      rpc_server_def call_respond_def report_def free_if_set_def lwpb_transport_free_buf_def default_free_buf_def c_free_def)

lemma direct_registration_exclusive_witness:
  "\<exists>st. session_end = Inr st \<and> direct_client (rpc_transports st ! 0) = Some 0 \<and> direct_server (rpc_transports st ! 0) = Some 0 \<and>
    lwpb_client_init (direct_tables rpc_services) 1 (Some 0) st = Inl Abort \<and>
    lwpb_server_init (direct_tables rpc_services) 0 None (Some 0) st = Inl Abort"
proof -
  obtain st where st: "session_end = Inr st" "cl_transport (rpc_clients st ! 0) = Some 0" "srv_transport (rpc_servers st ! 0) = Some 0"
    using session_end by blast
  have lens: "length (rpc_clients unlinked_process) = 2" "length (rpc_servers unlinked_process) = 1"
    by (simp_all add: unlinked_process_def)
  note session = direct_registration_exclusive [OF session_end_reached [OF st(1)] unlinked_process_linked]
  have "lwpb_client_init (direct_tables rpc_services) 1 (Some 0) st = Inl Abort"
    using session [THEN conjunct2, THEN conjunct2, THEN conjunct1, rule_format, of 0 0 1] st(2) lens by simp
  moreover have "lwpb_server_init (direct_tables rpc_services) 0 None (Some 0) st = Inl Abort"
    using session [THEN conjunct2, THEN conjunct2, THEN conjunct2, rule_format, of 0 0 0] st(3) lens by simp
  moreover have "direct_linked st" "registrations_kept unlinked_process st"
    using session by simp_all
  ultimately show ?thesis
    using st lens direct_linkedD [of st 0 0] by (auto simp: registrations_kept_def)
qed

section \<open>The wire protocol\<close>

text \<open>A receiver with the packet in its block.\<close>

definition rpc_receiver :: "lwpb_rpc_result_t list world" where
  "rpc_receiver = rpc_world0\<lparr>w_mem := [83, 0, 77, 0] @ rpc_packet @ replicate 39 0\<rparr>"

lemma rpc_receiver_mem:
  "length (w_mem rpc_receiver) = 64" "peek (w_mem rpc_receiver) 4 21 = rpc_packet" "length rpc_packet = 21"
  "peek (w_mem rpc_receiver) 4 5 = take 5 rpc_packet" "w_any rpc_receiver = rpc_any"
  "names_are rpc_services (w_mem rpc_receiver) (\<lambda>_. [83]) (\<lambda>_. [77]) [0]"
  "length (w_mem rpc_world0) = 64" "w_any rpc_world0 = rpc_any" "peek (w_mem rpc_world0) 4 (Suc 0) = [0]"
  using rpc_named [of "rpc_packet @ replicate 39 0"]
  by (simp_all add: rpc_receiver_def rpc_world0_def rpc_packet_def peek_def)

lemma rpc_strings0:
  "c_string (w_mem rpc_world0) (svc_name (rpc_services ! 0)) [83]"
  "c_string (w_mem rpc_world0) (mtd_name rpc_method) [77]"
  using rpc_strings by (simp_all add: rpc_world0_def)

lemma rpc_named_method: "named_method rpc_services (\<lambda>_. [77]) (Some 0) [77] = Some (0, 0)"
  by (simp add: named_method_def rpc_services_def)

lemma request_roundtrip_witness:
  "\<exists>info. parse_request rpc_services rpc_receiver (Some 4) 21 blank_info (Some [0]) = Inr (PARSE_ERR_OK, info) \<and>
    hi_service_desc info = Some 0 \<and> hi_method_desc info = Some (0, 0)"
proof -
  let ?w = "rpc_world0\<lparr>w_log := w_log rpc_world0 @ packet_sends 5 (request_header [83] [77]) [0]\<rparr>"
  have "send_request rpc_services 5 (Some (0, 0)) (Some 4) 1 rpc_world0 = Inr ((), ?w)"
    using send_request_sends [OF rpc_deref rpc_strings0, of 4 1 5] by (simp add: rpc_receiver_mem)
  from request_roundtrip [OF rpc_deref rpc_strings0 _ _ _ _ _ this refl, of rpc_receiver 4 21 rpc_services "\<lambda>_. [83]" "\<lambda>_. [77]" "[0]" blank_info]
  show ?thesis
    by (auto simp: received_packet rpc_packet rpc_receiver_mem rpc_named_method)
qed

lemma parse_incomplete_witness:
  "\<exists>info. parse_request rpc_services rpc_receiver (Some 4) 5 blank_info (Some [0]) = Inr (PARSE_ERR_END_OF_BUF, info)"
  using parse_incomplete [of rpc_receiver 4 5 "request_header [83] [77]" "[0]"]
  by (simp add: rpc_packet rpc_receiver_mem)

section \<open>The socket server\<close>

text \<open>A server that listens on descriptor 3 and has a connection on descriptor 5.\<close>

definition rpc_conn :: lwpb_socket_server_conn where
  "rpc_conn = \<lparr>conn_index = 0, conn_socket = 5, conn_buf = Some 4, conn_pos = Some 4, conn_len = 60\<rparr>"

lemma rpc_conn_sel: "conn_socket rpc_conn = 5"
  by (simp add: rpc_conn_def)

definition free_slot :: "nat \<Rightarrow> lwpb_socket_server_conn" where
  "free_slot i = \<lparr>conn_index = i, conn_socket = - 1, conn_buf = None, conn_pos = None, conn_len = 0\<rparr>"

definition rpc_socket_server :: "lwpb_socket_server_conn \<Rightarrow> lwpb_rpc_result_t list lwpb_transport_socket_server" where
  "rpc_socket_server conn = \<lparr>allocator_funs = default_allocator_funs, transport_funs = Socket_server_funs,
     ss_server = Some 0, ss_socket = 3, ss_num_conns = 1, ss_conns = conn # map free_slot [1, 2, 3]\<rparr>"

definition server_world :: "mem \<Rightarrow> answer list \<Rightarrow> lwpb_rpc_result_t list world" where
  "server_world m as = rpc_world0\<lparr>w_mem := [83, 0, 77, 0] @ m @ replicate (60 - length m) 0, w_answers := as\<rparr>"

lemma rpc_server_conns:
  "length (ss_conns (rpc_socket_server conn)) = 4" "ss_conns (rpc_socket_server conn) ! 0 = conn"
  "allocator_funs (rpc_socket_server conn) = default_allocator_funs" "ss_server (rpc_socket_server conn) = Some 0"
  "ss_socket (rpc_socket_server conn) = 3" "conn_socket conn \<noteq> - 1 \<Longrightarrow> high_socket (rpc_socket_server conn) = conn_socket conn"
  "deref [rpc_server] (Some 0) = Inr rpc_server"
  by (simp_all add: rpc_socket_server_def high_socket_def active_sockets_def free_slot_def)

lemma rpc_server_inv: "ss_inv (rpc_socket_server rpc_conn)" "conn_open rpc_conn"
  by (simp_all add: ss_inv_def rpc_socket_server_def conn_ok_def rpc_conn_def free_slot_def conn_open_def
      LWPB_TRANSPORT_SOCKET_SERVER_CONNS_def upt_rec)

lemma rpc_requested:
  "requested_method rpc_services rpc_server (\<lambda>_. [83]) (\<lambda>_. [77]) [83] [77] = Some (0, 0)"
  "requested_method rpc_services rpc_server (\<lambda>_. [83]) (\<lambda>_. [77]) [83] [78] = None"
  by (simp_all add: requested_method_def named_method_def named_service_def rpc_server_def rpc_services_def)

lemma server_world_sel:
  assumes "length m \<le> 60"
  shows "length (w_mem (server_world m as)) = 64" "w_answers (server_world m as) = as"
    "w_any (server_world m as) = rpc_any" "live_blocks (server_world m as) = {4}" "w_log (server_world m as) = []"
    "w_avail (server_world m as) = 4096" "peek (w_mem (server_world m as)) 4 (length m) = m"
    "names_are rpc_services (w_mem (server_world m as)) (\<lambda>_. [83]) (\<lambda>_. [77]) [0]"
  using assms rpc_named by (simp_all add: server_world_def rpc_world0_def live_blocks_def peek_def)

text \<open>The data of a packet that arrive behind \<open>m\<close>.\<close>

lemma server_world_recv:
  assumes "length m + length bs \<le> 60"
  shows "after_recv bs (4 + length m) as' (server_world m as) = server_world (m @ bs) as'"
proof -
  have "poke ([83, 0, 77, 0] @ m @ replicate (60 - length m) 0) (4 + length m) bs =
      [83, 0, 77, 0] @ (m @ bs) @ replicate (60 - length (m @ bs)) 0"
    using assms by (simp add: poke_def numeral_eq_Suc)
  then show ?thesis
    by (simp add: after_recv_def server_world_def)
qed

lemma server_world_request:
  assumes "length m \<le> 60" and "take (length (packet (request_header s t) [0])) m = packet (request_header s t) [0]"
    and "n = length m"
  shows "request_in rpc_services rpc_server (\<lambda>_. [83]) (\<lambda>_. [77]) 4 n s t [0] (server_world m as)"
proof -
  let ?n = "length (packet (request_header s t) [0])"
  have n: "?n \<le> length m"
    using assms(2) by (metis length_take min.cobounded1)
  then have "take ?n (peek (w_mem (server_world m as)) 4 (length m)) = peek (w_mem (server_world m as)) 4 ?n"
    by (simp add: peek_def)
  with n show ?thesis
    using assms by (simp add: request_in_def server_world_sel Let_def rpc_server_def)
qed

lemma malloc_mem: "c_malloc n w = (Some p, w1) \<Longrightarrow> \<exists>m. w_mem w1 = w_mem w @ m"
  by (auto simp: c_malloc_def Let_def split: if_splits)

lemma server_world_malloc:
  assumes "length m \<le> 60"
  obtains w1 where "c_malloc 1024 (server_world m as) = (Some 64, w1)"
    and "length (w_mem w1) = 1088" "w_any w1 = rpc_any" "live_blocks w1 = {4, 64}" "w_log w1 = []"
    and "peek (w_mem w1) 64 (unat (1 :: u64)) = [0]"
proof -
  have fresh: "peek (l @ fresh_bytes rpc_any p n) (length l) 1 = [0]" if "0 < n" for l p n
    using that by (cases n) (simp_all add: peek_def fresh_bytes_def rpc_any_def upt_rec del: upt_Suc)
  have "peek (w_mem (server_world m as) @ fresh_bytes rpc_any 64 1024) 64 1 = [0]"
    using fresh [of 1024 "w_mem (server_world m as)" 64] server_world_sel(1) [OF assms, of as] by simp
  then show thesis
    using server_world_sel [OF assms, of as] that by (auto simp: c_malloc_def Let_def live_blocks_def)
qed

text \<open>The call handler of the sample server answers with one byte of the response buffer.\<close>

lemma rpc_handler_answers:
  assumes "length (w_mem w) = 1088" "w_any w = rpc_any" "live_blocks w = {4, 64}" and "srv_call_handler rpc_server = Some h"
  shows "handler_answers h s md mtd req body 64 arg w 1 w"
  using assms(4) by (auto simp: handler_answers_def assms(1-3) rpc_server_def)

lemma rpc_server_ready: "server_ready (rpc_socket_server rpc_conn) 0 rpc_conn"
proof -
  have "conn_socket (ss_conns (rpc_socket_server rpc_conn) ! j) \<noteq> conn_socket rpc_conn"
    if "j < LWPB_TRANSPORT_SOCKET_SERVER_CONNS" "j \<noteq> 0" for j
    using that by (auto simp: LWPB_TRANSPORT_SOCKET_SERVER_CONNS_def rpc_socket_server_def free_slot_def rpc_conn_def less_Suc_eq_0_disj numeral_eq_Suc)
  then show ?thesis
    using rpc_server_inv rpc_server_conns by (simp add: server_ready_def rpc_conn_sel LWPB_TRANSPORT_SOCKET_SERVER_CONNS_def)
qed

lemma rpc_packet_recv:
  "after_recv rpc_packet 4 [] (server_world [] as) = server_world rpc_packet []"
  "room_for rpc_conn 4 4 rpc_packet (w_mem (server_world [] as))"
  "request_in rpc_services rpc_server (\<lambda>_. [83]) (\<lambda>_. [77]) 4 (4 + length rpc_packet - 4) [83] [77] [0] (server_world rpc_packet [])"
proof -
  have len: "length rpc_packet = 21" by (simp add: rpc_packet_def)
  show "after_recv rpc_packet 4 [] (server_world [] as) = server_world rpc_packet []"
    using server_world_recv [of "[]" rpc_packet "[]"] len by simp
  show "room_for rpc_conn 4 4 rpc_packet (w_mem (server_world [] as))"
    using server_world_sel(1) [of "[]"] by (simp add: room_for_def rpc_conn_def len) (simp add: rpc_packet_def)
  show "request_in rpc_services rpc_server (\<lambda>_. [83]) (\<lambda>_. [77]) 4 (4 + length rpc_packet - 4) [83] [77] [0] (server_world rpc_packet [])"
    by (rule server_world_request) (simp_all add: rpc_packet len)
qed

text \<open>The world in which the sample server runs its call handler.\<close>

lemma rpc_packet_served:
  obtains (served) h w1 where "srv_call_handler rpc_server = Some h" "c_malloc 1024 (server_world rpc_packet []) = (Some 64, w1)"
    and "\<And>req. handler_answers h s (0, 0) rpc_method req [0] 64 (srv_arg rpc_server) w1 1 w1"
    and "live_blocks w1 = {4, 64}" "w_log w1 = []" "peek (w_mem w1) 64 (unat (1 :: u64)) = [0]"
proof -
  have "length rpc_packet \<le> 60" by (simp add: rpc_packet_def)
  then obtain w1 where w1: "c_malloc 1024 (server_world rpc_packet []) = (Some 64, w1)" "length (w_mem w1) = 1088"
      "w_any w1 = rpc_any" "live_blocks w1 = {4, 64}" "w_log w1 = []" "peek (w_mem w1) 64 (unat (1 :: u64)) = [0]"
    using server_world_malloc [of rpc_packet "[]"] by blast
  obtain h where h: "srv_call_handler rpc_server = Some h" by (simp add: rpc_server_def)
  show thesis
    using served [OF h w1(1) rpc_handler_answers [OF w1(2-4) h] w1(4-6)] .
qed

lemma rpc_ready_answer:
  "w_answers (server_world [] [Ready_answer [5], Data_answer bs]) = Ready_answer [conn_socket rpc_conn] # Data_answer bs # []"
  by (simp add: server_world_sel rpc_conn_sel)

lemma server_answers_request_witness:
  "\<exists>ss' w3. lwpb_transport_socket_server_update rpc_services [rpc_server] (rpc_socket_server rpc_conn)
      (server_world [] [Ready_answer [5], Data_answer rpc_packet]) = Inr (Some LWPB_ERR_OK, ss', w3) \<and>
    w_log w3 = packet_sends 5 response_header [0] \<and> live_blocks w3 = {4}"
proof -
  let ?w = "server_world [] [Ready_answer [5], Data_answer rpc_packet]"
  obtain h w1 where w1: "srv_call_handler rpc_server = Some h" "c_malloc 1024 (server_world rpc_packet []) = (Some 64, w1)"
    and ans: "\<And>req. handler_answers h 0 (0, 0) rpc_method req [0] 64 (srv_arg rpc_server) w1 1 w1"
    and "live_blocks w1 = {4, 64}" "w_log w1 = []" "peek (w_mem w1) 64 (unat (1 :: u64)) = [0]"
    by (rule rpc_packet_served [of 0]) blast
  then show ?thesis
    using server_answers_request [where servers = "[rpc_server]" and w = ?w, OF rpc_server_ready rpc_ready_answer rpc_packet_recv(2) _ w1(1)
      _ rpc_requested(1) rpc_deref(1) _ _] rpc_packet_recv ans
    by (fastforce simp: rpc_server_conns rpc_conn_sel)
qed

text \<open>The connection when the packet was received and served, and one more byte arrives.\<close>

definition served_conn :: lwpb_socket_server_conn where
  "served_conn = rpc_conn\<lparr>conn_pos := Some 25\<rparr>"

lemma server_repeats_request_witness:
  "\<exists>ss' w3 x. handle_connection rpc_services [rpc_server] (rpc_socket_server served_conn) 0
      (server_world rpc_packet [Data_answer [222]]) = Inr (ss', w3) \<and> w_log w3 = packet_sends 5 response_header [x]"
proof -
  let ?w = "server_world rpc_packet [Data_answer [222]]"
  have len: "length rpc_packet = 21" by (simp add: rpc_packet_def)
  obtain h where h: "srv_call_handler rpc_server = Some h" by (simp add: rpc_server_def)
  have recv: "after_recv [222] 25 [] ?w = server_world (rpc_packet @ [222]) []"
    using server_world_recv [of rpc_packet "[222]" "[]"] len by simp
  obtain w1 where malloc: "c_malloc 1024 (server_world (rpc_packet @ [222]) []) = (Some 64, w1)"
    and w1: "length (w_mem w1) = 1088" "w_any w1 = rpc_any" "live_blocks w1 = {4, 64}" "w_log w1 = []"
    using len by (auto intro: server_world_malloc [of "rpc_packet @ [222]" "[]"])
  have room: "room_for served_conn 4 25 [222] (w_mem ?w)"
    using server_world_sel(1) [of rpc_packet] by (simp add: room_for_def served_conn_def rpc_conn_def len)
  have req: "request_in rpc_services rpc_server (\<lambda>_. [83]) (\<lambda>_. [77]) 4 (25 - 4) [83] [77] [0] ?w"
    by (rule server_world_request) (simp_all add: rpc_packet len)
  have "names_are rpc_services (w_mem (after_recv [222] 25 [] ?w)) (\<lambda>_. [83]) (\<lambda>_. [77]) l"
    if "srv_service_list rpc_server = Some l" for l
    using that server_world_sel(8) [of "rpc_packet @ [222]"] len by (simp add: recv rpc_server_def)
  moreover have "peek (w_mem w1) 64 (unat (1 :: u64)) = [w_mem w1 ! 64]"
    using w1(1) by (simp add: peek_def take_Suc_conv_app_nth hd_drop_conv_nth flip: hd_drop_conv_nth)
  ultimately show ?thesis
    using server_repeats_request [where servers = "[rpc_server]" and i = 0 and ss = "rpc_socket_server served_conn", OF _ _ _ _ room _ h req
      _ _ rpc_requested(1) rpc_deref(1) malloc [folded recv] rpc_handler_answers [OF w1(1-3) h]] w1 len
    by (auto simp: rpc_server_conns served_conn_def rpc_conn_sel server_world_sel)
qed

text \<open>A request for a method "N", which the server does not have.\<close>

definition unknown_packet :: "u8 list" where
  "unknown_packet = [222, 173, 190, 175, 0, 0, 0, 8, 0, 0, 0, 1, 8, 0, 18, 1, 83, 26, 1, 78, 0]"

lemma unknown_packet: "packet (request_header [83] [78]) [0] = unknown_packet"
  by code_simp

lemma server_crashes_on_unknown_method_witness:
  "handle_connection rpc_services [rpc_server] (rpc_socket_server rpc_conn) 0 (server_world [] [Data_answer unknown_packet]) =
    Inl Fault"
proof -
  let ?w = "server_world [] [Data_answer unknown_packet]"
  have len: "length unknown_packet = 21" by (simp add: unknown_packet_def)
  have recv: "after_recv unknown_packet 4 [] ?w = server_world unknown_packet []"
    using server_world_recv [of "[]" unknown_packet "[]"] len by simp
  have room: "room_for rpc_conn 4 4 unknown_packet (w_mem ?w)"
    using server_world_sel(1) [of "[]"] by (simp add: room_for_def rpc_conn_def len) (simp add: unknown_packet_def)
  have req: "request_in rpc_services rpc_server (\<lambda>_. [83]) (\<lambda>_. [77]) 4 (4 + length unknown_packet - 4) [83] [78] [0]
      (after_recv unknown_packet 4 [] ?w)"
    unfolding recv by (rule server_world_request) (simp_all add: unknown_packet len)
  have "srv_call_handler rpc_server \<noteq> None"
    by (simp add: rpc_server_def)
  then show ?thesis
    by (intro server_crashes_on_unknown_method [OF _ _ _ _ room _ _ req rpc_requested(2)])
      (simp_all add: rpc_server_conns server_world_sel)
qed

lemma server_close_keeps_socket_witness:
  "\<exists>ss' w'. lwpb_transport_socket_server_close (rpc_socket_server rpc_conn) (server_world [] []) = (ss', w') \<and>
    lwpb_transport_socket_server_open ss' w' = Inr (LWPB_ERR_OK, ss', w')"
proof -
  obtain ss' w' where close: "lwpb_transport_socket_server_close (rpc_socket_server rpc_conn) (server_world [] []) = (ss', w')"
    by force
  with server_close_keeps_socket [OF _ close, of w'] show ?thesis
    by (simp add: rpc_server_conns)
qed

text \<open>The listening socket has descriptor 6, above that of the connection.\<close>

lemma server_ignores_listening_socket_witness:
  "lwpb_transport_socket_server_update rpc_services [rpc_server] ((rpc_socket_server rpc_conn)\<lparr>ss_socket := 6\<rparr>)
     (server_world [] [Ready_answer [6]]) =
   Inr (Some LWPB_ERR_OK, (rpc_socket_server rpc_conn)\<lparr>ss_socket := 6\<rparr>, (server_world [] [Ready_answer [6]])\<lparr>w_answers := []\<rparr>)"
proof (rule server_ignores_listening_socket)
  show "high_socket ((rpc_socket_server rpc_conn)\<lparr>ss_socket := 6\<rparr>) < ss_socket ((rpc_socket_server rpc_conn)\<lparr>ss_socket := 6\<rparr>)"
    by (simp add: high_socket_def active_sockets_def rpc_socket_server_def rpc_conn_def free_slot_def)
  show "conn_socket conn \<notin> set [6]" if "conn \<in> set (ss_conns ((rpc_socket_server rpc_conn)\<lparr>ss_socket := 6\<rparr>))" for conn
    using that by (auto simp: rpc_socket_server_def rpc_conn_def free_slot_def)
qed (simp_all add: server_world_sel)

text \<open>A process whose server transport was initialised, and is then updated before it is opened.\<close>

definition server_process :: "lwpb_rpc_result_t list socket_server_rpc" where
  "server_process = \<lparr>rpc_transports = [lwpb_transport_socket_server_init (rpc_socket_server rpc_conn)],
     rpc_clients = [], rpc_servers = [rpc_server], rpc_world = rpc_world0\<rparr>"

definition accepting_world :: "lwpb_rpc_result_t list world" where
  "accepting_world = rpc_world0\<lparr>w_answers := map Int_answer [0, 3, 0, 0, 0, 0, 0]\<rparr>"

lemma server_connections_counted_witness:
  "\<exists>st' ss. (socket_server_step rpc_services)\<^sup>*\<^sup>* server_process st' \<and> rpc_transports st' = [ss] \<and> ss_socket ss = 3 \<and>
    ss_num_conns ss = 0"
proof -
  let ?ss = "lwpb_transport_socket_server_init (rpc_socket_server rpc_conn)"
  let ?st1 = "server_process\<lparr>rpc_world := accepting_world\<rparr>"
  obtain w where "lwpb_transport_socket_server_open ?ss accepting_world = Inr (LWPB_ERR_OK, ?ss\<lparr>ss_socket := 3\<rparr>, w)"
    by (simp add: lwpb_transport_socket_server_open_def lwpb_transport_socket_server_init_def sys_int_def accepting_world_def
        make_nonblock_def Let_def)
  then have "socket_server_step rpc_services ?st1 (set_socket_server 0 (?ss\<lparr>ss_socket := 3\<rparr>) w ?st1)"
    by (intro server_open) (simp_all add: server_process_def)
  from converse_rtranclp_into_rtranclp [OF server_world r_into_rtranclp [of "socket_server_step rpc_services", OF this]]
  have run: "(socket_server_step rpc_services)\<^sup>*\<^sup>* server_process (set_socket_server 0 (?ss\<lparr>ss_socket := 3\<rparr>) w ?st1)"
    .
  have ss: "rpc_transports (set_socket_server 0 (?ss\<lparr>ss_socket := 3\<rparr>) w ?st1) = [?ss\<lparr>ss_socket := 3\<rparr>]"
    by (simp add: set_socket_server_def server_process_def)
  have "filter conn_open (ss_conns (?ss\<lparr>ss_socket := 3\<rparr>)) = []"
    by (simp add: lwpb_transport_socket_server_init_def conn_open_def filter_empty_conv)
  moreover have "rpc_ok server_process"
    by (simp add: rpc_ok_def server_process_def rpc_server_def)
  moreover have "\<exists>ss0. ss = lwpb_transport_socket_server_init ss0" if "ss \<in> set (rpc_transports server_process)" for ss
    using that by (auto simp: server_process_def)
  ultimately have "ss_num_conns (?ss\<lparr>ss_socket := 3\<rparr>) = 0"
    using server_connections_counted [OF run, of "?ss\<lparr>ss_socket := 3\<rparr>"] ss by simp
  with run ss show ?thesis
    by (intro exI [of _ "set_socket_server 0 (?ss\<lparr>ss_socket := 3\<rparr>) w ?st1"] exI [of _ "?ss\<lparr>ss_socket := 3\<rparr>"]) simp
qed

section \<open>The socket client\<close>

definition rpc_socket_client :: "lwpb_rpc_result_t list lwpb_transport_socket_client" where
  "rpc_socket_client = \<lparr>allocator_funs = default_allocator_funs, transport_funs = Socket_client_funs, sc_client = Some 0,
     sc_socket = 5, sc_buf = Some 4, sc_pos = Some 4, sc_len = 60, sc_last_method = None\<rparr>"

lemma rpc_makes_request:
  obtains w1 where "makes_request rpc_services rpc_socket_client 0 (rpc_client None) (0, 0) [83] [77] 64 [0] (server_world [] []) w1"
    and "live_blocks w1 = {4, 64}" "w_log w1 = []"
proof -
  obtain w1 where malloc: "c_malloc 1024 (server_world [] []) = (Some 64, w1)"
    and w1: "length (w_mem w1) = 1088" "w_any w1 = rpc_any" "live_blocks w1 = {4, 64}" "w_log w1 = []"
      "peek (w_mem w1) 64 (unat (1 :: u64)) = [0]"
    using server_world_malloc [of "[]" "[]"] by auto
  have "c_string (w_mem w1) (svc_name (rpc_services ! 0)) [83]" "c_string (w_mem w1) (mtd_name rpc_method) [77]"
    using malloc_mem [OF malloc] rpc_strings by (auto simp: server_world_def)
  moreover obtain h where "cl_request_handler (rpc_client None) = Some h" "h 0 (0, 0) (mtd_req_desc rpc_method) (Some 64) 1024
      (cl_arg (rpc_client None)) w1 = Inr (LWPB_ERR_OK, 1, w1)"
    by (simp add: rpc_client_def)
  ultimately have "makes_request rpc_services rpc_socket_client 0 (rpc_client None) (0, 0) [83] [77] 64
      (peek (w_mem w1) 64 (unat (1 :: u64))) (server_world [] []) w1"
    using malloc rpc_deref w1 by (fastforce simp: makes_request_def rpc_socket_client_def)
  with w1 show thesis
    using that by simp
qed

lemma client_call_sends_witness:
  "\<exists>w3. client_call rpc_services rpc_socket_client 0 (rpc_client None) (0, 0) (server_world [] []) =
      Inr (LWPB_ERR_OK, rpc_socket_client\<lparr>sc_last_method := Some (0, 0)\<rparr>, w3) \<and>
    w_log w3 = packet_sends 5 (request_header [83] [77]) [0] \<and> live_blocks w3 = {4}"
proof -
  obtain w1 where "makes_request rpc_services rpc_socket_client 0 (rpc_client None) (0, 0) [83] [77] 64 [0] (server_world [] []) w1"
    and "live_blocks w1 = {4, 64}" "w_log w1 = []"
    using rpc_makes_request .
  then show ?thesis
    using client_call_sends [of rpc_services rpc_socket_client] by (fastforce simp: rpc_socket_client_def)
qed

text \<open>
  A response of one byte, for a client that has called the method; and one more byte that arrives after
  it.
\<close>

definition rpc_response :: "u8 list" where
  "rpc_response = [222, 173, 190, 175, 0, 0, 0, 2, 0, 0, 0, 1, 8, 1, 0]"

lemma rpc_response: "packet response_header [0] = rpc_response" "length (header_bytes response_header) = 2"
  by code_simp+

definition waiting_client :: "addr \<Rightarrow> lwpb_rpc_result_t list lwpb_transport_socket_client" where
  "waiting_client p = rpc_socket_client\<lparr>sc_pos := Some p, sc_last_method := Some (0, 0)\<rparr>"

lemma waiting_client_sel:
  "sc_socket (waiting_client p) = 5" "sc_last_method (waiting_client p) = Some (0, 0)" "sc_client (waiting_client p) = Some 0"
  "sc_pos (waiting_client p) = Some p"
  by (simp_all add: waiting_client_def rpc_socket_client_def)

lemma waiting_client_room:
  assumes "length m + length bs \<le> 60" "bs \<noteq> []"
  shows "client_room (waiting_client (4 + length m)) 4 (4 + length m) bs (w_mem (server_world m as))"
  using assms server_world_sel(1) [of m as] by (simp add: client_room_def waiting_client_def rpc_socket_client_def room_at_def)

lemma response_in_world:
  assumes "length m \<le> 60" and "take 15 m = rpc_response" and "n = length m"
  shows "response_in 4 n [0] (server_world m as)"
proof -
  have n: "15 \<le> length m"
    using arg_cong [OF assms(2), of length] by (simp add: rpc_response_def)
  then have "take 15 (peek (w_mem (server_world m as)) 4 (length m)) = peek (w_mem (server_world m as)) 4 15"
    by (simp add: peek_def)
  then have "peek (w_mem (server_world m as)) 4 15 = rpc_response"
    using assms by (simp add: server_world_sel)
  moreover have "length rpc_response = 15"
    by (simp add: rpc_response_def)
  ultimately show ?thesis
    using n assms(1,3) by (simp add: response_in_def server_world_sel Let_def rpc_response)
qed

lemma client_delivers_response_witness:
  "lwpb_transport_socket_client_update rpc_services [rpc_client None] (waiting_client 4)
      (server_world [] [Ready_answer [5], Data_answer rpc_response]) =
    Inr (Some LWPB_ERR_OK, (waiting_client 4)\<lparr>sc_pos := Some 19\<rparr>, server_world rpc_response [])"
proof -
  let ?w = "server_world [] [Ready_answer [5], Data_answer rpc_response]"
  have len: "length rpc_response = 15" and ne: "rpc_response \<noteq> []" by (simp_all add: rpc_response_def)
  have recv: "after_recv rpc_response 4 [] ?w = server_world rpc_response []"
    using server_world_recv [of "[]" rpc_response "[]"] len by simp
  have "client_room (waiting_client 4) 4 4 rpc_response (w_mem ?w)"
    using waiting_client_room [of "[]" rpc_response] len ne by simp
  moreover have "response_in 4 (4 + length rpc_response - 4) [0] (after_recv rpc_response 4 [] ?w)"
    unfolding recv by (rule response_in_world) (simp_all add: len)
  ultimately show ?thesis
    using client_delivers_response [of "waiting_client 4" ?w rpc_response "[]" 4 4 "[0]" "[rpc_client None]" "rpc_client None"]
      len rpc_deref(1)
    by (simp add: waiting_client_sel server_world_sel recv rpc_client_def)
qed

lemma client_repeats_response_witness:
  "handle_data rpc_services [rpc_client None] (waiting_client 19) (server_world rpc_response [Data_answer [222]]) =
    Inr ((waiting_client 19)\<lparr>sc_pos := Some 20\<rparr>, server_world (rpc_response @ [222]) [])"
proof -
  let ?w = "server_world rpc_response [Data_answer [222]]"
  have len: "length rpc_response = 15" by (simp add: rpc_response_def)
  have recv: "after_recv [222] 19 [] ?w = server_world (rpc_response @ [222]) []"
    using server_world_recv [of rpc_response "[222]" "[]"] len by simp
  have "client_room (waiting_client 19) 4 19 [222] (w_mem ?w)"
    using waiting_client_room [of rpc_response "[222]"] len by simp
  moreover have "response_in 4 (19 - 4) [0] ?w"
    by (rule response_in_world) (simp_all add: len)
  ultimately show ?thesis
    using client_repeats_response [of ?w "[222]" "[]" "waiting_client 19" 4 19 "[0]" "[rpc_client None]" "rpc_client None"]
      rpc_deref(1) len
    by (simp add: waiting_client_sel server_world_sel recv rpc_client_def)
qed

lemma client_close_twice_frees_twice_witness:
  "\<exists>sc' w'. lwpb_transport_socket_client_close rpc_socket_client rpc_world0 = Inr (sc', w') \<and>
    lwpb_transport_socket_client_close sc' w' = Inl Undef"
proof -
  obtain sc' w' where close: "lwpb_transport_socket_client_close rpc_socket_client rpc_world0 = Inr (sc', w')"
    by (simp add: lwpb_transport_socket_client_close_def rpc_socket_client_def lwpb_transport_free_buf_def
        default_allocator_funs_def default_free_buf_def c_free_def rpc_world0_def)
  then show ?thesis
    using client_close_twice_frees_twice [OF _ _ _ close, of 4] by (simp add: rpc_socket_client_def)
qed

section \<open>Both ends of a connection\<close>

lemma rpc_client_called:
  obtains (called) w2 w3 where
    "makes_request rpc_services rpc_socket_client 0 (rpc_client None) (0, 0) [83] [77] 64 [0] (server_world [] []) w2"
    and "client_call rpc_services rpc_socket_client 0 (rpc_client None) (0, 0) (server_world [] []) =
      Inr (LWPB_ERR_OK, waiting_client 4, w3)"
    and "received 5 (drop (length (w_log w2)) (w_log w3)) = rpc_packet" "received 5 (w_log w3) = rpc_packet"
proof -
  obtain w2 where made: "makes_request rpc_services rpc_socket_client 0 (rpc_client None) (0, 0) [83] [77] 64 [0] (server_world [] []) w2"
    and log: "w_log w2 = []"
    using rpc_makes_request .
  from made obtain w3 where "client_call rpc_services rpc_socket_client 0 (rpc_client None) (0, 0) (server_world [] []) =
      Inr (LWPB_ERR_OK, rpc_socket_client\<lparr>sc_last_method := Some (0, 0)\<rparr>, w3)"
    and "w_log w3 = w_log w2 @ packet_sends (sc_socket rpc_socket_client) (request_header [83] [77]) [0]"
    using makes_request_log by blast
  then show thesis
    using called [OF made] log
    by (simp add: waiting_client_def rpc_socket_client_def received_packet rpc_packet)
qed

lemma rpc_packet_answered:
  obtains (answered) h w1 ss' w3 where "srv_call_handler rpc_server = Some h"
    and "c_malloc 1024 (server_world rpc_packet []) = (Some 64, w1)"
    and "\<And>req. handler_answers h 0 (0, 0) rpc_method req [0] 64 (srv_arg rpc_server) w1 1 w1"
    and "lwpb_transport_socket_server_update rpc_services [rpc_server] (rpc_socket_server rpc_conn)
      (server_world [] [Ready_answer [5], Data_answer rpc_packet]) = Inr (Some LWPB_ERR_OK, ss', w3)"
    and "received 5 (drop (length (w_log w1)) (w_log w3)) = rpc_response" "received 5 (w_log w3) = rpc_response"
proof -
  let ?w = "server_world [] [Data_answer rpc_packet]"
  obtain h w1 where h: "srv_call_handler rpc_server = Some h" and malloc: "c_malloc 1024 (server_world rpc_packet []) = (Some 64, w1)"
    and ans: "\<And>req. handler_answers h 0 (0, 0) rpc_method req [0] 64 (srv_arg rpc_server) w1 1 w1"
    and log: "w_log w1 = []" and res: "peek (w_mem w1) 64 (unat (1 :: u64)) = [0]"
    by (rule rpc_packet_served [of 0]) blast
  have w: "w_answers ?w = Data_answer rpc_packet # []" "(server_world [] [Ready_answer [5], Data_answer rpc_packet])\<lparr>w_answers := [Data_answer rpc_packet]\<rparr> = ?w"
    by (simp_all add: server_world_def)
  note recv = rpc_packet_recv(1) [of "[Data_answer rpc_packet]"]
  obtain w3 where one: "handle_connection rpc_services [rpc_server] (rpc_socket_server rpc_conn) 0 ?w =
      Inr ((rpc_socket_server rpc_conn)\<lparr>ss_conns := (ss_conns (rpc_socket_server rpc_conn))[0 := rpc_conn\<lparr>conn_pos := Some (4 + length rpc_packet)\<rparr>]\<rparr>, w3)"
    and w3: "w_log w3 = packet_sends 5 response_header [0]"
    using handle_connection_serves [where servers = "[rpc_server]", OF server_readyD [OF rpc_server_ready] w(1) rpc_packet_recv(2)
      _ h rpc_packet_recv(3) [folded recv] rpc_requested(1) rpc_deref(1) malloc [folded recv], of 1 w1] ans
    by (auto simp only: rpc_server_conns(4,7) option.sel log res rpc_conn_sel append_Nil)
  show thesis
    using answered [OF h malloc ans server_update_ready [OF rpc_server_ready rpc_ready_answer one [folded w(2)]]]
    by (simp add: w3 log received_packet rpc_response)
qed

end
