(* ===== verification/Struct_Decoder.thy ===== *)
theory Struct_Decoder
  imports Decoder_Run
begin

text \<open>
  The decoder into C structures of src/src/lwpb/utils/struct_decoder.c, with the struct maps of
  src/src/include/lwpb/utils/struct_map.h: handlers for the streaming decoder that store every field at
  the place that a map assigns to it.

  The structure that is decoded into is an object of its own, apart from the encoded data.
\<close>

section \<open>Struct maps\<close>

type_synonym map_ref = nat
type_synonym map_field_ref = "map_ref \<times> nat"

text \<open>
  The member \<open>len\<close> is the length of an element, and for message fields the pointer to the map of the
  nested structure, cast to size_t. The terminator of the \<open>fields\<close> array is the end of the list.
\<close>

datatype map_len = Len u64 | Sub_map map_ref

record lwpb_struct_map_field =
  smf_field_desc :: field_ref
  smf_ofs :: u32
  smf_len :: map_len
  smf_count :: u64

record lwpb_struct_map =
  sm_msg_desc :: msg_ref
  sm_struct_size :: u64
  sm_fields :: "lwpb_struct_map_field list"

type_synonym struct_maps = "lwpb_struct_map list"

definition deref_map_field :: "struct_maps \<Rightarrow> map_field_ref option \<Rightarrow> lwpb_struct_map_field run" where
  "deref_map_field maps p = (case p of None \<Rightarrow> Inl Fault
     | Some (i, k) \<Rightarrow> andthen (deref maps (Some i)) (\<lambda>map. deref (sm_fields map) (Some k)))"

text \<open>Reading \<open>len\<close> as a length, and casting it to a map. A pointer used as a length is arbitrary.\<close>

fun len_of :: "map_len \<Rightarrow> u64 run" where
  "len_of (Len n) = Inr n"
| "len_of (Sub_map _) = Inl Undef"

fun map_of_len :: "map_len \<Rightarrow> map_ref run" where
  "map_of_len (Len _) = Inl Fault"
| "map_of_len (Sub_map i) = Inr i"

section \<open>The struct decoder\<close>

record lwpb_struct_decoder_stack_frame =
  sf_map :: "map_ref option"
  sf_base :: addr
  sf_last_field :: "map_field_ref option"
  sf_field_index :: int

text \<open>The handlers of the client run on its argument; they also may read and write the structure.\<close>

type_synonym 's sd_msg_handler = "msg_ref \<Rightarrow> mem \<Rightarrow> 's \<Rightarrow> (mem \<times> 's) run"

type_synonym 's sd_field_handler =
  "msg_ref option \<Rightarrow> field_ref \<Rightarrow> lwpb_value option \<Rightarrow> mem \<Rightarrow> 's \<Rightarrow> (mem \<times> 's) run"

text \<open>
  The member \<open>decoder\<close> has the struct decoder as its argument, so here the struct decoder is contained
  in it. \<open>sd_mem\<close> is the memory of the structure, and \<open>sd_data\<close> the memory of the encoded data.
\<close>

record 's lwpb_struct_decoder =
  sd_arg :: 's
  sd_msg_start_handler :: "'s sd_msg_handler option"
  sd_msg_end_handler :: "'s sd_msg_handler option"
  sd_field_handler :: "'s sd_field_handler option"
  sd_stack :: "lwpb_struct_decoder_stack_frame list"
  sd_depth :: int
  sd_mem :: mem
  sd_data :: mem

definition sd_get :: "int \<Rightarrow> 's lwpb_struct_decoder \<Rightarrow> lwpb_struct_decoder_stack_frame run" where
  "sd_get i sd = (if 0 \<le> i \<and> i < int (length (sd_stack sd)) then Inr (sd_stack sd ! nat i) else Inl Fault)"

definition sd_put ::
    "int \<Rightarrow> lwpb_struct_decoder_stack_frame \<Rightarrow> 's lwpb_struct_decoder \<Rightarrow> 's lwpb_struct_decoder run" where
  "sd_put i frame sd = (if 0 \<le> i \<and> i < int (length (sd_stack sd))
     then Inr (sd\<lparr>sd_stack := (sd_stack sd)[nat i := frame]\<rparr>) else Inl Fault)"

text \<open>Incrementing the index, an int.\<close>

definition next_index :: "lwpb_struct_decoder_stack_frame \<Rightarrow> lwpb_struct_decoder_stack_frame run" where
  "next_index frame = (if sf_field_index frame = 2 ^ 31 - 1 then Inl Undef
     else Inr (frame\<lparr>sf_field_index := sf_field_index frame + 1\<rparr>))"

section \<open>Storing a field\<close>

text \<open>A function that ends without a return statement has no value.\<close>

fun find_map_field :: "nat \<Rightarrow> lwpb_struct_map_field list \<Rightarrow> field_ref \<Rightarrow> nat run" where
  "find_map_field k [] fr = Inl Undef"
| "find_map_field k (f # fs) fr = (if smf_field_desc f = fr then Inr k else find_map_field (Suc k) fs fr)"

text \<open>FIELD_BASE: the index is converted to size_t for the multiplication.\<close>

definition field_base :: "lwpb_struct_map_field \<Rightarrow> u64 \<Rightarrow> lwpb_struct_decoder_stack_frame \<Rightarrow> addr" where
  "field_base field len frame =
     sf_base frame + unat (smf_ofs field) + unat (len * of_int (sf_field_index frame))"

text \<open>A member of fixed size, stored in little-endian order as the values are.\<close>

definition unpack_member ::
    "nat \<Rightarrow> (lwpb_value \<Rightarrow> 'w::len word run) \<Rightarrow> lwpb_struct_map_field \<Rightarrow> lwpb_struct_decoder_stack_frame \<Rightarrow>
     lwpb_value option \<Rightarrow> mem \<Rightarrow> (mem \<times> lwpb_struct_decoder_stack_frame) run" where
  "unpack_member n get field frame value m =
     andthen (len_of (smf_len field)) (\<lambda>len.
     andthen (lwpb_assert (len = of_nat n)) (\<lambda>_.
     andthen (the_value value) (\<lambda>v. andthen (get v) (\<lambda>x.
     andthen (stores m (field_base field len frame) (le_bytes n x)) (\<lambda>m.
     andthen (next_index frame) (\<lambda>frame. Inr (m, frame)))))))"

text \<open>
  Strings are copied with the character behind them, whose place then gets the terminator. Lengths are
  computed as size_t.
\<close>

definition unpack_string ::
    "mem \<Rightarrow> lwpb_struct_map_field \<Rightarrow> lwpb_struct_decoder_stack_frame \<Rightarrow> lwpb_value option \<Rightarrow> mem \<Rightarrow>
     (mem \<times> lwpb_struct_decoder_stack_frame) run" where
  "unpack_string data field frame value m =
     andthen (len_of (smf_len field)) (\<lambda>flen.
     andthen (the_value value) (\<lambda>v. andthen (value_ptr v) (\<lambda>(str, n).
       let len = if flen < n + 1 then flen else n + 1; p = field_base field flen frame in
       andthen (loads data str (unat len)) (\<lambda>bs.
       andthen (stores m p bs) (\<lambda>m.
       andthen (store m (p + unat (len - 1)) 0) (\<lambda>m.
       andthen (next_index frame) (\<lambda>frame. Inr (m, frame))))))))"

definition unpack_bytes ::
    "mem \<Rightarrow> lwpb_struct_map_field \<Rightarrow> lwpb_struct_decoder_stack_frame \<Rightarrow> lwpb_value option \<Rightarrow> mem \<Rightarrow>
     (mem \<times> lwpb_struct_decoder_stack_frame) run" where
  "unpack_bytes data field frame value m =
     andthen (len_of (smf_len field)) (\<lambda>flen.
     andthen (the_value value) (\<lambda>v. andthen (value_ptr v) (\<lambda>(ptr, n).
       let len = if flen < n then flen else n in
       andthen (loads data ptr (unat len)) (\<lambda>bs.
       andthen (stores m (field_base field flen frame) bs) (\<lambda>m.
       andthen (next_index frame) (\<lambda>frame. Inr (m, frame)))))))"

text \<open>The switch over the type of the field.\<close>

definition unpack_value ::
    "field_typ \<Rightarrow> mem \<Rightarrow> lwpb_struct_map_field \<Rightarrow> lwpb_struct_decoder_stack_frame \<Rightarrow> lwpb_value option \<Rightarrow> mem \<Rightarrow>
     (mem \<times> lwpb_struct_decoder_stack_frame) run" where
  "unpack_value t data field frame value m = (case t of
       LWPB_DOUBLE \<Rightarrow> unpack_member 8 value_lo64 field frame value m
     | LWPB_FLOAT \<Rightarrow> unpack_member 4 value_lo32 field frame value m
     | LWPB_INT32 \<Rightarrow> unpack_member 4 value_lo32 field frame value m
     | LWPB_SINT32 \<Rightarrow> unpack_member 4 value_lo32 field frame value m
     | LWPB_SFIXED32 \<Rightarrow> unpack_member 4 value_lo32 field frame value m
     | LWPB_UINT32 \<Rightarrow> unpack_member 4 value_lo32 field frame value m
     | LWPB_FIXED32 \<Rightarrow> unpack_member 4 value_lo32 field frame value m
     | LWPB_INT64 \<Rightarrow> unpack_member 8 value_lo64 field frame value m
     | LWPB_SINT64 \<Rightarrow> unpack_member 8 value_lo64 field frame value m
     | LWPB_SFIXED64 \<Rightarrow> unpack_member 8 value_lo64 field frame value m
     | LWPB_UINT64 \<Rightarrow> unpack_member 8 value_lo64 field frame value m
     | LWPB_FIXED64 \<Rightarrow> unpack_member 8 value_lo64 field frame value m
     | LWPB_BOOL \<Rightarrow> unpack_member 4 value_lo32 field frame value m
     | LWPB_ENUM \<Rightarrow> unpack_member 4 value_lo32 field frame value m
     | LWPB_STRING \<Rightarrow> unpack_string data field frame value m
     | LWPB_BYTES \<Rightarrow> unpack_bytes data field frame value m
     | _ \<Rightarrow> Inr (m, frame))"

text \<open>The guard of the switch compares the count of the field with itself.\<close>

definition unpack_field ::
    "descs \<Rightarrow> struct_maps \<Rightarrow> map_field_ref \<Rightarrow> lwpb_value option \<Rightarrow> 's lwpb_struct_decoder \<Rightarrow> 's lwpb_struct_decoder run" where
  "unpack_field ds maps fp value sd =
     andthen (sd_get (sd_depth sd) sd) (\<lambda>frame.
     let frame = (if sf_last_field frame \<noteq> Some fp then frame\<lparr>sf_field_index := 0\<rparr> else frame)\<lparr>sf_last_field := Some fp\<rparr> in
     andthen (deref_map_field maps (Some fp)) (\<lambda>field.
     andthen (if smf_count field \<le> smf_count field then
         andthen (deref_field ds (Some (smf_field_desc field))) (\<lambda>fd.
           unpack_value (opt_typ (opts fd)) (sd_data sd) field frame value (sd_mem sd))
       else Inr (sd_mem sd, frame)) (\<lambda>(m, frame).
     sd_put (sd_depth sd) frame (sd\<lparr>sd_mem := m\<rparr>))))"

section \<open>The handlers\<close>

text \<open>Calling a handler of the client if it is set.\<close>

definition client_handler ::
    "(mem \<Rightarrow> 's \<Rightarrow> (mem \<times> 's) run) option \<Rightarrow> 's lwpb_struct_decoder \<Rightarrow> 's lwpb_struct_decoder run" where
  "client_handler h sd = (case h of None \<Rightarrow> Inr sd
     | Some h \<Rightarrow> andthen (h (sd_mem sd) (sd_arg sd)) (\<lambda>(m, s). Inr (sd\<lparr>sd_mem := m, sd_arg := s\<rparr>)))"

text \<open>The frame of a nested structure, from the last field of the enclosing one.\<close>

definition sd_nested :: "struct_maps \<Rightarrow> 's lwpb_struct_decoder \<Rightarrow> 's lwpb_struct_decoder run" where
  "sd_nested maps sd =
     andthen (sd_get (sd_depth sd - 1) sd) (\<lambda>last_frame.
     andthen (deref_map_field maps (sf_last_field last_frame)) (\<lambda>field.
     andthen (map_of_len (smf_len field)) (\<lambda>mr.
     andthen (deref maps (Some mr)) (\<lambda>map.
     andthen (sd_put (sd_depth sd) \<lparr>sf_map = Some mr,
         sf_base = sf_base last_frame + unat (smf_ofs field) + unat (sm_struct_size map * of_int (sf_field_index last_frame)),
         sf_last_field = None, sf_field_index = 0\<rparr> sd) (\<lambda>sd.
     andthen (next_index last_frame) (\<lambda>last_frame.
     sd_put (sd_depth sd - 1) last_frame sd))))))"

definition sdecoder_msg_start_handler :: "struct_maps \<Rightarrow> 's lwpb_struct_decoder msg_handler" where
  "sdecoder_msg_start_handler maps packed msg_desc sd =
     (let sd = sd\<lparr>sd_depth := sd_depth sd + 1\<rparr> in
      andthen (if 0 < sd_depth sd then sd_nested maps sd else Inr sd) (\<lambda>sd.
      andthen (sd_get (sd_depth sd) sd) (\<lambda>frame.
      andthen (deref maps (sf_map frame)) (\<lambda>map.
      andthen (lwpb_assert (sm_msg_desc map = msg_desc)) (\<lambda>_.
        client_handler (map_option (\<lambda>h. h msg_desc) (sd_msg_start_handler sd)) sd)))))"

definition sdecoder_msg_end_handler :: "'s lwpb_struct_decoder msg_handler" where
  "sdecoder_msg_end_handler packed msg_desc sd =
     (let sd = sd\<lparr>sd_depth := sd_depth sd - 1\<rparr> in
      client_handler (map_option (\<lambda>h. h msg_desc) (sd_msg_end_handler sd)) sd)"

definition sdecoder_field_handler :: "descs \<Rightarrow> struct_maps \<Rightarrow> 's lwpb_struct_decoder fld_handler" where
  "sdecoder_field_handler ds maps packed msg_desc field_desc value sd =
     andthen (sd_get (sd_depth sd) sd) (\<lambda>frame.
     andthen (deref maps (sf_map frame)) (\<lambda>map.
     andthen (find_map_field 0 (sm_fields map) field_desc) (\<lambda>k.
     andthen (unpack_field ds maps (the (sf_map frame), k) value sd) (\<lambda>sd.
       client_handler (map_option (\<lambda>h. h msg_desc field_desc value) (sd_field_handler sd)) sd))))"

section \<open>The interface\<close>

text \<open>\<open>null\<close> stands for the NULL argument.\<close>

definition lwpb_struct_decoder_init ::
    "descs \<Rightarrow> struct_maps \<Rightarrow> 's \<Rightarrow> 's lwpb_struct_decoder lwpb_decoder \<Rightarrow> 's lwpb_struct_decoder lwpb_decoder" where
  "lwpb_struct_decoder_init ds maps null dec =
     (let sd = dec_arg dec;
          dec = lwpb_decoder_arg (lwpb_decoder_init sd dec) sd;
          dec = lwpb_decoder_msg_handler dec (Some (sdecoder_msg_start_handler maps)) (Some sdecoder_msg_end_handler);
          dec = lwpb_decoder_field_handler dec (Some (sdecoder_field_handler ds maps))
      in dec\<lparr>dec_arg := sd\<lparr>sd_arg := null, sd_msg_start_handler := None, sd_msg_end_handler := None,
           sd_field_handler := None\<rparr>\<rparr>)"

definition lwpb_struct_decoder_arg ::
    "'s lwpb_struct_decoder lwpb_decoder \<Rightarrow> 's \<Rightarrow> 's lwpb_struct_decoder lwpb_decoder" where
  "lwpb_struct_decoder_arg dec arg = dec\<lparr>dec_arg := (dec_arg dec)\<lparr>sd_arg := arg\<rparr>\<rparr>"

definition lwpb_struct_decoder_msg_handler ::
    "'s lwpb_struct_decoder lwpb_decoder \<Rightarrow> 's sd_msg_handler option \<Rightarrow> 's sd_msg_handler option \<Rightarrow>
     's lwpb_struct_decoder lwpb_decoder" where
  "lwpb_struct_decoder_msg_handler dec start_handler end_handler =
     dec\<lparr>dec_arg := (dec_arg dec)\<lparr>sd_msg_start_handler := start_handler, sd_msg_end_handler := end_handler\<rparr>\<rparr>"

definition lwpb_struct_decoder_field_handler ::
    "'s lwpb_struct_decoder lwpb_decoder \<Rightarrow> 's sd_field_handler option \<Rightarrow> 's lwpb_struct_decoder lwpb_decoder" where
  "lwpb_struct_decoder_field_handler dec handler = dec\<lparr>dec_arg := (dec_arg dec)\<lparr>sd_field_handler := handler\<rparr>\<rparr>"

text \<open>\<open>m\<close> is the memory of the encoded data.\<close>

definition lwpb_struct_decoder_decode ::
    "descs \<Rightarrow> struct_maps \<Rightarrow> mem \<Rightarrow> wire_value \<Rightarrow> 's lwpb_struct_decoder lwpb_decoder \<Rightarrow> map_ref option \<Rightarrow> addr \<Rightarrow>
     addr \<Rightarrow> u64 \<Rightarrow> (lwpb_err_t \<times> 's lwpb_struct_decoder lwpb_decoder \<times> u64 option) run" where
  "lwpb_struct_decoder_decode ds maps m wv dec struct_map struct_base data len =
     (let frame = \<lparr>sf_map = struct_map, sf_base = struct_base, sf_last_field = None, sf_field_index = 0\<rparr> in
      andthen (sd_put 0 frame ((dec_arg dec)\<lparr>sd_depth := - 1, sd_data := m\<rparr>)) (\<lambda>sd.
      andthen (deref maps struct_map) (\<lambda>map.
        lwpb_decoder_decode ds m wv (dec\<lparr>dec_arg := sd\<rparr>) (Some (sm_msg_desc map)) data len)))"

end
