(* ===== verification/Struct_Run.thy ===== *)
theory Struct_Run
  imports Struct_Decoder
begin

text \<open>
  What the struct decoder does to the memory of a structure: the stores that a message and a struct map
  call for, independent of the stack of the decoder, and the proof that the decoder performs them.
\<close>

section \<open>The stores of a message\<close>

text \<open>The bytes of a scalar value, and of the contents of a string or bytes field of a given length.\<close>

fun value_bytes :: "lwpb_value \<Rightarrow> u8 list" where
  "value_bytes (V_double x) = le_bytes 8 x"
| "value_bytes (V_float x) = le_bytes 4 x"
| "value_bytes (V_int32 x) = le_bytes 4 x"
| "value_bytes (V_int64 x) = le_bytes 8 x"
| "value_bytes (V_uint32 x) = le_bytes 4 x"
| "value_bytes (V_uint64 x) = le_bytes 8 x"
| "value_bytes (V_bool x) = le_bytes 4 x"
| "value_bytes (V_enum x) = le_bytes 4 x"
| "value_bytes _ = []"

definition data_bytes :: "field_typ \<Rightarrow> nat \<Rightarrow> u8 list \<Rightarrow> u8 list" where
  "data_bytes t len bs = (if t = LWPB_STRING then take (len - 1) bs @ [0] else take len bs)"

text \<open>
  An occurrence: the map field that was stored last, with the number of its elements so far. The index of
  the next element of a field starts at 0 when the field is not the last one.
\<close>

type_synonym occurrence = "nat option \<times> nat"

definition next_element :: "nat \<Rightarrow> occurrence \<Rightarrow> nat" where
  "next_element k oc = (if fst oc = Some k then snd oc else 0)"

fun item_index :: "'d item \<Rightarrow> nat" where
  "item_index (Scalar j _) = j"
| "item_index (Data j _) = j"
| "item_index (Sub j _) = j"
| "item_index (Packed j _) = j"

text \<open>The position of a field in the map of its message, and the occurrence after an item.\<close>

definition map_pos :: "struct_maps \<Rightarrow> map_ref \<Rightarrow> nat \<Rightarrow> nat option" where
  "map_pos maps mr j = (case find_map_field 0 (sm_fields (maps ! mr)) (sm_msg_desc (maps ! mr), j) of
     Inr k \<Rightarrow> Some k | Inl _ \<Rightarrow> None)"

definition map_field :: "struct_maps \<Rightarrow> map_ref \<Rightarrow> nat \<Rightarrow> lwpb_struct_map_field" where
  "map_field maps mr j = sm_fields (maps ! mr) ! the (map_pos maps mr j)"

definition item_element :: "struct_maps \<Rightarrow> map_ref \<Rightarrow> occurrence \<Rightarrow> nat \<Rightarrow> nat" where
  "item_element maps mr oc j = next_element (the (map_pos maps mr j)) oc"

definition after_item :: "struct_maps \<Rightarrow> map_ref \<Rightarrow> occurrence \<Rightarrow> nat \<Rightarrow> occurrence" where
  "after_item maps mr oc j = (map_pos maps mr j, Suc (item_element maps mr oc j))"

text \<open>The address of an element with a given size.\<close>

definition element :: "struct_maps \<Rightarrow> map_ref \<Rightarrow> addr \<Rightarrow> occurrence \<Rightarrow> nat \<Rightarrow> nat \<Rightarrow> addr" where
  "element maps mr base oc j sz = base + unat (smf_ofs (map_field maps mr j)) + sz * item_element maps mr oc j"

fun len_nat :: "map_len \<Rightarrow> nat" where
  "len_nat (Len n) = unat n"
| "len_nat (Sub_map i) = i"

definition sub_base :: "struct_maps \<Rightarrow> map_ref \<Rightarrow> addr \<Rightarrow> occurrence \<Rightarrow> nat \<Rightarrow> addr" where
  "sub_base maps mr base oc j =
     element maps mr base oc j (unat (sm_struct_size (maps ! len_nat (smf_len (map_field maps mr j)))))"

text \<open>The stores, in order: an address and the bytes that are stored there.\<close>

fun item_writes :: "descs \<Rightarrow> struct_maps \<Rightarrow> map_ref \<Rightarrow> addr \<Rightarrow> occurrence \<Rightarrow> u8 list item \<Rightarrow> (addr \<times> u8 list) list"
and items_writes :: "descs \<Rightarrow> struct_maps \<Rightarrow> map_ref \<Rightarrow> addr \<Rightarrow> occurrence \<Rightarrow> message \<Rightarrow> (addr \<times> u8 list) list" where
  "item_writes ds maps mr base oc (Scalar j v) =
     [(element maps mr base oc j (length (value_bytes v)), value_bytes v)]"
| "item_writes ds maps mr base oc (Data j bs) = (let len = len_nat (smf_len (map_field maps mr j)) in
     [(element maps mr base oc j len, data_bytes (field_type (the_field ds (sm_msg_desc (maps ! mr)) j)) len bs)])"
| "item_writes ds maps mr base oc (Sub j its) =
     items_writes ds maps (len_nat (smf_len (map_field maps mr j))) (sub_base maps mr base oc j) (None, 0) its"
| "item_writes ds maps mr base oc (Packed j vs) = []"
| "items_writes ds maps mr base oc [] = []"
| "items_writes ds maps mr base oc (it # its) =
     item_writes ds maps mr base oc it @ items_writes ds maps mr base (after_item maps mr oc (item_index it)) its"

text \<open>
  The maps fit the message: every field is in the map of its message, with the size of its type, the
  stores lie in the memory of the structure, and there are no packed fields.
\<close>

definition write_fits :: "nat \<Rightarrow> addr \<times> u8 list \<Rightarrow> bool" where
  "write_fits n w \<longleftrightarrow> fst w + length (snd w) \<le> n"

definition element_fits :: "struct_maps \<Rightarrow> map_ref \<Rightarrow> occurrence \<Rightarrow> nat \<Rightarrow> bool" where
  "element_fits maps mr oc j \<longleftrightarrow> map_pos maps mr j \<noteq> None \<and> item_element maps mr oc j < 2 ^ 31 - 1"

fun item_fits :: "descs \<Rightarrow> struct_maps \<Rightarrow> nat \<Rightarrow> map_ref \<Rightarrow> addr \<Rightarrow> occurrence \<Rightarrow> u8 list item \<Rightarrow> bool"
and items_fit :: "descs \<Rightarrow> struct_maps \<Rightarrow> nat \<Rightarrow> map_ref \<Rightarrow> addr \<Rightarrow> occurrence \<Rightarrow> message \<Rightarrow> bool" where
  "item_fits ds maps n mr base oc (Scalar j v) \<longleftrightarrow> element_fits maps mr oc j \<and>
     smf_len (map_field maps mr j) = Len (of_nat (length (value_bytes v))) \<and>
     list_all (write_fits n) (item_writes ds maps mr base oc (Scalar j v))"
| "item_fits ds maps n mr base oc (Data j bs) \<longleftrightarrow> element_fits maps mr oc j \<and>
     (\<exists>len. smf_len (map_field maps mr j) = Len len \<and> len \<noteq> 0) \<and>
     list_all (write_fits n) (item_writes ds maps mr base oc (Data j bs))"
| "item_fits ds maps n mr base oc (Sub j its) \<longleftrightarrow> element_fits maps mr oc j \<and>
     (\<exists>sm. smf_len (map_field maps mr j) = Sub_map sm \<and> sm < length maps \<and> sub_base maps mr base oc j \<le> n \<and>
        fd_msg_desc (the_field ds (sm_msg_desc (maps ! mr)) j) = Some (sm_msg_desc (maps ! sm)) \<and>
        items_fit ds maps n sm (sub_base maps mr base oc j) (None, 0) its)"
| "item_fits ds maps n mr base oc (Packed j vs) \<longleftrightarrow> False"
| "items_fit ds maps n mr base oc [] \<longleftrightarrow> True"
| "items_fit ds maps n mr base oc (it # its) \<longleftrightarrow> item_fits ds maps n mr base oc it \<and>
     items_fit ds maps n mr base (after_item maps mr oc (item_index it)) its"

definition apply_writes :: "(addr \<times> u8 list) list \<Rightarrow> mem \<Rightarrow> mem" where
  "apply_writes ws m = foldl (\<lambda>m (a, bs). poke m a bs) m ws"

lemma apply_writes_simps [simp]:
  "apply_writes [] m = m" "apply_writes (w # ws) m = apply_writes ws (poke m (fst w) (snd w))"
  "apply_writes (ws @ ws') m = apply_writes ws' (apply_writes ws m)"
  by (simp_all add: apply_writes_def case_prod_beta)

lemma length_apply_writes: "list_all (write_fits (length m)) ws \<Longrightarrow> length (apply_writes ws m) = length m"
  by (induction ws arbitrary: m) (simp_all add: write_fits_def)

lemma item_fits_writes:
  "item_fits ds maps n mr base oc it \<Longrightarrow> list_all (write_fits n) (item_writes ds maps mr base oc it)"
  "items_fit ds maps n mr base oc its \<Longrightarrow> list_all (write_fits n) (items_writes ds maps mr base oc its)"
  by (induction ds maps mr base oc it and ds maps mr base oc its rule: item_writes_items_writes.induct) auto

section \<open>Storing one field\<close>

lemma find_map_fieldD: "find_map_field k fs fr = Inr i \<Longrightarrow> k \<le> i \<and> i - k < length fs \<and> smf_field_desc (fs ! (i - k)) = fr"
proof (induction k fs fr rule: find_map_field.induct)
  case (1 k fr)
  then show ?case by simp
next
  case (2 k f fs fr)
  then show ?case by (auto split: if_splits simp: nth_Cons')
qed

lemma map_posD:
  assumes "map_pos maps mr j = Some k"
  shows "find_map_field 0 (sm_fields (maps ! mr)) (sm_msg_desc (maps ! mr), j) = Inr k"
    and "k < length (sm_fields (maps ! mr))" and "map_field maps mr j = sm_fields (maps ! mr) ! k"
    and "smf_field_desc (map_field maps mr j) = (sm_msg_desc (maps ! mr), j)"
proof -
  show find: "find_map_field 0 (sm_fields (maps ! mr)) (sm_msg_desc (maps ! mr), j) = Inr k"
    using assms by (auto simp: map_pos_def split: sum.splits)
  from find_map_fieldD [OF this] show "k < length (sm_fields (maps ! mr))" "map_field maps mr j = sm_fields (maps ! mr) ! k"
    "smf_field_desc (map_field maps mr j) = (sm_msg_desc (maps ! mr), j)"
    by (simp_all add: map_field_def assms)
qed

text \<open>The index of an element as the stack keeps it, and the address computed with it.\<close>

lemma unat_times_index:
  assumes "unat (len :: u64) * n < 2 ^ 64"
  shows "unat (len * of_nat n) = unat len * n"
proof (cases "len = 0")
  case False
  then have "n < 2 ^ 64"
    using assms by (metis le_less_trans mult_le_mono1 nat_mult_1 One_nat_def Suc_leI unat_gt_0)
  then have "unat (of_nat n :: u64) = n"
    by (simp add: unat_of_nat)
  then show ?thesis
    using assms by (simp add: unat_mult_lem [THEN iffD1])
qed simp

lemma field_base_element:
  assumes "sf_field_index frame = int n" and "sf_base frame + unat (smf_ofs field) + unat len * n < 2 ^ 64"
  shows "field_base field len frame = sf_base frame + unat (smf_ofs field) + unat len * n"
  using assms by (simp add: field_base_def unat_times_index)

lemma next_index_element:
  "sf_field_index frame = int n \<Longrightarrow> n < 2 ^ 31 - 1 \<Longrightarrow> next_index frame = Inr (frame\<lparr>sf_field_index := int (Suc n)\<rparr>)"
  by (simp add: next_index_def)

lemma unpack_member_stores:
  assumes "smf_len field = Len (of_nat k)" "k < 2 ^ 64" and "get v = Inr x"
    and idx: "sf_field_index frame = int n" "n < 2 ^ 31 - 1"
    and fit: "sf_base frame + unat (smf_ofs field) + k * n + k \<le> length m" "length m < 2 ^ 63"
  shows "unpack_member k get field frame (Some v) m =
    Inr (poke m (sf_base frame + unat (smf_ofs field) + k * n) (le_bytes k x), frame\<lparr>sf_field_index := int (Suc n)\<rparr>)"
proof -
  have k: "unat (of_nat k :: u64) = k"
    using assms(2) by (simp add: unat_of_nat)
  then have "field_base field (of_nat k) frame = sf_base frame + unat (smf_ofs field) + k * n"
    using field_base_element [OF idx(1), of field "of_nat k"] fit by simp
  then show ?thesis
    using assms(1,3) fit(1) next_index_element [OF idx] by (simp add: unpack_member_def the_value_def stores_poke)
qed

lemma unpack_scalar:
  assumes "scalar_ok t v" and "smf_len field = Len (of_nat (length (value_bytes v)))"
    and idx: "sf_field_index frame = int n" "n < 2 ^ 31 - 1"
    and a: "a = sf_base frame + unat (smf_ofs field) + length (value_bytes v) * n"
    and fit: "a + length (value_bytes v) \<le> length m" "length m < 2 ^ 63"
  shows "unpack_value t data field frame (Some v) m =
    Inr (poke m a (value_bytes v), frame\<lparr>sf_field_index := int (Suc n)\<rparr>)"
proof -
  note st = unpack_member_stores [OF _ _ _ idx _ fit(2)]
  have len: "length (value_bytes v) = 4 \<or> length (value_bytes v) = 8" if "value_bytes v \<noteq> []"
    using that by (cases v) simp_all
  show ?thesis
    using assms(1,2) fit(1) unfolding a
    by (cases t) (simp_all add: scalar_ok_def unpack_value_def st split: lwpb_value.splits)
qed

lemma poke_terminate:
  assumes "a + length xs \<le> length m" and "xs \<noteq> []"
  shows "store (poke m a xs) (a + (length xs - 1)) 0 = Inr (poke m a (take (length xs - 1) xs @ [0]))"
proof -
  obtain ys y where xs: "xs = ys @ [y]"
    using assms(2) by (metis append_butlast_last_id)
  with assms(1) have "(poke m a xs)[a + length ys := 0] = poke m a (ys @ [0])"
    by (intro nth_equalityI) (auto simp: nth_poke nth_list_update nth_append)
  with xs assms(1) show ?thesis
    by (simp add: store_def)
qed

lemma peek_le: "k \<le> n \<Longrightarrow> peek m a n = xs \<Longrightarrow> peek m a k = take k xs"
  by (auto simp: peek_def min_def)

lemma loads_fault: "length m < a + n \<Longrightarrow> 0 < n \<Longrightarrow> loads m a n = Inl Fault"
proof (induction n arbitrary: a)
  case (Suc n)
  then show ?case by (cases n) (auto simp: load_def)
qed simp

lemma unpack_string_stores:
  assumes "smf_len field = Len len" "len \<noteq> 0" and "p + length bs < length data" "length data < 2 ^ 63" "peek data p (length bs) = bs"
    and idx: "sf_field_index frame = int n" "n < 2 ^ 31 - 1"
    and a: "a = sf_base frame + unat (smf_ofs field) + unat len * n"
    and fit: "a + length (data_bytes LWPB_STRING (unat len) bs) \<le> length m" "length m < 2 ^ 63"
  shows "unpack_string data field frame (Some (V_string p (of_nat (length bs)))) m =
    Inr (poke m a (data_bytes LWPB_STRING (unat len) bs), frame\<lparr>sf_field_index := int (Suc n)\<rparr>)"
proof -
  let ?n = "of_nat (length bs) + 1 :: u64"
  let ?l = "if len < ?n then len else ?n"
  let ?xs = "peek data p (unat ?l)"
  have base: "field_base field len frame = a"
    using field_base_element [OF idx(1), of field len] fit a by simp
  have "unat (of_nat (length bs + 1) :: u64) = length bs + 1"
    using assms(3,4) by (subst unat_of_nat) simp
  then have n: "unat ?n = length bs + 1"
    by (simp add: add.commute)
  then have l: "unat ?l = Suc (min (unat len - 1) (length bs))"
    using assms(2) by (auto simp: word_less_nat_alt min_def unat_eq_0 simp flip: unat_gt_0)
  then have l1: "unat (?l - 1) = min (unat len - 1) (length bs)"
    by (subst unat_minus_one) (auto simp: unat_eq_0 simp flip: unat_gt_0)
  have xs: "length ?xs = unat ?l"
    using l assms(3) by (intro length_peek) simp
  have "take (unat ?l - 1) ?xs = peek data p (unat ?l - 1)"
    by (simp add: peek_def)
  also have "\<dots> = take (unat ?l - 1) bs"
    using peek_le [OF _ assms(5), of "unat ?l - 1"] l by simp
  also have "\<dots> = take (unat len - 1) bs"
    using l by (simp add: min_def)
  finally have str: "take (length ?xs - 1) ?xs = take (unat len - 1) bs"
    by (simp only: xs)
  have len: "length (data_bytes LWPB_STRING (unat len) bs) = unat ?l"
    using l by (simp add: data_bytes_def)
  have "loads data p (unat ?l) = Inr ?xs"
    using l assms(3) by (intro loads_peek) simp
  moreover have "stores m a ?xs = Inr (poke m a ?xs)"
    using fit xs len by (intro stores_poke) simp
  moreover have "store (poke m a ?xs) (a + unat (?l - 1)) 0 = Inr (poke m a (data_bytes LWPB_STRING (unat len) bs))"
  proof -
    have "a + length ?xs \<le> length m" "?xs \<noteq> []"
      using fit xs len l by auto
    from poke_terminate [OF this] show ?thesis
      unfolding str using xs l l1 by (simp add: data_bytes_def)
  qed
  ultimately show ?thesis
    using assms(1) next_index_element [OF idx] by (simp add: unpack_string_def the_value_def base Let_def)
qed

lemma unpack_bytes_stores:
  assumes "smf_len field = Len len" and "p + length bs \<le> length data" "length data < 2 ^ 63" "peek data p (length bs) = bs"
    and idx: "sf_field_index frame = int n" "n < 2 ^ 31 - 1"
    and a: "a = sf_base frame + unat (smf_ofs field) + unat len * n"
    and fit: "a + length (data_bytes LWPB_BYTES (unat len) bs) \<le> length m" "length m < 2 ^ 63"
  shows "unpack_bytes data field frame (Some (V_bytes p (of_nat (length bs)))) m =
    Inr (poke m a (data_bytes LWPB_BYTES (unat len) bs), frame\<lparr>sf_field_index := int (Suc n)\<rparr>)"
proof -
  let ?n = "of_nat (length bs) :: u64"
  let ?l = "if len < ?n then len else ?n"
  have base: "field_base field len frame = a"
    using field_base_element [OF idx(1), of field len] fit a by simp
  have "unat ?n = length bs"
    using assms(2,3) by (subst unat_of_nat) simp
  then have l: "unat ?l = min (unat len) (length bs)"
    by (auto simp: word_less_nat_alt min_def)
  then have xs: "peek data p (unat ?l) = take (unat len) bs"
    using peek_le [OF _ assms(4), of "unat ?l"] by (simp add: min_def)
  have "loads data p (unat ?l) = Inr (take (unat len) bs)"
    using l assms(2) by (subst xs [symmetric], intro loads_peek) simp
  moreover have "stores m a (take (unat len) bs) = Inr (poke m a (take (unat len) bs))"
    using fit by (intro stores_poke) (simp add: data_bytes_def)
  ultimately show ?thesis
    using assms(1) next_index_element [OF idx] by (simp add: unpack_bytes_def the_value_def base Let_def data_bytes_def)
qed

section \<open>Running the handlers\<close>

text \<open>The frame of a message in the stack, and a struct decoder without handlers of the client.\<close>

definition occ_frame :: "map_ref \<Rightarrow> addr \<Rightarrow> occurrence \<Rightarrow> lwpb_struct_decoder_stack_frame" where
  "occ_frame mr base oc = \<lparr>sf_map = Some mr, sf_base = base, sf_last_field = map_option (Pair mr) (fst oc),
     sf_field_index = int (snd oc)\<rparr>"

definition sd_at :: "nat \<Rightarrow> lwpb_struct_decoder_stack_frame \<Rightarrow> 's lwpb_struct_decoder \<Rightarrow> bool" where
  "sd_at d frame sd \<longleftrightarrow> sd_depth sd = int d \<and> d < length (sd_stack sd) \<and> sd_stack sd ! d = frame"

definition quiet :: "'s lwpb_struct_decoder \<Rightarrow> bool" where
  "quiet sd \<longleftrightarrow> sd_msg_start_handler sd = None \<and> sd_msg_end_handler sd = None \<and> sd_field_handler sd = None"

text \<open>
  The struct decoder after some events: the memory has changed by the stores, and of the stack only the
  current frame and what is above it.
\<close>

definition advanced ::
    "nat \<Rightarrow> (addr \<times> u8 list) list \<Rightarrow> lwpb_struct_decoder_stack_frame \<Rightarrow> 's lwpb_struct_decoder \<Rightarrow> 's lwpb_struct_decoder \<Rightarrow> bool" where
  "advanced d ws frame sd sd' \<longleftrightarrow> (\<exists>st. sd' = sd\<lparr>sd_stack := st, sd_mem := apply_writes ws (sd_mem sd)\<rparr> \<and>
     length st = length (sd_stack sd) \<and> (\<forall>k < d. st ! k = sd_stack sd ! k) \<and> st ! d = frame)"

lemma advanced_at: "advanced d ws frame sd sd' \<Longrightarrow> sd_at d frame0 sd \<Longrightarrow> sd_at d frame sd'"
  by (auto simp: advanced_def sd_at_def)

lemma advanced_refl: "sd_at d f sd \<Longrightarrow> advanced d [] f sd sd"
  unfolding advanced_def by (intro exI [of _ "sd_stack sd"]) (simp add: sd_at_def)

lemma advanced_trans:
  "advanced d ws f sd sd1 \<Longrightarrow> advanced d ws' f' sd1 sd2 \<Longrightarrow> advanced d (ws @ ws') f' sd sd2"
  by (auto simp: advanced_def)

lemma advanced_sel:
  assumes "advanced d ws f sd sd'"
  shows "quiet sd' = quiet sd" "sd_data sd' = sd_data sd" "sd_mem sd' = apply_writes ws (sd_mem sd)"
    "length (sd_stack sd') = length (sd_stack sd)" "sd_depth sd' = sd_depth sd"
  using assms by (auto simp: advanced_def quiet_def)

lemma field_handler_run:
  assumes at: "sd_at d (occ_frame mr base oc) sd" and "quiet sd" and "mr < length maps"
    and pos: "map_pos maps mr j = Some k" and "deref_field ds (Some (sm_msg_desc (maps ! mr), j)) = Inr fd"
    and unpack: "unpack_value (field_type fd) (sd_data sd) (map_field maps mr j)
      (occ_frame mr base (Some k, item_element maps mr oc j)) value (sd_mem sd) = Inr (m', frame')"
  shows "sdecoder_field_handler ds maps p msg (sm_msg_desc (maps ! mr), j) value sd =
    Inr (sd\<lparr>sd_mem := m', sd_stack := (sd_stack sd)[d := frame']\<rparr>)"
proof -
  have frame: "(if sf_last_field (occ_frame mr base oc) \<noteq> Some (mr, k) then (occ_frame mr base oc)\<lparr>sf_field_index := 0\<rparr>
      else occ_frame mr base oc)\<lparr>sf_last_field := Some (mr, k)\<rparr> = occ_frame mr base (Some k, item_element maps mr oc j)"
    by (auto simp: occ_frame_def item_element_def next_element_def pos)
  have field: "deref_map_field maps (Some (mr, k)) = Inr (map_field maps mr j)"
    using map_posD(2,3) [OF pos] assms(3) by (simp add: deref_map_field_def)
  have "unpack_field ds maps (mr, k) value sd = Inr (sd\<lparr>sd_mem := m', sd_stack := (sd_stack sd)[d := frame']\<rparr>)"
    using at frame field unpack assms(5)
    by (simp add: unpack_field_def sd_get_def sd_put_def sd_at_def Let_def map_posD(4) [OF pos])
  then show ?thesis
    using at assms(2,3) map_posD(1) [OF pos]
    by (simp add: sdecoder_field_handler_def sd_get_def sd_at_def occ_frame_def client_handler_def quiet_def)
qed

lemma field_handler_stores:
  assumes at: "sd_at d (occ_frame mr base oc) sd" and "quiet sd" and "mr < length maps"
    and pos: "map_pos maps mr j = Some k" and "deref_field ds (Some (sm_msg_desc (maps ! mr), j)) = Inr fd"
    and unpack: "unpack_value (field_type fd) (sd_data sd) (map_field maps mr j)
      (occ_frame mr base (Some k, item_element maps mr oc j)) value (sd_mem sd) =
      Inr (poke (sd_mem sd) a bs, (occ_frame mr base (Some k, item_element maps mr oc j))\<lparr>sf_field_index :=
        int (Suc (item_element maps mr oc j))\<rparr>)"
  shows "\<exists>sd'. sdecoder_field_handler ds maps p msg (sm_msg_desc (maps ! mr), j) value sd = Inr sd' \<and>
    advanced d [(a, bs)] (occ_frame mr base (after_item maps mr oc j)) sd sd'"
  using field_handler_run [OF assms] at
  by (auto simp: advanced_def sd_at_def occ_frame_def after_item_def pos intro!: exI [of _ "(sd_stack sd)[d := _]"])

lemma start_handler_run:
  assumes at: "sd_at d (occ_frame mr base (Some k, n)) sd" and "quiet sd" and d: "Suc d < length (sd_stack sd)"
    and "mr < length maps" and pos: "map_pos maps mr j = Some k" and sm: "smf_len (map_field maps mr j) = Sub_map sm" "sm < length maps"
    and n: "n < 2 ^ 31 - 1" and fit: "sub_base maps mr base (Some k, n) j < 2 ^ 64"
  shows "sdecoder_msg_start_handler maps p (sm_msg_desc (maps ! sm)) sd =
    Inr (sd\<lparr>sd_depth := int (Suc d), sd_stack := ((sd_stack sd)[Suc d := occ_frame sm (sub_base maps mr base (Some k, n) j) (None, 0)])
      [d := occ_frame mr base (Some k, Suc n)]\<rparr>)"
proof -
  have field: "deref_map_field maps (Some (mr, k)) = Inr (map_field maps mr j)"
    using map_posD(2,3) [OF pos] assms(4) by (simp add: deref_map_field_def)
  have elem: "item_element maps mr (Some k, n) j = n"
    by (simp add: item_element_def next_element_def pos)
  have "unat (sm_struct_size (maps ! sm)) * n < 2 ^ 64"
    using fit by (simp add: sub_base_def element_def sm elem)
  from unat_times_index [OF this]
  have base: "base + unat (smf_ofs (map_field maps mr j)) + unat (sm_struct_size (maps ! sm) * of_nat n) =
      sub_base maps mr base (Some k, n) j"
    by (simp add: sub_base_def element_def sm elem)
  have "sd_nested maps (sd\<lparr>sd_depth := int (Suc d)\<rparr>) =
    Inr (sd\<lparr>sd_depth := int (Suc d), sd_stack := ((sd_stack sd)[Suc d := occ_frame sm (sub_base maps mr base (Some k, n) j) (None, 0)])
      [d := occ_frame mr base (Some k, Suc n)]\<rparr>)"
    using at d n sm field base
    by (simp add: sd_nested_def sd_get_def sd_put_def sd_at_def occ_frame_def next_index_def nat_add_distrib add.commute [of 1 "int n"])
  moreover have "sd_depth sd = int d" "Suc d \<noteq> d"
    using at by (auto simp: sd_at_def)
  ultimately show ?thesis
    using assms(2) d sm(2)
    by (simp add: sdecoder_msg_start_handler_def sd_get_def occ_frame_def client_handler_def quiet_def nat_add_distrib
        add.commute [of "int d" 1])
qed

text \<open>A decoder with the handlers of the struct decoder.\<close>

definition struct_handlers :: "descs \<Rightarrow> struct_maps \<Rightarrow> 's lwpb_struct_decoder lwpb_decoder \<Rightarrow> bool" where
  "struct_handlers ds maps dec \<longleftrightarrow> msg_start_handler dec = Some (sdecoder_msg_start_handler maps) \<and>
     msg_end_handler dec = Some sdecoder_msg_end_handler \<and> field_handler dec = Some (sdecoder_field_handler ds maps)"

lemma handle_struct:
  assumes "struct_handlers ds maps dec"
  shows "handle dec (Msg_start p msg) sd = sdecoder_msg_start_handler maps p msg sd"
    and "handle dec (Msg_end p msg) sd = sdecoder_msg_end_handler p msg sd"
    and "handle dec (Msg_field p d fr v) sd = sdecoder_field_handler ds maps p d fr v sd"
  using assms by (simp_all add: struct_handlers_def handle.simps)

lemma end_handler_run: "quiet sd \<Longrightarrow> sdecoder_msg_end_handler p msg sd = Inr (sd\<lparr>sd_depth := sd_depth sd - 1\<rparr>)"
  by (simp add: sdecoder_msg_end_handler_def client_handler_def quiet_def)

text \<open>What an item needs: the frame of its message on the stack, room on the stack, and its bytes in memory.\<close>

definition item_ready ::
    "struct_maps \<Rightarrow> nat \<Rightarrow> map_ref \<Rightarrow> addr \<Rightarrow> occurrence \<Rightarrow> nat \<Rightarrow> 's lwpb_struct_decoder \<Rightarrow> bool" where
  "item_ready maps d mr base oc depth sd \<longleftrightarrow> sd_at d (occ_frame mr base oc) sd \<and> quiet sd \<and> mr < length maps \<and>
     d + depth < length (sd_stack sd) \<and> length (sd_mem sd) < 2 ^ 63 \<and> length (sd_data sd) < 2 ^ 63"

lemma item_ready_advanced:
  assumes "advanced d ws (occ_frame mr base oc') sd sd'" and "item_ready maps d mr base oc (max n k) sd"
    and "list_all (write_fits (length (sd_mem sd))) ws"
  shows "item_ready maps d mr base oc' k sd'"
  using assms advanced_sel [OF assms(1)] advanced_at [OF assms(1)] length_apply_writes [OF assms(3)]
  by (auto simp: item_ready_def)

lemma scalar_event:
  assumes "wf_item ds i (Scalar j v)" and fits: "item_fits ds maps (length (sd_mem sd)) mr base oc (Scalar j v)"
    and ready: "item_ready maps d mr base oc 0 sd" and i: "i = sm_msg_desc (maps ! mr)"
  shows "\<exists>sd'. sdecoder_field_handler ds maps p msg (i, j) (Some v) sd = Inr sd' \<and>
    advanced d (item_writes ds maps mr base oc (Scalar j v)) (occ_frame mr base (after_item maps mr oc j)) sd sd'"
proof -
  obtain k where pos: "map_pos maps mr j = Some k" and n: "item_element maps mr oc j < 2 ^ 31 - 1"
    using fits by (auto simp: element_fits_def)
  have wf: "deref_field ds (Some (sm_msg_desc (maps ! mr), j)) = Inr (the_field ds i j)"
    and ok: "scalar_ok (field_type (the_field ds i j)) v"
    using assms(1) i wf_field_deref [of ds i j] by (auto simp: Let_def)
  let ?f = "occ_frame mr base (Some k, item_element maps mr oc j)"
  show ?thesis
    using ready fits n unfolding i item_writes.simps
    by (intro field_handler_stores [OF _ _ _ pos wf] unpack_scalar [OF ok])
      (simp_all add: item_ready_def occ_frame_def element_def write_fits_def)
qed

lemma data_event:
  assumes "wf_item ds i (Data j bs)" and fits: "item_fits ds maps (length (sd_mem sd)) mr base oc (Data j bs)"
    and ready: "item_ready maps d mr base oc 0 sd" and i: "i = sm_msg_desc (maps ! mr)"
    and data: "q + length bs < length (sd_data sd)" "peek (sd_data sd) q (length bs) = bs"
  shows "\<exists>sd'. sdecoder_field_handler ds maps p msg (i, j) (Some (data_value (the_field ds i j) q bs)) sd = Inr sd' \<and>
    advanced d (item_writes ds maps mr base oc (Data j bs)) (occ_frame mr base (after_item maps mr oc j)) sd sd'"
proof -
  obtain k len where pos: "map_pos maps mr j = Some k" and n: "item_element maps mr oc j < 2 ^ 31 - 1"
    and len: "smf_len (map_field maps mr j) = Len len" "len \<noteq> 0"
    using fits by (auto simp: element_fits_def)
  let ?fd = "the_field ds i j"
  have wf: "deref_field ds (Some (sm_msg_desc (maps ! mr), j)) = Inr ?fd"
    and ty: "field_type ?fd = LWPB_STRING \<or> field_type ?fd = LWPB_BYTES"
    using assms(1) i wf_field_deref [of ds i j] by (auto simp: Let_def)
  have mem: "length (sd_data sd) < 2 ^ 63" "length (sd_mem sd) < 2 ^ 63" and le: "q + length bs \<le> length (sd_data sd)"
    using ready data(1) by (simp_all add: item_ready_def)
  let ?f = "occ_frame mr base (Some k, item_element maps mr oc j)"
  let ?a = "element maps mr base oc j (unat len)" and ?bs = "data_bytes (field_type ?fd) (unat len) bs"
  have idx: "sf_field_index ?f = int (item_element maps mr oc j)"
    and a: "?a = sf_base ?f + unat (smf_ofs (map_field maps mr j)) + unat len * item_element maps mr oc j"
    by (simp_all add: occ_frame_def element_def)
  have fit: "?a + length ?bs \<le> length (sd_mem sd)"
    using fits len i by (simp add: write_fits_def Let_def)
  have "unpack_value (field_type ?fd) (sd_data sd) (map_field maps mr j) ?f (Some (data_value ?fd q bs)) (sd_mem sd) =
      Inr (poke (sd_mem sd) ?a ?bs, ?f\<lparr>sf_field_index := int (Suc (item_element maps mr oc j))\<rparr>)"
    using ty fit unpack_string_stores [OF len data(1) mem(1) data(2) idx n a _ mem(2)]
      unpack_bytes_stores [OF len(1) le mem(1) data(2) idx n a _ mem(2)]
    by (auto simp: unpack_value_def data_value_def)
  from field_handler_stores [OF _ _ _ pos wf this] ready show ?thesis
    using len(1) by (simp add: item_ready_def i Let_def)
qed

text \<open>The field event of a nested message only remembers the field.\<close>

lemma sub_event:
  assumes "wf_item ds i (Sub j its)" and fits: "item_fits ds maps n mr base oc (Sub j its)"
    and ready: "item_ready maps d mr base oc 1 sd" and i: "i = sm_msg_desc (maps ! mr)" and n: "n < 2 ^ 63"
  shows "\<exists>sm sd1 sd2. smf_len (map_field maps mr j) = Sub_map sm \<and>
    sdecoder_field_handler ds maps p msg (i, j) v sd = Inr sd1 \<and>
    sdecoder_msg_start_handler maps p' (the (fd_msg_desc (the_field ds i j))) sd1 = Inr sd2 \<and>
    the (fd_msg_desc (the_field ds i j)) = sm_msg_desc (maps ! sm) \<and>
    sd2 = sd\<lparr>sd_depth := int (Suc d), sd_stack := ((sd_stack sd)[Suc d := occ_frame sm (sub_base maps mr base oc j) (None, 0)])
      [d := occ_frame mr base (after_item maps mr oc j)]\<rparr>"
proof -
  obtain k sm where pos: "map_pos maps mr j = Some k" and el: "item_element maps mr oc j < 2 ^ 31 - 1"
    and sm: "smf_len (map_field maps mr j) = Sub_map sm" "sm < length maps"
    and desc: "fd_msg_desc (the_field ds i j) = Some (sm_msg_desc (maps ! sm))" and base: "sub_base maps mr base oc j \<le> n"
    using fits i by (auto simp: element_fits_def)
  have wf: "deref_field ds (Some (sm_msg_desc (maps ! mr), j)) = Inr (the_field ds i j)"
    and ty: "field_type (the_field ds i j) = LWPB_MESSAGE"
    using assms(1) i wf_field_deref [of ds i j] by (auto simp: Let_def)
  have at: "sd_at d (occ_frame mr base oc) sd" "quiet sd" "mr < length maps" "Suc d < length (sd_stack sd)"
    using ready by (simp_all add: item_ready_def)
  let ?f = "occ_frame mr base (Some k, item_element maps mr oc j)"
  let ?sd1 = "sd\<lparr>sd_mem := sd_mem sd, sd_stack := (sd_stack sd)[d := ?f]\<rparr>"
  have 1: "sdecoder_field_handler ds maps p msg (i, j) v sd = Inr ?sd1"
    unfolding i by (rule field_handler_run [OF at(1-3) pos wf]) (simp add: unpack_value_def ty)
  have "sub_base maps mr base (Some k, item_element maps mr oc j) j = sub_base maps mr base oc j"
    by (simp add: sub_base_def element_def item_element_def next_element_def pos)
  moreover have "sd_at d ?f ?sd1" "quiet ?sd1" "Suc d < length (sd_stack ?sd1)"
    using at by (simp_all add: sd_at_def quiet_def)
  ultimately have "sdecoder_msg_start_handler maps p' (sm_msg_desc (maps ! sm)) ?sd1 =
    Inr (sd\<lparr>sd_depth := int (Suc d), sd_stack := ((sd_stack sd)[Suc d := occ_frame sm (sub_base maps mr base oc j) (None, 0)])
      [d := occ_frame mr base (after_item maps mr oc j)]\<rparr>)"
    using start_handler_run [where base = base and d = d and p = p' and sd = ?sd1, OF _ _ _ at(3) pos sm el] base n
    by (simp add: after_item_def pos list_update_swap)
  with 1 sm(1) desc show ?thesis
    by auto
qed

lemma sd_depth_idle: "sd_depth sd = n \<Longrightarrow> sd\<lparr>sd_stack := st, sd_mem := m, sd_depth := n\<rparr> = sd\<lparr>sd_stack := st, sd_mem := m\<rparr>"
  by (cases sd) simp

text \<open>All events of an item and of a list of items.\<close>

lemma struct_events:
  "wf_item ds i it \<Longrightarrow> struct_handlers ds maps dec \<Longrightarrow> item_fits ds maps (length (sd_mem sd)) mr base oc it \<Longrightarrow>
    item_ready maps d mr base oc (item_depth it) sd \<Longrightarrow> i = sm_msg_desc (maps ! mr) \<Longrightarrow>
    a + length (item_bytes ds i it) < length (sd_data sd) \<Longrightarrow>
    peek (sd_data sd) a (length (item_bytes ds i it)) = item_bytes ds i it \<Longrightarrow>
    \<exists>sd'. handle_events dec (item_events ds root i a it) sd = Inr sd' \<and>
      advanced d (item_writes ds maps mr base oc it) (occ_frame mr base (after_item maps mr oc (item_index it))) sd sd'"
  "wf_items ds i its \<Longrightarrow> struct_handlers ds maps dec \<Longrightarrow> items_fit ds maps (length (sd_mem sd)) mr base oc its \<Longrightarrow>
    item_ready maps d mr base oc (items_depth its) sd \<Longrightarrow> i = sm_msg_desc (maps ! mr) \<Longrightarrow>
    a + length (items_bytes ds i its) < length (sd_data sd) \<Longrightarrow>
    peek (sd_data sd) a (length (items_bytes ds i its)) = items_bytes ds i its \<Longrightarrow>
    \<exists>sd' oc'. handle_events dec (items_events ds root i a its) sd = Inr sd' \<and>
      advanced d (items_writes ds maps mr base oc its) (occ_frame mr base oc') sd sd'"
proof (induction ds i it and ds i its arbitrary: sd mr base oc d a and sd mr base oc d a rule: item_bytes_items_bytes.induct)
  case (1 ds i j v)
  with scalar_event [OF 1(1,3) _ 1(5), of d False "Some i"] show ?case
    by (auto simp: handle_struct)
next
  case (2 ds i j bs)
  let ?c = "content_addr a (the_field ds i j) bs"
  have "?c + length bs < length (sd_data sd)" "peek (sd_data sd) ?c (length bs) = bs"
    using delimited_content [of "sd_data sd" a "the_field ds i j" bs] "2.prems"(6,7) by simp_all
  from data_event [OF "2.prems"(1,3) _ "2.prems"(5) this, of d False "Some i"] "2.prems"(2,4) show ?case
    by (auto simp: handle_struct Let_def)
next
  case (3 ds i j its)
  let ?fd = "the_field ds i j" and ?k = "the (fd_msg_desc (the_field ds i j))"
  let ?c = "content_addr a ?fd (items_bytes ds ?k its)" and ?b = "sub_base maps mr base oc j"
  have ready: "item_ready maps d mr base oc 1 sd" and mem: "length (sd_mem sd) < 2 ^ 63"
    and d: "d + Suc (items_depth its) < length (sd_stack sd)" and at: "sd_depth sd = int d" "quiet sd"
    using "3.prems"(4) by (auto simp: item_ready_def sd_at_def)
  obtain sm sd1 sd2 where sm: "smf_len (map_field maps mr j) = Sub_map sm" "?k = sm_msg_desc (maps ! sm)"
    and ev1: "sdecoder_field_handler ds maps False root (i, j) None sd = Inr sd1"
    and ev2: "sdecoder_msg_start_handler maps False ?k sd1 = Inr sd2"
    and sd2: "sd2 = sd\<lparr>sd_depth := int (Suc d), sd_stack := ((sd_stack sd)[Suc d := occ_frame sm ?b (None, 0)])
      [d := occ_frame mr base (after_item maps mr oc j)]\<rparr>"
    using sub_event [OF "3.prems"(1,3) ready "3.prems"(5) mem, of False root None False] by blast
  have fits: "sm < length maps" "items_fit ds maps (length (sd_mem sd2)) sm ?b (None, 0) its"
    using "3.prems"(3) sm(1) by (auto simp: sd2)
  have ready2: "item_ready maps (Suc d) sm ?b (None, 0) (items_depth its) sd2"
    using d at mem "3.prems"(4) fits(1) by (simp add: item_ready_def sd_at_def sd2 quiet_def)
  have wf: "wf_items ds ?k its"
    using "3.prems"(1) by (simp add: Let_def)
  have bytes: "?c + length (items_bytes ds ?k its) < length (sd_data sd2)"
    "peek (sd_data sd2) ?c (length (items_bytes ds ?k its)) = items_bytes ds ?k its"
    using delimited_content [of "sd_data sd" a ?fd "items_bytes ds ?k its"] "3.prems"(6,7) by (simp_all add: sd2 Let_def)
  obtain sd3 oc' where ev3: "handle_events dec (items_events ds root ?k ?c its) sd2 = Inr sd3"
    and sd3: "advanced (Suc d) (items_writes ds maps sm ?b (None, 0) its) (occ_frame sm ?b oc') sd2 sd3"
    using "3.IH" [OF refl wf "3.prems"(2) fits(2) ready2 sm(2) bytes] by blast
  have ev4: "sdecoder_msg_end_handler False ?k sd3 = Inr (sd3\<lparr>sd_depth := int d\<rparr>)"
    using at advanced_sel(1,5) [OF sd3] by (simp add: end_handler_run sd2 quiet_def)
  have "advanced d (items_writes ds maps sm ?b (None, 0) its) (occ_frame mr base (after_item maps mr oc j)) sd (sd3\<lparr>sd_depth := int d\<rparr>)"
    using sd3 d at by (auto simp: advanced_def sd2 less_Suc_eq sd_depth_idle)
  then show ?case
    using ev1 ev2 ev3 ev4 sm(1)
    by (simp add: handle_struct [OF "3.prems"(2)] Let_def handle_events_append)
next
  case (4 ds i j vs)
  then show ?case by simp
next
  case (5 ds i)
  then show ?case
    by (intro exI [of _ sd] exI [of _ oc]) (simp add: item_ready_def advanced_refl)
next
  case (6 ds i it its)
  let ?xs = "item_bytes ds i it" and ?ys = "items_bytes ds i its" and ?oc = "after_item maps mr oc (item_index it)"
  have fits: "item_fits ds maps (length (sd_mem sd)) mr base oc it" "items_fit ds maps (length (sd_mem sd)) mr base ?oc its"
    and wf: "wf_item ds i it" "wf_items ds i its"
    using "6.prems"(1,3) by simp_all
  have ready: "item_ready maps d mr base oc (item_depth it) sd"
    using "6.prems"(4) by (auto simp: item_ready_def)
  have "peek (sd_data sd) a (length ?xs + length ?ys) = ?xs @ ?ys"
    using "6.prems"(7) by simp
  note pk = peek_appendD [OF this]
  have a: "a + length ?xs < length (sd_data sd)" "a + length ?xs + length ?ys < length (sd_data sd)"
    using "6.prems"(6) by simp_all
  obtain sd1 where ev1: "handle_events dec (item_events ds root i a it) sd = Inr sd1"
    and sd1: "advanced d (item_writes ds maps mr base oc it) (occ_frame mr base ?oc) sd sd1"
    using "6.IH"(1) [OF wf(1) "6.prems"(2) fits(1) ready "6.prems"(5) a(1) pk(1)] by blast
  have ws: "list_all (write_fits (length (sd_mem sd))) (item_writes ds maps mr base oc it)"
    using fits(1) by (rule item_fits_writes)
  have "item_ready maps d mr base ?oc (items_depth its) sd1"
    using item_ready_advanced [OF sd1 _ ws] "6.prems"(4) by simp
  moreover have "sd_data sd1 = sd_data sd" "length (sd_mem sd1) = length (sd_mem sd)"
    using advanced_sel(2,3) [OF sd1] length_apply_writes [OF ws] by simp_all
  ultimately obtain sd2 oc' where ev2: "handle_events dec (items_events ds root i (a + length ?xs) its) sd1 = Inr sd2"
    and sd2: "advanced d (items_writes ds maps mr base ?oc its) (occ_frame mr base oc') sd1 sd2"
    using "6.IH"(2) [of sd1 mr base ?oc d "a + length ?xs", OF wf(2) "6.prems"(2) _ _ "6.prems"(5)] fits(2) a(2) pk(2) by auto
  show ?case
    using ev1 ev2 advanced_trans [OF sd1 sd2] by (intro exI [of _ sd2] exI [of _ oc']) (simp add: handle_events_append)
qed

section \<open>Properties\<close>

lemma struct_init_handlers: "struct_handlers ds maps (lwpb_struct_decoder_init ds maps null dec)"
  by (simp add: struct_handlers_def lwpb_struct_decoder_init_def Let_def lwpb_decoder_msg_handler_def
      lwpb_decoder_field_handler_def lwpb_decoder_arg_def lwpb_decoder_init_def)

lemma struct_init_sel:
  "dec_stack (lwpb_struct_decoder_init ds maps null dec) = dec_stack dec"
  "quiet (dec_arg (lwpb_struct_decoder_init ds maps null dec))"
  "sd_stack (dec_arg (lwpb_struct_decoder_init ds maps null dec)) = sd_stack (dec_arg dec)"
  "sd_mem (dec_arg (lwpb_struct_decoder_init ds maps null dec)) = sd_mem (dec_arg dec)"
  by (simp_all add: lwpb_struct_decoder_init_def Let_def lwpb_decoder_msg_handler_def quiet_def
      lwpb_decoder_field_handler_def lwpb_decoder_arg_def lwpb_decoder_init_def)

text \<open>Decoding reduces to handling the events, from the state in which the first frame is set up.\<close>

definition struct_start :: "mem \<Rightarrow> map_ref \<Rightarrow> addr \<Rightarrow> 's lwpb_struct_decoder \<Rightarrow> 's lwpb_struct_decoder" where
  "struct_start m mr base sd = sd\<lparr>sd_depth := - 1, sd_data := m, sd_stack := (sd_stack sd)[0 := occ_frame mr base (None, 0)]\<rparr>"

lemma struct_decode_events:
  assumes "wf_items ds i its" "items_depth its < LWPB_MAX_DEPTH" "length (dec_stack dec) = LWPB_MAX_DEPTH"
    and "data + length (items_bytes ds i its) \<le> length m" "length m < 2 ^ 63"
    and "peek m data (length (items_bytes ds i its)) = items_bytes ds i its"
    and "mr < length maps" "sm_msg_desc (maps ! mr) = i" "0 < length (sd_stack (dec_arg dec))"
  shows "\<exists>dec'. (\<forall>s. dec_arg (dec' s) = s) \<and>
    lwpb_struct_decoder_decode ds maps m wv dec (Some mr) base data (of_nat (length (items_bytes ds i its))) =
    andthen (handle_events dec (message_events ds i data its) (struct_start m mr base (dec_arg dec))) (\<lambda>s.
      Inr (LWPB_ERR_OK, dec' s, Some (of_nat (length (items_bytes ds i its)))))"
proof -
  let ?sd = "struct_start m mr base (dec_arg dec)" and ?n = "length (items_bytes ds i its)"
  have put: "sd_put 0 \<lparr>sf_map = Some mr, sf_base = base, sf_last_field = None, sf_field_index = 0\<rparr>
      ((dec_arg dec)\<lparr>sd_depth := - 1, sd_data := m\<rparr>) = Inr ?sd"
    using assms(9) by (simp add: sd_put_def struct_start_def occ_frame_def)
  have evs: "handle_events (dec\<lparr>dec_arg := ?sd\<rparr>) evs sd = handle_events dec evs sd" for evs sd
  proof (induction evs arbitrary: sd)
    case (Cons ev evs)
    then have "handle_events (dec\<lparr>dec_arg := ?sd\<rparr>) evs = handle_events dec evs"
      by blast
    moreover have "handle (dec\<lparr>dec_arg := ?sd\<rparr>) ev sd = handle dec ev sd"
      by (cases ev) (simp_all add: handle.simps)
    ultimately show ?case by simp
  qed simp
  have "length (dec_stack (dec\<lparr>dec_arg := ?sd\<rparr>)) = LWPB_MAX_DEPTH"
    using assms(3) by simp
  from decode_message [OF assms(1,2) this assms(4-6), of wv] obtain dec' where "\<forall>s. dec_arg (dec' s) = s"
    and "lwpb_decoder_decode ds m wv (dec\<lparr>dec_arg := ?sd\<rparr>) (Some i) data (of_nat ?n) =
      andthen (handle_events (dec\<lparr>dec_arg := ?sd\<rparr>) (message_events ds i data its) ?sd) (\<lambda>s.
        Inr (LWPB_ERR_OK, dec' s, Some (of_nat ?n)))"
    by auto
  then show ?thesis
    using put assms(7,8) evs by (intro exI [of _ dec']) (simp add: lwpb_struct_decoder_decode_def)
qed

lemma first_start_event:
  assumes "quiet sd" and "mr < length maps" "0 < length (sd_stack sd)"
  shows "sdecoder_msg_start_handler maps p (sm_msg_desc (maps ! mr)) (struct_start m mr base sd) =
    Inr ((struct_start m mr base sd)\<lparr>sd_depth := 0\<rparr>)"
  using assms by (simp add: sdecoder_msg_start_handler_def struct_start_def sd_get_def occ_frame_def client_handler_def quiet_def)

lemma struct_decode_writes:
  assumes "wf_items ds i its" and "items_depth its < LWPB_MAX_DEPTH"
    and "length (dec_stack dec) = LWPB_MAX_DEPTH" "length (sd_stack (dec_arg dec)) = LWPB_MAX_DEPTH"
    and "data + length (items_bytes ds i its) < length m" and "length m < 2 ^ 63"
    and "peek m data (length (items_bytes ds i its)) = items_bytes ds i its"
    and "mr < length maps" and "sm_msg_desc (maps ! mr) = i"
    and "length (sd_mem (dec_arg dec)) < 2 ^ 63" and "items_fit ds maps (length (sd_mem (dec_arg dec))) mr base (None, 0) its"
  shows "\<exists>dec'. lwpb_struct_decoder_decode ds maps m wv (lwpb_struct_decoder_init ds maps null dec) (Some mr) base data
      (of_nat (length (items_bytes ds i its))) = Inr (LWPB_ERR_OK, dec', Some (of_nat (length (items_bytes ds i its)))) \<and>
    sd_mem (dec_arg dec') = apply_writes (items_writes ds maps mr base (None, 0) its) (sd_mem (dec_arg dec))"
proof -
  let ?dec = "lwpb_struct_decoder_init ds maps null dec"
  let ?sd = "struct_start m mr base (dec_arg ?dec)"
  have pos: "0 < length (sd_stack (dec_arg ?dec))" and q: "quiet (dec_arg ?dec)" "quiet (?sd\<lparr>sd_depth := 0\<rparr>)"
    using assms(4) by (simp_all add: struct_init_sel LWPB_MAX_DEPTH_def struct_start_def quiet_def)
      (simp_all add: struct_init_sel(2) [unfolded quiet_def])
  have ready: "item_ready maps 0 mr base (None, 0) (items_depth its) (?sd\<lparr>sd_depth := 0\<rparr>)"
    using assms(2,4,6,8,10) pos q by (simp add: item_ready_def sd_at_def struct_start_def struct_init_sel)
  have "items_fit ds maps (length (sd_mem (?sd\<lparr>sd_depth := 0\<rparr>))) mr base (None, 0) its"
    and bytes: "data + length (items_bytes ds i its) < length (sd_data (?sd\<lparr>sd_depth := 0\<rparr>))"
      "peek (sd_data (?sd\<lparr>sd_depth := 0\<rparr>)) data (length (items_bytes ds i its)) = items_bytes ds i its"
    using assms(5,7,11) by (simp_all add: struct_start_def struct_init_sel)
  from struct_events(2) [OF assms(1) struct_init_handlers this(1) ready assms(9) [symmetric] bytes] obtain sd' oc' where
    evs: "handle_events ?dec (items_events ds (Some i) i data its) (?sd\<lparr>sd_depth := 0\<rparr>) = Inr sd'"
    and sd': "advanced 0 (items_writes ds maps mr base (None, 0) its) (occ_frame mr base oc') (?sd\<lparr>sd_depth := 0\<rparr>) sd'"
    by blast
  have "quiet sd'"
    using advanced_sel(1) [OF sd'] q(2) by simp
  with evs have "handle_events ?dec (message_events ds i data its) ?sd = Inr (sd'\<lparr>sd_depth := sd_depth sd' - 1\<rparr>)"
    using first_start_event [OF q(1) assms(8) pos, of False m base] assms(9)
    by (simp add: message_events_def handle_events_append handle_struct [OF struct_init_handlers] end_handler_run)
  moreover have "sd_mem sd' = apply_writes (items_writes ds maps mr base (None, 0) its) (sd_mem (dec_arg dec))"
    using advanced_sel(3) [OF sd'] by (simp add: struct_start_def struct_init_sel)
  ultimately show ?thesis
    using struct_decode_events [OF assms(1,2) _ _ assms(6,7,8,9) pos, of wv base] assms(3,5)
    by (auto simp: struct_init_sel)
qed


text \<open>Replacing the counts of all map fields.\<close>

definition set_counts :: "(lwpb_struct_map_field \<Rightarrow> u64) \<Rightarrow> struct_maps \<Rightarrow> struct_maps" where
  "set_counts f maps = map (\<lambda>mp. mp\<lparr>sm_fields := map (\<lambda>fd. fd\<lparr>smf_count := f fd\<rparr>) (sm_fields mp)\<rparr>) maps"

lemma find_map_field_counts: "find_map_field k (map (\<lambda>fd. fd\<lparr>smf_count := f fd\<rparr>) fs) fr = find_map_field k fs fr"
  by (induction k fs fr rule: find_map_field.induct) auto

lemma deref_counts:
  "deref (set_counts f maps) p = andthen (deref maps p) (\<lambda>mp. Inr (mp\<lparr>sm_fields := map (\<lambda>fd. fd\<lparr>smf_count := f fd\<rparr>) (sm_fields mp)\<rparr>))"
  "deref_map_field (set_counts f maps) q = andthen (deref_map_field maps q) (\<lambda>fd. Inr (fd\<lparr>smf_count := f fd\<rparr>))"
  by (auto simp: set_counts_def deref_def deref_map_field_def split: option.split)

lemma unpack_counts: "unpack_value t data (fd\<lparr>smf_count := c\<rparr>) frame v m = unpack_value t data fd frame v m"
  by (cases t) (simp_all add: unpack_value_def unpack_member_def unpack_string_def unpack_bytes_def field_base_def)

lemma handlers_counts:
  "sdecoder_field_handler ds (set_counts f maps) = sdecoder_field_handler ds maps"
  "sdecoder_msg_start_handler (set_counts f maps) = sdecoder_msg_start_handler maps"
proof -
  have "unpack_field ds (set_counts f maps) fp v sd = unpack_field ds maps fp v sd" for fp v and sd :: "'a lwpb_struct_decoder"
    by (simp add: unpack_field_def deref_counts andthen_assoc unpack_counts Let_def)
  then show "sdecoder_field_handler ds (set_counts f maps) = (sdecoder_field_handler ds maps :: 'a lwpb_struct_decoder fld_handler)"
    by (intro ext) (simp add: sdecoder_field_handler_def deref_counts andthen_assoc find_map_field_counts)
  have "sd_nested (set_counts f maps) sd = sd_nested maps sd" for sd :: "'b lwpb_struct_decoder"
    by (simp add: sd_nested_def deref_counts andthen_assoc)
  then show "sdecoder_msg_start_handler (set_counts f maps) = (sdecoder_msg_start_handler maps :: 'b lwpb_struct_decoder msg_handler)"
    by (intro ext) (simp add: sdecoder_msg_start_handler_def deref_counts andthen_assoc Let_def)
qed

text \<open>
  The number of elements that a structure has room for is not checked. Whatever the counts of the
  fields in the struct maps are, the struct decoder does the same: on a message with more elements than
  the count it stores the others behind the array.
\<close>

theorem struct_count_ignored:
  "lwpb_struct_decoder_decode ds (set_counts f maps) m wv (lwpb_struct_decoder_init ds (set_counts f maps) null dec) mr base data len =
   lwpb_struct_decoder_decode ds maps m wv (lwpb_struct_decoder_init ds maps null dec) mr base data len"
  by (simp add: lwpb_struct_decoder_decode_def lwpb_struct_decoder_init_def handlers_counts deref_counts andthen_assoc Let_def)

text \<open>
  Storing a string reads one byte too many. When the string ends where the memory ends and the field
  of the structure is longer than it, the struct decoder copies the byte behind the string and crashes.
\<close>

theorem struct_string_overread:
  assumes "wf_item ds i (Data j bs)" and "field_type (the_field ds i j) = LWPB_STRING"
    and "length (dec_stack dec) = LWPB_MAX_DEPTH" "length (sd_stack (dec_arg dec)) = LWPB_MAX_DEPTH"
    and "data + length (item_bytes ds i (Data j bs)) = length m" and "length m < 2 ^ 63"
    and "peek m data (length (item_bytes ds i (Data j bs))) = item_bytes ds i (Data j bs)"
    and "mr < length maps" and "sm_msg_desc (maps ! mr) = i" and "map_pos maps mr j = Some k"
    and "smf_len (map_field maps mr j) = Len len" and "length bs < unat len"
  shows "lwpb_struct_decoder_decode ds maps m wv (lwpb_struct_decoder_init ds maps null dec) (Some mr) base data
    (of_nat (length (item_bytes ds i (Data j bs)))) = Inl Fault"
proof -
  let ?dec = "lwpb_struct_decoder_init ds maps null dec" and ?fd = "the_field ds i j"
  let ?sd = "struct_start m mr base (dec_arg ?dec)" and ?c = "content_addr data (the_field ds i j) bs"
  have pos: "0 < length (sd_stack (dec_arg ?dec))"
    using assms(4) by (simp add: struct_init_sel LWPB_MAX_DEPTH_def)
  have fd: "deref_field ds (Some (i, j)) = Inr ?fd"
    using assms(1) wf_field_deref [of ds i j] by simp
  have c: "?c + length bs = length m"
    using delimited_content(2) [of m data ?fd bs] assms(5,7) by (simp add: Let_def)
  let ?n = "of_nat (length bs) + 1 :: u64"
  have "unat (of_nat (length bs + 1) :: u64) = length bs + 1"
    using c assms(6) by (subst unat_of_nat) simp
  then have n: "unat ?n = Suc (length bs)"
    by (simp add: add.commute)
  then have "(if len < ?n then len else ?n) = ?n"
    using assms(12) by (auto simp: word_less_nat_alt word_unat_eq_iff)
  moreover have "loads m ?c (unat ?n) = Inl Fault"
    unfolding n using c by (intro loads_fault) simp_all
  moreover have "deref_map_field maps (Some (mr, k)) = Inr (map_field maps mr j)"
    using map_posD(2,3) [OF assms(10)] assms(8) by (simp add: deref_map_field_def)
  ultimately have "sdecoder_field_handler ds maps False (Some i) (i, j) (Some (V_string ?c (of_nat (length bs)))) (?sd\<lparr>sd_depth := 0\<rparr>) = Inl Fault"
    using pos assms(2,8,9,11) fd map_posD(1) [OF assms(10)]
    by (simp add: sdecoder_field_handler_def sd_get_def struct_start_def occ_frame_def unpack_field_def Let_def
        map_posD(4) [OF assms(10)] unpack_value_def unpack_string_def the_value_def)
  then have "handle_events ?dec (message_events ds i data [Data j bs]) ?sd = Inl Fault"
    using first_start_event [OF struct_init_sel(2) assms(8) pos, of False m base] assms(2,9)
    by (simp add: message_events_def handle_struct [OF struct_init_handlers] Let_def data_value_def)
  then show ?thesis
    using struct_decode_events [of ds i "[Data j bs]" ?dec data m mr maps wv base] assms(1,3,5-9) pos
    by (auto simp: struct_init_sel LWPB_MAX_DEPTH_def)
qed

end
