(* ===== verification/Struct_Map.thy ===== *)
theory Struct_Map
  imports Struct_Run
begin

text \<open>
  The macros of src/src/include/lwpb/utils/struct_map.h that make a struct map of a C structure type, and what
  they guarantee: the struct decoder stores inside of the structure, as long as a message has no more
  elements of a field than the structure has room for.
\<close>

section \<open>Structure types\<close>

text \<open>
  A member is an array of elements of a size and an alignment, in bytes; its offset is the next one that is aligned.
  The size of a structure is a multiple of its alignment.
\<close>

record c_member =
  cm_name :: string
  cm_size :: nat
  cm_align :: nat
  cm_count :: nat

definition round_up :: "nat \<Rightarrow> nat \<Rightarrow> nat" where
  "round_up n a = (n + (a - 1)) div a * a"

fun member_offset :: "nat \<Rightarrow> c_member list \<Rightarrow> string \<Rightarrow> nat option" where
  "member_offset pos [] name = None"
| "member_offset pos (c # cs) name = (let ofs = round_up pos (cm_align c) in
     if cm_name c = name then Some ofs else member_offset (ofs + cm_size c * cm_count c) cs name)"

fun members_end :: "nat \<Rightarrow> c_member list \<Rightarrow> nat" where
  "members_end pos [] = pos"
| "members_end pos (c # cs) = members_end (round_up pos (cm_align c) + cm_size c * cm_count c) cs"

definition sizeof_struct :: "c_member list \<Rightarrow> nat" where
  "sizeof_struct cs = round_up (members_end 0 cs) (fold max (map cm_align cs) 1)"

section \<open>The macros\<close>

text \<open>
  The lines between LWPB_STRUCT_MAP_BEGIN and LWPB_STRUCT_MAP_END: a macro with its field descriptor, the name of the member,
  for some the length of an element or the struct map, and the count.
\<close>

datatype map_entry =
    MAP_DOUBLE field_ref string u64
  | MAP_FLOAT field_ref string u64
  | MAP_INT32 field_ref string u64
  | MAP_UINT32 field_ref string u64
  | MAP_INT64 field_ref string u64
  | MAP_UINT64 field_ref string u64
  | MAP_BOOL field_ref string u64
  | MAP_ENUM field_ref string u64
  | MAP_STRING field_ref string u64 u64
  | MAP_BYTES field_ref string u64 u64
  | MAP_MESSAGE field_ref string map_ref u64

text \<open>An unknown member does not compile, here None. The offset is cast to an unsigned int.\<close>

definition LWPB_STRUCT_MAP_FIELD ::
    "c_member list \<Rightarrow> field_ref \<Rightarrow> string \<Rightarrow> map_len \<Rightarrow> u64 \<Rightarrow> lwpb_struct_map_field option" where
  "LWPB_STRUCT_MAP_FIELD struct fr name len count = map_option (\<lambda>ofs.
     \<lparr>smf_field_desc = fr, smf_ofs = of_nat ofs, smf_len = len, smf_count = count\<rparr>) (member_offset 0 struct name)"

text \<open>
  The macro for members of type float has a closing parenthesis too many, so that LWPB_STRUCT_MAP_FIELD is
  used with four arguments, which does not compile.
\<close>

fun map_entry_field :: "c_member list \<Rightarrow> map_entry \<Rightarrow> lwpb_struct_map_field option" where
  "map_entry_field struct (MAP_DOUBLE fr name n) = LWPB_STRUCT_MAP_FIELD struct fr name (Len 8) n"
| "map_entry_field struct (MAP_FLOAT fr name n) = None"
| "map_entry_field struct (MAP_INT32 fr name n) = LWPB_STRUCT_MAP_FIELD struct fr name (Len 4) n"
| "map_entry_field struct (MAP_UINT32 fr name n) = LWPB_STRUCT_MAP_FIELD struct fr name (Len 4) n"
| "map_entry_field struct (MAP_INT64 fr name n) = LWPB_STRUCT_MAP_FIELD struct fr name (Len 8) n"
| "map_entry_field struct (MAP_UINT64 fr name n) = LWPB_STRUCT_MAP_FIELD struct fr name (Len 8) n"
| "map_entry_field struct (MAP_BOOL fr name n) = LWPB_STRUCT_MAP_FIELD struct fr name (Len 4) n"
| "map_entry_field struct (MAP_ENUM fr name n) = LWPB_STRUCT_MAP_FIELD struct fr name (Len 4) n"
| "map_entry_field struct (MAP_STRING fr name len n) = LWPB_STRUCT_MAP_FIELD struct fr name (Len len) n"
| "map_entry_field struct (MAP_BYTES fr name len n) = LWPB_STRUCT_MAP_FIELD struct fr name (Len len) n"
| "map_entry_field struct (MAP_MESSAGE fr name mr n) = LWPB_STRUCT_MAP_FIELD struct fr name (Sub_map mr) n"

definition LWPB_STRUCT_MAP :: "msg_ref \<Rightarrow> c_member list \<Rightarrow> map_entry list \<Rightarrow> lwpb_struct_map option" where
  "LWPB_STRUCT_MAP msg struct entries = map_option (\<lambda>fs.
     \<lparr>sm_msg_desc = msg, sm_struct_size = of_nat (sizeof_struct struct), sm_fields = fs\<rparr>) (those (map (map_entry_field struct) entries))"

section \<open>Room for the elements\<close>

text \<open>The size of an element of a map field; all elements are inside of the structure.\<close>

definition element_size :: "struct_maps \<Rightarrow> map_len \<Rightarrow> nat" where
  "element_size maps len = (case len of Len n \<Rightarrow> unat n | Sub_map mr \<Rightarrow> unat (sm_struct_size (maps ! mr)))"

definition field_room :: "struct_maps \<Rightarrow> nat \<Rightarrow> lwpb_struct_map_field \<Rightarrow> bool" where
  "field_room maps sz f \<longleftrightarrow> unat (smf_ofs f) + element_size maps (smf_len f) * unat (smf_count f) \<le> sz"

definition maps_room :: "struct_maps \<Rightarrow> bool" where
  "maps_room maps \<longleftrightarrow> list_all (\<lambda>map. list_all (field_room maps (unat (sm_struct_size map))) (sm_fields map)) maps"

text \<open>An entry fits its member: the elements are not larger than the array.\<close>

definition entry_room :: "struct_maps \<Rightarrow> c_member list \<Rightarrow> lwpb_struct_map_field \<Rightarrow> string \<Rightarrow> bool" where
  "entry_room maps struct f name \<longleftrightarrow>
     list_ex (\<lambda>c. cm_name c = name \<and> element_size maps (smf_len f) * unat (smf_count f) \<le> cm_size c * cm_count c) struct"

fun entry_name :: "map_entry \<Rightarrow> string" where
  "entry_name (MAP_DOUBLE fr name n) = name"
| "entry_name (MAP_FLOAT fr name n) = name"
| "entry_name (MAP_INT32 fr name n) = name"
| "entry_name (MAP_UINT32 fr name n) = name"
| "entry_name (MAP_INT64 fr name n) = name"
| "entry_name (MAP_UINT64 fr name n) = name"
| "entry_name (MAP_BOOL fr name n) = name"
| "entry_name (MAP_ENUM fr name n) = name"
| "entry_name (MAP_STRING fr name len n) = name"
| "entry_name (MAP_BYTES fr name len n) = name"
| "entry_name (MAP_MESSAGE fr name mr n) = name"

lemma round_up_le: "0 < a \<Longrightarrow> n \<le> round_up n a"
  using div_mult_mod_eq [of "n + (a - 1)" a] mod_less_divisor [of a "n + (a - 1)"] unfolding round_up_def by linarith

lemma members_end_le: "list_all (\<lambda>c. 0 < cm_align c) cs \<Longrightarrow> pos \<le> members_end pos cs"
proof (induction cs arbitrary: pos)
  case (Cons c cs)
  then have "pos \<le> round_up pos (cm_align c)" "round_up pos (cm_align c) + cm_size c * cm_count c \<le> members_end pos (c # cs)"
    using round_up_le by simp_all
  then show ?case by linarith
qed simp

lemma member_inside:
  "list_all (\<lambda>c. 0 < cm_align c) cs \<Longrightarrow> distinct (map cm_name cs) \<Longrightarrow> c \<in> set cs \<Longrightarrow>
    \<exists>ofs. member_offset pos cs (cm_name c) = Some ofs \<and> ofs + cm_size c * cm_count c \<le> members_end pos cs"
proof (induction cs arbitrary: pos)
  case (Cons d cs)
  let ?pos = "round_up pos (cm_align d) + cm_size d * cm_count d"
  show ?case
  proof (cases "c = d")
    case True
    with members_end_le [of cs ?pos] Cons.prems(1) show ?thesis by simp
  next
    case False
    with Cons.prems have "c \<in> set cs" "cm_name d \<noteq> cm_name c" by (auto simp: image_iff)
    with Cons.IH [of ?pos] Cons.prems show ?thesis by (simp add: Let_def)
  qed
qed simp

text \<open>The maps of some structure types, each with its message and its entries. A structure is smaller than 4 GB.\<close>

definition struct_ok :: "c_member list \<Rightarrow> bool" where
  "struct_ok struct \<longleftrightarrow> list_all (\<lambda>c. 0 < cm_align c) struct \<and> distinct (map cm_name struct) \<and> sizeof_struct struct < 2 ^ 32"

definition made_by_macros :: "(msg_ref \<times> c_member list \<times> map_entry list) list \<Rightarrow> struct_maps \<Rightarrow> bool" where
  "made_by_macros types maps \<longleftrightarrow> list_all2 (\<lambda>(msg, struct, entries) map. LWPB_STRUCT_MAP msg struct entries = Some map \<and> struct_ok struct \<and>
     list_all (\<lambda>e. case map_entry_field struct e of None \<Rightarrow> False | Some f \<Rightarrow> entry_room maps struct f (entry_name e)) entries) types maps"

lemma fold_max_ge: "a \<le> fold max xs (a :: nat)"
proof (induction xs arbitrary: a)
  case (Cons x xs)
  from Cons [of "max x a"] show ?case by simp
qed simp

lemma map_entry_ofs: "map_entry_field struct e = Some f \<Longrightarrow> \<exists>ofs. member_offset 0 struct (entry_name e) = Some ofs \<and> smf_ofs f = of_nat ofs"
  by (cases e) (auto simp: LWPB_STRUCT_MAP_FIELD_def)

lemma entry_inside:
  assumes "struct_ok struct" and "map_entry_field struct e = Some f" and "entry_room maps struct f (entry_name e)"
  shows "field_room maps (sizeof_struct struct) f"
proof -
  obtain c where c: "c \<in> set struct" "cm_name c = entry_name e" "element_size maps (smf_len f) * unat (smf_count f) \<le> cm_size c * cm_count c"
    using assms(3) by (auto simp: entry_room_def list_ex_iff)
  obtain ofs where ofs: "member_offset 0 struct (entry_name e) = Some ofs" "ofs + cm_size c * cm_count c \<le> members_end 0 struct"
    using member_inside [OF _ _ c(1), of 0] assms(1) c(2) by (auto simp: struct_ok_def)
  have "members_end 0 struct \<le> sizeof_struct struct"
    using fold_max_ge [of 1 "map cm_align struct"] unfolding sizeof_struct_def by (intro round_up_le) simp
  moreover from this ofs(2) have "ofs < 2 ^ 32"
    using assms(1) by (simp add: struct_ok_def)
  moreover have "smf_ofs f = of_nat ofs"
    using map_entry_ofs [OF assms(2)] ofs(1) by simp
  ultimately show ?thesis
    using ofs(2) c(3) by (simp add: field_room_def unat_of_nat)
qed

lemma those_Some: "those xs = Some ys \<longleftrightarrow> xs = map Some ys"
  by (induction xs arbitrary: ys) (auto split: option.splits)

lemma macros_room:
  assumes "made_by_macros types maps"
  shows "maps_room maps"
  unfolding maps_room_def list_all_length
proof (intro allI impI)
  fix i k
  assume i: "i < length maps" and k: "k < length (sm_fields (maps ! i))"
  obtain msg struct entries where "types ! i = (msg, struct, entries)" by (cases "types ! i")
  with assms i have map: "LWPB_STRUCT_MAP msg struct entries = Some (maps ! i)" and ok: "struct_ok struct"
    and entries: "list_all (\<lambda>e. case map_entry_field struct e of None \<Rightarrow> False | Some f \<Rightarrow> entry_room maps struct f (entry_name e)) entries"
    by (auto simp: made_by_macros_def list_all2_conv_all_nth)
  obtain fs where those: "those (map (map_entry_field struct) entries) = Some fs"
    using map by (cases "those (map (map_entry_field struct) entries)") (simp_all add: LWPB_STRUCT_MAP_def)
  with map have "maps ! i = \<lparr>sm_msg_desc = msg, sm_struct_size = of_nat (sizeof_struct struct), sm_fields = fs\<rparr>"
    by (simp add: LWPB_STRUCT_MAP_def)
  then have mi: "sm_fields (maps ! i) = fs" "sm_struct_size (maps ! i) = of_nat (sizeof_struct struct)"
    by (simp_all only: lwpb_struct_map.simps)
  note fs = those [unfolded those_Some]
  have k': "k < length entries" using k mi(1) map_eq_imp_length_eq [OF fs] by simp
  then have "map_entry_field struct (entries ! k) = Some (fs ! k)"
    using arg_cong [OF fs, of "\<lambda>xs. xs ! k"] k mi(1) by simp
  with entries k' have "field_room maps (sizeof_struct struct) (fs ! k)"
    by (intro entry_inside [OF ok]) (auto simp: list_all_length dest!: spec [of _ k])
  moreover have "unat (sm_struct_size (maps ! i)) = sizeof_struct struct"
    using ok by (simp add: mi(2) struct_ok_def unat_of_nat)
  ultimately show "field_room maps (unat (sm_struct_size (maps ! i))) (sm_fields (maps ! i) ! k)"
    by (simp add: mi(1))
qed

section \<open>Messages with no more elements than there is room for\<close>

definition count_ok :: "struct_maps \<Rightarrow> map_ref \<Rightarrow> occurrence \<Rightarrow> nat \<Rightarrow> bool" where
  "count_ok maps mr oc j \<longleftrightarrow> element_fits maps mr oc j \<and> item_element maps mr oc j < unat (smf_count (map_field maps mr j))"

fun item_counts :: "descs \<Rightarrow> struct_maps \<Rightarrow> map_ref \<Rightarrow> occurrence \<Rightarrow> u8 list item \<Rightarrow> bool"
and items_counts :: "descs \<Rightarrow> struct_maps \<Rightarrow> map_ref \<Rightarrow> occurrence \<Rightarrow> message \<Rightarrow> bool" where
  "item_counts ds maps mr oc (Scalar j v) \<longleftrightarrow> count_ok maps mr oc j \<and>
     smf_len (map_field maps mr j) = Len (of_nat (length (value_bytes v)))"
| "item_counts ds maps mr oc (Data j bs) \<longleftrightarrow> count_ok maps mr oc j \<and>
     (case smf_len (map_field maps mr j) of Len len \<Rightarrow> len \<noteq> 0 | Sub_map _ \<Rightarrow> False)"
| "item_counts ds maps mr oc (Sub j its) \<longleftrightarrow> count_ok maps mr oc j \<and>
     (case smf_len (map_field maps mr j) of Len _ \<Rightarrow> False | Sub_map sm \<Rightarrow> sm < length maps \<and>
        fd_msg_desc (the_field ds (sm_msg_desc (maps ! mr)) j) = Some (sm_msg_desc (maps ! sm)) \<and> items_counts ds maps sm (None, 0) its)"
| "item_counts ds maps mr oc (Packed j vs) \<longleftrightarrow> False"
| "items_counts ds maps mr oc [] \<longleftrightarrow> True"
| "items_counts ds maps mr oc (it # its) \<longleftrightarrow> item_counts ds maps mr oc it \<and>
     items_counts ds maps mr (after_item maps mr oc (item_index it)) its"

definition write_inside :: "addr \<Rightarrow> addr \<Rightarrow> addr \<times> u8 list \<Rightarrow> bool" where
  "write_inside a b w \<longleftrightarrow> a \<le> fst w \<and> fst w + length (snd w) \<le> b"

lemma length_value_bytes: "length (value_bytes v) \<le> 8"
  by (cases v) simp_all

lemma element_inside:
  assumes "maps_room maps" and "mr < length maps" and "count_ok maps mr oc j"
    and "sz = element_size maps (smf_len (map_field maps mr j))"
  shows "base \<le> element maps mr base oc j sz" and "element maps mr base oc j sz + sz \<le> base + unat (sm_struct_size (maps ! mr))"
proof -
  let ?f = "map_field maps mr j"
  obtain k where k: "map_pos maps mr j = Some k" and c: "item_element maps mr oc j < unat (smf_count ?f)"
    using assms(3) by (auto simp: count_ok_def element_fits_def)
  then have "k < length (sm_fields (maps ! mr))"
    by (auto simp: map_pos_def split: sum.splits dest: find_map_fieldD)
  then have "field_room maps (unat (sm_struct_size (maps ! mr))) ?f"
    using assms(1,2) k by (simp add: maps_room_def list_all_length map_field_def)
  moreover have "sz * Suc (item_element maps mr oc j) \<le> sz * unat (smf_count ?f)"
    using c by (intro mult_le_mono) simp_all
  ultimately show "element maps mr base oc j sz + sz \<le> base + unat (sm_struct_size (maps ! mr))"
    by (simp add: element_def field_room_def assms(4))
qed (simp add: element_def)

lemma counts_fit:
  "maps_room maps \<Longrightarrow> mr < length maps \<Longrightarrow> base + unat (sm_struct_size (maps ! mr)) \<le> n \<Longrightarrow> item_counts ds maps mr oc it \<Longrightarrow>
    item_fits ds maps n mr base oc it \<and>
    list_all (write_inside base (base + unat (sm_struct_size (maps ! mr)))) (item_writes ds maps mr base oc it)"
  "maps_room maps \<Longrightarrow> mr < length maps \<Longrightarrow> base + unat (sm_struct_size (maps ! mr)) \<le> n \<Longrightarrow> items_counts ds maps mr oc its \<Longrightarrow>
    items_fit ds maps n mr base oc its \<and>
    list_all (write_inside base (base + unat (sm_struct_size (maps ! mr)))) (items_writes ds maps mr base oc its)"
proof (induction ds maps n mr base oc it and ds maps n mr base oc its rule: item_fits_items_fit.induct)
  case (1 ds maps n mr base oc j v)
  let ?sz = "length (value_bytes v)"
  have sz: "?sz = element_size maps (smf_len (map_field maps mr j))" and c: "count_ok maps mr oc j"
    using "1.prems"(4) length_value_bytes [of v] by (simp_all add: element_size_def unat_of_nat)
  note inside = element_inside [OF "1.prems"(1,2) c sz, of base]
  with "1.prems"(3,4) c show ?case
    by (auto simp: write_fits_def write_inside_def count_ok_def)
next
  case (2 ds maps n mr base oc j bs)
  then obtain len where len: "smf_len (map_field maps mr j) = Len len" "len \<noteq> 0" and c: "count_ok maps mr oc j"
    by (auto split: map_len.splits)
  note inside = element_inside [OF "2.prems"(1,2) c refl, of base]
  have "0 < unat len" using len(2) by (simp add: unat_gt_0)
  then have "length (data_bytes t (unat len) bs) \<le> unat len" for t
    by (auto simp: data_bytes_def)
  then have "element maps mr base oc j (unat len) + length (data_bytes t (unat len) bs) \<le> base + unat (sm_struct_size (maps ! mr))" for t
    using inside(2) len(1) by (auto simp: element_size_def intro: order_trans [OF add_left_mono])
  with inside(1) len c "2.prems"(3) show ?case
    by (auto simp: write_fits_def write_inside_def count_ok_def element_size_def Let_def intro: order_trans)
next
  case (3 ds maps n mr base oc j its)
  then obtain sm where sm: "smf_len (map_field maps mr j) = Sub_map sm" "sm < length maps"
      "fd_msg_desc (the_field ds (sm_msg_desc (maps ! mr)) j) = Some (sm_msg_desc (maps ! sm))" "items_counts ds maps sm (None, 0) its"
    and c: "count_ok maps mr oc j"
    by (auto split: map_len.splits)
  let ?base = "sub_base maps mr base oc j"
  have "element_size maps (smf_len (map_field maps mr j)) = unat (sm_struct_size (maps ! sm))"
    by (simp add: element_size_def sm(1))
  note inside = element_inside [OF "3.prems"(1,2) c this [symmetric], of base]
  then have sub: "base \<le> ?base" "?base + unat (sm_struct_size (maps ! sm)) \<le> base + unat (sm_struct_size (maps ! mr))"
    by (simp_all add: sub_base_def sm(1))
  with "3.IH" [OF "3.prems"(1) sm(2) _ sm(4)] "3.prems"(3)
  have "items_fit ds maps n sm ?base (None, 0) its"
    "list_all (write_inside ?base (?base + unat (sm_struct_size (maps ! sm)))) (items_writes ds maps sm ?base (None, 0) its)"
    by simp_all
  with sm c sub "3.prems"(3) show ?case
    by (auto simp: count_ok_def write_inside_def list_all_iff)
qed (auto simp: list_all_iff)

lemma writes_same_outside:
  "list_all (write_inside a b) ws \<Longrightarrow> b \<le> length m \<Longrightarrow> same_outside a b m (apply_writes ws m)"
proof (induction ws arbitrary: m)
  case (Cons w ws)
  then have w: "same_outside a b m (poke m (fst w) (snd w))"
    by (auto simp: write_inside_def intro!: same_outside_poke)
  with Cons same_outside_length [OF w] show ?case
    by (auto intro: same_outside_trans)
qed simp

section \<open>Properties\<close>

text \<open>
  C21: With struct maps that the macros of struct_map.h make of structure types, whose entries fit their members, the struct
  decoder stores inside of the structure only: decoding a message that has at most as many elements of each field
  as the count of its entry returns LWPB_ERR_OK, and outside of the structure at the given base, nested structures
  included, the memory is as it was.
\<close>

theorem struct_map_confines:
  assumes "made_by_macros types maps" and "items_counts ds maps mr (None, 0) its"
    and "wf_items ds i its" and "items_depth its < LWPB_MAX_DEPTH"
    and "length (dec_stack dec) = LWPB_MAX_DEPTH" "length (sd_stack (dec_arg dec)) = LWPB_MAX_DEPTH"
    and "data + length (items_bytes ds i its) < length m" and "length m < 2 ^ 63"
    and "peek m data (length (items_bytes ds i its)) = items_bytes ds i its"
    and "mr < length maps" and "sm_msg_desc (maps ! mr) = i"
    and "base + unat (sm_struct_size (maps ! mr)) \<le> length (sd_mem (dec_arg dec))" and "length (sd_mem (dec_arg dec)) < 2 ^ 63"
  shows "\<exists>dec'. lwpb_struct_decoder_decode ds maps m wv (lwpb_struct_decoder_init ds maps null dec) (Some mr) base data
      (of_nat (length (items_bytes ds i its))) = Inr (LWPB_ERR_OK, dec', Some (of_nat (length (items_bytes ds i its)))) \<and>
    same_outside base (base + unat (sm_struct_size (maps ! mr))) (sd_mem (dec_arg dec)) (sd_mem (dec_arg dec'))"
proof -
  from counts_fit(2) [OF macros_room [OF assms(1)] assms(10,12,2)]
  have fit: "items_fit ds maps (length (sd_mem (dec_arg dec))) mr base (None, 0) its"
    and "list_all (write_inside base (base + unat (sm_struct_size (maps ! mr)))) (items_writes ds maps mr base (None, 0) its)"
    by simp_all
  note outside = writes_same_outside [OF this(2) assms(12)]
  from struct_decode_writes [OF assms(3-11,13) fit, of wv null] outside show ?thesis
    by metis
qed

end
