(* ===== verification/Struct_Packed.thy ===== *)
theory Struct_Packed
  imports Struct_Run
begin

text \<open>
  What the struct decoder of src/src/lwpb/utils/struct_decoder.c does with packed repeated fields: it takes
  the notification of their start for the start of a nested message.
\<close>

text \<open>Items with one value, and the types of their values.\<close>

fun single :: "'a item \<Rightarrow> bool" where
  "single (Scalar j v) = True"
| "single (Data j bs) = True"
| "single _ = False"

definition value_typ :: "field_typ \<Rightarrow> bool" where
  "value_typ t \<longleftrightarrow> t \<noteq> LWPB_MESSAGE \<and> t \<noteq> LWPB_GROUP \<and> (\<forall>n. t \<noteq> LWPB_TYP_OTHER n)"

lemma find_map_field_Inr:
  "find_map_field k fs fr = Inr k' \<Longrightarrow> k \<le> k' \<and> k' - k < length fs \<and> smf_field_desc (fs ! (k' - k)) = fr"
  by (induction fs arbitrary: k) (fastforce simp: nth_Cons' Suc_diff_Suc split: if_splits)+

text \<open>A value is only stored by an entry of the map that has a length and is no map of a structure.\<close>

lemma unpack_len:
  "unpack_member k get field frame value m = Inr (m', frame') \<Longrightarrow>
    (\<exists>n. smf_len field = Len n) \<and> sf_last_field frame' = sf_last_field frame"
  "unpack_string data field frame value m = Inr (m', frame') \<Longrightarrow>
    (\<exists>n. smf_len field = Len n) \<and> sf_last_field frame' = sf_last_field frame"
  "unpack_bytes data field frame value m = Inr (m', frame') \<Longrightarrow>
    (\<exists>n. smf_len field = Len n) \<and> sf_last_field frame' = sf_last_field frame"
  by (cases "smf_len field";
      auto simp: unpack_member_def unpack_string_def unpack_bytes_def andthen_eq_Inr next_index_def Let_def split: if_splits)+

lemma unpack_value_len:
  "unpack_value t data field frame value m = Inr (m', frame') \<Longrightarrow> value_typ t \<Longrightarrow>
    (\<exists>n. smf_len field = Len n) \<and> sf_last_field frame' = sf_last_field frame"
  by (cases t) (simp_all add: unpack_value_def value_typ_def unpack_len)

definition no_struct :: "struct_maps \<Rightarrow> 's lwpb_struct_decoder \<Rightarrow> bool" where
  "no_struct maps sd \<longleftrightarrow> sd_depth sd = 0 \<and> 0 < length (sd_stack sd) \<and> quiet sd \<and>
     (\<forall>fp field. sf_last_field (sd_stack sd ! 0) = Some fp \<longrightarrow> deref_map_field maps (Some fp) = Inr field \<longrightarrow>
       (\<exists>n. smf_len field = Len n))"

lemma no_struct_map:
  assumes "no_struct maps sd"
  shows "andthen (deref_map_field maps (sf_last_field (sd_stack sd ! 0))) (\<lambda>field. andthen (map_of_len (smf_len field)) (f field)) = Inl Fault"
proof (cases "deref_map_field maps (sf_last_field (sd_stack sd ! 0))")
  case (Inl e)
  then show ?thesis
    by (auto simp: deref_map_field_def deref_def andthen_def split: option.splits if_splits sum.splits)
next
  case (Inr field)
  with assms show ?thesis
    by (cases "sf_last_field (sd_stack sd ! 0)") (auto simp: no_struct_def deref_map_field_def)
qed

lemma no_struct_start:
  assumes "no_struct maps sd"
  shows "sdecoder_msg_start_handler maps p i sd = Inl Fault"
proof -
  have at: "sd_depth sd = 0" "0 < length (sd_stack sd)"
    using assms by (simp_all add: no_struct_def)
  then have "sd_nested maps (sd\<lparr>sd_depth := 1\<rparr>) = Inl Fault"
    using no_struct_map [OF assms] by (simp add: sd_nested_def sd_get_def)
  with at show ?thesis
    by (simp add: sdecoder_msg_start_handler_def)
qed

lemma field_handler_no_struct:
  assumes "sdecoder_field_handler ds maps p msg fr v sd = Inr sd'" and sd: "no_struct maps sd"
    and fd: "deref_field ds (Some fr) = Inr fd" and "value_typ (field_type fd)"
  shows "no_struct maps sd'"
proof -
  have at: "sd_depth sd = 0" "0 < length (sd_stack sd)" and q: "quiet sd"
    using sd by (simp_all add: no_struct_def)
  let ?frame = "sd_stack sd ! 0"
  obtain sm k sd1 where sm: "deref maps (sf_map ?frame) = Inr sm" "find_map_field 0 (sm_fields sm) fr = Inr k"
    and unpack: "unpack_field ds maps (the (sf_map ?frame), k) v sd = Inr sd1"
    and client: "client_handler (map_option (\<lambda>h. h msg fr v) (sd_field_handler sd1)) sd1 = Inr sd'"
    using assms(1) at by (auto simp: sdecoder_field_handler_def andthen_eq_Inr sd_get_def)
  let ?fp = "(the (sf_map ?frame), k)"
  have k: "k < length (sm_fields sm)" "smf_field_desc (sm_fields sm ! k) = fr"
    using find_map_field_Inr [OF sm(2)] by auto
  have field: "deref_map_field maps (Some ?fp) = Inr (sm_fields sm ! k)"
    using sm(1) k(1) by (auto simp: deref_map_field_def deref_def split: option.splits if_splits)
  obtain m' frame frame' where stored: "unpack_value (field_type fd) (sd_data sd) (sm_fields sm ! k) frame v (sd_mem sd) = Inr (m', frame')"
    and frame: "sf_last_field frame = Some ?fp" and sd1: "sd1 = sd\<lparr>sd_mem := m', sd_stack := (sd_stack sd)[0 := frame']\<rparr>"
    using unpack at field fd k(2)
    by (auto simp: unpack_field_def sd_get_def sd_put_def andthen_eq_Inr Let_def)
  have "sd' = sd1"
    using client q sd1 by (simp add: client_handler_def quiet_def)
  with unpack_value_len [OF stored assms(4)] frame field sd1 at q show ?thesis
    by (auto simp: no_struct_def quiet_def)
qed

lemma single_events_no_struct:
  assumes "struct_handlers ds maps dec"
  shows "wf_items ds i pre \<Longrightarrow> list_all single pre \<Longrightarrow> no_struct maps sd \<Longrightarrow>
    handle_events dec (items_events ds root i a pre) sd = Inr sd' \<Longrightarrow> no_struct maps sd'"
proof (induction pre arbitrary: a sd)
  case (Cons it pre)
  obtain sd1 where ev: "handle_events dec (item_events ds root i a it) sd = Inr sd1"
    and rest: "handle_events dec (items_events ds root i (a + length (item_bytes ds i it)) pre) sd1 = Inr sd'"
    using Cons.prems(4) by (auto simp: handle_events_append andthen_eq_Inr)
  have "no_struct maps sd1"
  proof (cases it)
    case (Scalar j v)
    then have fd: "deref_field ds (Some (i, j)) = Inr (the_field ds i j)" and ok: "scalar_ok (field_type (the_field ds i j)) v"
      using Cons.prems(1) by (simp_all add: wf_field_deref Let_def)
    from ok have "value_typ (field_type (the_field ds i j))"
      by (cases "field_type (the_field ds i j)") (simp_all add: value_typ_def scalar_ok_def)
    from field_handler_no_struct [OF _ Cons.prems(3) fd this] ev Scalar show ?thesis
      by (simp add: handle_struct [OF assms] andthen_eq_Inr)
  next
    case (Data j bs)
    then have fd: "deref_field ds (Some (i, j)) = Inr (the_field ds i j)" and "value_typ (field_type (the_field ds i j))"
      using Cons.prems(1) by (auto simp: wf_field_deref Let_def value_typ_def)
    from field_handler_no_struct [OF _ Cons.prems(3) this] ev Data show ?thesis
      by (simp add: handle_struct [OF assms] andthen_eq_Inr Let_def)
  qed (use Cons.prems(2) in simp_all)
  from Cons.IH [OF _ _ this rest] Cons.prems(1,2) show ?case by simp
qed simp

lemma packed_events:
  assumes dec: "struct_handlers ds maps dec" and its: "wf_items ds i (pre @ Packed j vs # post)" "list_all single pre"
    and sd: "no_struct maps sd"
  shows "handle_events dec (items_events ds root i a (pre @ Packed j vs # post)) sd =
    andthen (handle_events dec (items_events ds root i a pre) sd) (\<lambda>sd. Inl Fault)"
proof -
  have "wf_items ds i pre"
    using its(1) by (induction pre) simp_all
  note keep = single_events_no_struct [OF dec this its(2) sd, of root a]
  have "\<exists>a'. items_events ds root i a (pre @ rest) = items_events ds root i a pre @ items_events ds root i a' rest" for rest
  proof (induction pre arbitrary: a)
    case (Cons it pre)
    from Cons.IH [of "a + length (item_bytes ds i it)"] show ?case by auto
  qed auto
  then obtain a' where "items_events ds root i a (pre @ Packed j vs # post) =
      items_events ds root i a pre @ items_events ds root i a' (Packed j vs # post)"
    by blast
  then show ?thesis
    using keep by (cases "handle_events dec (items_events ds root i a pre) sd")
      (simp_all add: handle_events_append handle_struct [OF dec] no_struct_start)
qed

section \<open>Properties\<close>

text \<open>
  C40: The first packed repeated field of a message crashes the struct decoder, whatever the struct map is,
  when only numbers, strings and byte strings come before it, or nothing. The decoder notifies of the start
  of a packed field like of a message; the handler of the struct decoder takes it for a nested message and
  dereferences the last field, of which there is none, or the length of its entry in the map as if it
  were a map. So decoding never returns. It dereferences an invalid pointer in this way when the fields before the packed one have
  room in the structure, or else fails earlier.
\<close>

theorem struct_packed_crashes:
  assumes "its = pre @ Packed j vs # post" and "list_all single pre" and "wf_items ds i its" and "items_depth its < LWPB_MAX_DEPTH"
    and "length (dec_stack dec) = LWPB_MAX_DEPTH" "length (sd_stack (dec_arg dec)) = LWPB_MAX_DEPTH"
    and "data + length (items_bytes ds i its) \<le> length m" and "length m < 2 ^ 63"
    and "peek m data (length (items_bytes ds i its)) = items_bytes ds i its"
    and "mr < length maps" and "sm_msg_desc (maps ! mr) = i"
  shows "(\<exists>e. lwpb_struct_decoder_decode ds maps m wv (lwpb_struct_decoder_init ds maps null dec) (Some mr) base data
      (of_nat (length (items_bytes ds i its))) = Inl e) \<and>
    (length (sd_mem (dec_arg dec)) < 2 ^ 63 \<and> items_fit ds maps (length (sd_mem (dec_arg dec))) mr base (None, 0) pre \<longrightarrow>
      lwpb_struct_decoder_decode ds maps m wv (lwpb_struct_decoder_init ds maps null dec) (Some mr) base data
      (of_nat (length (items_bytes ds i its))) = Inl Fault)"
proof -
  let ?dec = "lwpb_struct_decoder_init ds maps null dec"
  let ?sd = "struct_start m mr base (dec_arg ?dec)" and ?pre = "items_events ds (Some i) i data pre"
  let ?ready = "?sd\<lparr>sd_depth := 0\<rparr>"
  have pos: "0 < length (sd_stack (dec_arg ?dec))"
    using assms(6) by (simp add: struct_init_sel LWPB_MAX_DEPTH_def)
  have q: "quiet ?ready"
    using struct_init_sel(2) [of ds maps null dec] by (simp add: quiet_def struct_start_def)
  have start: "no_struct maps ?ready"
    using pos q by (simp add: no_struct_def struct_start_def occ_frame_def)
  have its: "wf_items ds i (pre @ Packed j vs # post)"
    using assms(1,3) by simp
  have "sdecoder_msg_start_handler maps False i ?sd = Inr ?ready"
    using first_start_event [OF struct_init_sel(2) assms(10) pos] assms(11) by simp
  then have evs: "handle_events ?dec (message_events ds i data its) ?sd = andthen (handle_events ?dec ?pre ?ready) (\<lambda>sd. Inl Fault)"
    using packed_events [OF struct_init_handlers its assms(2) start, of null dec "Some i" data]
    unfolding assms(1) message_events_def
    by (simp only: handle_events.simps handle_struct [OF struct_init_handlers] andthen_Inr handle_events_append andthen_assoc andthen_Inl)
  have run: "lwpb_struct_decoder_decode ds maps m wv ?dec (Some mr) base data (of_nat (length (items_bytes ds i its))) =
      andthen (handle_events ?dec ?pre ?ready) (\<lambda>sd. Inl Fault)"
    using struct_decode_events [OF assms(3,4) _ assms(7-11) pos, of wv base] assms(5) evs
    by (auto simp: struct_init_sel andthen_assoc)
  have "\<exists>sd. handle_events ?dec ?pre ?ready = Inr sd"
    if mem: "length (sd_mem (dec_arg dec)) < 2 ^ 63" and fit: "items_fit ds maps (length (sd_mem (dec_arg dec))) mr base (None, 0) pre"
  proof -
    have all: "items_bytes ds i its = items_bytes ds i pre @ items_bytes ds i (Packed j vs # post)" and wf: "wf_items ds i pre"
      and depth: "items_depth pre < LWPB_MAX_DEPTH"
      using its assms(4) unfolding assms(1) by (induction pre) auto
    have "items_bytes ds i (Packed j vs # post) \<noteq> []"
      by (simp add: Let_def delimited_def)
    then have len: "data + length (items_bytes ds i pre) < length m"
      using assms(7) unfolding all by (simp only: length_append) (metis add_lessD1 le_less_trans length_greater_0_conv less_add_same_cancel1 add.assoc less_le_trans)
    have bytes: "peek m data (length (items_bytes ds i pre)) = items_bytes ds i pre"
      using assms(9) unfolding all length_append by (rule peek_appendD(1))
    have "item_ready maps 0 mr base (None, 0) (items_depth pre) ?ready"
      using depth assms(6,8,10) mem pos q by (simp add: item_ready_def sd_at_def struct_start_def struct_init_sel)
    from struct_events(2) [OF wf struct_init_handlers _ this assms(11) [symmetric], of data null dec "Some i"] fit len bytes show ?thesis
      by (auto simp: struct_start_def struct_init_sel)
  qed
  with run show ?thesis
    by (cases "handle_events ?dec ?pre ?ready") auto
qed

end
