(* ===== verification/Struct_Examples.thy ===== *)
theory Struct_Examples
  imports Struct_Map Examples Struct_Packed
begin

text \<open>
  The properties of the struct decoder applied to a concrete structure of 24 bytes: an int32, an array of
  eight characters, and a nested structure with an int64.
\<close>

definition sample_maps :: struct_maps where
  "sample_maps =
    [\<lparr>sm_msg_desc = 0, sm_struct_size = 24, sm_fields =
       [\<lparr>smf_field_desc = (0, 0), smf_ofs = 0, smf_len = Len 4, smf_count = 1\<rparr>,
        \<lparr>smf_field_desc = (0, 1), smf_ofs = 4, smf_len = Len 8, smf_count = 1\<rparr>,
        \<lparr>smf_field_desc = (0, 2), smf_ofs = 16, smf_len = Sub_map 1, smf_count = 1\<rparr>]\<rparr>,
     \<lparr>sm_msg_desc = 1, sm_struct_size = 8, sm_fields =
       [\<lparr>smf_field_desc = (1, 0), smf_ofs = 0, smf_len = Len 8, smf_count = 1\<rparr>]\<rparr>]"

definition struct_decoder :: "unit lwpb_struct_decoder lwpb_decoder" where
  "struct_decoder = \<lparr>dec_arg = \<lparr>sd_arg = (), sd_msg_start_handler = None, sd_msg_end_handler = None,
       sd_field_handler = None,
       sd_stack = replicate 32 \<lparr>sf_map = None, sf_base = 0, sf_last_field = None, sf_field_index = 0\<rparr>,
       sd_depth = 0, sd_mem = replicate 24 255, sd_data = []\<rparr>,
     msg_start_handler = None, msg_end_handler = None, field_handler = None,
     dec_stack = replicate 32 \<lparr>df_buf = lwpb_buf_init 0 0, df_msg_desc = None\<rparr>, dec_depth = 0, dec_packed = False\<rparr>"

definition struct_items :: message where
  "struct_items = [Scalar 0 (V_int32 (- 2)), Data 1 [97, 98, 99], Sub 2 [Scalar 0 (V_int64 (- 5))]]"

definition struct_bytes :: "u8 list" where
  "struct_bytes = [8, 254, 255, 255, 255, 255, 255, 255, 255, 255, 1, 18, 3, 97, 98, 99, 26, 2, 8, 9]"

lemma struct_sample:
  "wf_items sample_descs 0 struct_items" "items_depth struct_items < LWPB_MAX_DEPTH"
  "items_bytes sample_descs 0 struct_items = struct_bytes"
  "items_writes sample_descs sample_maps 0 0 (None, 0) struct_items =
    [(0, [254, 255, 255, 255]), (4, [97, 98, 99, 0]), (16, [251, 255, 255, 255, 255, 255, 255, 255])]"
  "length struct_bytes = 20" "length (dec_stack struct_decoder) = LWPB_MAX_DEPTH"
  "length (sd_stack (dec_arg struct_decoder)) = LWPB_MAX_DEPTH" "length (sd_mem (dec_arg struct_decoder)) = 24"
  "length sample_maps = 2" "sm_msg_desc (sample_maps ! 0) = 0"
  by code_simp+

lemma struct_sample_fits: "items_fit sample_descs sample_maps 24 0 0 (None, 0) struct_items"
  by (simp add: struct_items_def sample_maps_def element_fits_def map_pos_def item_element_def next_element_def
      map_field_def write_fits_def element_def sub_base_def after_item_def data_bytes_def the_field_def sample_descs_def sample_field_def)


definition packed_bytes :: "u8 list" where
  "packed_bytes = [8, 5, 34, 3, 1, 172, 2]"

text \<open>A packed field after an int32.\<close>

lemma struct_packed_crashes_witness:
  "lwpb_struct_decoder_decode sample_descs sample_maps packed_bytes no_wire_value
    (lwpb_struct_decoder_init sample_descs sample_maps () struct_decoder) (Some 0) 0 0 7 = Inl Fault"
proof -
  let ?its = "[Scalar 0 (V_int32 5), Packed 3 [V_uint32 1, V_uint32 300]] :: message"
  have its: "wf_items sample_descs 0 ?its" "items_bytes sample_descs 0 ?its = packed_bytes" "length packed_bytes = 7"
      "items_depth ?its < LWPB_MAX_DEPTH"
    by code_simp+
  moreover have "items_fit sample_descs sample_maps 24 0 0 (None, 0) [Scalar 0 (V_int32 5)]"
    by (simp add: sample_maps_def element_fits_def map_pos_def item_element_def next_element_def
        map_field_def write_fits_def element_def the_field_def sample_descs_def sample_field_def)
  moreover have "peek packed_bytes 0 7 = packed_bytes"
    by (simp add: peek_def packed_bytes_def)
  ultimately show ?thesis
    using struct_packed_crashes [of ?its "[Scalar 0 (V_int32 5)]" 3 "[V_uint32 1, V_uint32 300]" "[]" sample_descs 0 struct_decoder 0 packed_bytes 0
        sample_maps no_wire_value "()" 0]
    by (simp add: struct_sample)
qed

definition string_bytes :: "u8 list" where
  "string_bytes = [18, 3, 97, 98, 99]"

lemma struct_string_overread_witness:
  "lwpb_struct_decoder_decode sample_descs sample_maps string_bytes no_wire_value
    (lwpb_struct_decoder_init sample_descs sample_maps () struct_decoder) (Some 0) 0 0 5 = Inl Fault"
proof -
  have its: "wf_item sample_descs 0 (Data 1 [97, 98, 99] :: u8 list item)" "field_type (the_field sample_descs 0 1) = LWPB_STRING"
      "item_bytes sample_descs 0 (Data 1 [97, 98, 99]) = string_bytes" "length string_bytes = 5"
      "map_pos sample_maps 0 1 = Some 1" "smf_len (map_field sample_maps 0 1) = Len 8"
    by code_simp+
  moreover have "peek string_bytes 0 5 = string_bytes"
    by (simp add: peek_def string_bytes_def)
  ultimately show ?thesis
    using struct_string_overread [of sample_descs 0 1 "[97, 98, 99]" struct_decoder 0 string_bytes 0 sample_maps 1 8 no_wire_value "()" 0]
    by (simp add: struct_sample)
qed

section \<open>The maps from their structure types\<close>

text \<open>struct { int32_t id; char text[8]; struct { int64_t x; } sub; }\<close>

definition sample_types :: "(msg_ref \<times> c_member list \<times> map_entry list) list" where
  "sample_types =
    [(0, [\<lparr>cm_name = ''id'', cm_size = 4, cm_align = 4, cm_count = 1\<rparr>, \<lparr>cm_name = ''text'', cm_size = 1, cm_align = 1, cm_count = 8\<rparr>,
        \<lparr>cm_name = ''sub'', cm_size = 8, cm_align = 8, cm_count = 1\<rparr>],
      [MAP_INT32 (0, 0) ''id'' 1, MAP_STRING (0, 1) ''text'' 8 1, MAP_MESSAGE (0, 2) ''sub'' 1 1]),
     (1, [\<lparr>cm_name = ''x'', cm_size = 8, cm_align = 8, cm_count = 1\<rparr>], [MAP_INT64 (1, 0) ''x'' 1])]"

lemma sample_types_maps: "made_by_macros sample_types sample_maps"
  by (simp add: made_by_macros_def sample_types_def sample_maps_def LWPB_STRUCT_MAP_def LWPB_STRUCT_MAP_FIELD_def
      entry_room_def element_size_def struct_ok_def sizeof_struct_def round_up_def)

lemma sample_counts: "items_counts sample_descs sample_maps 0 (None, 0) struct_items"
  by (simp add: struct_items_def sample_maps_def count_ok_def element_fits_def map_pos_def item_element_def next_element_def
      map_field_def after_item_def the_field_def sample_descs_def sample_field_def)

lemma struct_map_confines_witness:
  "\<exists>dec'. lwpb_struct_decoder_decode sample_descs sample_maps (struct_bytes @ [0]) no_wire_value
      (lwpb_struct_decoder_init sample_descs sample_maps () (struct_decoder\<lparr>dec_arg := (dec_arg struct_decoder)\<lparr>sd_mem := replicate 40 255\<rparr>\<rparr>))
      (Some 0) 8 0 20 = Inr (LWPB_ERR_OK, dec', Some 20) \<and> same_outside 8 32 (replicate 40 255) (sd_mem (dec_arg dec'))"
proof -
  let ?dec = "struct_decoder\<lparr>dec_arg := (dec_arg struct_decoder)\<lparr>sd_mem := replicate 40 255\<rparr>\<rparr>"
  have "peek (struct_bytes @ [0]) 0 20 = struct_bytes"
    by (simp add: peek_def struct_bytes_def)
  moreover have "sm_struct_size (sample_maps ! 0) = 24" by code_simp
  ultimately show ?thesis
    using struct_map_confines [OF sample_types_maps sample_counts, of 0 ?dec 0 "struct_bytes @ [0]" 8 no_wire_value "()"]
    by (simp add: struct_sample)
qed

end
