(* ===== verification/Utils.thy ===== *)
theory Utils
  imports Prelude
begin

text \<open>
  The default memory functions of src/src/lwpb/utils/utils.c, for platforms without a C library, compared
  with the functions of \<open>string.h\<close>.
\<close>

section \<open>The functions\<close>

text \<open>The loop runs as often as the counter says.\<close>

fun copy_loop :: "mem \<Rightarrow> addr \<Rightarrow> addr \<Rightarrow> nat \<Rightarrow> mem run" where
  "copy_loop m d s 0 = Inr m"
| "copy_loop m d s (Suc n) = andthen (load m s) (\<lambda>b. andthen (store m d b) (\<lambda>m. copy_loop m (Suc d) (Suc s) n))"

definition lwpb_memcpy :: "mem \<Rightarrow> addr \<Rightarrow> addr \<Rightarrow> u64 \<Rightarrow> (addr \<times> mem) run" where
  "lwpb_memcpy m dest src n = andthen (copy_loop m dest src (unat n)) (\<lambda>m. Inr (dest, m))"

function move_up :: "mem \<Rightarrow> addr \<Rightarrow> addr \<Rightarrow> nat \<Rightarrow> nat \<Rightarrow> mem run" where
  "move_up m d s i n = (if i < n then
     andthen (load m (s + i)) (\<lambda>b. andthen (store m (d + i) b) (\<lambda>m. move_up m d s (Suc i) n)) else Inr m)"
  by pat_completeness auto
termination
  by (relation "measure (\<lambda>(m, d, s, i, n). n - i)") auto

declare move_up.simps [simp del]

text \<open>
  The loop downwards has an index of type size_t and the condition that it is not negative. It may run
  forever: then the value is None.
\<close>

partial_function (option) move_down :: "mem \<Rightarrow> addr \<Rightarrow> addr \<Rightarrow> u64 \<Rightarrow> mem run option" where
  "move_down m d s i = (if 0 \<le> i then
     case andthen (load m (s + unat i)) (\<lambda>b. store m (d + unat i) b) of
       Inl e \<Rightarrow> Some (Inl e)
     | Inr m \<Rightarrow> move_down m d s (i - 1)
   else Some (Inr m))"

definition lwpb_memmove :: "mem \<Rightarrow> addr \<Rightarrow> addr \<Rightarrow> u64 \<Rightarrow> (addr \<times> mem) run option" where
  "lwpb_memmove m dest src n =
     (if dest = src then Some (Inr (dest, m))
      else map_option (\<lambda>r. andthen r (\<lambda>m. Inr (dest, m)))
        (if dest < src then Some (move_up m dest src 0 (unat n)) else move_down m dest src (n - 1)))"

fun lwpb_memcmp :: "mem \<Rightarrow> addr \<Rightarrow> addr \<Rightarrow> nat \<Rightarrow> int run" where
  "lwpb_memcmp m p q 0 = Inr 0"
| "lwpb_memcmp m p q (Suc n) = andthen (load m p) (\<lambda>a. andthen (load m q) (\<lambda>b.
     if a \<noteq> b then Inr (int (unat a) - int (unat b)) else lwpb_memcmp m (Suc p) (Suc q) n))"

function lwpb_strlen_loop :: "mem \<Rightarrow> addr \<Rightarrow> u64 \<Rightarrow> u64 run" where
  "lwpb_strlen_loop m s len = andthen (load m s) (\<lambda>c. if c \<noteq> 0 then lwpb_strlen_loop m (Suc s) (len + 1) else Inr len)"
  by pat_completeness auto
termination
  by (relation "measure (\<lambda>(m, s, len). length m - s)") (auto simp: load_Inr)

declare lwpb_strlen_loop.simps [simp del]

definition lwpb_strlen :: "mem \<Rightarrow> addr \<Rightarrow> u64 run" where
  "lwpb_strlen m s = lwpb_strlen_loop m s 0"

section \<open>Copying\<close>

text \<open>Copying upwards is right when the destination does not lie behind the source, or behind all of it.\<close>

lemma copy_loop_poke:
  assumes "s + n \<le> length m" "d + n \<le> length m" and "d \<le> s \<or> s + n \<le> d"
  shows "copy_loop m d s n = Inr (poke m d (peek m s n))"
  using assms
proof (induction n arbitrary: m d s)
  case (Suc n)
  have step: "load m s = Inr (m ! s)" "store m d (m ! s) = Inr (m[d := m ! s])"
    using Suc.prems by (simp_all add: load_def store_def)
  have "copy_loop (m[d := m ! s]) (Suc d) (Suc s) n = Inr (poke (m[d := m ! s]) (Suc d) (peek (m[d := m ! s]) (Suc s) n))"
    using Suc.prems by (intro Suc.IH) auto
  moreover have "poke (m[d := m ! s]) (Suc d) (peek (m[d := m ! s]) (Suc s) n) = poke m d (peek m s (Suc n))"
    using Suc.prems by (intro nth_equalityI) (auto simp: nth_poke nth_peek nth_list_update Suc_diff_Suc)
  ultimately show ?case
    by (simp add: step)
qed simp

lemma move_up_copy: "i \<le> n \<Longrightarrow> move_up m d s i n = copy_loop m (d + i) (s + i) (n - i)"
proof (induction m d s i n rule: move_up.induct)
  case (1 m d s i n)
  show ?case
  proof (cases "i < n")
    case True
    then have n: "n - i = Suc (n - Suc i)" by simp
    have "move_up m' d s (Suc i) n = copy_loop m' (d + Suc i) (s + Suc i) (n - Suc i)"
      if "load m (s + i) = Inr b" "store m (d + i) b = Inr m'" for b m'
      using "1.IH" [OF True that] True by simp
    then show ?thesis
      unfolding n using True by (auto simp: move_up.simps [of m d s i n] andthen_def split: sum.split)
  next
    case False
    then show ?thesis using 1(2) by (simp add: move_up.simps [of m d s])
  qed
qed

text \<open>Going down, the index passes 0 and becomes the largest number of its type.\<close>

lemma move_down_faults:
  assumes "length m < 2 ^ 64"
  shows "move_down m d s i = Some (Inl Fault)"
  using assms
proof (induction "unat i" arbitrary: i m)
  case 0
  then have i: "i = 0" "unat (i - 1) = 2 ^ 64 - 1"
    by (simp_all add: unat_eq_0 unsigned_minus_1_eq_mask mask_eq_exp_minus_1)
  have last: "move_down m' d s (- 1) = Some (Inl Fault)" if "length m' < 2 ^ 64" for m'
    using that by (subst move_down.simps) (simp add: load_def unsigned_minus_1_eq_mask mask_eq_exp_minus_1)
  have "length m < 2 ^ 64"
    using 0 by simp
  then show ?case
    using last i(1) by (subst move_down.simps) (auto simp: load_def store_def)
next
  case (Suc k)
  then have "k = unat (i - 1)"
    by (metis diff_Suc_1 nat.distinct(1) unat_minus_one unat_0)
  from Suc.hyps(1) [OF this] Suc.prems show ?case
    by (subst move_down.simps) (auto simp: load_def store_def)
qed

section \<open>Properties\<close>

lemma lwpb_strlen_loop: "lwpb_strlen_loop m s (of_nat k) = andthen (strlen_loop m s k) (\<lambda>n. Inr (of_nat n))"
proof (induction m s k rule: strlen_loop.induct)
  case (1 m s k)
  show ?case
  proof (cases "load m s")
    case (Inl e)
    then show ?thesis by (simp add: strlen_loop.simps [of m s k] lwpb_strlen_loop.simps [of m s])
  next
    case (Inr c)
    show ?thesis
    proof (cases "c = 0")
      case False
      then have "lwpb_strlen_loop m (Suc s) (of_nat (Suc k)) = andthen (strlen_loop m (Suc s) (Suc k)) (\<lambda>n. Inr (of_nat n))"
        using 1 [OF Inr False] by simp
      with Inr False show ?thesis
        by (simp add: strlen_loop.simps [of m s k] lwpb_strlen_loop.simps [of m s] add.commute)
    qed (simp add: Inr strlen_loop.simps [of m s k] lwpb_strlen_loop.simps [of m s])
  qed
qed

text \<open>Comparing yields the sign of the lexicographic order of the bytes, as unsigned numbers.\<close>

lemma lwpb_memcmp_order:
  assumes "p + n \<le> length m" "q + n \<le> length m"
  shows "\<exists>r. lwpb_memcmp m p q n = Inr r \<and> (r = 0 \<longleftrightarrow> peek m p n = peek m q n) \<and>
    (r < 0 \<longleftrightarrow> ord_class.lexordp (peek m p n) (peek m q n))"
  using assms
proof (induction n arbitrary: p q)
  case (Suc n)
  have "peek m a (Suc n) = m ! a # peek m (Suc a) n" if "a + Suc n \<le> length m" for a
    using that by (simp add: peek_def Cons_nth_drop_Suc [symmetric])
  with Suc.prems Suc.IH [of "Suc p" "Suc q"] show ?case
    by (auto simp: load_def word_unat_eq_iff [symmetric] word_uint_eq_iff [symmetric] word_less_def [symmetric])
qed simp

text \<open>
  C23: The default functions do what the functions of the C library do. Copying regions that do not
  overlap gives the same memory as memcpy; moving to a lower or the same address gives the same memory as
  memmove, also when the regions overlap; the length of a string is that of strlen; and like that of memcmp the
  result of comparing is 0 for equal regions, and negative when the first region comes before the second in
  the lexicographic order of their bytes as unsigned numbers, so that it is positive when it comes after it.
\<close>

theorem utils_agree:
  assumes "src + unat n \<le> length m" and "dst + unat n \<le> length m"
  shows "(src + unat n \<le> dst \<or> dst + unat n \<le> src \<longrightarrow>
      lwpb_memcpy m dst src n = andthen (memcpy m dst src (unat n)) (\<lambda>m'. Inr (dst, m'))) \<and>
    (dst \<le> src \<longrightarrow> lwpb_memmove m dst src n = Some (andthen (memmove m dst src (unat n)) (\<lambda>m'. Inr (dst, m')))) \<and>
    lwpb_strlen m src = andthen (strlen m src) (\<lambda>k. Inr (of_nat k)) \<and>
    (\<exists>r. lwpb_memcmp m dst src (unat n) = Inr r \<and> (r = 0 \<longleftrightarrow> peek m dst (unat n) = peek m src (unat n)) \<and>
      (r < 0 \<longleftrightarrow> ord_class.lexordp (peek m dst (unat n)) (peek m src (unat n))))"
proof (intro conjI impI)
  show "lwpb_memcpy m dst src n = andthen (memcpy m dst src (unat n)) (\<lambda>m'. Inr (dst, m'))"
    if "src + unat n \<le> dst \<or> dst + unat n \<le> src"
    using that assms by (auto simp: lwpb_memcpy_def copy_loop_poke memcpy_ok)
  show "lwpb_memmove m dst src n = Some (andthen (memmove m dst src (unat n)) (\<lambda>m'. Inr (dst, m')))" if "dst \<le> src"
  proof (cases "dst = src")
    case True
    have "poke m src (peek m src (unat n)) = m"
      using assms by (intro nth_equalityI) (auto simp: nth_poke nth_peek)
    with True assms show ?thesis by (simp add: lwpb_memmove_def memmove_ok)
  next
    case False
    with that assms show ?thesis by (simp add: lwpb_memmove_def move_up_copy copy_loop_poke memmove_ok)
  qed
  show "lwpb_strlen m src = andthen (strlen m src) (\<lambda>k. Inr (of_nat k))"
    using lwpb_strlen_loop [of m src 0] by (simp add: lwpb_strlen_def strlen_def)
qed (rule lwpb_memcmp_order [OF assms(2,1)])

lemma utils_agree_witness:
  "lwpb_memmove [1, 2, 3, 0] 0 1 2 = Some (Inr (0, [2, 3, 3, 0])) \<and>
   (\<exists>r. lwpb_memcmp [1, 2, 3, 0] 0 1 2 = Inr r \<and> r < 0)"
proof -
  have "memmove [1, 2, 3, 0] 0 1 (unat (2 :: u64)) = Inr [2, 3, 3, 0]"
    by (simp add: memmove_def poke_def peek_def)
  then show ?thesis
    using utils_agree [of 1 2 "[1, 2, 3, 0]" 0] by (auto simp: peek_def)
qed

text \<open>
  Moving to a higher address never returns: the loop that copies downwards tests whether an index of
  type size_t is at least 0, which always holds, so it goes on below the start of the regions until the
  program is stopped. The number of bytes does not matter, even moving nothing crashes.
\<close>

theorem utils_memmove_never_returns:
  assumes "src < dst" and "length m < 2 ^ 64"
  shows "lwpb_memmove m dst src n = Some (Inl Fault)"
  using assms by (simp add: lwpb_memmove_def move_down_faults)

lemma utils_memmove_never_returns_witness: "lwpb_memmove [1, 2, 3] 1 0 2 = Some (Inl Fault)"
  by (rule utils_memmove_never_returns) simp_all

end
