(* ===== verification/Debug.thy ===== *)
theory Debug
  imports Decoder_Run
begin

text \<open>
  The debug handlers of src/src/lwpb/core/decoder.c, which print the message that is decoded, with the
  conversions of printf that they use; and the text that a message is printed as.
\<close>

section \<open>Conversions of printf\<close>

definition digit :: "nat \<Rightarrow> char" where
  "digit n = char_of (if n < 10 then 48 + n else 87 + n)"

fun decimal :: "nat \<Rightarrow> string" where
  "decimal n = (if n < 10 then [digit n] else decimal (n div 10) @ [digit (n mod 10)])"

declare decimal.simps [simp del]

definition fmt_d :: "int \<Rightarrow> string" where
  "fmt_d i = (if i < 0 then ''-'' @ decimal (nat (- i)) else decimal (nat i))"

definition fmt_02x :: "u8 \<Rightarrow> string" where
  "fmt_02x b = [digit (unat b div 16), digit (unat b mod 16)]"

definition pad_right :: "nat \<Rightarrow> string \<Rightarrow> string" where
  "pad_right n s = s @ replicate (n - length s) CHR '' ''"

text \<open>The quotient of two numbers, rounded to the nearest integer and to the even one of two.\<close>

definition round_even :: "nat \<Rightarrow> nat \<Rightarrow> nat" where
  "round_even a b = (let q = a div b; r = a mod b in
     if 2 * r < b \<or> 2 * r = b \<and> even q then q else q + 1)"

text \<open>The number \<open>m\<close> times 2 to the \<open>e\<close> with six decimals.\<close>

definition fmt_fixed :: "nat \<Rightarrow> int \<Rightarrow> string" where
  "fmt_fixed m e = (let q = round_even (m * 10 ^ 6 * 2 ^ nat e) (2 ^ nat (- e)); s = decimal (q mod 10 ^ 6) in
     decimal (q div 10 ^ 6) @ ''.'' @ replicate (6 - length s) CHR ''0'' @ s)"

text \<open>%f of a number with a sign, an exponent of \<open>w\<close> bits and a fraction of \<open>p\<close> bits.\<close>

definition fmt_f :: "nat \<Rightarrow> nat \<Rightarrow> 'a::len word \<Rightarrow> string" where
  "fmt_f w p x = (let s = bit x (w + p); e = unat (take_bit w (drop_bit p x)); f = unat (take_bit p x) in
     (if s then ''-'' else []) @
     (if e = 2 ^ w - 1 then (if f = 0 then ''inf'' else ''nan'')
      else let bias = int (2 ^ (w - 1) - 1 + p) in
        if e = 0 then fmt_fixed f (1 - bias) else fmt_fixed (f + 2 ^ p) (int e - bias)))"

section \<open>The handlers\<close>

text \<open>The console and the static variable \<open>debug_indent\<close>.\<close>

record console =
  con_text :: string
  con_indent :: int

definition con_print :: "string \<Rightarrow> console \<Rightarrow> console" where
  "con_print s con = con\<lparr>con_text := con_text con @ s\<rparr>"

definition indent :: "nat \<Rightarrow> string" where
  "indent n = concat (replicate n ''  '')"

definition debug_print_indent :: "console \<Rightarrow> console" where
  "debug_print_indent con = con_print (indent (nat (con_indent con))) con"

definition debug_msg_start_handler :: "descs \<Rightarrow> console msg_handler" where
  "debug_msg_start_handler ds packed msg_desc con =
     andthen (deref_msg ds (Some msg_desc)) (\<lambda>md.
       let con = con_print (md_name md @ '':'' @ [CHR 0x0A]) (debug_print_indent con)
       in Inr (con\<lparr>con_indent := con_indent con + 1\<rparr>))"

definition debug_msg_end_handler :: "console msg_handler" where
  "debug_msg_end_handler packed msg_desc con = Inr (con\<lparr>con_indent := con_indent con - 1\<rparr>)"

text \<open>The array of names, and the numbers of the types with which it is indexed.\<close>

definition typ_names :: "string list" where
  "typ_names = [''(double)'', ''(float)'', ''(int32)'', ''(int64)'', ''(uint32)'', ''(uint64)'',
     ''(sint32)'', ''(sint64)'', ''(fixed32)'', ''(fixed64)'', ''(sfixed32)'', ''(sfixed64)'',
     ''(bool)'', ''(enum)'', ''(string)'', ''(bytes)'', ''(message)'']"

fun typ_code :: "field_typ \<Rightarrow> nat" where
  "typ_code LWPB_DOUBLE = 1"
| "typ_code LWPB_FLOAT = 2"
| "typ_code LWPB_INT64 = 3"
| "typ_code LWPB_UINT64 = 4"
| "typ_code LWPB_INT32 = 5"
| "typ_code LWPB_FIXED64 = 6"
| "typ_code LWPB_FIXED32 = 7"
| "typ_code LWPB_BOOL = 8"
| "typ_code LWPB_STRING = 9"
| "typ_code LWPB_GROUP = 10"
| "typ_code LWPB_MESSAGE = 11"
| "typ_code LWPB_BYTES = 12"
| "typ_code LWPB_UINT32 = 13"
| "typ_code LWPB_ENUM = 14"
| "typ_code LWPB_SFIXED32 = 15"
| "typ_code LWPB_SFIXED64 = 16"
| "typ_code LWPB_SINT32 = 17"
| "typ_code LWPB_SINT64 = 18"
| "typ_code (LWPB_TYP_OTHER n) = unat n"

definition debug_typ_name :: "field_typ \<Rightarrow> string run" where
  "debug_typ_name t = (if typ_code t < length typ_names then Inr (typ_names ! typ_code t) else Inl Undef)"

text \<open>The switch over the type. The loops print the characters of a string one after the other.\<close>

definition debug_value :: "mem \<Rightarrow> field_typ \<Rightarrow> lwpb_value option \<Rightarrow> string run" where
  "debug_value m t value =
     (let lo32 = (\<lambda>f. andthen (the_value value) (\<lambda>v. andthen (value_lo32 v) (\<lambda>x. Inr (f x))));
          lo64 = (\<lambda>f. andthen (the_value value) (\<lambda>v. andthen (value_lo64 v) (\<lambda>x. Inr (f x))));
          chars = (\<lambda>f. andthen (the_value value) (\<lambda>v. andthen (value_ptr v) (\<lambda>(p, n).
            andthen (loads m p (unat n)) (\<lambda>bs. Inr (concat (map f bs)))))) in
      case t of
       LWPB_DOUBLE \<Rightarrow> lo64 (fmt_f 11 52)
     | LWPB_FLOAT \<Rightarrow> lo32 (fmt_f 8 23)
     | LWPB_INT32 \<Rightarrow> lo32 (\<lambda>x. fmt_d (sint x))
     | LWPB_SINT32 \<Rightarrow> lo32 (\<lambda>x. fmt_d (sint x))
     | LWPB_SFIXED32 \<Rightarrow> lo32 (\<lambda>x. fmt_d (sint x))
     | LWPB_INT64 \<Rightarrow> lo64 (\<lambda>x. fmt_d (sint x))
     | LWPB_SINT64 \<Rightarrow> lo64 (\<lambda>x. fmt_d (sint x))
     | LWPB_SFIXED64 \<Rightarrow> lo64 (\<lambda>x. fmt_d (sint x))
     | LWPB_UINT32 \<Rightarrow> lo32 (\<lambda>x. fmt_d (uint x))
     | LWPB_FIXED32 \<Rightarrow> lo32 (\<lambda>x. fmt_d (uint x))
     | LWPB_UINT64 \<Rightarrow> lo64 (\<lambda>x. fmt_d (uint x))
     | LWPB_FIXED64 \<Rightarrow> lo64 (\<lambda>x. fmt_d (uint x))
     | LWPB_BOOL \<Rightarrow> lo32 (\<lambda>x. if x \<noteq> 0 then ''true'' else ''false'')
     | LWPB_ENUM \<Rightarrow> lo32 (\<lambda>x. fmt_d (sint x))
     | LWPB_STRING \<Rightarrow> chars (\<lambda>b. [char_of (unat b)])
     | LWPB_BYTES \<Rightarrow> chars (\<lambda>b. fmt_02x b @ '' '')
     | _ \<Rightarrow> Inr [])"

definition debug_field_handler :: "descs \<Rightarrow> mem \<Rightarrow> console fld_handler" where
  "debug_field_handler ds m packed msg_desc field_desc value con =
     andthen (deref_field ds (Some field_desc)) (\<lambda>fd.
     let con = debug_print_indent con in
     andthen (debug_typ_name (opt_typ (opts fd))) (\<lambda>typ_name.
     let con = con_print (pad_right 20 (fd_name fd) @ '' '' @ pad_right 10 typ_name @ '' = '') con in
     andthen (debug_value m (opt_typ (opts fd)) value) (\<lambda>s. Inr (con_print (s @ [CHR 0x0A]) con))))"

definition lwpb_decoder_use_debug_handlers :: "descs \<Rightarrow> mem \<Rightarrow> console lwpb_decoder \<Rightarrow> console lwpb_decoder" where
  "lwpb_decoder_use_debug_handlers ds m dec =
     lwpb_decoder_field_handler
       (lwpb_decoder_msg_handler dec (Some (debug_msg_start_handler ds)) (Some debug_msg_end_handler))
       (Some (debug_field_handler ds m))"

section \<open>The text of a message\<close>

text \<open>
  What a message should be printed as, stated without the handlers, their array and their switch: a number by
  what it is, and the label that is printed for each type, which is not its own name.
\<close>

fun typ_label :: "field_typ \<Rightarrow> string" where
  "typ_label LWPB_DOUBLE = ''(float)''"
| "typ_label LWPB_FLOAT = ''(int32)''"
| "typ_label LWPB_INT64 = ''(int64)''"
| "typ_label LWPB_UINT64 = ''(uint32)''"
| "typ_label LWPB_INT32 = ''(uint64)''"
| "typ_label LWPB_FIXED64 = ''(sint32)''"
| "typ_label LWPB_FIXED32 = ''(sint64)''"
| "typ_label LWPB_BOOL = ''(fixed32)''"
| "typ_label LWPB_STRING = ''(fixed64)''"
| "typ_label LWPB_GROUP = ''(sfixed32)''"
| "typ_label LWPB_MESSAGE = ''(sfixed64)''"
| "typ_label LWPB_BYTES = ''(bool)''"
| "typ_label LWPB_UINT32 = ''(enum)''"
| "typ_label LWPB_ENUM = ''(string)''"
| "typ_label LWPB_SFIXED32 = ''(bytes)''"
| "typ_label LWPB_SFIXED64 = ''(message)''"
| "typ_label _ = []"

fun number_text :: "lwpb_value \<Rightarrow> string" where
  "number_text (V_double x) = fmt_f 11 52 x"
| "number_text (V_float x) = fmt_f 8 23 x"
| "number_text (V_int32 x) = fmt_d (sint x)"
| "number_text (V_int64 x) = fmt_d (sint x)"
| "number_text (V_uint32 x) = fmt_d (uint x)"
| "number_text (V_uint64 x) = fmt_d (uint x)"
| "number_text (V_enum x) = fmt_d (sint x)"
| "number_text (V_bool x) = (if x = 0 then ''false'' else ''true'')"
| "number_text _ = []"

definition field_line :: "lwpb_field_desc \<Rightarrow> nat \<Rightarrow> string \<Rightarrow> string" where
  "field_line fd n s = indent n @ pad_right 20 (fd_name fd) @ '' '' @ pad_right 10 (typ_label (field_type fd)) @ '' = '' @ s @ [CHR 0x0A]"

definition msg_line :: "descs \<Rightarrow> msg_ref \<Rightarrow> nat \<Rightarrow> string" where
  "msg_line ds i n = indent n @ md_name (ds ! i) @ '':'' @ [CHR 0x0A]"

definition data_text :: "lwpb_field_desc \<Rightarrow> u8 list \<Rightarrow> string" where
  "data_text fd bs = (if field_type fd = LWPB_STRING then map (\<lambda>b. char_of (unat b)) bs
     else concat (map (\<lambda>b. fmt_02x b @ '' '') bs))"

fun item_text :: "descs \<Rightarrow> msg_ref \<Rightarrow> nat \<Rightarrow> u8 list item \<Rightarrow> string"
and items_text :: "descs \<Rightarrow> msg_ref \<Rightarrow> nat \<Rightarrow> message \<Rightarrow> string" where
  "item_text ds i n (Scalar j v) = (let fd = the_field ds i j in field_line fd n (number_text v))"
| "item_text ds i n (Data j bs) = (let fd = the_field ds i j in field_line fd n (data_text fd bs))"
| "item_text ds i n (Sub j its) = (let fd = the_field ds i j; k = the (fd_msg_desc fd) in
     field_line fd n [] @ msg_line ds k n @ items_text ds k (Suc n) its)"
| "item_text ds i n (Packed j vs) = (let fd = the_field ds i j in
     msg_line ds i n @ concat (map (\<lambda>v. field_line fd (Suc n) (number_text v)) vs))"
| "items_text ds i n [] = []"
| "items_text ds i n (it # its) = item_text ds i n it @ items_text ds i n its"

definition message_text :: "descs \<Rightarrow> msg_ref \<Rightarrow> nat \<Rightarrow> message \<Rightarrow> string" where
  "message_text ds i n its = msg_line ds i n @ items_text ds i (Suc n) its"

text \<open>
  The array of the names has no entry for the types sint32 and sint64, and every message that is referred to exists.
\<close>

definition typs_named :: "descs \<Rightarrow> bool" where
  "typs_named ds \<longleftrightarrow> (\<forall>md \<in> set ds. \<forall>fd \<in> set (msg_fields md). field_type fd \<noteq> LWPB_SINT32 \<and> field_type fd \<noteq> LWPB_SINT64 \<and>
     (\<forall>k. fd_msg_desc fd = Some k \<longrightarrow> k < length ds))"

lemma typs_namedD:
  assumes "typs_named ds" and "wf_field ds i j"
  shows "field_type (the_field ds i j) \<noteq> LWPB_SINT32" "field_type (the_field ds i j) \<noteq> LWPB_SINT64"
    and "fd_msg_desc (the_field ds i j) = Some k \<Longrightarrow> k < length ds"
proof -
  have "ds ! i \<in> set ds" "the_field ds i j \<in> set (msg_fields (ds ! i))"
    using assms(2) by (simp_all add: wf_field_def the_field_def)
  with assms(1) show "field_type (the_field ds i j) \<noteq> LWPB_SINT32" "field_type (the_field ds i j) \<noteq> LWPB_SINT64"
    and "fd_msg_desc (the_field ds i j) = Some k \<Longrightarrow> k < length ds"
    unfolding typs_named_def by blast+
qed

text \<open>The entries of the array are the labels.\<close>

lemma debug_label:
  "t \<noteq> LWPB_SINT32 \<Longrightarrow> t \<noteq> LWPB_SINT64 \<Longrightarrow> \<forall>n. t \<noteq> LWPB_TYP_OTHER n \<Longrightarrow> debug_typ_name t = Inr (typ_label t)"
  by (cases t) (simp_all add: debug_typ_name_def typ_names_def)

text \<open>The conversion %d and its relatives print the numeral of a number.\<close>

definition numeral_value :: "string \<Rightarrow> nat" where
  "numeral_value = foldl (\<lambda>n c. 10 * n + (of_char c - 48)) 0"

lemma digit_code: "n < 10 \<Longrightarrow> of_char (digit n) = 48 + n"
  by (simp add: digit_def)

lemma decimal_numeral:
  "numeral_value (decimal n) = n" "list_all (\<lambda>c. 48 \<le> (of_char c :: nat) \<and> of_char c < (58 :: nat)) (decimal n)"
  by (induction n rule: decimal.induct; subst decimal.simps; simp add: numeral_value_def digit_code)+

section \<open>The handlers print the text\<close>

definition printed :: "string \<Rightarrow> console \<Rightarrow> console" where
  "printed s con = con\<lparr>con_text := con_text con @ s\<rparr>"

lemma printed_simps [simp]:
  "printed t (printed s con) = printed (s @ t) con" "printed [] con = con" "con_indent (printed s con) = con_indent con"
  "(printed s con)\<lparr>con_indent := n\<rparr> = printed s (con\<lparr>con_indent := n\<rparr>)"
  by (simp_all add: printed_def)

text \<open>A decoder with the debug handlers.\<close>

definition debugs :: "descs \<Rightarrow> mem \<Rightarrow> console lwpb_decoder \<Rightarrow> bool" where
  "debugs ds m dec \<longleftrightarrow> msg_start_handler dec = Some (debug_msg_start_handler ds) \<and>
     msg_end_handler dec = Some debug_msg_end_handler \<and> field_handler dec = Some (debug_field_handler ds m)"

lemma use_debug_handlers: "debugs ds m (lwpb_decoder_use_debug_handlers ds m dec)"
  by (simp add: debugs_def lwpb_decoder_use_debug_handlers_def lwpb_decoder_field_handler_def lwpb_decoder_msg_handler_def)

lemma debug_events:
  assumes "debugs ds m dec" and "con_indent con = int n"
  shows "i < length ds \<Longrightarrow> handle dec (Msg_start p i) con = Inr (printed (msg_line ds i n) (con\<lparr>con_indent := int (Suc n)\<rparr>))"
    and "handle dec (Msg_end p i) con = Inr (con\<lparr>con_indent := int n - 1\<rparr>)"
    and "debug_typ_name (field_type fd) = Inr (typ_label (field_type fd)) \<Longrightarrow> deref_field ds (Some fr) = Inr fd \<Longrightarrow>
      debug_value m (field_type fd) v = Inr s \<Longrightarrow> handle dec (Msg_field p d fr v) con = Inr (printed (field_line fd n s) con)"
proof -
  show "handle dec (Msg_start p i) con = Inr (printed (msg_line ds i n) (con\<lparr>con_indent := int (Suc n)\<rparr>))" if "i < length ds"
    using assms that by (simp add: debugs_def handle.simps debug_msg_start_handler_def debug_print_indent_def con_print_def
        printed_def msg_line_def Let_def add.commute)
  show "handle dec (Msg_end p i) con = Inr (con\<lparr>con_indent := int n - 1\<rparr>)"
    using assms by (simp add: debugs_def handle.simps debug_msg_end_handler_def)
  assume "debug_typ_name (field_type fd) = Inr (typ_label (field_type fd))" and fd: "deref_field ds (Some fr) = Inr fd"
    and v: "debug_value m (field_type fd) v = Inr s"
  with fd v assms show "handle dec (Msg_field p d fr v) con = Inr (printed (field_line fd n s) con)"
    by (simp add: debugs_def handle.simps debug_field_handler_def debug_print_indent_def con_print_def printed_def
        field_line_def Let_def)
qed

lemma debug_scalar:
  "scalar_ok (field_type fd) v \<Longrightarrow> debug_value m (field_type fd) (Some v) = Inr (number_text v)"
  by (cases "field_type fd") (auto simp: scalar_ok_def debug_value_def the_value_def split: lwpb_value.splits)

lemma scalar_ok_typ: "scalar_ok t v \<Longrightarrow> t \<noteq> LWPB_TYP_OTHER n"
  by (auto simp: scalar_ok_def)

lemma debug_data:
  assumes "field_type fd = LWPB_STRING \<or> field_type fd = LWPB_BYTES" and "peek m a (length bs) = bs"
    and "a + length bs \<le> length m" and "length m < 2 ^ 63"
  shows "debug_value m (field_type fd) (Some (data_value fd a bs)) = Inr (data_text fd bs)"
proof -
  have "length bs < 2 ^ 64"
    using assms(3,4) by simp
  then have "unat (of_nat (length bs) :: u64) = length bs"
    by (simp add: unat_of_nat)
  then show ?thesis
    using assms by (auto simp: debug_value_def data_value_def the_value_def data_text_def loads_peek)
qed

lemma debug_packed:
  assumes "debugs ds m dec" and name: "field_type fd \<noteq> LWPB_SINT32" "field_type fd \<noteq> LWPB_SINT64" and fd: "deref_field ds (Some (i, j)) = Inr fd"
    and "list_all (scalar_ok (field_type fd)) vs" and "con_indent con = int n"
  shows "handle_events dec (map (\<lambda>v. Msg_field p d (i, j) (Some v)) vs) con =
    Inr (printed (concat (map (\<lambda>v. field_line fd n (number_text v)) vs)) con)"
  using assms(5,6)
proof (induction vs arbitrary: con)
  case (Cons v vs)
  then have v: "scalar_ok (field_type fd) v"
    by simp
  have "debug_typ_name (field_type fd) = Inr (typ_label (field_type fd))"
    using debug_label [OF name] scalar_ok_typ [OF v] by blast
  with Cons v show ?case
    using debug_events(3) [OF assms(1) Cons.prems(2) _ fd debug_scalar [OF v, of m]] by simp
qed simp

lemma printed_events:
  "wf_item ds i it \<Longrightarrow> debugs ds m dec \<Longrightarrow> typs_named ds \<Longrightarrow> con_indent con = int n \<Longrightarrow>
    a + length (item_bytes ds i it) \<le> length m \<Longrightarrow> length m < 2 ^ 63 \<Longrightarrow>
    peek m a (length (item_bytes ds i it)) = item_bytes ds i it \<Longrightarrow>
    handle_events dec (item_events ds root i a it) con = Inr (printed (item_text ds i n it) con)"
  "wf_items ds i its \<Longrightarrow> debugs ds m dec \<Longrightarrow> typs_named ds \<Longrightarrow> con_indent con = int n \<Longrightarrow>
    a + length (items_bytes ds i its) \<le> length m \<Longrightarrow> length m < 2 ^ 63 \<Longrightarrow>
    peek m a (length (items_bytes ds i its)) = items_bytes ds i its \<Longrightarrow>
    handle_events dec (items_events ds root i a its) con = Inr (printed (items_text ds i n its) con)"
proof (induction ds i it and ds i its arbitrary: con n a and con n a rule: item_bytes_items_bytes.induct)
  case (1 ds i j v)
  then have wf: "wf_field ds i j" "scalar_ok (field_type (the_field ds i j)) v"
    by (simp_all add: Let_def)
  have "debug_typ_name (field_type (the_field ds i j)) = Inr (typ_label (field_type (the_field ds i j)))"
    using debug_label [OF typs_namedD(1,2) [OF "1.prems"(3) wf(1)]] scalar_ok_typ [OF wf(2)] by blast
  from debug_events(3) [OF "1.prems"(2,4) this wf_field_deref [OF wf(1)] debug_scalar [OF wf(2)]] show ?case
    by (simp add: Let_def)
next
  case (2 ds i j bs)
  then have fd: "deref_field ds (Some (i, j)) = Inr (the_field ds i j)"
    and ty: "field_type (the_field ds i j) = LWPB_STRING \<or> field_type (the_field ds i j) = LWPB_BYTES"
    by (simp_all add: wf_field_deref Let_def)
  have "peek m (content_addr a (the_field ds i j) bs) (length bs) = bs"
    "content_addr a (the_field ds i j) bs + length bs \<le> length m"
    using delimited_content [of m a "the_field ds i j" bs] "2.prems"(5,7) by (simp_all add: Let_def)
  moreover have "debug_typ_name (field_type (the_field ds i j)) = Inr (typ_label (field_type (the_field ds i j)))"
    using ty by (intro debug_label) auto
  ultimately show ?case
    using debug_events(3) [OF "2.prems"(2,4) _ fd debug_data [OF ty _ _ "2.prems"(6)]] by (simp add: Let_def)
next
  case (3 ds i j its)
  let ?fd = "the_field ds i j" and ?k = "the (fd_msg_desc (the_field ds i j))"
  let ?c = "content_addr a ?fd (items_bytes ds ?k its)"
  have wf: "wf_field ds i j" "fd_msg_desc ?fd = Some ?k" "wf_items ds ?k its" "field_type ?fd = LWPB_MESSAGE"
    using "3.prems"(1) by (auto simp: Let_def)
  then have fd: "deref_field ds (Some (i, j)) = Inr ?fd"
    by (simp add: wf_field_deref)
  have k: "?k < length ds"
    using typs_namedD(3) [OF "3.prems"(3) wf(1,2)] .
  have name: "debug_typ_name (field_type ?fd) = Inr (typ_label (field_type ?fd))"
    using wf(4) by (intro debug_label) auto
  have c: "peek m ?c (length (items_bytes ds ?k its)) = items_bytes ds ?k its" "?c + length (items_bytes ds ?k its) \<le> length m"
    using delimited_content [of m a ?fd "items_bytes ds ?k its"] "3.prems"(5,7) by (simp_all add: Let_def)
  have ev: "debug_value m (field_type ?fd) None = Inr []"
    by (simp add: wf(4) debug_value_def)
  let ?con = "printed (field_line ?fd n []) con"
  let ?con2 = "printed (msg_line ds ?k n) (?con\<lparr>con_indent := int (Suc n)\<rparr>)"
  have "con_indent ?con = int n" "con_indent ?con2 = int (Suc n)"
    using "3.prems"(4) by simp_all
  note IH = "3.IH" [OF refl wf(3) "3.prems"(2,3) this(2) c(2) "3.prems"(6) c(1)]
    and start = debug_events(1) [OF "3.prems"(2) this(1) k] and stop = debug_events(2) [OF "3.prems"(2), of _ "Suc n"]
  have "con\<lparr>con_indent := int n\<rparr> = con"
    using "3.prems"(4) by simp
  then show ?case
    using debug_events(3) [OF "3.prems"(2,4) name fd ev] start IH stop
    by (simp add: Let_def handle_events_append)
next
  case (4 ds i j vs)
  then have fd: "deref_field ds (Some (i, j)) = Inr (the_field ds i j)" and i: "i < length ds"
    and vs: "list_all (scalar_ok (field_type (the_field ds i j))) vs" and wf: "wf_field ds i j"
    by (simp_all add: wf_field_deref Let_def wf_field_def)
  have "con\<lparr>con_indent := int n\<rparr> = con"
    using "4.prems"(4) by simp
  then show ?case
    using debug_events(1) [OF "4.prems"(2,4) i] debug_events(2) [OF "4.prems"(2), of _ "Suc n"]
      debug_packed [OF "4.prems"(2) typs_namedD(1,2) [OF "4.prems"(3) wf] fd vs, of "printed (msg_line ds i n) (con\<lparr>con_indent := int (Suc n)\<rparr>)" "Suc n"]
    by (simp add: Let_def handle_events_append)
next
  case (5 ds i)
  then show ?case by simp
next
  case (6 ds i it its)
  let ?xs = "item_bytes ds i it" and ?ys = "items_bytes ds i its"
  have "peek m a (length ?xs + length ?ys) = ?xs @ ?ys"
    using "6.prems"(7) by simp
  note pk = peek_appendD [OF this]
  have a: "a + length ?xs \<le> length m" "a + length ?xs + length ?ys \<le> length m" and wf: "wf_item ds i it" "wf_items ds i its"
    using "6.prems"(1,5) by simp_all
  have "con_indent (printed (item_text ds i n it) con) = int n"
    using "6.prems"(4) by simp
  with "6.IH"(1) [OF wf(1) "6.prems"(2-4) a(1) "6.prems"(6) pk(1)]
    "6.IH"(2) [OF wf(2) "6.prems"(2,3) _ a(2) "6.prems"(6) pk(2)] show ?case
    by (simp add: handle_events_append)
qed

section \<open>Properties\<close>

text \<open>
  C22: The debug handlers print the message. Decoding the encoding of a well-formed message with the debug
  handlers succeeds and prints one line for every field and every message, with nested messages and the
  elements of packed fields indented one step further than what encloses them; afterwards the indentation
  is what it was. A line for a field has its name, the label of its type, which is the name of another type for all
  but int64, and its value: the decimal numeral of an integer by its own sign and width, six decimals of a floating
  point number, true or false, the characters of a string, the bytes in hexadecimal. No field of the descriptors may
  have the type sint32 or sint64, for which the array has no name, and the messages that they refer to exist.
\<close>

theorem debug_prints_message:
  assumes "wf_items ds i its" and "items_depth its < LWPB_MAX_DEPTH" and "length (dec_stack dec) = LWPB_MAX_DEPTH"
    and "data + length (items_bytes ds i its) \<le> length m" and "length m < 2 ^ 63"
    and "peek m data (length (items_bytes ds i its)) = items_bytes ds i its"
    and "typs_named ds" and "i < length ds" and "con_indent (dec_arg dec) = int n"
  shows "\<exists>dec'. lwpb_decoder_decode ds m wv (lwpb_decoder_use_debug_handlers ds m dec) (Some i) data
      (of_nat (length (items_bytes ds i its))) = Inr (LWPB_ERR_OK, dec', Some (of_nat (length (items_bytes ds i its)))) \<and>
    dec_arg dec' = (dec_arg dec)\<lparr>con_text := con_text (dec_arg dec) @ message_text ds i n its\<rparr>"
proof -
  let ?dec = "lwpb_decoder_use_debug_handlers ds m dec" and ?con = "dec_arg dec"
  have sel: "dec_arg ?dec = ?con" "dec_stack ?dec = dec_stack dec"
    by (simp_all add: lwpb_decoder_use_debug_handlers_def lwpb_decoder_field_handler_def lwpb_decoder_msg_handler_def)
  note dbg = use_debug_handlers [of ds m dec]
  have con: "?con\<lparr>con_indent := int n\<rparr> = ?con"
    using assms(9) by simp
  have "con_indent (printed (msg_line ds i n) (?con\<lparr>con_indent := int (Suc n)\<rparr>)) = int (Suc n)"
    by simp
  from printed_events(2) [OF assms(1) dbg assms(7) this assms(4-6), of "Some i"]
  have "handle_events ?dec (message_events ds i data its) ?con = Inr (printed (message_text ds i n its) ?con)"
    using debug_events(1) [OF dbg assms(9,8)] debug_events(2) [OF dbg, of _ "Suc n"] con
    by (simp add: message_events_def handle_events_append message_text_def)
  then show ?thesis
    using decode_message [OF assms(1,2) _ assms(4-6), of ?dec wv] assms(3) by (auto simp: sel printed_def)
qed

text \<open>The names that the types should have.\<close>

fun own_typ_name :: "field_typ \<Rightarrow> string" where
  "own_typ_name LWPB_DOUBLE = ''(double)''"
| "own_typ_name LWPB_FLOAT = ''(float)''"
| "own_typ_name LWPB_INT64 = ''(int64)''"
| "own_typ_name LWPB_UINT64 = ''(uint64)''"
| "own_typ_name LWPB_INT32 = ''(int32)''"
| "own_typ_name LWPB_FIXED64 = ''(fixed64)''"
| "own_typ_name LWPB_FIXED32 = ''(fixed32)''"
| "own_typ_name LWPB_BOOL = ''(bool)''"
| "own_typ_name LWPB_STRING = ''(string)''"
| "own_typ_name LWPB_GROUP = ''(group)''"
| "own_typ_name LWPB_MESSAGE = ''(message)''"
| "own_typ_name LWPB_BYTES = ''(bytes)''"
| "own_typ_name LWPB_UINT32 = ''(uint32)''"
| "own_typ_name LWPB_ENUM = ''(enum)''"
| "own_typ_name LWPB_SFIXED32 = ''(sfixed32)''"
| "own_typ_name LWPB_SFIXED64 = ''(sfixed64)''"
| "own_typ_name LWPB_SINT32 = ''(sint32)''"
| "own_typ_name LWPB_SINT64 = ''(sint64)''"
| "own_typ_name (LWPB_TYP_OTHER n) = []"

lemma debug_typ_name_own: "debug_typ_name t = Inr (own_typ_name t) \<longleftrightarrow> t = LWPB_INT64"
proof (cases "\<exists>n. t = LWPB_TYP_OTHER n")
  case True
  have "list_all (\<lambda>s. s \<noteq> []) typ_names"
    by (simp add: typ_names_def)
  with True show ?thesis
    by (auto simp: debug_typ_name_def list_all_length)
next
  case False
  then show ?thesis
    by (cases t) (simp_all add: debug_typ_name_def typ_names_def)
qed

lemma debug_typ_name_sint: "debug_typ_name LWPB_SINT32 = Inl Undef" "debug_typ_name LWPB_SINT64 = Inl Undef"
  by (simp_all add: debug_typ_name_def typ_names_def)

text \<open>
  The names of the types that the debug handlers print are wrong. The array starts with the name of
  type 0 where the types start at 1, and has them in another order: only int64 is printed with its own
  name, and for the types sint32 and sint64 the handler reads behind the array.
\<close>

theorem debug_type_names_wrong:
  assumes "deref_field ds (Some fr) = Inr fd" and "field_type fd = LWPB_SINT32 \<or> field_type fd = LWPB_SINT64"
  shows "debug_field_handler ds m packed msg fr v con = Inl Undef \<and>
    (\<forall>t. debug_typ_name t = Inr (own_typ_name t) \<longleftrightarrow> t = LWPB_INT64)"
  using assms by (auto simp: debug_field_handler_def debug_typ_name_sint debug_typ_name_own Let_def)

section \<open>Examples\<close>

text \<open>A message with an int32, a string, a nested message with an int64, and packed numbers.\<close>

definition debug_descs :: descs where
  "debug_descs =
    [\<lparr>msg_fields =
       [(sample_field 1 LWPB_OPTIONAL LWPB_INT32 0 None)\<lparr>fd_name := ''num''\<rparr>,
        (sample_field 2 LWPB_OPTIONAL LWPB_STRING 0 None)\<lparr>fd_name := ''str''\<rparr>,
        (sample_field 3 LWPB_OPTIONAL LWPB_MESSAGE 0 (Some 1))\<lparr>fd_name := ''sub''\<rparr>], md_name = ''Outer''\<rparr>,
     \<lparr>msg_fields = [(sample_field 1 LWPB_OPTIONAL LWPB_INT64 0 None)\<lparr>fd_name := ''x''\<rparr>], md_name = ''Inner''\<rparr>]"

definition debug_items :: message where
  "debug_items = [Scalar 0 (V_int32 5), Data 1 [97, 98], Sub 2 [Scalar 0 (V_int64 7)]]"

definition debug_bytes :: "u8 list" where
  "debug_bytes = [8, 5, 18, 2, 97, 98, 26, 2, 8, 7]"

definition debug_decoder :: "console lwpb_decoder" where
  "debug_decoder = \<lparr>dec_arg = \<lparr>con_text = [], con_indent = 0\<rparr>, msg_start_handler = None, msg_end_handler = None,
     field_handler = None, dec_stack = replicate 32 \<lparr>df_buf = lwpb_buf_init 0 0, df_msg_desc = None\<rparr>,
     dec_depth = 0, dec_packed = False\<rparr>"

definition debug_text :: string where
  "debug_text = ''Outer:'' @ [CHR 0x0A] @
     ''  num                  (uint64)   = 5'' @ [CHR 0x0A] @
     ''  str                  (fixed64)  = ab'' @ [CHR 0x0A] @
     ''  sub                  (sfixed64) = '' @ [CHR 0x0A] @
     ''  Inner:'' @ [CHR 0x0A] @
     ''    x                    (int64)    = 7'' @ [CHR 0x0A]"

lemma debug_sample:
  "wf_items debug_descs 0 debug_items" "items_depth debug_items < LWPB_MAX_DEPTH"
  "items_bytes debug_descs 0 debug_items = debug_bytes" "length debug_bytes = 10" "length debug_descs = 2"
  "length (dec_stack debug_decoder) = LWPB_MAX_DEPTH" "con_text (dec_arg debug_decoder) = []"
  "con_indent (dec_arg debug_decoder) = 0" "message_text debug_descs 0 0 debug_items = debug_text"
  by code_simp+

lemma debug_descs_named: "typs_named debug_descs"
  by (simp add: typs_named_def debug_descs_def sample_field_def)

lemma debug_prints_message_witness:
  "\<exists>dec'. lwpb_decoder_decode debug_descs debug_bytes \<lparr>wv_word = 0, wv_data = 0\<rparr>
      (lwpb_decoder_use_debug_handlers debug_descs debug_bytes debug_decoder) (Some 0) 0 10 = Inr (LWPB_ERR_OK, dec', Some 10) \<and>
    con_text (dec_arg dec') = debug_text"
proof -
  have "peek debug_bytes 0 10 = debug_bytes"
    by (simp add: peek_def debug_bytes_def)
  then show ?thesis
    using debug_prints_message [of debug_descs 0 debug_items debug_decoder 0 debug_bytes 0 "\<lparr>wv_word = 0, wv_data = 0\<rparr>"]
    by (auto simp: debug_sample debug_descs_named)
qed

lemma debug_type_names_wrong_witness:
  "debug_field_handler sample_descs [] False None (1, 0) None \<lparr>con_text = [], con_indent = 0\<rparr> = Inl Undef"
  using debug_type_names_wrong [of sample_descs "(1, 0)" "sample_field 1 LWPB_OPTIONAL LWPB_SINT64 0 None"]
  by (simp add: deref_field_def sample_descs_def sample_field_def)

end
