(* ===== verification/Py_Objects.thy ===== *)
theory Py_Objects
  imports Decoder
begin

text \<open>
  The objects of Python that the bindings in src/python/ work on, and the functions of the C API of
  Python 2 that they call, as far as they use them. Objects without state of their own are values, lists
  and dictionaries live in a store, since the code shares and changes them. The interpreter's conversions
  between numbers and its choice of addresses are parameters.

  Reference counts are left out: they do not change what an object contains, and an object that nobody
  refers to stays in the store. The creation of Python objects always succeeds.
\<close>

section \<open>Objects\<close>

datatype py =
    Py_None
  | Py_bool bool
  | Py_int int
  | Py_long int
  | Py_float u64
  | Py_str "u8 list"
  | Py_list nat
  | Py_dict nat
  | Py_object nat

text \<open>Keys of dictionaries that are not strings are never looked up by the bindings.\<close>

datatype container = List_of "py list" | Dict_of "(string \<times> py) list"

datatype py_exception =
  TypeError | ValueError | OverflowError | RuntimeError | IndexError | MemoryError | SystemError | NotImplementedError

text \<open>The store, and the pending exception with its message.\<close>

record python =
  py_store :: "container list"
  py_error :: "(py_exception \<times> string) option"

text \<open>A conversion of scanf stores a value, does not match, or comes to the end of the input first.\<close>

datatype 'a scan = Scanned 'a | Mismatch | End_of_input

text \<open>
  What the interpreter decides: the numbers that strings, floating-point numbers and other objects convert
  to, the strings of other objects, the conversions between double and float, and the address at which it keeps the contents of a string.
\<close>

record interpreter =
  to_int :: "py \<Rightarrow> int option"
  to_float :: "py \<Rightarrow> u64 option"
  to_string :: "py \<Rightarrow> u8 list option"
  narrow :: "u64 \<Rightarrow> u32"
  widen :: "u32 \<Rightarrow> u64"
  string_addr :: "u8 list \<Rightarrow> addr"
  scan_double :: "u8 list \<Rightarrow> u64 scan"
  scan_float :: "u8 list \<Rightarrow> u32 scan"

section \<open>Exceptions\<close>

definition PyErr_SetString :: "py_exception \<Rightarrow> string \<Rightarrow> python \<Rightarrow> python" where
  "PyErr_SetString e msg py = py\<lparr>py_error := Some (e, msg)\<rparr>"

text \<open>An exception that a function of the interpreter raises; its message is not modelled.\<close>

definition raises :: "py_exception \<Rightarrow> python \<Rightarrow> python" where
  "raises e py = PyErr_SetString e [] py"

section \<open>Containers\<close>

definition list_items :: "python \<Rightarrow> py \<Rightarrow> py list option" where
  "list_items py obj = (case obj of
       Py_list r \<Rightarrow> (if r < length (py_store py) then (case py_store py ! r of List_of xs \<Rightarrow> Some xs | _ \<Rightarrow> None) else None)
     | _ \<Rightarrow> None)"

definition dict_items :: "python \<Rightarrow> py \<Rightarrow> (string \<times> py) list option" where
  "dict_items py obj = (case obj of
       Py_dict r \<Rightarrow> (if r < length (py_store py) then (case py_store py ! r of Dict_of kvs \<Rightarrow> Some kvs | _ \<Rightarrow> None) else None)
     | _ \<Rightarrow> None)"

definition PyList_Check :: "python \<Rightarrow> py \<Rightarrow> bool" where
  "PyList_Check py obj \<longleftrightarrow> list_items py obj \<noteq> None"

definition PyString_Check :: "py \<Rightarrow> bool" where
  "PyString_Check obj \<longleftrightarrow> (case obj of Py_str _ \<Rightarrow> True | _ \<Rightarrow> False)"

text \<open>A bool is an int.\<close>

definition PyInt_Check :: "py \<Rightarrow> bool" where
  "PyInt_Check obj \<longleftrightarrow> (case obj of Py_int _ \<Rightarrow> True | Py_bool _ \<Rightarrow> True | _ \<Rightarrow> False)"

definition PyDict_Check :: "python \<Rightarrow> py \<Rightarrow> bool" where
  "PyDict_Check py obj \<longleftrightarrow> dict_items py obj \<noteq> None"

definition new_container :: "container \<Rightarrow> python \<Rightarrow> nat \<times> python" where
  "new_container c py = (length (py_store py), py\<lparr>py_store := py_store py @ [c]\<rparr>)"

text \<open>A new list with the given items, and a new empty dictionary.\<close>

definition new_list :: "py list \<Rightarrow> python \<Rightarrow> py \<times> python" where
  "new_list xs py = (let (r, py) = new_container (List_of xs) py in (Py_list r, py))"

definition PyDict_New :: "python \<Rightarrow> py \<times> python" where
  "PyDict_New py = (let (r, py) = new_container (Dict_of []) py in (Py_dict r, py))"

fun put_container :: "py \<Rightarrow> container \<Rightarrow> python \<Rightarrow> python" where
  "put_container (Py_list r) c py = py\<lparr>py_store := (py_store py)[r := c]\<rparr>"
| "put_container (Py_dict r) c py = py\<lparr>py_store := (py_store py)[r := c]\<rparr>"
| "put_container _ c py = py"

text \<open>A NULL pointer is None. Arguments of the wrong type are reported as an internal error.\<close>

definition PyList_Append :: "py option \<Rightarrow> py \<Rightarrow> python \<Rightarrow> python run" where
  "PyList_Append obj x py = (case obj of None \<Rightarrow> Inl Fault
     | Some obj \<Rightarrow> (case list_items py obj of
           None \<Rightarrow> Inr (raises SystemError py)
         | Some xs \<Rightarrow> Inr (put_container obj (List_of (xs @ [x])) py)))"

definition PyList_Size :: "python \<Rightarrow> py \<Rightarrow> int" where
  "PyList_Size py obj = (case list_items py obj of None \<Rightarrow> - 1 | Some xs \<Rightarrow> int (length xs))"

definition PyList_GetItem :: "python \<Rightarrow> py \<Rightarrow> int \<Rightarrow> py option" where
  "PyList_GetItem py obj i = (case list_items py obj of None \<Rightarrow> None
     | Some xs \<Rightarrow> if 0 \<le> i \<and> i < int (length xs) then Some (xs ! nat i) else None)"

text \<open>PyList_SetSlice with NULL: the items from \<open>i\<close> to below \<open>j\<close> are deleted.\<close>

definition PyList_DelSlice :: "py \<Rightarrow> int \<Rightarrow> int \<Rightarrow> python \<Rightarrow> python" where
  "PyList_DelSlice obj i j py = (case list_items py obj of
       None \<Rightarrow> raises SystemError py
     | Some xs \<Rightarrow> put_container obj (List_of (take (nat i) xs @ drop (max (nat i) (nat j)) xs)) py)"

text \<open>The object that a pointer points to.\<close>

definition object :: "py option \<Rightarrow> py run" where
  "object obj = (case obj of None \<Rightarrow> Inl Fault | Some x \<Rightarrow> Inr x)"

text \<open>Looking up a key never raises an exception; the result is NULL if the object is not a dictionary.\<close>

definition PyDict_GetItemString :: "python \<Rightarrow> py \<Rightarrow> string \<Rightarrow> py option" where
  "PyDict_GetItemString py obj key = (case dict_items py obj of None \<Rightarrow> None | Some kvs \<Rightarrow> map_of kvs key)"

fun dict_put :: "string \<Rightarrow> 'v \<Rightarrow> (string \<times> 'v) list \<Rightarrow> (string \<times> 'v) list" where
  "dict_put k v [] = [(k, v)]"
| "dict_put k v ((k', v') # kvs) = (if k' = k then (k, v) # kvs else (k', v') # dict_put k v kvs)"

definition PyDict_SetItemString :: "py option \<Rightarrow> string \<Rightarrow> py \<Rightarrow> python \<Rightarrow> python run" where
  "PyDict_SetItemString obj key x py = (case obj of None \<Rightarrow> Inl Fault
     | Some obj \<Rightarrow> (case dict_items py obj of
           None \<Rightarrow> Inr (raises SystemError py)
         | Some kvs \<Rightarrow> Inr (put_container obj (Dict_of (dict_put key x kvs)) py)))"

lemma map_of_dict_put: "map_of (dict_put k v kvs) k' = (if k' = k then Some v else map_of kvs k')"
  by (induction kvs) auto

lemma dict_put_same: "map_of kvs k = Some v \<Longrightarrow> dict_put k v kvs = kvs"
  by (induction kvs) (auto split: if_splits)

lemma dict_put_put: "dict_put k v (dict_put k v' kvs) = dict_put k v kvs"
  by (induction kvs) auto

lemma set_dict_put: "set (dict_put k v kvs) \<subseteq> insert (k, v) (set kvs)"
  by (induction kvs) (auto split: if_splits)

text \<open>An exception leaves the objects alone.\<close>

lemma items_store:
  "py_store py' = py_store py \<Longrightarrow> list_items py' obj = list_items py obj"
  "py_store py' = py_store py \<Longrightarrow> dict_items py' obj = dict_items py obj"
  by (auto simp: list_items_def dict_items_def split: py.split)

lemma py_store_raises [simp]: "py_store (raises e py) = py_store py" "py_store (PyErr_SetString e msg py) = py_store py"
  by (simp_all add: raises_def PyErr_SetString_def)

lemma py_error_raises [simp]: "py_error (raises e py) = Some (e, [])" "py_error (PyErr_SetString e msg py) = Some (e, msg)"
  by (simp_all add: raises_def PyErr_SetString_def)

lemma items_raises [simp]:
  "list_items (PyErr_SetString e msg py) = list_items py" "dict_items (PyErr_SetString e msg py) = dict_items py"
  by (rule ext, rule items_store, simp)+

section \<open>Numbers and strings\<close>

text \<open>An int is a C long; greater numbers are of the type long.\<close>

definition in_long :: "int \<Rightarrow> bool" where
  "in_long i \<longleftrightarrow> - (2 ^ 63) \<le> i \<and> i < 2 ^ 63"

definition int_object :: "int \<Rightarrow> py" where
  "int_object i = (if in_long i then Py_int i else Py_long i)"

text \<open>The conversions of an object to a number; None stands for NULL.\<close>

definition number_value :: "interpreter \<Rightarrow> py \<Rightarrow> int option" where
  "number_value itp obj = (case obj of
       Py_int i \<Rightarrow> Some i | Py_long i \<Rightarrow> Some i | Py_bool b \<Rightarrow> Some (of_bool b)
     | Py_None \<Rightarrow> None | Py_list _ \<Rightarrow> None | Py_dict _ \<Rightarrow> None | _ \<Rightarrow> to_int itp obj)"

definition PyNumber_Int :: "interpreter \<Rightarrow> py \<Rightarrow> py option" where
  "PyNumber_Int itp obj = map_option int_object (number_value itp obj)"

definition PyNumber_Long :: "interpreter \<Rightarrow> py \<Rightarrow> int option" where
  "PyNumber_Long itp obj = number_value itp obj"

definition PyNumber_Float :: "interpreter \<Rightarrow> py \<Rightarrow> u64 option" where
  "PyNumber_Float itp obj = (case obj of
       Py_float x \<Rightarrow> Some x
     | Py_None \<Rightarrow> None | Py_list _ \<Rightarrow> None | Py_dict _ \<Rightarrow> None | _ \<Rightarrow> to_float itp obj)"

text \<open>A number that does not fit is reported by an exception and the value -1.\<close>

definition PyLong_AsUnsignedLongLong :: "int \<Rightarrow> python \<Rightarrow> u64 \<times> python" where
  "PyLong_AsUnsignedLongLong i py =
     (if 0 \<le> i \<and> i < 2 ^ 64 then (word_of_int i, py) else (- 1, raises OverflowError py))"

text \<open>The contents of a string object; other objects may have a string of their own, as unicode objects do.\<close>

definition string_value :: "interpreter \<Rightarrow> py \<Rightarrow> u8 list option" where
  "string_value itp obj = (case obj of Py_str bs \<Rightarrow> Some bs | Py_object _ \<Rightarrow> to_string itp obj | _ \<Rightarrow> None)"

definition PyString_AsStringAndSize :: "interpreter \<Rightarrow> py \<Rightarrow> (addr \<times> u64) option" where
  "PyString_AsStringAndSize itp obj = map_option (\<lambda>bs. (string_addr itp bs, of_nat (length bs))) (string_value itp obj)"

text \<open>The contents of a string lie in the memory where the interpreter says.\<close>

definition keeps :: "interpreter \<Rightarrow> mem \<Rightarrow> u8 list \<Rightarrow> bool" where
  "keeps itp m bs \<longleftrightarrow> string_addr itp bs + length bs \<le> length m \<and> peek m (string_addr itp bs) (length bs) = bs"

text \<open>A new string with \<open>n\<close> bytes from an address.\<close>

definition PyString_FromStringAndSize :: "mem \<Rightarrow> addr \<Rightarrow> nat \<Rightarrow> py run" where
  "PyString_FromStringAndSize m a n = andthen (loads m a n) (\<lambda>bs. Inr (Py_str bs))"

text \<open>An argument of the format i, an int; None stands for an exception.\<close>

definition int_argument :: "interpreter \<Rightarrow> py \<Rightarrow> python \<Rightarrow> s32 option \<times> python" where
  "int_argument itp obj py =
     (case (case obj of Py_float _ \<Rightarrow> None | Py_str _ \<Rightarrow> None | _ \<Rightarrow> number_value itp obj) of
       None \<Rightarrow> (None, raises TypeError py)
     | Some i \<Rightarrow> if i < - (2 ^ 31) \<or> 2 ^ 31 \<le> i then (None, raises OverflowError py)
                 else (Some (word_of_int i), py))"

lemma int_argument_index:
  assumes "i < length ds" and "length ds < 2 ^ 31"
  shows "int_argument itp (Py_int (int i)) py = (Some (word_of_int (int i)), py)"
  using assms by (simp add: int_argument_def number_value_def)

lemma msgnum_ok:
  assumes "i < length ds" and "length ds < 2 ^ 31"
  shows "unat (word_of_int (int i) :: u32) = i" "\<not> of_nat (length ds) \<le> (word_of_int (int i) :: u32)"
  using assms by (simp_all add: unat_of_nat word_le_nat_alt)

end
