(* ===== verification/Py_Primitives.thy ===== *)
theory Py_Primitives
  imports Py_Objects
begin

text \<open>
  The conversions between the values of lwpb and Python objects, src/python/primitives.c. A C long has 64
  bits, so of the two versions of the 64 bit conversions the first one is compiled.
\<close>

text \<open>The result is NULL, here None, with an exception.\<close>

definition lwpb_to_py :: "interpreter \<Rightarrow> mem \<Rightarrow> lwpb_value \<Rightarrow> field_typ \<Rightarrow> python \<Rightarrow> (py option \<times> python) run" where
  "lwpb_to_py itp m p t py =
     (let lo32 = (\<lambda>f. andthen (value_lo32 p) (\<lambda>x. Inr (Some (f x), py)));
          lo64 = (\<lambda>f. andthen (value_lo64 p) (\<lambda>x. Inr (Some (f x), py)));
          str = andthen (value_ptr p) (\<lambda>(a, n). andthen (PyString_FromStringAndSize m a (unat n)) (\<lambda>s. Inr (Some s, py))) in
      case t of
       LWPB_DOUBLE \<Rightarrow> lo64 Py_float
     | LWPB_FLOAT \<Rightarrow> lo32 (\<lambda>x. Py_float (widen itp x))
     | LWPB_INT64 \<Rightarrow> lo64 (\<lambda>x. Py_long (sint x))
     | LWPB_SINT64 \<Rightarrow> lo64 (\<lambda>x. Py_long (sint x))
     | LWPB_SFIXED64 \<Rightarrow> lo64 (\<lambda>x. Py_long (sint x))
     | LWPB_UINT64 \<Rightarrow> lo64 (\<lambda>x. Py_long (uint x))
     | LWPB_FIXED64 \<Rightarrow> lo64 (\<lambda>x. Py_long (uint x))
     | LWPB_SFIXED32 \<Rightarrow> lo32 (\<lambda>x. Py_int (sint x))
     | LWPB_SINT32 \<Rightarrow> lo32 (\<lambda>x. Py_int (sint x))
     | LWPB_INT32 \<Rightarrow> lo32 (\<lambda>x. Py_int (sint x))
     | LWPB_ENUM \<Rightarrow> lo32 (\<lambda>x. Py_int (sint x))
     | LWPB_FIXED32 \<Rightarrow> lo32 (\<lambda>x. Py_long (uint x))
     | LWPB_UINT32 \<Rightarrow> lo32 (\<lambda>x. Py_long (uint x))
     | LWPB_BOOL \<Rightarrow> lo32 (\<lambda>x. Py_bool (x \<noteq> 0))
     | LWPB_STRING \<Rightarrow> str
     | LWPB_BYTES \<Rightarrow> str
     | LWPB_MESSAGE \<Rightarrow> Inr (None, PyErr_SetString NotImplementedError ''only converts primitives'' py)
     | _ \<Rightarrow> Inr (None, PyErr_SetString RuntimeError ''internal: unexpected type'' py))"

text \<open>
  PyInt_AS_LONG reads a member of an int object; in an object of type long there is something else. The
  result is None when \<open>ok\<close> is set to 0.
\<close>

definition convert_to_long :: "interpreter \<Rightarrow> py \<Rightarrow> int \<Rightarrow> int \<Rightarrow> python \<Rightarrow> (int option \<times> python) run" where
  "convert_to_long itp val lobound hibound py = (case PyNumber_Int itp val of
       None \<Rightarrow> Inr (None, PyErr_SetString OverflowError ''could not convert to long'' py)
     | Some (Py_int longval) \<Rightarrow>
         if hibound < longval \<or> longval < lobound
         then Inr (None, PyErr_SetString OverflowError ''value outside type bounds'' py)
         else Inr (Some longval, py)
     | Some _ \<Rightarrow> Inl Undef)"

definition INT32_MIN :: int where "INT32_MIN = - (2 ^ 31)"
definition INT32_MAX :: int where "INT32_MAX = 2 ^ 31 - 1"
definition UINT32_MAX :: int where "UINT32_MAX = 2 ^ 32 - 1"
definition INT64_MIN :: int where "INT64_MIN = - (2 ^ 63)"
definition INT64_MAX :: int where "INT64_MAX = 2 ^ 63 - 1"

text \<open>The assignment \<open>p->int32 = longval\<close> behind a conversion to a long.\<close>

definition long_to_int32 ::
    "interpreter \<Rightarrow> py \<Rightarrow> int \<Rightarrow> int \<Rightarrow> python \<Rightarrow> (lwpb_value option \<times> python) run" where
  "long_to_int32 itp val lobound hibound py =
     andthen (convert_to_long itp val lobound hibound py) (\<lambda>(longval, py).
       Inr (map_option (\<lambda>i. V_int32 (word_of_int i)) longval, py))"

text \<open>The result is the member of the union that was assigned, or None when the function returns -1.\<close>

definition py_to_lwpb :: "interpreter \<Rightarrow> py \<Rightarrow> field_typ \<Rightarrow> python \<Rightarrow> (lwpb_value option \<times> python) run" where
  "py_to_lwpb itp val t py =
     (let int32 = long_to_int32 itp val INT32_MIN INT32_MAX py;
          uint32 = long_to_int32 itp val 0 UINT32_MAX py;
          int64 = long_to_int32 itp val INT64_MIN INT64_MAX py;
          uint64 = (case PyNumber_Long itp val of
              None \<Rightarrow> Inr (None, PyErr_SetString ValueError ''could not convert to uint64'' py)
            | Some i \<Rightarrow> let (x, py) = PyLong_AsUnsignedLongLong i py in Inr (Some (V_uint64 x), py));
          str = (case PyString_AsStringAndSize itp val of
              None \<Rightarrow> Inr (None, raises TypeError py)
            | Some (a, n) \<Rightarrow> Inr (Some (V_string a n), py)) in
      case t of
       LWPB_DOUBLE \<Rightarrow> (case PyNumber_Float itp val of
           None \<Rightarrow> Inr (None, PyErr_SetString ValueError ''could not convert to double'' py)
         | Some x \<Rightarrow> Inr (Some (V_double x), py))
     | LWPB_FLOAT \<Rightarrow> (case PyNumber_Float itp val of
           None \<Rightarrow> Inr (None, PyErr_SetString ValueError ''could not convert to float'' py)
         | Some x \<Rightarrow> Inr (Some (V_float (narrow itp x)), py))
     | LWPB_INT64 \<Rightarrow> int64
     | LWPB_SINT64 \<Rightarrow> int64
     | LWPB_SFIXED64 \<Rightarrow> int64
     | LWPB_UINT64 \<Rightarrow> uint64
     | LWPB_FIXED64 \<Rightarrow> uint64
     | LWPB_SFIXED32 \<Rightarrow> int32
     | LWPB_SINT32 \<Rightarrow> int32
     | LWPB_INT32 \<Rightarrow> int32
     | LWPB_ENUM \<Rightarrow> int32
     | LWPB_FIXED32 \<Rightarrow> uint32
     | LWPB_UINT32 \<Rightarrow> uint32
     | LWPB_BOOL \<Rightarrow> (case val of
           Py_bool b \<Rightarrow> Inr (Some (V_bool (if b then 1 else 0)), py)
         | _ \<Rightarrow> Inr (None, PyErr_SetString ValueError ''should be true or false'' py))
     | LWPB_STRING \<Rightarrow> str
     | LWPB_BYTES \<Rightarrow> str
     | _ \<Rightarrow> Inr (None, PyErr_SetString RuntimeError ''internal error'' py))"

section \<open>Values from text\<close>

text \<open>A pointer to characters is a string that ends before the first null byte.\<close>

definition c_str :: "u8 list \<Rightarrow> u8 list" where
  "c_str bs = takeWhile (\<lambda>b. b \<noteq> 0) bs"

definition is_space :: "u8 \<Rightarrow> bool" where
  "is_space b \<longleftrightarrow> b = 32 \<or> 9 \<le> b \<and> b \<le> 13"

definition is_digit :: "u8 \<Rightarrow> bool" where
  "is_digit b \<longleftrightarrow> 48 \<le> b \<and> b \<le> 57"

text \<open>The sign and the number that a decimal conversion of scanf reads.\<close>

definition scan_decimal :: "u8 list \<Rightarrow> (bool \<times> nat) scan" where
  "scan_decimal str =
     (let s = dropWhile is_space (c_str str) in
      if s = [] then End_of_input
      else
        let rest = (if hd s = 43 \<or> hd s = 45 then tl s else s); ds = takeWhile is_digit rest in
        if ds = [] then Mismatch
        else Scanned (hd s = 45, foldl (\<lambda>v d. 10 * v + (unat d - 48)) 0 ds))"

text \<open>
  The result of \<open>sscanf (...) ? 0 : -1\<close>: the member of the union that was stored, if any, and whether
  the function returns 0. It also does so when sscanf returns EOF, which is not 0. A number that the object
  cannot represent is undefined.
\<close>

definition scan_result :: "('a \<Rightarrow> lwpb_value run) \<Rightarrow> 'a scan \<Rightarrow> (lwpb_value option \<times> bool) run" where
  "scan_result f r = (case r of
       Scanned x \<Rightarrow> andthen (f x) (\<lambda>v. Inr (Some v, True))
     | Mismatch \<Rightarrow> Inr (None, False)
     | End_of_input \<Rightarrow> Inr (None, True))"

definition scanned_int :: "bool \<times> nat \<Rightarrow> lwpb_value run" where
  "scanned_int r = (let i = (if fst r then - int (snd r) else int (snd r)) in
     if INT32_MIN \<le> i \<and> i \<le> INT32_MAX then Inr (V_int32 (word_of_int i)) else Inl Undef)"

text \<open>An unsigned conversion negates in the type unsigned long.\<close>

definition unsigned_value :: "bool \<times> nat \<Rightarrow> nat" where
  "unsigned_value r = (if fst r \<and> snd r \<noteq> 0 then 2 ^ 64 - snd r else snd r)"

definition scanned_unsigned :: "bool \<times> nat \<Rightarrow> lwpb_value run" where
  "scanned_unsigned r =
     (if snd r < 2 ^ 64 \<and> unsigned_value r < 2 ^ 32 then Inr (V_uint32 (of_nat (unsigned_value r))) else Inl Undef)"

definition scanned_unsigned64 :: "bool \<times> nat \<Rightarrow> lwpb_value run" where
  "scanned_unsigned64 r = (if snd r < 2 ^ 64 then Inr (V_uint64 (of_nat (unsigned_value r))) else Inl Undef)"

definition pystring_to_lwpb :: "interpreter \<Rightarrow> py \<Rightarrow> field_typ \<Rightarrow> (lwpb_value option \<times> bool) run" where
  "pystring_to_lwpb itp val t = (case string_value itp val of
       None \<Rightarrow> Inr (None, False)
     | Some str \<Rightarrow>
        let int32 = scan_result scanned_int (scan_decimal str);
            uint32 = scan_result scanned_unsigned (scan_decimal str);
            uint64 = scan_result scanned_unsigned64 (scan_decimal str) in
        case t of
         LWPB_DOUBLE \<Rightarrow> scan_result (\<lambda>x. Inr (V_double x)) (scan_double itp str)
       | LWPB_FLOAT \<Rightarrow> scan_result (\<lambda>x. Inr (V_float x)) (scan_float itp str)
       | LWPB_INT64 \<Rightarrow> int32
       | LWPB_SINT64 \<Rightarrow> int32
       | LWPB_SFIXED64 \<Rightarrow> int32
       | LWPB_UINT64 \<Rightarrow> uint64
       | LWPB_FIXED64 \<Rightarrow> uint64
       | LWPB_SFIXED32 \<Rightarrow> int32
       | LWPB_SINT32 \<Rightarrow> int32
       | LWPB_INT32 \<Rightarrow> int32
       | LWPB_ENUM \<Rightarrow> int32
       | LWPB_FIXED32 \<Rightarrow> uint32
       | LWPB_UINT32 \<Rightarrow> uint32
       | LWPB_BOOL \<Rightarrow>
           if c_str str = [0x74, 0x72, 0x75, 0x65] then Inr (Some (V_bool 1), True)
           else if c_str str = [0x66, 0x61, 0x6C, 0x73, 0x65] then Inr (Some (V_bool 0), True)
           else Inr (None, False)
       | LWPB_STRING \<Rightarrow> Inr (Some (V_string (string_addr itp str) (of_nat (length str))), True)
       | _ \<Rightarrow> Inr (None, False))"

end
