(* ===== verification/Py_Decoder.thy ===== *)
theory Py_Decoder
  imports Py_Primitives Decoder_Run
begin

text \<open>
  The Decoder class of the Python bindings, src/python/decoder.c: its handlers make a dictionary of the
  message that is decoded, and keep the dictionaries of the messages that are not finished yet on a list
  that they use as a stack.
\<close>

section \<open>Handlers\<close>

text \<open>
  A DecoderContext has the stack as its only member. The handlers are given a pointer to it, or NULL, and
  run on the objects of the interpreter.
\<close>

type_synonym decoder_context = "py option \<times> python"

definition py_msg_start_handler :: "decoder_context msg_handler" where
  "py_msg_start_handler packed msg_desc st = Inr st"

definition py_msg_end_handler :: "decoder_context msg_handler" where
  "py_msg_end_handler packed msg_desc st = (case st of
       (None, py) \<Rightarrow> Inr (None, py)
     | (Some stack, py) \<Rightarrow>
         if \<not> packed
         then let stacklen = PyList_Size py stack in
           Inr (Some stack, PyList_DelSlice stack (stacklen - 1) stacklen py)
         else Inr (Some stack, py))"

text \<open>The dictionary for a nested message: a new one, or for a field that is not repeated the current value.\<close>

definition nested_target :: "py option \<Rightarrow> lwpb_field_desc \<Rightarrow> python \<Rightarrow> (py option \<times> python) run" where
  "nested_target target fd py =
     (let new = (let (d, py) = PyDict_New py in Inr (Some d, py)) in
      if opt_label (opts fd) = LWPB_REPEATED then new
      else andthen (object target) (\<lambda>dict. case PyDict_GetItemString py dict (fd_name fd) of
          Some curval \<Rightarrow> Inr (Some curval, py)
        | None \<Rightarrow> new))"

text \<open>The value is appended to the list under the field's name, or stored under the name.\<close>

definition store_value :: "py option \<Rightarrow> lwpb_field_desc \<Rightarrow> py \<Rightarrow> python \<Rightarrow> python run" where
  "store_value target fd pyval py =
     (if opt_label (opts fd) = LWPB_REPEATED then
        andthen (object target) (\<lambda>dict. case PyDict_GetItemString py dict (fd_name fd) of
            Some l \<Rightarrow> PyList_Append (Some l) pyval py
          | None \<Rightarrow> let (l, py) = new_list [] py in
              andthen (PyDict_SetItemString target (fd_name fd) l py) (\<lambda>py. PyList_Append (Some l) pyval py))
      else PyDict_SetItemString target (fd_name fd) pyval py)"

definition py_field_handler :: "interpreter \<Rightarrow> descs \<Rightarrow> mem \<Rightarrow> decoder_context fld_handler" where
  "py_field_handler itp ds m packed msg_desc field_desc value st = (case st of
       (None, py) \<Rightarrow> Inr (None, py)
     | (Some stack, py) \<Rightarrow>
         andthen (deref_field ds (Some field_desc)) (\<lambda>fd.
         let stacklen = PyList_Size py stack;
             target = PyList_GetItem py stack (stacklen - 1) in
         andthen (case value of
             Some v \<Rightarrow> lwpb_to_py itp m v (opt_typ (opts fd)) py
           | None \<Rightarrow> nested_target target fd py) (\<lambda>(pyval, py).
         case pyval of None \<Rightarrow> Inr (Some stack, py)
         | Some pyval \<Rightarrow>
             andthen (store_value target fd pyval py) (\<lambda>py.
             andthen (if value = None then PyList_Append (Some stack) pyval py else Inr py) (\<lambda>py.
             Inr (Some stack, py))))))"

section \<open>Methods\<close>

text \<open>tp_alloc clears the memory of the object.\<close>

definition Decoder_new :: "python \<Rightarrow> decoder_context lwpb_decoder" where
  "Decoder_new py = \<lparr>dec_arg = (None, py), msg_start_handler = None, msg_end_handler = None, field_handler = None,
     dec_stack = replicate LWPB_MAX_DEPTH \<lparr>df_buf = \<lparr>buf_base = 0, buf_pos = 0, buf_end = 0\<rparr>, df_msg_desc = None\<rparr>,
     dec_depth = 0, dec_packed = False\<rparr>"

text \<open>The initialisation leaves the object as it is.\<close>

definition Decoder_init :: "decoder_context lwpb_decoder \<Rightarrow> decoder_context lwpb_decoder" where
  "Decoder_init dec = dec"

text \<open>
  A string that is the argument of a method. Its length is stored in an int. None stands for an exception.
\<close>

definition string_argument :: "interpreter \<Rightarrow> py \<Rightarrow> python \<Rightarrow> (addr \<times> u64) option \<times> python" where
  "string_argument itp obj py = (case string_value itp obj of
       None \<Rightarrow> (None, raises TypeError py)
     | Some bs \<Rightarrow> if 2 ^ 31 \<le> length bs then (None, raises OverflowError py)
                  else (Some (string_addr itp bs, of_nat (length bs)), py))"

text \<open>
  Decoder_decode, from the parsed arguments on. The message number is stored in an unsigned int. The
  descriptor is the table of message descriptors of the Descriptor object. A result of None is NULL.
\<close>

definition decode_parsed ::
    "interpreter \<Rightarrow> descs \<Rightarrow> mem \<Rightarrow> wire_value \<Rightarrow> decoder_context lwpb_decoder \<Rightarrow> addr \<Rightarrow> u64 \<Rightarrow> u32 \<Rightarrow> python \<Rightarrow>
     (decoder_context lwpb_decoder \<times> py option \<times> python) run" where
  "decode_parsed itp ds m wv dec buf len msgnum py =
     (if of_nat (length ds) \<le> msgnum
      then Inr (dec, None, PyErr_SetString IndexError ''message type index out of range'' py)
      else
        let (stack, py) = new_list [] py;
            (dst, py) = PyDict_New py in
        andthen (PyList_Append (Some stack) dst py) (\<lambda>py.
        let dec = lwpb_decoder_arg dec (Some stack, py);
            dec = lwpb_decoder_msg_handler dec (Some py_msg_start_handler) (Some py_msg_end_handler);
            dec = lwpb_decoder_field_handler dec (Some (py_field_handler itp ds m)) in
        andthen (lwpb_decoder_decode ds m wv dec (Some (unat msgnum)) buf len) (\<lambda>(ret, dec, used).
        let py = snd (dec_arg dec) in
        if ret = LWPB_ERR_OK then Inr (dec, Some dst, py)
        else if ret = LWPB_ERR_END_OF_BUF then Inr (dec, Some Py_None, py)
        else Inr (dec, None, raises RuntimeError py))))"

definition Decoder_decode ::
    "interpreter \<Rightarrow> descs \<Rightarrow> mem \<Rightarrow> wire_value \<Rightarrow> decoder_context lwpb_decoder \<Rightarrow> py \<Rightarrow> py \<Rightarrow> python \<Rightarrow>
     (decoder_context lwpb_decoder \<times> py option \<times> python) run" where
  "Decoder_decode itp ds m wv dec data num py = (case string_argument itp data py of
       (None, py) \<Rightarrow> Inr (dec, None, py)
     | (Some (buf, len), py) \<Rightarrow> (case int_argument itp num py of
           (None, py) \<Rightarrow> Inr (dec, None, py)
         | (Some msgnum, py) \<Rightarrow> decode_parsed itp ds m wv dec buf len msgnum py))"

text \<open>
  The methods for single values return a tuple of the value and the number of bytes, and (None, 0) at the
  end of the data.
\<close>

definition value_tuple :: "lwpb_err_t \<Rightarrow> py run \<Rightarrow> lwpb_buf \<Rightarrow> python \<Rightarrow> ((py \<times> py) option \<times> python) run" where
  "value_tuple ret x lbuf py = (case ret of
       LWPB_ERR_OK \<Rightarrow> andthen x (\<lambda>x. Inr (Some (x, Py_long (int (buf_pos lbuf) - int (buf_base lbuf))), py))
     | LWPB_ERR_END_OF_BUF \<Rightarrow> Inr (Some (Py_None, Py_long 0), py)
     | _ \<Rightarrow> Inr (None, raises RuntimeError py))"

text \<open>A value that was not stored is not read.\<close>

definition stored_value :: "('a \<Rightarrow> py) \<Rightarrow> 'a option \<Rightarrow> py run" where
  "stored_value f v = (case v of None \<Rightarrow> Inl Undef | Some v \<Rightarrow> Inr (f v))"

definition Decoder_decode_varint :: "interpreter \<Rightarrow> mem \<Rightarrow> py \<Rightarrow> python \<Rightarrow> ((py \<times> py) option \<times> python) run" where
  "Decoder_decode_varint itp m data py = (case string_argument itp data py of
       (None, py) \<Rightarrow> Inr (None, py)
     | (Some (buf, len), py) \<Rightarrow>
         andthen (lwpb_decode_varint m (lwpb_buf_init buf len)) (\<lambda>(ret, lbuf, v).
           value_tuple ret (Inr (Py_long (sint v))) lbuf py))"

definition Decoder_decode_32bit :: "interpreter \<Rightarrow> mem \<Rightarrow> py \<Rightarrow> python \<Rightarrow> ((py \<times> py) option \<times> python) run" where
  "Decoder_decode_32bit itp m data py = (case string_argument itp data py of
       (None, py) \<Rightarrow> Inr (None, py)
     | (Some (buf, len), py) \<Rightarrow>
         andthen (lwpb_decode_32bit m (lwpb_buf_init buf len)) (\<lambda>(ret, lbuf, v).
           value_tuple ret (stored_value (\<lambda>x. Py_int (uint x)) v) lbuf py))"

definition Decoder_decode_64bit :: "interpreter \<Rightarrow> mem \<Rightarrow> py \<Rightarrow> python \<Rightarrow> ((py \<times> py) option \<times> python) run" where
  "Decoder_decode_64bit itp m data py = (case string_argument itp data py of
       (None, py) \<Rightarrow> Inr (None, py)
     | (Some (buf, len), py) \<Rightarrow>
         andthen (lwpb_decode_64bit m (lwpb_buf_init buf len)) (\<lambda>(ret, lbuf, v).
           value_tuple ret (stored_value (\<lambda>x. Py_long (sint x)) v) lbuf py))"

end
