(* ===== verification/Py_Values.thy ===== *)
theory Py_Values
  imports Py_Decoder
begin

text \<open>
  What Python objects contain: values as trees, the trees that are stored among the objects, and how a
  tree that grows leaves the other objects alone. The value of a message is the dictionary of its fields.
\<close>

section \<open>Trees\<close>

text \<open>
  Leaves are objects without state, lists and dictionaries are labelled: with their reference, or with
  nothing when only the contents matter.
\<close>

datatype 'a tree =
    Leaf py
  | Lst 'a "'a tree list"
  | Dct 'a "(string \<times> 'a tree) list"

fun root_object :: "nat tree \<Rightarrow> py" where
  "root_object (Leaf x) = x"
| "root_object (Lst r ts) = Py_list r"
| "root_object (Dct r kvs) = Py_dict r"

fun is_leaf :: "py \<Rightarrow> bool" where
  "is_leaf (Py_list r) = False"
| "is_leaf (Py_dict r) = False"
| "is_leaf x = True"

primrec refs :: "'a tree \<Rightarrow> 'a list" where
  "refs (Leaf x) = []"
| "refs (Lst r ts) = r # concat (map refs ts)"
| "refs (Dct r kvs) = r # concat (map snd (map (map_prod id refs) kvs))"

text \<open>The tree lies among the objects, each list and dictionary at its reference.\<close>

fun stored :: "container list \<Rightarrow> nat tree \<Rightarrow> bool" where
  "stored h (Leaf x) \<longleftrightarrow> is_leaf x"
| "stored h (Lst r ts) \<longleftrightarrow> r < length h \<and> h ! r = List_of (map root_object ts) \<and> list_all (\<lambda>t. stored h t) ts"
| "stored h (Dct r kvs) \<longleftrightarrow> r < length h \<and> h ! r = Dict_of (map (map_prod id root_object) kvs) \<and>
     list_all (\<lambda>kt. stored h (snd kt)) kvs"

text \<open>No list or dictionary is shared.\<close>

definition owned :: "container list \<Rightarrow> nat tree \<Rightarrow> bool" where
  "owned h t \<longleftrightarrow> stored h t \<and> distinct (refs t)"

abbreviation erase :: "'a tree \<Rightarrow> unit tree" where
  "erase \<equiv> map_tree (\<lambda>_. ())"

abbreviation erases :: "(string \<times> 'a tree) list \<Rightarrow> (string \<times> unit tree) list" where
  "erases \<equiv> map (map_prod id erase)"

text \<open>An object denotes a value. The order of the entries of a dictionary does not matter.\<close>

fun denotes :: "python \<Rightarrow> py \<Rightarrow> unit tree \<Rightarrow> bool"
and denote_list :: "python \<Rightarrow> py list \<Rightarrow> unit tree list \<Rightarrow> bool"
and denote_dict :: "python \<Rightarrow> (string \<times> py) list \<Rightarrow> (string \<times> unit tree) list \<Rightarrow> bool" where
  "denotes py x (Leaf y) \<longleftrightarrow> x = y \<and> is_leaf y"
| "denotes py x (Lst u ts) \<longleftrightarrow> (case list_items py x of None \<Rightarrow> False | Some xs \<Rightarrow> denote_list py xs ts)"
| "denotes py x (Dct u kvs) \<longleftrightarrow> (case dict_items py x of None \<Rightarrow> False
     | Some xs \<Rightarrow> distinct (map fst kvs) \<and> set (map fst xs) = set (map fst kvs) \<and> denote_dict py xs kvs)"
| "denote_list py [] [] \<longleftrightarrow> True"
| "denote_list py (x # xs) (t # ts) \<longleftrightarrow> denotes py x t \<and> denote_list py xs ts"
| "denote_list py _ _ \<longleftrightarrow> False"
| "denote_dict py xs [] \<longleftrightarrow> True"
| "denote_dict py xs ((k, t) # kvs) \<longleftrightarrow> (case map_of xs k of None \<Rightarrow> False | Some x \<Rightarrow> denotes py x t) \<and> denote_dict py xs kvs"

text \<open>No key is twice in a dictionary.\<close>

fun keys_ok :: "'a tree \<Rightarrow> bool" where
  "keys_ok (Leaf x) \<longleftrightarrow> True"
| "keys_ok (Lst r ts) \<longleftrightarrow> list_all (\<lambda>t. keys_ok t) ts"
| "keys_ok (Dct r kvs) \<longleftrightarrow> distinct (map fst kvs) \<and> list_all (\<lambda>kt. keys_ok (snd kt)) kvs"

lemma keys_ok_erase: "keys_ok (erase t) \<longleftrightarrow> keys_ok t"
  by (induction t) (auto simp: list_all_iff snds.simps comp_def)

lemma stored_denotes: "stored (py_store py) t \<Longrightarrow> keys_ok t \<Longrightarrow> denotes py (root_object t) (erase t)"
proof (induction t)
  case (Leaf x)
  then show ?case by simp
next
  case (Lst r ts)
  have "list_all (\<lambda>t. stored (py_store py) t) us \<Longrightarrow> list_all (\<lambda>t. keys_ok t) us \<Longrightarrow> set us \<subseteq> set ts \<Longrightarrow>
      denote_list py (map root_object us) (map erase us)" for us
    using Lst.IH by (induction us) auto
  with Lst.prems show ?case by (simp add: list_items_def)
next
  case (Dct r kvs)
  let ?xs = "map (map_prod id root_object) kvs"
  have entry: "map_of ?xs k = Some (root_object t) \<and> denotes py (root_object t) (erase t)" if "(k, t) \<in> set kvs" for k t
  proof -
    have "map_of kvs k = Some t"
      using that Dct.prems(2) by (intro map_of_is_SomeI) auto
    then have "map_of ?xs k = Some (root_object t)"
      by (induction kvs) (auto split: if_splits)
    moreover have "stored (py_store py) t" "keys_ok t"
      using that Dct.prems by (auto simp: list_all_iff)
    with Dct.IH [OF that] have "denotes py (root_object t) (erase t)"
      by (simp add: snds.simps)
    ultimately show ?thesis by simp
  qed
  have "set us \<subseteq> set kvs \<Longrightarrow> denote_dict py ?xs (map (map_prod id erase) us)" for us
    using entry by (induction us) auto
  moreover have "fst \<circ> map_prod id f = fst" for f :: "nat tree \<Rightarrow> 'c"
    by auto
  ultimately show ?case
    using Dct.prems by (simp add: dict_items_def)
qed

text \<open>The lookups in an object agree with those in the entries.\<close>

definition agrees :: "python \<Rightarrow> py \<Rightarrow> (string \<times> unit tree) list \<Rightarrow> string \<Rightarrow> bool" where
  "agrees py obj kvs k \<longleftrightarrow> (case map_of kvs k of None \<Rightarrow> PyDict_GetItemString py obj k = None
     | Some t \<Rightarrow> (\<exists>x. PyDict_GetItemString py obj k = Some x \<and> denotes py x t))"

lemma denote_dict_entry: "denote_dict py xs kvs \<Longrightarrow> (k, t) \<in> set kvs \<Longrightarrow> \<exists>x. map_of xs k = Some x \<and> denotes py x t"
  by (induction kvs) (auto split: option.splits)

lemma dict_agrees:
  assumes "denotes py obj (Dct u kvs)"
  shows "agrees py obj kvs k" and "PyDict_Check py obj"
proof -
  obtain xs where xs: "dict_items py obj = Some xs" "set (map fst xs) = set (map fst kvs)" "denote_dict py xs kvs"
    using assms by (auto split: option.splits)
  show "PyDict_Check py obj"
    using xs(1) by (simp add: PyDict_Check_def)
  show "agrees py obj kvs k"
  proof (cases "map_of kvs k")
    case None
    then have "map_of xs k = None"
      using xs(2) by (simp add: map_of_eq_None_iff)
    with None xs(1) show ?thesis by (simp add: agrees_def PyDict_GetItemString_def)
  next
    case (Some t)
    with denote_dict_entry [OF xs(3) map_of_SomeD [OF Some]] xs(1) show ?thesis
      by (simp add: agrees_def PyDict_GetItemString_def)
  qed
qed

text \<open>The items of a dictionary with a known value.\<close>

lemma leaf_item: "denotes py obj (Dct u kvs) \<Longrightarrow> map_of kvs k = Some (Leaf x) \<Longrightarrow> PyDict_GetItemString py obj k = Some x"
  using dict_agrees(1) [of py obj u kvs k] by (auto simp: agrees_def)

lemma no_item: "denotes py obj (Dct u kvs) \<Longrightarrow> map_of kvs k = None \<Longrightarrow> PyDict_GetItemString py obj k = None"
  using dict_agrees(1) [of py obj u kvs k] by (simp add: agrees_def)

lemma some_item: "denotes py obj (Dct u kvs) \<Longrightarrow> map_of kvs k = Some t \<Longrightarrow>
    \<exists>x. PyDict_GetItemString py obj k = Some x \<and> denotes py x t"
  using dict_agrees(1) [of py obj u kvs k] by (simp add: agrees_def)

text \<open>New objects do not change what the old ones denote.\<close>

definition extends :: "python \<Rightarrow> python \<Rightarrow> bool" where
  "extends py py' \<longleftrightarrow> length (py_store py) \<le> length (py_store py') \<and> (\<forall>c < length (py_store py). py_store py' ! c = py_store py ! c)"

lemma extends_items:
  assumes "extends py py'"
  shows "list_items py x = Some xs \<Longrightarrow> list_items py' x = Some xs" and "dict_items py x = Some kvs \<Longrightarrow> dict_items py' x = Some kvs"
  using assms by (auto simp: extends_def list_items_def dict_items_def split: py.splits if_splits)

lemma extends_denotes:
  "denotes py x t \<Longrightarrow> extends py py' \<Longrightarrow> denotes py' x t"
  "denote_list py xs ts \<Longrightarrow> extends py py' \<Longrightarrow> denote_list py' xs ts"
  "denote_dict py es kvs \<Longrightarrow> extends py py' \<Longrightarrow> denote_dict py' es kvs"
proof (induction py x t and py xs ts and py es kvs rule: denotes_denote_list_denote_dict.induct)
  case (2 py x u ts)
  then show ?case
    using extends_items(1) [OF 2(3), of x] by (cases "list_items py x") auto
next
  case (3 py x u kvs)
  then show ?case
    using extends_items(2) [OF 3(3), of x] by (cases "dict_items py x") auto
qed (auto split: option.splits)

lemma stored_bound: "stored h t \<Longrightarrow> c \<in> set (refs t) \<Longrightarrow> c < length h"
  by (induction t) (fastforce simp: list_all_iff snds.simps)+

lemma stored_frame:
  "stored h t \<Longrightarrow> length h \<le> length h' \<Longrightarrow> (\<And>c. c \<in> set (refs t) \<Longrightarrow> h' ! c = h ! c) \<Longrightarrow> stored h' t"
  by (induction t) (fastforce simp: list_all_iff snds.simps)+

lemma owned_frame:
  "owned h t \<Longrightarrow> length h \<le> length h' \<Longrightarrow> (\<And>c. c \<in> set (refs t) \<Longrightarrow> h' ! c = h ! c) \<Longrightarrow> owned h' t"
  unfolding owned_def using stored_frame by blast

lemma owned_bound: "owned h t \<Longrightarrow> c \<in> set (refs t) \<Longrightarrow> c < length h"
  unfolding owned_def using stored_bound by blast

section \<open>Growing trees\<close>

text \<open>
  The tree became another one with the same root; it took new objects only, and except for its own
  objects and the list \<open>s\<close> all objects are as before.
\<close>

definition grows :: "nat \<Rightarrow> container list \<Rightarrow> nat tree \<Rightarrow> container list \<Rightarrow> nat tree \<Rightarrow> bool" where
  "grows s h t h' t' \<longleftrightarrow> root_object t' = root_object t \<and> length h \<le> length h' \<and> owned h' t' \<and>
     set (refs t') \<subseteq> set (refs t) \<union> {length h..} \<and>
     (\<forall>c < length h. c \<notin> set (refs t) \<longrightarrow> c \<noteq> s \<longrightarrow> h' ! c = h ! c)"

lemma grows_trans: "grows s h t h1 t1 \<Longrightarrow> grows s h1 t1 h2 t2 \<Longrightarrow> grows s h t h2 t2"
proof -
  assume 1: "grows s h t h1 t1" and 2: "grows s h1 t1 h2 t2"
  have ref: "c \<in> set (refs t1) \<Longrightarrow> c \<in> set (refs t) \<or> length h \<le> c" for c
    using 1 by (auto simp: grows_def)
  have "h2 ! c = h ! c" if c: "c < length h" "c \<notin> set (refs t)" "c \<noteq> s" for c
  proof -
    have "c \<notin> set (refs t1)" "c < length h1"
      using ref [of c] c 1 by (auto simp: grows_def)
    with c 1 2 show ?thesis by (simp add: grows_def)
  qed
  moreover have "set (refs t2) \<subseteq> set (refs t) \<union> {length h..}"
    using ref 1 2 unfolding grows_def by fastforce
  ultimately show ?thesis
    using 1 2 by (simp add: grows_def)
qed

lemma grows_stack:
  assumes "owned h t" and "s \<notin> set (refs t)"
  shows "grows s h t (h[s := c]) t"
proof -
  have "owned (h[s := c]) t"
    using assms(2) by (intro owned_frame [OF assms(1)]) (auto intro!: nth_list_update_neq)
  then show ?thesis by (simp add: grows_def)
qed

text \<open>The trees in a list or dictionary.\<close>

abbreviation forest_refs :: "'a tree list \<Rightarrow> 'a list" where
  "forest_refs ts \<equiv> concat (map refs ts)"

definition forest :: "container list \<Rightarrow> nat tree list \<Rightarrow> bool" where
  "forest h ts \<longleftrightarrow> list_all (\<lambda>t. stored h t) ts \<and> distinct (forest_refs ts)"

lemma owned_Lst: "owned h (Lst r ts) \<longleftrightarrow> r < length h \<and> h ! r = List_of (map root_object ts) \<and>
    r \<notin> set (forest_refs ts) \<and> forest h ts"
  by (auto simp: owned_def forest_def)

lemma refs_Dct: "refs (Dct r kvs) = r # forest_refs (map snd kvs)"
  by (simp add: comp_def)

lemma owned_Dct: "owned h (Dct r kvs) \<longleftrightarrow> r < length h \<and> h ! r = Dict_of (map (map_prod id root_object) kvs) \<and>
    r \<notin> set (forest_refs (map snd kvs)) \<and> forest h (map snd kvs)"
  unfolding owned_def forest_def refs_Dct by (auto simp: list_all_iff)

lemma forest_bound: "forest h ts \<Longrightarrow> c \<in> set (forest_refs ts) \<Longrightarrow> c < length h"
  using stored_bound by (fastforce simp: forest_def list_all_iff)

lemma forest_frame:
  "forest h ts \<Longrightarrow> length h \<le> length h' \<Longrightarrow> (\<And>c. c \<in> set (forest_refs ts) \<Longrightarrow> h' ! c = h ! c) \<Longrightarrow> forest h' ts"
  using stored_frame by (fastforce simp: forest_def list_all_iff)

lemma forest_append: "forest h (ts @ us) \<longleftrightarrow> forest h ts \<and> forest h us \<and> set (forest_refs ts) \<inter> set (forest_refs us) = {}"
  by (auto simp: forest_def)

lemma forest_single: "forest h (u # ts) \<longleftrightarrow> owned h u \<and> forest h ts \<and> set (refs u) \<inter> set (forest_refs ts) = {}"
  by (auto simp: forest_def owned_def)

lemma forest_Nil [simp]: "forest h []"
  by (simp add: forest_def)

lemma forest_grows:
  assumes f: "forest h (xs @ u # ys)" and s: "s \<notin> set (forest_refs (xs @ u # ys))" and u: "grows s h u h' u'"
  shows "forest h' (xs @ u' # ys)"
proof -
  have len: "length h \<le> length h'" and ref: "c \<in> set (refs u') \<Longrightarrow> c \<in> set (refs u) \<or> length h \<le> c" and u': "owned h' u'"
    and keep: "c < length h \<Longrightarrow> c \<notin> set (refs u) \<Longrightarrow> c \<noteq> s \<Longrightarrow> h' ! c = h ! c" for c
    using u by (auto simp: grows_def)
  have parts: "forest h xs" "forest h ys" "set (forest_refs xs) \<inter> set (forest_refs ys) = {}"
    "set (forest_refs xs) \<inter> set (refs u) = {}" "set (refs u) \<inter> set (forest_refs ys) = {}"
    using f by (auto simp: forest_append forest_single)
  note bound = forest_bound [OF parts(1)] forest_bound [OF parts(2)]
  have "forest h' xs" "forest h' ys"
    using parts s bound by (auto intro!: forest_frame [OF parts(1) len] forest_frame [OF parts(2) len] keep)
  moreover have "set (forest_refs xs) \<inter> set (refs u') = {}" "set (refs u') \<inter> set (forest_refs ys) = {}"
    using parts bound ref by (meson disjoint_iff linorder_not_less)+
  ultimately show ?thesis
    using parts(3) u' by (auto simp: forest_append forest_single)
qed

text \<open>Where a key is in a dictionary.\<close>

lemma dict_put_new: "map_of kvs k = None \<Longrightarrow> dict_put k v kvs = kvs @ [(k, v)]"
  by (induction kvs) (auto split: if_splits)

lemma dict_put_mid: "k \<notin> fst ` set xs \<Longrightarrow> dict_put k v (xs @ (k, u) # ys) = xs @ (k, v) # ys"
  by (induction xs) auto

lemma map_of_split:
  assumes "map_of kvs k = Some u"
  obtains xs ys where "kvs = xs @ (k, u) # ys" "k \<notin> fst ` set xs"
proof -
  have "\<exists>xs ys. kvs = xs @ (k, u) # ys \<and> k \<notin> fst ` set xs"
    using assms
  proof (induction kvs)
    case (Cons kv kvs)
    show ?case
    proof (cases "fst kv = k")
      case True
      with Cons.prems have "kv # kvs = [] @ (k, u) # kvs" by (cases kv) auto
      then show ?thesis by (intro exI [of _ "[]"] exI [of _ kvs]) simp
    next
      case False
      with Cons.prems have "map_of kvs k = Some u" by (cases kv) auto
      with Cons.IH obtain xs ys where "kvs = xs @ (k, u) # ys" "k \<notin> fst ` set xs" by blast
      with False show ?thesis
        by (intro exI [of _ "kv # xs"] exI [of _ ys]) auto
    qed
  qed simp
  with that show ?thesis by blast
qed

lemma dict_put_map: "dict_put k (f v) (map (map_prod id f) kvs) = map (map_prod id f) (dict_put k v kvs)"
  by (induction kvs) auto

lemma map_of_map_prod: "map_of (map (map_prod id f) kvs) k = map_option f (map_of kvs k)"
  by (induction kvs) auto

text \<open>One entry of a dictionary, or the last item of a list, grows.\<close>

lemma grows_root:
  assumes "grows s h u h' u'" and "r \<notin> set (refs u)" "r < length h" "r \<noteq> s"
  shows "h' ! r = h ! r" "r < length h'" "r \<notin> set (refs u')"
  using assms by (auto simp: grows_def)

lemma grows_entry:
  assumes t: "owned h (Dct r kvs)" "map_of kvs k = Some u" and s: "s \<notin> set (refs (Dct r kvs))"
    and u: "grows s h u h' u'"
  shows "grows s h (Dct r kvs) h' (Dct r (dict_put k u' kvs))"
proof -
  obtain xs ys where kvs: "kvs = xs @ (k, u) # ys" and put: "dict_put k u' kvs = xs @ (k, u') # ys"
    using t(2) by (elim map_of_split) (simp add: dict_put_mid)
  have f: "forest h (map snd xs @ u # map snd ys)" and r: "r < length h" "r \<notin> set (forest_refs (map snd xs @ u # map snd ys))"
    and s: "s \<notin> set (forest_refs (map snd xs @ u # map snd ys))" "r \<noteq> s"
    and h: "h ! r = Dict_of (map (map_prod id root_object) kvs)"
    using t(1) s unfolding owned_Dct refs_Dct kvs by auto
  have root: "root_object u' = root_object u"
    using u by (simp add: grows_def)
  have "owned h' (Dct r (dict_put k u' kvs))"
    using forest_grows [OF f s(1) u] grows_root [OF u _ r(1) s(2)] r(2) h
    unfolding owned_Dct put by (simp add: kvs root)
  then show ?thesis
    using u unfolding grows_def put unfolding kvs refs_Dct by auto
qed

lemma grows_last:
  assumes t: "owned h (Lst r (ts @ [u]))" and s: "s \<notin> set (refs (Lst r (ts @ [u])))"
    and u: "grows s h u h' u'"
  shows "grows s h (Lst r (ts @ [u])) h' (Lst r (ts @ [u']))"
proof -
  have f: "forest h (ts @ [u])" and r: "r < length h" "r \<notin> set (forest_refs (ts @ [u]))"
    and s: "s \<notin> set (forest_refs (ts @ [u]))" "r \<noteq> s" and h: "h ! r = List_of (map root_object (ts @ [u]))"
    using t(1) s unfolding owned_Lst by auto
  have root: "root_object u' = root_object u"
    using u by (simp add: grows_def)
  have "owned h' (Lst r (ts @ [u']))"
    using forest_grows [OF f s(1) u] grows_root [OF u _ r(1) s(2)] r(2) h
    unfolding owned_Lst by (simp add: root)
  then show ?thesis
    using u unfolding grows_def by auto
qed

text \<open>A new tree is put into a dictionary, or at the end of a list.\<close>

lemma grows_put:
  assumes t: "owned h (Dct r kvs)" and len: "length h \<le> length h'"
    and r: "h' ! r = Dict_of (map (map_prod id root_object) (dict_put k u kvs))"
    and keep: "\<And>c. c < length h \<Longrightarrow> c \<noteq> r \<Longrightarrow> h' ! c = h ! c"
    and u: "owned h' u" "\<And>c. c \<in> set (refs u) \<Longrightarrow> length h \<le> c"
  shows "grows s h (Dct r kvs) h' (Dct r (dict_put k u kvs))"
proof -
  have t': "r < length h" "r \<notin> set (forest_refs (map snd kvs))" "forest h (map snd kvs)"
    using t by (auto simp: owned_Dct)
  note bound = forest_bound [OF t'(3)]
  have "forest h' (map snd kvs)"
    using bound t'(2) by (intro forest_frame [OF t'(3) len] keep) auto
  moreover have new: "set (forest_refs (map snd kvs)) \<inter> set (refs u) = {}"
    using bound u(2) by (meson disjoint_iff linorder_not_less)
  ultimately have "forest h' (map snd (dict_put k u kvs)) \<and> set (forest_refs (map snd (dict_put k u kvs))) \<subseteq>
      set (forest_refs (map snd kvs)) \<union> set (refs u)"
  proof (cases "map_of kvs k")
    case None
    with \<open>forest h' (map snd kvs)\<close> u(1) new show ?thesis
      by (auto simp: dict_put_new forest_append forest_single)
  next
    case (Some w)
    then obtain xs ys where kvs: "kvs = xs @ (k, w) # ys" "k \<notin> fst ` set xs"
      by (rule map_of_split)
    with \<open>forest h' (map snd kvs)\<close> u(1) new show ?thesis
      by (auto simp: dict_put_mid forest_append forest_single)
  qed
  moreover have "r \<notin> set (refs u)"
    using u(2) t'(1) by fastforce
  ultimately have "owned h' (Dct r (dict_put k u kvs))"
    using t' r len by (auto simp: owned_Dct)
  then show ?thesis
    using \<open>forest h' _ \<and> _\<close> len keep u(2) unfolding grows_def refs_Dct by auto
qed

lemma grows_append:
  assumes t: "owned h (Lst r ts)" and len: "length h \<le> length h'"
    and r: "h' ! r = List_of (map root_object (ts @ [u]))"
    and keep: "\<And>c. c < length h \<Longrightarrow> c \<noteq> r \<Longrightarrow> h' ! c = h ! c"
    and u: "owned h' u" "\<And>c. c \<in> set (refs u) \<Longrightarrow> length h \<le> c"
  shows "grows s h (Lst r ts) h' (Lst r (ts @ [u]))"
proof -
  have t': "r < length h" "r \<notin> set (forest_refs ts)" "forest h ts"
    using t by (auto simp: owned_Lst)
  note bound = forest_bound [OF t'(3)]
  have "forest h' ts"
    using bound t'(2) by (intro forest_frame [OF t'(3) len] keep) auto
  moreover have "set (forest_refs ts) \<inter> set (refs u) = {}" "r \<notin> set (refs u)"
    using bound u(2) t'(1) by (meson disjoint_iff linorder_not_less)+
  ultimately have "owned h' (Lst r (ts @ [u]))"
    using t' r len u(1) by (auto simp: owned_Lst forest_append forest_single)
  then show ?thesis
    using len keep u(2) unfolding grows_def by auto
qed

end
