(* ===== verification/Py_Decoder_Run.thy ===== *)
theory Py_Decoder_Run
  imports Py_Values
begin

text \<open>
  The value of a message as a Python dictionary, and the proof that the handlers of the Decoder class
  build it.
\<close>

section \<open>The value of a message\<close>

fun scalar_object :: "interpreter \<Rightarrow> lwpb_value \<Rightarrow> py" where
  "scalar_object itp (V_double x) = Py_float x"
| "scalar_object itp (V_float x) = Py_float (widen itp x)"
| "scalar_object itp (V_int32 x) = Py_int (sint x)"
| "scalar_object itp (V_int64 x) = Py_long (sint x)"
| "scalar_object itp (V_uint32 x) = Py_long (uint x)"
| "scalar_object itp (V_uint64 x) = Py_long (uint x)"
| "scalar_object itp (V_bool x) = Py_bool (x \<noteq> 0)"
| "scalar_object itp (V_enum x) = Py_int (sint x)"
| "scalar_object itp _ = Py_None"

type_synonym entries = "(string \<times> unit tree) list"

definition list_entry :: "string \<Rightarrow> entries \<Rightarrow> unit tree list" where
  "list_entry k kvs = (case map_of kvs k of Some (Lst u ts) \<Rightarrow> ts | _ \<Rightarrow> [])"

definition dict_entry :: "string \<Rightarrow> entries \<Rightarrow> entries" where
  "dict_entry k kvs = (case map_of kvs k of Some (Dct u es) \<Rightarrow> es | _ \<Rightarrow> [])"

text \<open>The values of a repeated field are collected in a list, of other fields the last one counts.\<close>

definition add_value :: "lwpb_field_desc \<Rightarrow> unit tree \<Rightarrow> entries \<Rightarrow> entries" where
  "add_value fd t kvs = dict_put (fd_name fd)
     (if opt_label (opts fd) = LWPB_REPEATED then Lst () (list_entry (fd_name fd) kvs @ [t]) else t) kvs"

text \<open>The messages that are given for a field that is not repeated are merged.\<close>

definition merge_with :: "lwpb_field_desc \<Rightarrow> entries \<Rightarrow> entries" where
  "merge_with fd kvs = (if opt_label (opts fd) = LWPB_REPEATED then [] else dict_entry (fd_name fd) kvs)"

fun item_value :: "interpreter \<Rightarrow> descs \<Rightarrow> msg_ref \<Rightarrow> u8 list item \<Rightarrow> entries \<Rightarrow> entries"
and items_value :: "interpreter \<Rightarrow> descs \<Rightarrow> msg_ref \<Rightarrow> message \<Rightarrow> entries \<Rightarrow> entries" where
  "item_value itp ds i (Scalar j v) kvs = add_value (the_field ds i j) (Leaf (scalar_object itp v)) kvs"
| "item_value itp ds i (Data j bs) kvs = add_value (the_field ds i j) (Leaf (Py_str bs)) kvs"
| "item_value itp ds i (Sub j its) kvs = (let fd = the_field ds i j in
     add_value fd (Dct () (items_value itp ds (the (fd_msg_desc fd)) its (merge_with fd kvs))) kvs)"
| "item_value itp ds i (Packed j vs) kvs =
     fold (\<lambda>v. add_value (the_field ds i j) (Leaf (scalar_object itp v))) vs kvs"
| "items_value itp ds i [] kvs = kvs"
| "items_value itp ds i (it # its) kvs = items_value itp ds i its (item_value itp ds i it kvs)"

definition message_value :: "interpreter \<Rightarrow> descs \<Rightarrow> msg_ref \<Rightarrow> message \<Rightarrow> unit tree" where
  "message_value itp ds i its = Dct () (items_value itp ds i its [])"

section \<open>Dictionaries of messages\<close>

text \<open>The fields of a message have different names.\<close>

definition names_ok :: "descs \<Rightarrow> bool" where
  "names_ok ds \<longleftrightarrow> list_all (\<lambda>md. distinct (map fd_name (msg_fields md))) ds"

text \<open>
  The entries have the form that the fields ask for: lists for repeated fields, and dictionaries of the
  same kind for other message fields.
\<close>

fun shaped :: "descs \<Rightarrow> msg_ref \<Rightarrow> unit tree \<Rightarrow> bool" where
  "shaped ds i (Dct u kvs) \<longleftrightarrow> list_all (\<lambda>kt. \<forall>j < length (msg_fields (ds ! i)). fd_name (the_field ds i j) = fst kt \<longrightarrow>
     (if opt_label (opts (the_field ds i j)) = LWPB_REPEATED then (\<exists>ts. snd kt = Lst () ts)
      else field_type (the_field ds i j) = LWPB_MESSAGE \<longrightarrow> shaped ds (the (fd_msg_desc (the_field ds i j))) (snd kt))) kvs"
| "shaped ds i t \<longleftrightarrow> False"

definition entry_shaped :: "descs \<Rightarrow> lwpb_field_desc \<Rightarrow> unit tree \<Rightarrow> bool" where
  "entry_shaped ds fd t \<longleftrightarrow> (if opt_label (opts fd) = LWPB_REPEATED then (\<exists>ts. t = Lst () ts)
     else field_type fd = LWPB_MESSAGE \<longrightarrow> shaped ds (the (fd_msg_desc fd)) t)"

lemma shaped_iff: "shaped ds i (Dct u kvs) \<longleftrightarrow> (\<forall>(k, t) \<in> set kvs. \<forall>j < length (msg_fields (ds ! i)).
    fd_name (the_field ds i j) = k \<longrightarrow> entry_shaped ds (the_field ds i j) t)"
  by (auto simp: list_all_iff entry_shaped_def)

lemma shaped_entry:
  assumes "shaped ds i (Dct u kvs)" and "wf_field ds i j" and "map_of kvs (fd_name (the_field ds i j)) = Some t"
  shows "entry_shaped ds (the_field ds i j) t"
  using assms unfolding shaped_iff by (auto simp: wf_field_def dest!: map_of_SomeD)

lemma shaped_put:
  assumes "names_ok ds" and "wf_field ds i j" and "shaped ds i (Dct u kvs)" and "entry_shaped ds (the_field ds i j) t"
  shows "shaped ds i (Dct u (dict_put (fd_name (the_field ds i j)) t kvs))"
proof -
  have "distinct (map fd_name (msg_fields (ds ! i)))"
    using assms(1,2) by (auto simp: names_ok_def wf_field_def list_all_iff)
  then have same: "j' = j" if "j' < length (msg_fields (ds ! i))" "fd_name (the_field ds i j') = fd_name (the_field ds i j)" for j'
    using that assms(2) by (auto simp: distinct_conv_nth wf_field_def the_field_def)
  show ?thesis
    using assms(3,4) same set_dict_put [of "fd_name (the_field ds i j)" t kvs] unfolding shaped_iff by blast
qed

lemma shaped_add:
  assumes "names_ok ds" "wf_field ds i j" "shaped ds i (Dct () kvs)"
    and "opt_label (opts (the_field ds i j)) \<noteq> LWPB_REPEATED \<Longrightarrow> entry_shaped ds (the_field ds i j) t"
  shows "shaped ds i (Dct () (add_value (the_field ds i j) t kvs))"
  using assms(4) unfolding add_value_def by (intro shaped_put assms(1-3)) (auto simp: entry_shaped_def)

lemma shaped_merge:
  assumes "shaped ds i (Dct () kvs)" "wf_field ds i j" "field_type (the_field ds i j) = LWPB_MESSAGE"
  shows "shaped ds (the (fd_msg_desc (the_field ds i j))) (Dct () (merge_with (the_field ds i j) kvs))"
  using shaped_entry [OF assms(1,2)] assms(3)
  by (auto simp: merge_with_def dict_entry_def entry_shaped_def split: option.splits tree.splits simp del: shaped.simps(1))
    (simp_all add: shaped_iff)

lemma scalar_not_message: "scalar_ok t v \<Longrightarrow> t \<noteq> LWPB_MESSAGE"
  by (auto simp: scalar_ok_def)

lemma shaped_packed:
  assumes "names_ok ds" "wf_field ds i j" "list_all (scalar_ok (field_type (the_field ds i j))) vs"
  shows "shaped ds i (Dct () kvs) \<Longrightarrow>
    shaped ds i (Dct () (fold (\<lambda>v. add_value (the_field ds i j) (Leaf (f v))) vs kvs))"
  using assms(3)
proof (induction vs arbitrary: kvs)
  case (Cons v vs)
  from Cons.prems(2) have v: "scalar_ok (field_type (the_field ds i j)) v" by simp
  from Cons show ?case
    using shaped_add [OF assms(1,2) Cons.prems(1), of "Leaf (f v)"] scalar_not_message [OF v]
    by (auto simp: entry_shaped_def simp del: shaped.simps)
qed simp

lemma shaped_items:
  "names_ok ds \<Longrightarrow> wf_item ds i it \<Longrightarrow> shaped ds i (Dct () kvs) \<Longrightarrow> shaped ds i (Dct () (item_value itp ds i it kvs))"
  "names_ok ds \<Longrightarrow> wf_items ds i its \<Longrightarrow> shaped ds i (Dct () kvs) \<Longrightarrow> shaped ds i (Dct () (items_value itp ds i its kvs))"
proof (induction itp ds i it kvs and itp ds i its kvs rule: item_value_items_value.induct)
  case (1 itp ds i j v kvs)
  then show ?case
    by (auto simp: Let_def entry_shaped_def dest: scalar_not_message intro!: shaped_add simp del: shaped.simps)
next
  case (2 itp ds i j bs kvs)
  then show ?case
    by (auto simp: Let_def entry_shaped_def intro!: shaped_add simp del: shaped.simps)
next
  case (3 itp ds i j its kvs)
  then have wf: "wf_field ds i j" "field_type (the_field ds i j) = LWPB_MESSAGE"
    "wf_items ds (the (fd_msg_desc (the_field ds i j))) its"
    by (simp_all add: Let_def)
  from "3.IH" [OF refl "3.prems"(1) wf(3) shaped_merge [OF "3.prems"(3) wf(1,2)]] show ?case
    unfolding item_value.simps Let_def
    by (intro shaped_add "3.prems" wf) (simp add: entry_shaped_def del: shaped.simps)
next
  case (4 itp ds i j vs kvs)
  then show ?case
    by (simp add: Let_def shaped_packed del: shaped.simps)
qed (auto simp del: shaped.simps)

declare shaped.simps [simp del]

lemma shaped_empty: "shaped ds i (Dct () [])"
  by (simp add: shaped.simps)

text \<open>The keys are different.\<close>

lemma keys_put: "keys_ok (Dct u kvs) \<Longrightarrow> keys_ok t \<Longrightarrow> keys_ok (Dct u (dict_put k t kvs))"
proof -
  assume keys: "keys_ok (Dct u kvs)" "keys_ok t"
  have "map fst (dict_put k t kvs) = (if k \<in> set (map fst kvs) then map fst kvs else map fst kvs @ [k])"
    by (induction kvs) (auto simp: image_iff Bex_def)
  with keys show ?thesis
    using set_dict_put [of k t kvs] by (auto simp: list_all_iff)
qed

lemma keys_add:
  assumes "keys_ok (Dct () kvs)" and "keys_ok t"
  shows "keys_ok (Dct () (add_value fd t kvs))"
proof -
  have "keys_ok u" if "map_of kvs k = Some u" for k u
    using assms(1) map_of_SomeD [OF that] by (auto simp: list_all_iff)
  then have "list_all (\<lambda>t. keys_ok t) (list_entry (fd_name fd) kvs)"
    by (fastforce simp: list_entry_def split: option.splits tree.splits)
  then show ?thesis
    unfolding add_value_def using assms(2) by (intro keys_put assms(1)) auto
qed

lemma keys_items:
  "keys_ok (Dct () kvs) \<Longrightarrow> keys_ok (Dct () (item_value itp ds i it kvs))"
  "keys_ok (Dct () kvs) \<Longrightarrow> keys_ok (Dct () (items_value itp ds i its kvs))"
proof (induction itp ds i it kvs and itp ds i its kvs rule: item_value_items_value.induct)
  case (3 itp ds i j its kvs)
  have "keys_ok u" if "map_of kvs k = Some u" for k u
    using 3(2) map_of_SomeD [OF that] by (auto simp: list_all_iff)
  then have "keys_ok (Dct () (merge_with (the_field ds i j) kvs))"
    by (fastforce simp: merge_with_def dict_entry_def split: option.splits tree.splits)
  with 3 show ?case
    unfolding item_value.simps Let_def by (intro keys_add) auto
next
  case (4 itp ds i j vs kvs)
  then show ?case
    by (induction vs arbitrary: kvs) (simp_all add: keys_add del: keys_ok.simps(3))
qed (auto simp: keys_add simp del: keys_ok.simps(3))

section \<open>The handlers\<close>

lemma entry_owned:
  assumes "owned h (Dct r kvs)" and "map_of kvs k = Some u"
  shows "owned h u" "set (refs u) \<subseteq> set (refs (Dct r kvs))" "r \<notin> set (refs u)"
proof -
  obtain xs ys where "kvs = xs @ (k, u) # ys"
    using assms(2) by (elim map_of_split)
  with assms(1) show "owned h u" "set (refs u) \<subseteq> set (refs (Dct r kvs))" "r \<notin> set (refs u)"
    unfolding owned_Dct refs_Dct by (auto simp: forest_append forest_single)
qed

lemma last_owned:
  assumes "owned h (Lst r (ts @ [u]))"
  shows "owned h u" "set (refs u) \<subseteq> set (refs (Lst r (ts @ [u])))"
  using assms unfolding owned_Lst by (auto simp: forest_append forest_single)

text \<open>What store_value puts under the name of the field.\<close>

definition holds :: "lwpb_field_desc \<Rightarrow> (string \<times> nat tree) list \<Rightarrow> nat tree \<Rightarrow> bool" where
  "holds fd kvs u \<longleftrightarrow> (if opt_label (opts fd) = LWPB_REPEATED
     then (\<exists>l ts. map_of kvs (fd_name fd) = Some (Lst l (ts @ [u]))) else map_of kvs (fd_name fd) = Some u)"

definition list_field_ok :: "lwpb_field_desc \<Rightarrow> entries \<Rightarrow> bool" where
  "list_field_ok fd kvs \<longleftrightarrow> (opt_label (opts fd) = LWPB_REPEATED \<longrightarrow>
     (\<forall>t. map_of kvs (fd_name fd) = Some t \<longrightarrow> (\<exists>ts. t = Lst () ts)))"

lemma dict_object: "owned (py_store py) (Dct r kvs) \<Longrightarrow> dict_items py (Py_dict r) = Some (map (map_prod id root_object) kvs)"
  by (simp add: owned_Dct dict_items_def)

lemma list_object: "owned (py_store py) (Lst r ts) \<Longrightarrow> list_items py (Py_list r) = Some (map root_object ts)"
  by (simp add: owned_Lst list_items_def)

lemma store_value_ok:
  assumes t: "owned h (Dct r kvs)" and e: "py_store py = h @ e"
    and u: "owned (h @ e) u" "\<And>c. c \<in> set (refs u) \<Longrightarrow> length h \<le> c"
    and ok: "list_field_ok fd (erases kvs)"
  shows "\<exists>py' kvs'. store_value (Some (Py_dict r)) fd (root_object u) py = Inr py' \<and>
    grows s h (Dct r kvs) (py_store py') (Dct r kvs') \<and> holds fd kvs' u \<and>
    erases kvs' = add_value fd (erase u) (erases kvs) \<and> py_error py' = py_error py \<and>
    (\<forall>c < length h. c \<notin> set (refs (Dct r kvs)) \<longrightarrow> py_store py' ! c = h ! c)"
proof -
  let ?k = "fd_name fd"
  have r: "r < length h" and hr: "h ! r = Dict_of (map (map_prod id root_object) kvs)"
    using t by (auto simp: owned_Dct)
  have items: "dict_items py (Py_dict r) = Some (map (map_prod id root_object) kvs)"
    using r hr e by (simp add: dict_items_def nth_append)
  have "r \<notin> set (refs u)" using u(2) r by fastforce
  show ?thesis
  proof (cases "opt_label (opts fd) = LWPB_REPEATED")
    case False
    let ?h = "(h @ e)[r := Dict_of (map (map_prod id root_object) (dict_put ?k u kvs))]"
    have "store_value (Some (Py_dict r)) fd (root_object u) py = Inr (py\<lparr>py_store := ?h\<rparr>)"
      using False by (simp add: store_value_def PyDict_SetItemString_def items dict_put_map e)
    moreover have "owned ?h u"
      using \<open>r \<notin> _\<close> by (intro owned_frame [OF u(1)]) (auto intro!: nth_list_update_neq)
    then have "grows s h (Dct r kvs) ?h (Dct r (dict_put ?k u kvs))"
      using r u(2) by (intro grows_put [OF t]) (auto simp: nth_append)
    ultimately show ?thesis
      using False by (intro exI [of _ "py\<lparr>py_store := ?h\<rparr>"] exI [of _ "dict_put ?k u kvs"])
        (auto simp: holds_def map_of_dict_put add_value_def dict_put_map nth_append)
  next
    case True
    show ?thesis
    proof (cases "map_of kvs ?k")
      case None
      let ?l = "length (h @ e)"
      let ?u = "Lst ?l [u]"
      let ?h = "(h @ e)[r := Dict_of (map (map_prod id root_object) (dict_put ?k ?u kvs))] @ [List_of [root_object u]]"
      have "store_value (Some (Py_dict r)) fd (root_object u) py = Inr (py\<lparr>py_store := ?h\<rparr>)"
        using True None r items e
        by (simp add: store_value_def object_def PyDict_GetItemString_def map_of_map_prod new_list_def new_container_def
            PyDict_SetItemString_def dict_items_def nth_append hr PyList_Append_def list_items_def list_update_append
            dict_put_map [of _ root_object ?u, simplified])
      moreover have "owned ?h u"
        using \<open>r \<notin> _\<close> owned_bound [OF u(1)] by (intro owned_frame [OF u(1)]) (auto simp: nth_append intro!: nth_list_update_neq [THEN trans])
      then have "owned ?h ?u"
        using owned_bound [OF u(1)] by (fastforce simp: owned_Lst forest_single nth_append)
      then have "grows s h (Dct r kvs) ?h (Dct r (dict_put ?k ?u kvs))"
        using r u(2) by (intro grows_put [OF t]) (auto simp: nth_append nth_list_update)
      ultimately show ?thesis
        using True None by (intro exI [of _ "py\<lparr>py_store := ?h\<rparr>"] exI [of _ "dict_put ?k ?u kvs"])
          (auto simp: holds_def map_of_dict_put add_value_def list_entry_def map_of_map_prod nth_append nth_list_update
            dict_put_map [of _ erase ?u, simplified])
    next
      case (Some w)
      then obtain l ts where w: "w = Lst l ts"
        using ok True by (cases w) (auto simp: list_field_ok_def map_of_map_prod)
      note w' = entry_owned [OF t Some, unfolded w]
      let ?h = "(h @ e)[l := List_of (map root_object (ts @ [u]))]"
      have l: "l < length h" "h ! l = List_of (map root_object ts)" "l \<in> set (refs (Dct r kvs))"
        using w'(1,2) by (auto simp: owned_Lst)
      have "store_value (Some (Py_dict r)) fd (root_object u) py = Inr (py\<lparr>py_store := ?h\<rparr>)"
        using True Some w items e l
        by (simp add: store_value_def object_def PyDict_GetItemString_def map_of_map_prod PyList_Append_def list_items_def nth_append)
      moreover have "l \<notin> set (refs u)" using u(2) l(1) by fastforce
      then have "owned ?h u"
        by (intro owned_frame [OF u(1)]) (auto intro!: nth_list_update_neq)
      then have "grows s h (Lst l ts) ?h (Lst l (ts @ [u]))"
        using l u(2) by (intro grows_append [OF w'(1)]) (auto simp: nth_append)
      then have "grows r h (Lst l ts) ?h (Lst l (ts @ [u]))" for r
        using l(1) unfolding grows_def by (auto simp: nth_append nth_list_update)
      note grows_entry [OF t Some [unfolded w] _ this]
      then have "grows (length h) h (Dct r kvs) ?h (Dct r (dict_put ?k (Lst l (ts @ [u])) kvs))"
        using owned_bound [OF t] by blast
      then have "grows s h (Dct r kvs) ?h (Dct r (dict_put ?k (Lst l (ts @ [u])) kvs))"
        using l(3) unfolding grows_def by auto
      ultimately show ?thesis
        using True Some w l(1,3) by (intro exI [of _ "py\<lparr>py_store := ?h\<rparr>"] exI [of _ "dict_put ?k (Lst l (ts @ [u])) kvs"])
          (auto simp: holds_def map_of_dict_put add_value_def list_entry_def map_of_map_prod nth_append nth_list_update
            dict_put_map [of _ erase "Lst l (ts @ [u])", simplified])
    qed
  qed
qed

text \<open>The handlers at work on the dictionary at the top of the stack.\<close>

definition working :: "nat \<Rightarrow> py list \<Rightarrow> nat \<Rightarrow> (string \<times> nat tree) list \<Rightarrow> python \<Rightarrow> bool" where
  "working s st r kvs py \<longleftrightarrow> s < length (py_store py) \<and> py_store py ! s = List_of (st @ [Py_dict r]) \<and>
     owned (py_store py) (Dct r kvs) \<and> s \<notin> set (refs (Dct r kvs))"

text \<open>From one such state to another.\<close>

definition worked :: "nat \<Rightarrow> py list \<Rightarrow> nat \<Rightarrow> (string \<times> nat tree) list \<Rightarrow> python \<Rightarrow> entries \<Rightarrow> python \<Rightarrow> bool" where
  "worked s st r kvs py es py' \<longleftrightarrow> (\<exists>kvs'. working s st r kvs' py' \<and>
     grows s (py_store py) (Dct r kvs) (py_store py') (Dct r kvs') \<and> erases kvs' = es \<and> py_error py' = py_error py)"

lemma working_top:
  assumes "working s st r kvs py"
  shows "PyList_GetItem py (Py_list s) (PyList_Size py (Py_list s) - 1) = Some (Py_dict r)"
    and "list_items py (Py_list s) = Some (st @ [Py_dict r])"
    and "PyList_Size py (Py_list s) = int (Suc (length st))"
  using assms by (auto simp: working_def PyList_GetItem_def PyList_Size_def list_items_def nth_append nat_eq_iff)

lemma grows_keeps_out:
  "grows s h t h' t' \<Longrightarrow> s \<notin> set (refs t) \<Longrightarrow> s < length h \<Longrightarrow> s \<notin> set (refs t')"
  by (auto simp: grows_def)

lemma working_grows:
  assumes "working s st r kvs py" and "grows s (py_store py) (Dct r kvs) (py_store py') (Dct r kvs')"
    and "py_store py' ! s = py_store py ! s"
  shows "working s st r kvs' py'"
  using assms grows_keeps_out [OF assms(2)] unfolding working_def by (auto simp: grows_def)

lemma field_value:
  assumes w: "working s st r kvs py" and fd: "deref_field ds (Some fr) = Inr fd"
    and v: "lwpb_to_py itp m v (field_type fd) py = Inr (Some x, py)" "is_leaf x"
    and ok: "list_field_ok fd (erases kvs)"
  shows "\<exists>py'. py_field_handler itp ds m p d fr (Some v) (Some (Py_list s), py) = Inr (Some (Py_list s), py') \<and>
    worked s st r kvs py (add_value fd (Leaf x) (erases kvs)) py'"
proof -
  have t: "owned (py_store py) (Dct r kvs)" and s: "s < length (py_store py)" "s \<notin> set (refs (Dct r kvs))"
    using w by (auto simp: working_def)
  have x: "owned (py_store py @ []) (Leaf x)"
    using v(2) by (simp add: owned_def)
  obtain py' kvs' where st: "store_value (Some (Py_dict r)) fd x py = Inr py'"
    and g: "grows s (py_store py) (Dct r kvs) (py_store py') (Dct r kvs')"
    and es: "erases kvs' = add_value fd (Leaf x) (erases kvs)" and err: "py_error py' = py_error py"
    and keep: "py_store py' ! s = py_store py ! s"
    using store_value_ok [OF t _ x _ ok, of py s] s by auto
  show ?thesis
    using working_grows [OF w g keep] working_top [OF w] st g es err fd v
    by (intro exI [of _ py']) (auto simp: py_field_handler_def worked_def)
qed

lemma worked_trans:
  assumes "worked s st r kvs py es py1" and "\<And>kvs1. working s st r kvs1 py1 \<Longrightarrow> erases kvs1 = es \<Longrightarrow> worked s st r kvs1 py1 es' py2"
  shows "worked s st r kvs py es' py2"
  using assms grows_trans unfolding worked_def by metis

lemma worked_refl: "working s st r kvs py \<Longrightarrow> worked s st r kvs py (erases kvs) py"
  unfolding worked_def by (intro exI [of _ kvs]) (auto simp: working_def grows_def)

text \<open>What happens to the dictionary of a nested message happens to the dictionary that holds it.\<close>

lemma holds_owned:
  assumes "owned h (Dct r kvs)" and "holds fd kvs u"
  shows "owned h u" "set (refs u) \<subseteq> set (refs (Dct r kvs))"
proof -
  show "owned h u" "set (refs u) \<subseteq> set (refs (Dct r kvs))"
    using assms(2) entry_owned [OF assms(1)] last_owned
    unfolding holds_def by (metis (no_types, lifting) dual_order.trans)+
qed

lemma holds_grows:
  assumes t: "owned h (Dct r kvs)" and u: "holds fd kvs u" and s: "s \<notin> set (refs (Dct r kvs))"
    and g: "grows s h u h' u'" and es: "erases kvs = add_value fd (erase u) es"
  shows "\<exists>kvs'. grows s h (Dct r kvs) h' (Dct r kvs') \<and> erases kvs' = add_value fd (erase u') es"
proof (cases "opt_label (opts fd) = LWPB_REPEATED")
  case False
  then show ?thesis
    using u grows_entry [OF t _ s g, of "fd_name fd"] es
    by (intro exI [of _ "dict_put (fd_name fd) u' kvs"])
      (simp add: holds_def dict_put_map [symmetric] add_value_def dict_put_put)
next
  case True
  then obtain l ts where l: "map_of kvs (fd_name fd) = Some (Lst l (ts @ [u]))"
    using u by (auto simp: holds_def)
  note lst = entry_owned [OF t l]
  have "grows s h (Lst l (ts @ [u])) h' (Lst l (ts @ [u']))"
    using s lst(2) by (intro grows_last [OF lst(1) _ g]) blast
  from grows_entry [OF t l s this]
  have "grows s h (Dct r kvs) h' (Dct r (dict_put (fd_name fd) (Lst l (ts @ [u'])) kvs))" .
  moreover have "map erase ts = list_entry (fd_name fd) es"
    using arg_cong [OF es, of "\<lambda>kvs. map_of kvs (fd_name fd)"] l True
    by (simp add: map_of_map_prod add_value_def map_of_dict_put)
  ultimately show ?thesis
    using es True by (intro exI [of _ "dict_put (fd_name fd) (Lst l (ts @ [u'])) kvs"])
      (simp add: dict_put_map [symmetric] add_value_def dict_put_put)
qed

definition dict_field_ok :: "lwpb_field_desc \<Rightarrow> entries \<Rightarrow> bool" where
  "dict_field_ok fd kvs \<longleftrightarrow> (opt_label (opts fd) \<noteq> LWPB_REPEATED \<longrightarrow>
     (\<forall>t. map_of kvs (fd_name fd) = Some t \<longrightarrow> (\<exists>es. t = Dct () es)))"

text \<open>The dictionary for a nested message is in its place.\<close>

lemma nested_target_ok:
  assumes t: "owned (py_store py) (Dct r kvs)" and ok: "list_field_ok fd (erases kvs)" "dict_field_ok fd (erases kvs)"
  shows "\<exists>rc ckvs py1 py2 kvs2. nested_target (Some (Py_dict r)) fd py = Inr (Some (Py_dict rc), py1) \<and>
    store_value (Some (Py_dict r)) fd (Py_dict rc) py1 = Inr py2 \<and>
    grows s (py_store py) (Dct r kvs) (py_store py2) (Dct r kvs2) \<and> holds fd kvs2 (Dct rc ckvs) \<and>
    erases ckvs = merge_with fd (erases kvs) \<and> erases kvs2 = add_value fd (Dct () (erases ckvs)) (erases kvs) \<and>
    py_error py2 = py_error py \<and>
    (\<forall>c < length (py_store py). c \<notin> set (refs (Dct r kvs)) \<longrightarrow> py_store py2 ! c = py_store py ! c)"
proof -
  let ?h = "py_store py" and ?k = "fd_name fd"
  note items = dict_object [OF t]
  show ?thesis
  proof (cases "opt_label (opts fd) \<noteq> LWPB_REPEATED \<and> map_of kvs ?k \<noteq> None")
    case True
    then obtain rc ckvs where k: "map_of kvs ?k = Some (Dct rc ckvs)"
    proof -
      obtain u where u: "map_of kvs ?k = Some u" using True by blast
      with ok(2) True have "\<exists>rc ckvs. u = Dct rc ckvs"
        by (cases u) (auto simp: dict_field_ok_def map_of_map_prod)
      with u that show ?thesis by blast
    qed
    have "?h[r := Dict_of (map (map_prod id root_object) kvs)] = ?h"
      using t by (metis list_update_id owned_Dct)
    then have st: "store_value (Some (Py_dict r)) fd (Py_dict rc) py = Inr py"
      using True k items
      by (simp add: store_value_def PyDict_SetItemString_def dict_put_same map_of_map_prod)
    show ?thesis
      by (rule exI [of _ rc], rule exI [of _ ckvs], rule exI [of _ py], rule exI [of _ py], rule exI [of _ kvs],
        use True k items t st in \<open>simp add: nested_target_def object_def PyDict_GetItemString_def map_of_map_prod holds_def
          merge_with_def dict_entry_def add_value_def dict_put_same grows_def le_supI1 subset_insertI2\<close>)
  next
    case False
    let ?rc = "length ?h"
    let ?py = "py\<lparr>py_store := ?h @ [Dict_of []]\<rparr>"
    have "nested_target (Some (Py_dict r)) fd py = Inr (Some (Py_dict ?rc), ?py)"
      using False items by (auto simp: nested_target_def object_def PyDict_GetItemString_def PyDict_New_def
          new_container_def map_of_map_prod Let_def)
    moreover have "owned (?h @ [Dict_of []]) (Dct ?rc [])"
      by (simp add: owned_Dct)
    from store_value_ok [OF t _ this _ ok(1), of ?py s]
    obtain py' kvs' where "store_value (Some (Py_dict r)) fd (Py_dict ?rc) ?py = Inr py'"
      "grows s ?h (Dct r kvs) (py_store py') (Dct r kvs')" "holds fd kvs' (Dct ?rc [])"
      "erases kvs' = add_value fd (Dct () []) (erases kvs)" "py_error py' = py_error py"
      "\<forall>c < length ?h. c \<notin> set (refs (Dct r kvs)) \<longrightarrow> py_store py' ! c = ?h ! c"
      by auto
    moreover have "merge_with fd (erases kvs) = []"
      using False by (auto simp: merge_with_def dict_entry_def map_of_map_prod)
    ultimately have "nested_target (Some (Py_dict r)) fd py = Inr (Some (Py_dict ?rc), ?py) \<and>
      store_value (Some (Py_dict r)) fd (Py_dict ?rc) ?py = Inr py' \<and>
      grows s ?h (Dct r kvs) (py_store py') (Dct r kvs') \<and> holds fd kvs' (Dct ?rc []) \<and>
      erases [] = merge_with fd (erases kvs) \<and> erases kvs' = add_value fd (Dct () (erases [])) (erases kvs) \<and>
      py_error py' = py_error py \<and>
      (\<forall>c < length ?h. c \<notin> set (refs (Dct r kvs)) \<longrightarrow> py_store py' ! c = ?h ! c)"
      by simp
    then show ?thesis by blast
  qed
qed

text \<open>Leaving the nested message takes its dictionary from the stack.\<close>

lemma msg_end_pops:
  assumes "working s st rc ckvs py"
  shows "py_msg_end_handler False i (Some (Py_list s), py) =
    Inr (Some (Py_list s), py\<lparr>py_store := (py_store py)[s := List_of st]\<rparr>)"
  using working_top [OF assms] by (simp add: py_msg_end_handler_def PyList_DelSlice_def Let_def nat_add_distrib)

lemma field_nested:
  assumes w: "working s st r kvs py" and fd: "deref_field ds (Some fr) = Inr fd"
    and ok: "list_field_ok fd (erases kvs)" "dict_field_ok fd (erases kvs)"
  shows "\<exists>rc ckvs py1. py_field_handler itp ds m p d fr None (Some (Py_list s), py) = Inr (Some (Py_list s), py1) \<and>
    working s (st @ [Py_dict r]) rc ckvs py1 \<and> erases ckvs = merge_with fd (erases kvs) \<and>
    (\<forall>es py2. worked s (st @ [Py_dict r]) rc ckvs py1 es py2 \<longrightarrow>
      (\<exists>py3. py_msg_end_handler False i (Some (Py_list s), py2) = Inr (Some (Py_list s), py3) \<and>
        worked s st r kvs py (add_value fd (Dct () es) (erases kvs)) py3))"
proof -
  have t: "owned (py_store py) (Dct r kvs)" and s: "s < length (py_store py)" "s \<notin> set (refs (Dct r kvs))"
    using w by (auto simp: working_def)
  obtain rc ckvs pya pyb kvsb where target: "nested_target (Some (Py_dict r)) fd py = Inr (Some (Py_dict rc), pya)"
    and st: "store_value (Some (Py_dict r)) fd (Py_dict rc) pya = Inr pyb"
    and g: "grows s (py_store py) (Dct r kvs) (py_store pyb) (Dct r kvsb)" and h: "holds fd kvsb (Dct rc ckvs)"
    and c: "erases ckvs = merge_with fd (erases kvs)" and es: "erases kvsb = add_value fd (Dct () (erases ckvs)) (erases kvs)"
    and err: "py_error pyb = py_error py" and keep: "py_store pyb ! s = py_store py ! s"
    using nested_target_ok [OF t ok, of s] s by auto
  have wb: "working s st r kvsb pyb"
    by (rule working_grows [OF w g keep])
  let ?py1 = "pyb\<lparr>py_store := (py_store pyb)[s := List_of (st @ [Py_dict r, Py_dict rc])]\<rparr>"
  have run: "py_field_handler itp ds m p d fr None (Some (Py_list s), py) = Inr (Some (Py_list s), ?py1)"
    using working_top [OF w] working_top(2) [OF wb] fd target st by (simp add: py_field_handler_def PyList_Append_def)
  have sb: "s < length (py_store pyb)" "s \<notin> set (refs (Dct r kvsb))" and tb: "owned (py_store pyb) (Dct r kvsb)"
    using wb by (auto simp: working_def)
  have g1: "grows s (py_store py) (Dct r kvs) (py_store ?py1) (Dct r kvsb)"
    using grows_trans [OF g grows_stack [OF tb sb(2)]] by simp
  then have t1: "owned (py_store ?py1) (Dct r kvsb)"
    by (simp add: grows_def)
  have w1: "working s (st @ [Py_dict r]) rc ckvs ?py1"
    using holds_owned [OF t1 h] sb by (auto simp: working_def)
  have "\<exists>py3. py_msg_end_handler False i (Some (Py_list s), py2) = Inr (Some (Py_list s), py3) \<and>
      worked s st r kvs py (add_value fd (Dct () es) (erases kvs)) py3"
    if inner: "worked s (st @ [Py_dict r]) rc ckvs ?py1 es py2" for es py2
  proof -
    obtain ckvs2 where w2: "working s (st @ [Py_dict r]) rc ckvs2 py2"
      and gc: "grows s (py_store ?py1) (Dct rc ckvs) (py_store py2) (Dct rc ckvs2)" and es2: "erases ckvs2 = es"
      and err2: "py_error py2 = py_error ?py1"
      using inner by (auto simp: worked_def)
    obtain kvs2 where g2: "grows s (py_store ?py1) (Dct r kvsb) (py_store py2) (Dct r kvs2)"
      and e2: "erases kvs2 = add_value fd (Dct () es) (erases kvs)"
      using holds_grows [OF t1 h sb(2) gc] es es2 by auto
    let ?py3 = "py2\<lparr>py_store := (py_store py2)[s := List_of (st @ [Py_dict r])]\<rparr>"
    have t2: "owned (py_store py2) (Dct r kvs2)" and s2: "s \<notin> set (refs (Dct r kvs2))"
      using g2 grows_keeps_out [OF g2 sb(2)] sb by (auto simp: grows_def)
    have g3: "grows s (py_store py) (Dct r kvs) (py_store ?py3) (Dct r kvs2)"
      using grows_trans [OF grows_trans [OF g1 g2] grows_stack [OF t2 s2]] by simp
    have "working s st r kvs2 ?py3"
      using w2 s2 g3 by (auto simp: working_def grows_def)
    then show ?thesis
      using msg_end_pops [OF w2] g3 e2 err err2 by (intro exI [of _ ?py3]) (auto simp: worked_def)
  qed
  with run w1 c show ?thesis by blast
qed

section \<open>The handlers build the value\<close>

text \<open>A decoder with the handlers of the class.\<close>

definition builds :: "interpreter \<Rightarrow> descs \<Rightarrow> mem \<Rightarrow> decoder_context lwpb_decoder \<Rightarrow> bool" where
  "builds itp ds m dec \<longleftrightarrow> msg_start_handler dec = Some py_msg_start_handler \<and>
     msg_end_handler dec = Some py_msg_end_handler \<and> field_handler dec = Some (py_field_handler itp ds m)"

lemma builds_events:
  assumes "builds itp ds m dec"
  shows "handle dec (Msg_start p i) = Inr" "handle dec (Msg_end p i) = py_msg_end_handler p i"
    "handle dec (Msg_field p d fr v) = py_field_handler itp ds m p d fr v"
  using assms by (auto simp: builds_def handle.simps py_msg_start_handler_def)

lemma handle_no_events [simp]: "handle_events dec [] = Inr"
  by (simp add: fun_eq_iff)

lemma end_packed: "py_msg_end_handler True i st = Inr st"
  by (auto simp: py_msg_end_handler_def split: prod.splits option.splits)

lemma scalar_to_py:
  assumes "scalar_ok t v"
  shows "lwpb_to_py itp m v t py = Inr (Some (scalar_object itp v), py)" "is_leaf (scalar_object itp v)"
  using assms by (auto simp: scalar_ok_def lwpb_to_py_def split: field_typ.splits lwpb_value.splits)

lemma data_to_py:
  assumes "field_type fd = LWPB_STRING \<or> field_type fd = LWPB_BYTES" and "peek m a (length bs) = bs"
    and "a + length bs \<le> length m" and "length m < 2 ^ 63"
  shows "lwpb_to_py itp m (data_value fd a bs) (field_type fd) py = Inr (Some (Py_str bs), py)"
proof -
  have "length bs < 2 ^ 64"
    using assms(3,4) by simp
  then have "unat (of_nat (length bs) :: u64) = length bs"
    by (simp add: unat_of_nat)
  then show ?thesis
    using assms by (auto simp: lwpb_to_py_def data_value_def PyString_FromStringAndSize_def loads_peek)
qed

lemma shaped_fields:
  assumes "shaped ds i (Dct () kvs)" "wf_field ds i j"
  shows "list_field_ok (the_field ds i j) kvs"
    and "field_type (the_field ds i j) = LWPB_MESSAGE \<Longrightarrow> dict_field_ok (the_field ds i j) kvs"
proof -
  note entry = shaped_entry [OF assms, unfolded entry_shaped_def]
  show "list_field_ok (the_field ds i j) kvs"
    using entry by (auto simp: list_field_ok_def)
  have "shaped ds k t \<Longrightarrow> \<exists>es. t = Dct () es" for k t
    by (cases t) (auto simp: shaped.simps)
  then show "field_type (the_field ds i j) = LWPB_MESSAGE \<Longrightarrow> dict_field_ok (the_field ds i j) kvs"
    using entry by (auto simp: dict_field_ok_def)
qed

lemma build_packed:
  assumes b: "builds itp ds m dec" and n: "names_ok ds" and wf: "wf_field ds i j"
    and "list_all (scalar_ok (field_type (the_field ds i j))) vs"
    and "working s st r kvs py" "erases kvs = es" "shaped ds i (Dct () es)"
  shows "\<exists>py'. handle_events dec (map (\<lambda>v. Msg_field True d (i, j) (Some v)) vs) (Some (Py_list s), py) =
      Inr (Some (Py_list s), py') \<and>
    worked s st r kvs py (fold (\<lambda>v. add_value (the_field ds i j) (Leaf (scalar_object itp v))) vs es) py'"
  using assms(4-)
proof (induction vs arbitrary: kvs py es)
  case Nil
  then have "worked s st r kvs py es py" using worked_refl by metis
  then show ?case by simp
next
  case (Cons v vs)
  let ?fd = "the_field ds i j"
  let ?es = "add_value ?fd (Leaf (scalar_object itp v)) es"
  have v: "scalar_ok (field_type ?fd) v" and vs: "list_all (scalar_ok (field_type ?fd)) vs"
    using Cons.prems(1) by auto
  have "list_field_ok ?fd (erases kvs)"
    using shaped_fields(1) [OF Cons.prems(4) wf] unfolding Cons.prems(3) .
  from field_value [OF Cons.prems(2) wf_field_deref [OF wf] scalar_to_py [OF v] this]
  obtain py1 where run: "py_field_handler itp ds m True d (i, j) (Some v) (Some (Py_list s), py) = Inr (Some (Py_list s), py1)"
    and w1: "worked s st r kvs py ?es py1"
    using Cons.prems(3) by blast
  have sh: "shaped ds i (Dct () ?es)"
    using v by (intro shaped_add n wf Cons.prems) (auto simp: entry_shaped_def dest: scalar_not_message)
  note IH = Cons.IH [OF vs _ _ sh]
  obtain py2 where
    rest: "handle_events dec (map (\<lambda>v. Msg_field True d (i, j) (Some v)) vs) (Some (Py_list s), py1) = Inr (Some (Py_list s), py2)"
    using w1 IH unfolding worked_def by metis
  have "worked s st r kvs py (fold (\<lambda>v. add_value ?fd (Leaf (scalar_object itp v))) vs ?es) py2"
    by (rule worked_trans [OF w1]) (use IH rest in fastforce)
  with run rest show ?case
    by (simp add: builds_events [OF b])
qed

lemma build_items:
  "wf_item ds i it \<Longrightarrow> builds itp ds m dec \<Longrightarrow> names_ok ds \<Longrightarrow> working s st r kvs py \<Longrightarrow> erases kvs = es \<Longrightarrow>
    shaped ds i (Dct () es) \<Longrightarrow> a + length (item_bytes ds i it) \<le> length m \<Longrightarrow> length m < 2 ^ 63 \<Longrightarrow>
    peek m a (length (item_bytes ds i it)) = item_bytes ds i it \<Longrightarrow>
    \<exists>py'. handle_events dec (item_events ds root i a it) (Some (Py_list s), py) = Inr (Some (Py_list s), py') \<and>
      worked s st r kvs py (item_value itp ds i it es) py'"
  "wf_items ds i its \<Longrightarrow> builds itp ds m dec \<Longrightarrow> names_ok ds \<Longrightarrow> working s st r kvs py \<Longrightarrow> erases kvs = es \<Longrightarrow>
    shaped ds i (Dct () es) \<Longrightarrow> a + length (items_bytes ds i its) \<le> length m \<Longrightarrow> length m < 2 ^ 63 \<Longrightarrow>
    peek m a (length (items_bytes ds i its)) = items_bytes ds i its \<Longrightarrow>
    \<exists>py'. handle_events dec (items_events ds root i a its) (Some (Py_list s), py) = Inr (Some (Py_list s), py') \<and>
      worked s st r kvs py (items_value itp ds i its es) py'"
proof (induction itp ds i it es and itp ds i its es arbitrary: st r kvs py a and st r kvs py a rule: item_value_items_value.induct)
  case (1 itp ds i j v es)
  then have wf: "wf_field ds i j" "scalar_ok (field_type (the_field ds i j)) v"
    by (simp_all add: Let_def)
  from field_value [OF "1.prems"(4) wf_field_deref [OF wf(1)] scalar_to_py [OF wf(2)], of _ m False "Some i"]
    shaped_fields(1) [OF "1.prems"(6) wf(1)] "1.prems"(5)
  show ?case
    by (simp add: builds_events [OF "1.prems"(2)])
next
  case (2 itp ds i j bs es)
  let ?fd = "the_field ds i j"
  have wf: "wf_field ds i j" and ty: "field_type ?fd = LWPB_STRING \<or> field_type ?fd = LWPB_BYTES"
    using "2.prems"(1) by (simp_all add: Let_def)
  have "peek m (content_addr a ?fd bs) (length bs) = bs" "content_addr a ?fd bs + length bs \<le> length m"
    using delimited_content [of m a ?fd bs] "2.prems"(7,9) by (simp_all add: Let_def)
  from field_value [OF "2.prems"(4) wf_field_deref [OF wf] data_to_py [OF ty this "2.prems"(8)], of _ False "Some i"]
    shaped_fields(1) [OF "2.prems"(6) wf] "2.prems"(5)
  show ?case
    by (simp add: builds_events [OF "2.prems"(2)] Let_def)
next
  case (3 itp ds i j its es)
  let ?fd = "the_field ds i j"
  let ?k = "the (fd_msg_desc ?fd)"
  let ?c = "content_addr a ?fd (items_bytes ds ?k its)"
  have wf: "wf_field ds i j" "wf_items ds ?k its" "field_type ?fd = LWPB_MESSAGE"
    using "3.prems"(1) by (simp_all add: Let_def)
  have c: "peek m ?c (length (items_bytes ds ?k its)) = items_bytes ds ?k its" "?c + length (items_bytes ds ?k its) \<le> length m"
    using delimited_content [of m a ?fd "items_bytes ds ?k its"] "3.prems"(7,9) by (simp_all add: Let_def)
  note fields = shaped_fields(1) [OF "3.prems"(6) wf(1)] shaped_fields(2) [OF "3.prems"(6) wf(1,3)]
  obtain rc ckvs py1 where start: "py_field_handler itp ds m False root (i, j) None (Some (Py_list s), py) = Inr (Some (Py_list s), py1)"
    and w1: "working s (st @ [Py_dict r]) rc ckvs py1" "erases ckvs = merge_with ?fd es"
    and leave: "\<And>es' py2. worked s (st @ [Py_dict r]) rc ckvs py1 es' py2 \<Longrightarrow>
      \<exists>py3. py_msg_end_handler False ?k (Some (Py_list s), py2) = Inr (Some (Py_list s), py3) \<and>
        worked s st r kvs py (add_value ?fd (Dct () es') es) py3"
    using field_nested [OF "3.prems"(4) wf_field_deref [OF wf(1)], unfolded "3.prems"(5), OF fields, of itp m False root ?k] by blast
  obtain py2 where inner: "handle_events dec (items_events ds root ?k ?c its) (Some (Py_list s), py1) = Inr (Some (Py_list s), py2)"
    and w2: "worked s (st @ [Py_dict r]) rc ckvs py1 (items_value itp ds ?k its (merge_with ?fd es)) py2"
    using "3.IH" [OF refl wf(2) "3.prems"(2,3) w1 shaped_merge [OF "3.prems"(6) wf(1,3)] c(2) "3.prems"(8) c(1)] by blast
  from leave [OF w2] start inner show ?case
    by (auto simp: builds_events [OF "3.prems"(2)] Let_def handle_events_append)
next
  case (4 itp ds i j vs es)
  then have wf: "wf_field ds i j" "list_all (scalar_ok (field_type (the_field ds i j))) vs"
    by (simp_all add: Let_def)
  from build_packed [OF "4.prems"(2,3) wf "4.prems"(4-6), of "Some i"] show ?case
    by (auto simp: builds_events [OF "4.prems"(2)] handle_events_append end_packed)
next
  case (5 itp ds i es)
  then have "worked s st r kvs py es py" using worked_refl by metis
  then show ?case by simp
next
  case (6 itp ds i it its es)
  let ?xs = "item_bytes ds i it" and ?ys = "items_bytes ds i its"
  have wf: "wf_item ds i it" "wf_items ds i its"
    using "6.prems"(1) by simp_all
  have "peek m a (length ?xs + length ?ys) = ?xs @ ?ys"
    using "6.prems"(9) by simp
  note pk = peek_appendD [OF this]
  have room: "a + length ?xs \<le> length m" "a + length ?xs + length ?ys \<le> length m"
    using "6.prems"(7) by simp_all
  obtain py1 where run: "handle_events dec (item_events ds root i a it) (Some (Py_list s), py) = Inr (Some (Py_list s), py1)"
    and w1: "worked s st r kvs py (item_value itp ds i it es) py1"
    using "6.IH"(1) [OF wf(1) "6.prems"(2-6) room(1) "6.prems"(8) pk(1)] by blast
  have sh: "shaped ds i (Dct () (item_value itp ds i it es))"
    by (rule shaped_items(1) [OF "6.prems"(3) wf(1) "6.prems"(6)])
  note IH = "6.IH"(2) [OF wf(2) "6.prems"(2,3) _ _ sh room(2) "6.prems"(8) pk(2)]
  obtain py2 where rest: "handle_events dec (items_events ds root i (a + length ?xs) its) (Some (Py_list s), py1) = Inr (Some (Py_list s), py2)"
    using w1 IH unfolding worked_def by metis
  have "worked s st r kvs py (items_value itp ds i (it # its) es) py2"
    by (rule worked_trans [OF w1]) (use IH rest in fastforce)
  with run rest show ?case
    by (auto simp: handle_events_append)
qed

section \<open>Decoding a string\<close>

lemma decode_parsed_builds:
  assumes wf: "wf_items ds i its" "items_depth its < LWPB_MAX_DEPTH" and n: "names_ok ds"
    and num: "unat num = i" "\<not> of_nat (length ds) \<le> num" and dec: "length (dec_stack dec) = LWPB_MAX_DEPTH"
    and mem: "a + length (items_bytes ds i its) \<le> length m" "length m < 2 ^ 63"
      "peek m a (length (items_bytes ds i its)) = items_bytes ds i its"
  shows "\<exists>dec' d py'. decode_parsed itp ds m wv dec a (of_nat (length (items_bytes ds i its))) num py = Inr (dec', Some d, py') \<and>
    denotes py' d (message_value itp ds i its) \<and> py_error py' = py_error py \<and>
    (\<forall>c < length (py_store py). py_store py' ! c = py_store py ! c)"
proof -
  let ?s = "length (py_store py)"
  let ?py = "py\<lparr>py_store := py_store py @ [List_of [Py_dict (Suc ?s)], Dict_of []]\<rparr>"
  let ?dec = "lwpb_decoder_field_handler (lwpb_decoder_msg_handler (lwpb_decoder_arg dec (Some (Py_list ?s), ?py))
    (Some py_msg_start_handler) (Some py_msg_end_handler)) (Some (py_field_handler itp ds m))"
  have b: "builds itp ds m ?dec" and dec': "length (dec_stack ?dec) = LWPB_MAX_DEPTH" "dec_arg ?dec = (Some (Py_list ?s), ?py)"
    using dec by (auto simp: builds_def lwpb_decoder_field_handler_def lwpb_decoder_msg_handler_def lwpb_decoder_arg_def)
  have w: "working ?s [] (Suc ?s) [] ?py"
    by (auto simp: working_def owned_def nth_append)
  have "erases [] = []" by simp
  from build_items(2) [OF wf(1) b n w this shaped_empty mem, of "Some i"]
  obtain py1 where run: "handle_events ?dec (items_events ds (Some i) i a its) (Some (Py_list ?s), ?py) = Inr (Some (Py_list ?s), py1)"
    and w1: "worked ?s [] (Suc ?s) [] ?py (items_value itp ds i its []) py1"
    by blast
  obtain kvs where kvs: "working ?s [] (Suc ?s) kvs py1" "erases kvs = items_value itp ds i its []"
    and g: "grows ?s (py_store ?py) (Dct (Suc ?s) []) (py_store py1) (Dct (Suc ?s) kvs)" and err: "py_error py1 = py_error py"
    using w1 by (auto simp: worked_def)
  let ?py2 = "py1\<lparr>py_store := (py_store py1)[?s := List_of []]\<rparr>"
  obtain dec'' where arg: "\<And>s. dec_arg (dec'' s) = s" and decode: "lwpb_decoder_decode ds m wv ?dec (Some i) a
      (of_nat (length (items_bytes ds i its))) = andthen (handle_events ?dec (message_events ds i a its) (dec_arg ?dec))
        (\<lambda>s. Inr (LWPB_ERR_OK, dec'' s, Some (of_nat (length (items_bytes ds i its)))))"
    using decode_message [OF wf dec'(1) mem] by blast
  have events: "handle_events ?dec (message_events ds i a its) (Some (Py_list ?s), ?py) = Inr (Some (Py_list ?s), ?py2)"
    using run msg_end_pops [OF kvs(1), of i]
    by (simp add: message_events_def handle_events_append builds_events [OF b])
  have result: "decode_parsed itp ds m wv dec a (of_nat (length (items_bytes ds i its))) num py =
      Inr (dec'' (Some (Py_list ?s), ?py2), Some (Py_dict (Suc ?s)), ?py2)"
    using num decode [unfolded dec'(2) events] arg
    by (simp add: decode_parsed_def new_list_def PyDict_New_def new_container_def PyList_Append_def list_items_def nth_append
        list_update_append)
  have "owned (py_store py1) (Dct (Suc ?s) kvs)" "?s \<notin> set (refs (Dct (Suc ?s) kvs))"
    using kvs(1) by (auto simp: working_def)
  from grows_stack [OF this] have "stored (py_store ?py2) (Dct (Suc ?s) kvs)"
    by (simp add: grows_def owned_def)
  moreover have "keys_ok (Dct (Suc ?s) kvs)"
    using keys_items(2) [of "[]" itp ds i its] kvs(2) keys_ok_erase [of "Dct (Suc ?s) kvs"] by simp
  ultimately have "denotes ?py2 (root_object (Dct (Suc ?s) kvs)) (erase (Dct (Suc ?s) kvs))"
    by (rule stored_denotes)
  with kvs(2) have "denotes ?py2 (Py_dict (Suc ?s)) (message_value itp ds i its)"
    by (simp add: message_value_def)
  moreover have "py_store ?py2 ! c = py_store py ! c" if "c < ?s" for c
    using g that by (auto simp: grows_def nth_append)
  ultimately show ?thesis
    using result err by auto
qed

lemma decode_builds:
  assumes "wf_items ds i its" "items_depth its < LWPB_MAX_DEPTH" "names_ok ds"
    and num: "i < length ds" "length ds < 2 ^ 31" and "length (dec_stack dec) = LWPB_MAX_DEPTH"
    and str: "keeps itp m (items_bytes ds i its)" "length m < 2 ^ 63" "length (items_bytes ds i its) < 2 ^ 31"
  shows "\<exists>dec' d py'. Decoder_decode itp ds m wv dec (Py_str (items_bytes ds i its)) (Py_int (int i)) py = Inr (dec', Some d, py') \<and>
    denotes py' d (message_value itp ds i its) \<and> py_error py' = py_error py \<and>
    (\<forall>c < length (py_store py). py_store py' ! c = py_store py ! c)"
proof -
  have "int i < 2 ^ 31"
    using num by simp
  then show ?thesis
    using decode_parsed_builds [OF assms(1-3) msgnum_ok [OF num] assms(6), of "string_addr itp (items_bytes ds i its)" m itp wv py] str
    by (simp add: Decoder_decode_def string_argument_def string_value_def int_argument_def number_value_def keeps_def)
qed

end
