(* ===== verification/Py_Encoder.thy ===== *)
theory Py_Encoder
  imports Py_Primitives Encoder2 World
begin

text \<open>
  The Encoder class of the Python bindings, src/python/encoder.c. A dictionary is encoded in two passes:
  without a buffer to find the size, and into a buffer of that size.
\<close>

section \<open>Encoding an object\<close>

text \<open>
  A pointer as a number. The list with one item that the code makes of a value that is not a list is gone
  at the end of the field; here it is only the list of its items.
\<close>

definition ptr_addr :: "void_ptr \<Rightarrow> addr" where
  "ptr_addr p = (case p of None \<Rightarrow> 0 | Some a \<Rightarrow> a)"

definition field_values :: "python \<Rightarrow> py \<Rightarrow> py list" where
  "field_values py pyval = (case list_items py pyval of Some xs \<Rightarrow> xs | None \<Rightarrow> [pyval])"

text \<open>The memory, the encoder and the interpreter.\<close>

type_synonym py_enc = "mem \<times> lwpb_encoder2 \<times> python"

text \<open>Before and after the values of a field: a packed field is encoded again as a whole. The return codes are ignored.\<close>

definition packed_begin ::
    "lwpb_field_desc \<Rightarrow> void_ptr \<Rightarrow> u64 \<Rightarrow> lwpb_encoder2 \<Rightarrow> (void_ptr \<times> u64 \<times> lwpb_encoder2) run" where
  "packed_begin fd fieldbuf extralen enc =
     (if is_packed_repeated fd
      then andthen (lwpb_encoder2_packed_repeated_start enc fd) (\<lambda>(ret, enc).
        Inr (ptr_add fieldbuf MSG_RESERVE_BYTES, extralen + of_nat MSG_RESERVE_BYTES, enc))
      else Inr (fieldbuf, extralen, enc))"

definition packed_finish ::
    "lwpb_field_desc \<Rightarrow> void_ptr \<Rightarrow> void_ptr \<Rightarrow> u64 \<Rightarrow> py_enc \<Rightarrow> (u64 \<times> py_enc) run" where
  "packed_finish fd buf fieldbuf fieldlen st = (case st of (m, enc, py) \<Rightarrow>
     if is_packed_repeated fd
     then andthen (lwpb_encoder2_packed_repeated_end enc) (\<lambda>(ret, enc).
       andthen (lwpb_encoder2_add_field m enc fd (V_message (ptr_addr fieldbuf) fieldlen) buf) (\<lambda>(m, fieldlen).
         Inr (fieldlen, m, enc, py)))
     else Inr (fieldlen, m, enc, py))"

text \<open>
  pyobject_encode with its loops over the fields and over the values of a field. The size_t -1 reports an
  error; the loop over the values yields None for it. Since a size_t is never negative, the test of the
  size of a nested message always fails. The first argument is the number of calls of pyobject_encode
  that the C stack has room for.
\<close>

function (sequential) pyobject_encode ::
    "nat \<Rightarrow> interpreter \<Rightarrow> descs \<Rightarrow> py \<Rightarrow> msg_ref option \<Rightarrow> void_ptr \<Rightarrow> py_enc \<Rightarrow> (u64 \<times> py_enc) run"
and encode_fields ::
    "nat \<Rightarrow> interpreter \<Rightarrow> descs \<Rightarrow> py \<Rightarrow> lwpb_field_desc list \<Rightarrow> void_ptr \<Rightarrow> u64 \<Rightarrow> u64 \<Rightarrow> py_enc \<Rightarrow> (u64 \<times> py_enc) run"
and encode_values ::
    "nat \<Rightarrow> interpreter \<Rightarrow> descs \<Rightarrow> lwpb_field_desc \<Rightarrow> py list \<Rightarrow> void_ptr \<Rightarrow> u64 \<Rightarrow> u64 \<Rightarrow> py_enc \<Rightarrow>
     ((u64 \<times> u64) option \<times> py_enc) run" where
  "pyobject_encode 0 itp ds obj msg_desc buf st = Inl Fault"
| "pyobject_encode (Suc n) itp ds obj msg_desc buf (m, enc, py) =
     (if \<not> PyDict_Check py obj
      then Inr (- 1, m, enc, PyErr_SetString TypeError ''encode expects a dict'' py)
      else andthen (deref_msg ds msg_desc) (\<lambda>md. encode_fields n itp ds obj (msg_fields md) buf 0 0 (m, enc, py)))"
| "encode_fields n itp ds obj [] buf len extralen st =
     Inr (if buf \<noteq> None then len else len + extralen, st)"
| "encode_fields n itp ds obj (fd # fds) buf len extralen (m, enc, py) =
     (case PyDict_GetItemString py obj (fd_name fd) of
       None \<Rightarrow> encode_fields n itp ds obj fds buf len extralen (m, enc, py)
     | Some pyval \<Rightarrow>
         andthen (packed_begin fd buf extralen enc) (\<lambda>(fieldbuf, extralen, enc).
         andthen (encode_values n itp ds fd (field_values py pyval) fieldbuf 0 extralen (m, enc, py)) (\<lambda>(r, st).
         case r of None \<Rightarrow> Inr (- 1, st)
         | Some (fieldlen, extralen) \<Rightarrow>
             andthen (packed_finish fd buf fieldbuf fieldlen st) (\<lambda>(fieldlen, st).
             encode_fields n itp ds obj fds (move_buf buf fieldlen) (len + fieldlen) extralen st))))"
| "encode_values n itp ds fd [] valuebuf fieldlen extralen st = Inr (Some (fieldlen, extralen), st)"
| "encode_values n itp ds fd (pyval # pyvals) valuebuf fieldlen extralen (m, enc, py) =
     andthen (if opt_typ (opts fd) = LWPB_MESSAGE then
         (let nestedbuf = ptr_add valuebuf MSG_RESERVE_BYTES in
          andthen (pyobject_encode n itp ds pyval (fd_msg_desc fd) nestedbuf (m, enc, py)) (\<lambda>(nestedlen, st).
            Inr (Some (V_message (ptr_addr nestedbuf) nestedlen), extralen + of_nat MSG_RESERVE_BYTES, st)))
       else
         andthen (py_to_lwpb itp pyval (opt_typ (opts fd)) py) (\<lambda>(v, py). Inr (v, extralen, m, enc, py)))
       (\<lambda>(v, extralen, m, enc, py).
     case v of None \<Rightarrow> Inr (None, m, enc, py)
     | Some val \<Rightarrow>
         andthen (lwpb_encoder2_add_field m enc fd val valuebuf) (\<lambda>(m, valuelen).
         encode_values n itp ds fd pyvals (move_buf valuebuf valuelen) (fieldlen + valuelen) extralen (m, enc, py)))"
  by pat_completeness auto
termination
  by (relation "inv_image (less_than <*lex*> less_than <*lex*> less_than) (\<lambda>x. case x of
      Inl (n, _) \<Rightarrow> (n, 0, 0)
    | Inr (Inl (n, _, _, _, fds, _)) \<Rightarrow> (n, 2, length fds)
    | Inr (Inr (n, _, _, _, xs, _)) \<Rightarrow> (n, 1, length xs))") auto

section \<open>Methods\<close>

text \<open>calloc hands out memory that is cleared.\<close>

definition c_calloc :: "nat \<Rightarrow> 's world \<Rightarrow> void_ptr \<times> 's world" where
  "c_calloc n w =
     (if n \<le> w_avail w then
        (let p = length (w_mem w) in
         (Some p, w\<lparr>w_mem := w_mem w @ replicate n 0, w_blocks := (p, n) # w_blocks w, w_avail := w_avail w - n\<rparr>))
      else (None, w))"

text \<open>A new string; a size that is negative as a Py_ssize_t is an internal error.\<close>

definition string_of_bytes :: "mem \<Rightarrow> addr \<Rightarrow> u64 \<Rightarrow> python \<Rightarrow> (py option \<times> python) run" where
  "string_of_bytes m a len py =
     (if 2 ^ 63 \<le> len then Inr (None, raises SystemError py)
      else andthen (PyString_FromStringAndSize m a (unat len)) (\<lambda>s. Inr (Some s, py)))"

text \<open>tp_alloc clears the memory of the object.\<close>

definition Encoder_new :: lwpb_encoder2 where
  "Encoder_new = \<lparr>enc2_packed = False\<rparr>"

definition Encoder_init :: "lwpb_encoder2 \<Rightarrow> lwpb_encoder2" where
  "Encoder_init enc = lwpb_encoder2_init enc"

text \<open>One pass of Encoder_encode over the object.\<close>

definition encode_pass ::
    "nat \<Rightarrow> interpreter \<Rightarrow> descs \<Rightarrow> py \<Rightarrow> u32 \<Rightarrow> void_ptr \<Rightarrow> lwpb_encoder2 \<Rightarrow> python world \<Rightarrow>
     (u64 \<times> lwpb_encoder2 \<times> python world) run" where
  "encode_pass n itp ds obj msgnum buf enc w =
     (let enc = lwpb_encoder2_start enc (Some (unat msgnum)) in
      andthen (pyobject_encode n itp ds obj (Some (unat msgnum)) buf (w_mem w, enc, w_app w)) (\<lambda>(len, m, enc, py).
        Inr (len, enc, w\<lparr>w_mem := m, w_app := py\<rparr>)))"

text \<open>
  Encoder_encode behind the parsing of the arguments, which asks for a dictionary. The message number is
  stored in an unsigned int. The tests \<open>len < 0\<close> always fail.
\<close>

definition encode_parsed ::
    "nat \<Rightarrow> interpreter \<Rightarrow> descs \<Rightarrow> lwpb_encoder2 \<Rightarrow> py \<Rightarrow> u32 \<Rightarrow> python world \<Rightarrow>
     (py option \<times> lwpb_encoder2 \<times> python world) run" where
  "encode_parsed n itp ds enc obj msgnum w =
     (if of_nat (length ds) \<le> msgnum
      then Inr (None, enc, w\<lparr>w_app := PyErr_SetString IndexError ''message type index out of range'' (w_app w)\<rparr>)
      else
        andthen (encode_pass n itp ds obj msgnum None enc w) (\<lambda>(len, enc, w).
        let (buf, w) = c_calloc (unat len) w in
        if buf = None
        then Inr (None, enc, w\<lparr>w_app := PyErr_SetString MemoryError ''unable to allocate string'' (w_app w)\<rparr>)
        else
          andthen (encode_pass n itp ds obj msgnum buf enc w) (\<lambda>(len, enc, w).
          andthen (string_of_bytes (w_mem w) (ptr_addr buf) len (w_app w)) (\<lambda>(string, py).
          andthen (c_free buf (w\<lparr>w_app := py\<rparr>)) (\<lambda>w.
          Inr (string, enc, w))))))"

definition Encoder_encode ::
    "nat \<Rightarrow> interpreter \<Rightarrow> descs \<Rightarrow> lwpb_encoder2 \<Rightarrow> py \<Rightarrow> py \<Rightarrow> python world \<Rightarrow>
     (py option \<times> lwpb_encoder2 \<times> python world) run" where
  "Encoder_encode n itp ds enc obj num w =
     (if \<not> PyDict_Check (w_app w) obj then Inr (None, enc, w\<lparr>w_app := raises TypeError (w_app w)\<rparr>)
      else case int_argument itp num (w_app w) of
          (None, py) \<Rightarrow> Inr (None, enc, w\<lparr>w_app := py\<rparr>)
        | (Some msgnum, py) \<Rightarrow> encode_parsed n itp ds enc obj msgnum (w\<lparr>w_app := py\<rparr>))"

text \<open>The formats K and I take the low bits of a number.\<close>

definition mask_argument :: "py \<Rightarrow> int option" where
  "mask_argument obj = (case obj of Py_int i \<Rightarrow> Some i | Py_long i \<Rightarrow> Some i | Py_bool b \<Rightarrow> Some (of_bool b) | _ \<Rightarrow> None)"

definition unsigned_argument :: "interpreter \<Rightarrow> py \<Rightarrow> int option" where
  "unsigned_argument itp obj = (case obj of Py_float _ \<Rightarrow> None | Py_str _ \<Rightarrow> None | _ \<Rightarrow> number_value itp obj)"

text \<open>The methods for single values: the value is encoded into an array of 64 bytes.\<close>

definition encode_value ::
    "(mem \<Rightarrow> addr option \<Rightarrow> (mem \<times> u64) run) \<Rightarrow> python world \<Rightarrow> (py option \<times> python world) run" where
  "encode_value prim w = with_array 64 (\<lambda>buf w.
     andthen (prim (w_mem w) (Some buf)) (\<lambda>(m, len).
     andthen (string_of_bytes m buf len (w_app w)) (\<lambda>(string, py).
     Inr (string, w\<lparr>w_mem := m, w_app := py\<rparr>)))) w"

definition no_argument :: "python world \<Rightarrow> (py option \<times> python world) run" where
  "no_argument w = Inr (None, w\<lparr>w_app := raises TypeError (w_app w)\<rparr>)"

definition Encoder_encode_varint :: "py \<Rightarrow> python world \<Rightarrow> (py option \<times> python world) run" where
  "Encoder_encode_varint obj w = (case mask_argument obj of
       None \<Rightarrow> no_argument w
     | Some i \<Rightarrow> encode_value (\<lambda>m buf. lwpb_encode_varint m buf (word_of_int i)) w)"

definition Encoder_encode_32bit :: "interpreter \<Rightarrow> py \<Rightarrow> python world \<Rightarrow> (py option \<times> python world) run" where
  "Encoder_encode_32bit itp obj w = (case unsigned_argument itp obj of
       None \<Rightarrow> no_argument w
     | Some i \<Rightarrow> encode_value (\<lambda>m buf. lwpb_encode_32bit m buf (word_of_int i)) w)"

definition Encoder_encode_64bit :: "py \<Rightarrow> python world \<Rightarrow> (py option \<times> python world) run" where
  "Encoder_encode_64bit obj w = (case mask_argument obj of
       None \<Rightarrow> no_argument w
     | Some i \<Rightarrow> encode_value (\<lambda>m buf. lwpb_encode_64bit m buf (word_of_int i)) w)"

end
