(* ===== verification/Py_Encoder_Run.thy ===== *)
theory Py_Encoder_Run
  imports Py_Encoder Decoder_Run
begin

text \<open>
  The message that a Python dictionary stands for, and the proof that the two passes of the Encoder class
  yield its encoding.
\<close>

section \<open>The message of a dictionary\<close>

text \<open>
  The value of a scalar field. For the types of signed 64 bit integers there is none, since the code does
  not convert them.
\<close>

definition in_range :: "int \<Rightarrow> int \<Rightarrow> (s32 \<Rightarrow> lwpb_value) \<Rightarrow> int \<Rightarrow> lwpb_value option" where
  "in_range lo hi f i = (if lo \<le> i \<and> i \<le> hi then Some (f (word_of_int i)) else None)"

definition scalar_of :: "interpreter \<Rightarrow> field_typ \<Rightarrow> py \<Rightarrow> lwpb_value option" where
  "scalar_of itp t x =
     (let int32 = (\<lambda>f. Option.bind (number_value itp x) (in_range INT32_MIN INT32_MAX f));
          uint32 = Option.bind (number_value itp x) (in_range 0 UINT32_MAX V_uint32);
          uint64 = Option.bind (number_value itp x) (\<lambda>i. if 0 \<le> i \<and> i < 2 ^ 64 then Some (V_uint64 (word_of_int i)) else None) in
      case t of
       LWPB_DOUBLE \<Rightarrow> map_option V_double (PyNumber_Float itp x)
     | LWPB_FLOAT \<Rightarrow> map_option (\<lambda>x. V_float (narrow itp x)) (PyNumber_Float itp x)
     | LWPB_INT32 \<Rightarrow> int32 V_int32
     | LWPB_SINT32 \<Rightarrow> int32 V_int32
     | LWPB_SFIXED32 \<Rightarrow> int32 V_int32
     | LWPB_ENUM \<Rightarrow> int32 V_enum
     | LWPB_UINT32 \<Rightarrow> uint32
     | LWPB_FIXED32 \<Rightarrow> uint32
     | LWPB_UINT64 \<Rightarrow> uint64
     | LWPB_FIXED64 \<Rightarrow> uint64
     | LWPB_BOOL \<Rightarrow> (case x of Py_bool b \<Rightarrow> Some (V_bool (of_bool b)) | _ \<Rightarrow> None)
     | _ \<Rightarrow> None)"

definition packed_items :: "interpreter \<Rightarrow> nat \<Rightarrow> lwpb_field_desc \<Rightarrow> py list \<Rightarrow> message option" where
  "packed_items itp j fd xs = map_option (\<lambda>vs. [Packed j vs]) (those (map (scalar_of itp (field_type fd)) xs))"

text \<open>
  The items of a dictionary, whose messages are nested less than \<open>n\<close> deep: the fields in the order of the
  descriptor, the values of a field in the order of the list.
\<close>

function (sequential) msg_items :: "nat \<Rightarrow> interpreter \<Rightarrow> descs \<Rightarrow> python \<Rightarrow> msg_ref \<Rightarrow> py \<Rightarrow> message option"
and fields_items :: "nat \<Rightarrow> interpreter \<Rightarrow> descs \<Rightarrow> python \<Rightarrow> py \<Rightarrow> nat \<Rightarrow> lwpb_field_desc list \<Rightarrow> message option"
and values_items :: "nat \<Rightarrow> interpreter \<Rightarrow> descs \<Rightarrow> python \<Rightarrow> nat \<Rightarrow> lwpb_field_desc \<Rightarrow> py list \<Rightarrow> message option" where
  "msg_items 0 itp ds py i obj = None"
| "msg_items (Suc n) itp ds py i obj =
     (if PyDict_Check py obj \<and> i < length ds then fields_items n itp ds py obj 0 (msg_fields (ds ! i)) else None)"
| "fields_items n itp ds py obj j [] = Some []"
| "fields_items n itp ds py obj j (fd # fds) = (case PyDict_GetItemString py obj (fd_name fd) of
       None \<Rightarrow> fields_items n itp ds py obj (Suc j) fds
     | Some x \<Rightarrow> Option.bind
         (if is_packed_repeated fd then packed_items itp j fd (field_values py x)
          else values_items n itp ds py j fd (field_values py x)) (\<lambda>its.
         map_option (\<lambda>rest. its @ rest) (fields_items n itp ds py obj (Suc j) fds)))"
| "values_items n itp ds py j fd [] = Some []"
| "values_items n itp ds py j fd (x # xs) = Option.bind
     (if field_type fd = LWPB_MESSAGE
      then Option.bind (fd_msg_desc fd) (\<lambda>k. map_option (Sub j) (msg_items n itp ds py k x))
      else if field_type fd = LWPB_STRING \<or> field_type fd = LWPB_BYTES then map_option (Data j) (string_value itp x)
      else map_option (Scalar j) (scalar_of itp (field_type fd) x)) (\<lambda>it.
     map_option (\<lambda>rest. it # rest) (values_items n itp ds py j fd xs))"
  by pat_completeness auto
termination
  by (relation "inv_image (less_than <*lex*> less_than <*lex*> less_than) (\<lambda>x. case x of
      Inl (n, _) \<Rightarrow> (n, 0, 0)
    | Inr (Inl (n, _, _, _, _, _, fds)) \<Rightarrow> (n, 2, length fds)
    | Inr (Inr (n, _, _, _, _, _, xs)) \<Rightarrow> (n, 1, length xs))") auto

section \<open>The space for a message\<close>

text \<open>
  The size that the first pass finds: nested messages and packed fields have reserved bytes in front, which
  also count for the length of the messages that they are nested in.
\<close>

fun item_space :: "descs \<Rightarrow> msg_ref \<Rightarrow> u8 list item \<Rightarrow> nat"
and items_space :: "descs \<Rightarrow> msg_ref \<Rightarrow> message \<Rightarrow> nat" where
  "item_space ds i (Scalar j v) = length (item_bytes ds i (Scalar j v))"
| "item_space ds i (Data j bs) = length (item_bytes ds i (Data j bs))"
| "item_space ds i (Sub j its) = (let fd = the_field ds i j; n = items_space ds (the (fd_msg_desc fd)) its in
     MSG_RESERVE_BYTES + (length (varint_bytes (field_key WT_STRING (number fd))) + (length (varint_bytes (of_nat n)) + n)))"
| "item_space ds i (Packed j vs) = MSG_RESERVE_BYTES + length (item_bytes ds i (Packed j vs))"
| "items_space ds i [] = 0"
| "items_space ds i (it # its) = item_space ds i it + items_space ds i its"

lemma items_space_append: "items_space ds i (xs @ ys) = items_space ds i xs + items_space ds i ys"
  by (induction xs) auto

lemma items_bytes_append: "items_bytes ds i (xs @ ys) = items_bytes ds i xs @ items_bytes ds i ys"
  by (induction xs) auto

lemma items_strings_append: "items_strings (xs @ ys) = items_strings xs @ items_strings ys"
  by (induction xs) auto

lemma space_enough:
  "length (item_bytes ds i it) \<le> item_space ds i it"
  "length (items_bytes ds i its) \<le> items_space ds i its"
proof (induction ds i it and ds i its rule: item_space_items_space.induct)
  case (3 ds i j its)
  then show ?case
    using length_varint_bytes [of "of_nat (length (items_bytes ds (the (fd_msg_desc (the_field ds i j))) its))"]
    by (simp add: Let_def delimited_def MSG_RESERVE_BYTES_def)
qed (auto simp del: item_bytes.simps)

section \<open>Scalar values\<close>

lemma number_int: "number_value itp x = Some i \<Longrightarrow> in_long i \<Longrightarrow> PyNumber_Int itp x = Some (Py_int i)"
  by (simp add: PyNumber_Int_def int_object_def)

lemma convert_in_range:
  assumes "number_value itp x = Some i" "lo \<le> i" "i \<le> hi" "- (2 ^ 63) \<le> lo" "hi < 2 ^ 63"
  shows "convert_to_long itp x lo hi py = Inr (Some i, py)"
  using assms by (simp add: convert_to_long_def number_int in_long_def)

lemma scalar_converts:
  assumes "scalar_of itp t x = Some v"
  shows "\<exists>v'. py_to_lwpb itp x t py = Inr (Some v', py) \<and> wire_of_value t v' = Inr (scalar_wire t v)"
    and "scalar_ok t v"
proof -
  have int32: "\<exists>i. number_value itp x = Some i \<and> convert_to_long itp x INT32_MIN INT32_MAX py = Inr (Some i, py) \<and> v = f (word_of_int i)"
    if "Option.bind (number_value itp x) (in_range INT32_MIN INT32_MAX f) = Some v" for f
    using that convert_in_range [of itp x _ INT32_MIN INT32_MAX py]
    by (auto simp: in_range_def INT32_MIN_def INT32_MAX_def bind_eq_Some_conv split: if_splits)
  have uint32: "\<exists>i. number_value itp x = Some i \<and> convert_to_long itp x 0 UINT32_MAX py = Inr (Some i, py) \<and> v = V_uint32 (word_of_int i)"
    if "Option.bind (number_value itp x) (in_range 0 UINT32_MAX V_uint32) = Some v"
    using that convert_in_range [of itp x _ 0 UINT32_MAX py]
    by (auto simp: in_range_def UINT32_MAX_def bind_eq_Some_conv split: if_splits)
  note simps = scalar_of_def Let_def py_to_lwpb_def long_to_int32_def scalar_ok_def scalar_wire_def wire_of_value_def
  show "\<exists>v'. py_to_lwpb itp x t py = Inr (Some v', py) \<and> wire_of_value t v' = Inr (scalar_wire t v)"
  proof (cases t)
    case LWPB_INT32
    with assms int32 [of V_int32] show ?thesis by (auto simp: simps)
  next
    case LWPB_SINT32
    with assms int32 [of V_int32] show ?thesis by (auto simp: simps)
  next
    case LWPB_SFIXED32
    with assms int32 [of V_int32] show ?thesis by (auto simp: simps)
  next
    case LWPB_ENUM
    with assms int32 [of V_enum] show ?thesis by (auto simp: simps)
  next
    case LWPB_UINT32
    with assms uint32 show ?thesis by (auto simp: simps)
  next
    case LWPB_FIXED32
    with assms uint32 show ?thesis by (auto simp: simps)
  qed (use assms in \<open>auto simp: simps bind_eq_Some_conv PyNumber_Long_def PyLong_AsUnsignedLongLong_def split: if_splits py.splits\<close>)
  show "scalar_ok t v"
    using assms by (cases t) (auto simp: simps in_range_def bind_eq_Some_conv split: if_splits py.splits)
qed

lemma scalar_chosen:
  assumes "wire_of_value (field_type fd) v' = Inr ev" and "\<not> p \<Longrightarrow> \<not> is_packed_repeated fd"
  shows "chosen_value p fd v' = Inr ev"
  using assms by (auto simp: chosen_value_def override_packed_def)

lemma scalar_wire_ok: "scalar_ok t v \<Longrightarrow> value_ok fd m a (scalar_wire t v) \<and> source_ok a k (scalar_wire t v)"
  using scalar_cases(2) [of t v] by (cases "scalar_wire t v") (auto simp: source_ok_def)

text \<open>The bytes of a scalar value, with its key or inside of a packed field.\<close>

lemma scalar_field_bytes:
  assumes "scalar_ok (field_type (the_field ds i j)) v"
  shows "field_bytes False (the_field ds i j) m (scalar_wire (field_type (the_field ds i j)) v) = item_bytes ds i (Scalar j v)"
    and "field_bytes True (the_field ds i j) m (scalar_wire (field_type (the_field ds i j)) v) = scalar_bytes (the_field ds i j) v"
  using scalar_payload_mem [OF scalar_cases(2) [OF assms], of m "[]"]
  by (simp_all add: field_bytes_def scalar_bytes_def Let_def)

lemma scalar_size:
  "scalar_ok (field_type fd) v \<Longrightarrow>
    field_size p fd (scalar_wire (field_type fd) v) = of_nat (length (field_bytes p fd m (scalar_wire (field_type fd) v)))"
  using field_size_length [of fd m 0] scalar_wire_ok by blast

lemma closed_bytes:
  "peek m p (unat n) = c \<Longrightarrow> n = of_nat (length c) \<Longrightarrow> field_bytes False fd m (E_string p n) = delimited fd c"
  by (simp add: field_bytes_def key_bytes_def delimited_def)

lemma string_chosen:
  assumes "field_type fd = LWPB_STRING \<or> field_type fd = LWPB_BYTES" and "string_value itp x = Some bs" and "\<not> is_packed_repeated fd"
  shows "py_to_lwpb itp x (field_type fd) py = Inr (Some (V_string (string_addr itp bs) (of_nat (length bs))), py)"
    and "chosen_value False fd (V_string (string_addr itp bs) (of_nat (length bs))) =
      Inr (E_string (string_addr itp bs) (of_nat (length bs)))"
  using assms by (auto simp: py_to_lwpb_def PyString_AsStringAndSize_def chosen_value_def wire_of_value_def override_packed_def)

section \<open>The first pass\<close>

lemma null_message:
  assumes "closable fd" and "\<not> enc2_packed enc"
  shows "lwpb_encoder2_add_field m enc fd (V_message p n) None = Inr (m, of_nat
    (length (varint_bytes (field_key WT_STRING (number fd))) + length (varint_bytes n)) + n)"
  using encode2_NULL [of enc fd "V_message p n" "E_string p n" m] chosen_value_message [OF assms(1), of p n] assms(2)
  by (simp add: field_size_def key_bytes_def)

lemma measure_packed:
  assumes "those (map (scalar_of itp (field_type fd)) xs) = Some vs" and "enc2_packed enc" and "field_type fd \<noteq> LWPB_MESSAGE"
  shows "encode_values n itp ds fd xs None fl ex (m, enc, py) =
    Inr (Some (fl + of_nat (length (concat (map (scalar_bytes fd) vs))), ex), m, enc, py)"
  using assms(1)
proof (induction xs arbitrary: vs fl)
  case Nil
  then show ?case by simp
next
  case (Cons x xs)
  then obtain v ws where v: "scalar_of itp (field_type fd) x = Some v" and ws: "those (map (scalar_of itp (field_type fd)) xs) = Some ws"
    and vs: "vs = v # ws"
    by (auto split: option.splits)
  obtain v' where v': "py_to_lwpb itp x (field_type fd) py = Inr (Some v', py)"
    and w: "wire_of_value (field_type fd) v' = Inr (scalar_wire (field_type fd) v)"
    using scalar_converts(1) [OF v] by blast
  have ok: "scalar_ok (field_type fd) v" by (rule scalar_converts(2) [OF v])
  have "scalar_wire (field_type fd) v \<noteq> E_unset"
    using scalar_cases(2) [OF ok] by auto
  then have "lwpb_encoder2_add_field m enc fd v' None = Inr (m, of_nat (length (scalar_bytes fd v)))"
    using encode2_NULL [of enc fd v', OF scalar_chosen [OF w]] assms(2) scalar_size [OF ok, of True "[]"]
    by (auto simp: field_bytes_def scalar_bytes_def)
  then show ?case
    using v' assms(3) Cons.IH [OF ws] by (simp add: vs)
qed

lemma packed_no_message: "packed_items itp j fd xs = Some its \<Longrightarrow> xs \<noteq> [] \<Longrightarrow> field_type fd \<noteq> LWPB_MESSAGE"
  by (cases xs) (auto simp: packed_items_def scalar_of_def split: option.splits)

lemma drop_field:
  assumes "fd # fds = drop j (msg_fields (ds ! i))"
  shows "fd = the_field ds i j" "fds = drop (Suc j) (msg_fields (ds ! i))"
  using assms by (auto simp: the_field_def drop_Suc nth_via_drop [of j _ fd fds] tl_drop [symmetric])
    (metis list.sel(3) tl_drop)

lemma packed_reset: "\<not> enc2_packed enc \<Longrightarrow> enc\<lparr>enc2_packed := False\<rparr> = enc"
  by simp

lemma measure_pass:
  "msg_items n itp ds py i obj = Some its \<Longrightarrow> \<not> enc2_packed enc \<Longrightarrow>
    pyobject_encode n itp ds obj (Some i) None (m, enc, py) = Inr (of_nat (items_space ds i its), m, enc, py)"
  "fields_items n itp ds py obj j fds = Some its \<Longrightarrow> fds = drop j (msg_fields (ds ! i)) \<Longrightarrow> \<not> enc2_packed enc \<Longrightarrow>
    encode_fields n itp ds obj fds None len ex (m, enc, py) = Inr (len + ex + of_nat (items_space ds i its), m, enc, py)"
  "values_items n itp ds py j fd xs = Some its \<Longrightarrow> fd = the_field ds i j \<Longrightarrow> \<not> is_packed_repeated fd \<Longrightarrow> \<not> enc2_packed enc \<Longrightarrow>
    \<exists>fl' ex'. encode_values n itp ds fd xs None fl ex (m, enc, py) = Inr (Some (fl', ex'), m, enc, py) \<and>
      fl' + ex' = fl + ex + of_nat (items_space ds i its)"
proof (induction n itp ds py i obj and n itp ds py obj j fds and n itp ds py j fd xs
    arbitrary: its and its i len ex and its i fl ex rule: msg_items_fields_items_values_items.induct)
  case (1 itp ds py i obj)
  then show ?case by simp
next
  case (2 n itp ds py i obj)
  then show ?case by (auto split: if_splits)
next
  case (3 n itp ds py obj j)
  then show ?case by simp
next
  case (4 n itp ds py obj j fd fds)
  note fd = drop_field [OF "4.prems"(2)]
  show ?case
  proof (cases "PyDict_GetItemString py obj (fd_name fd)")
    case None
    with "4.IH"(1) [OF None _ fd(2) "4.prems"(3)] "4.prems"(1) show ?thesis by simp
  next
    case (Some x)
    let ?xs = "field_values py x"
    obtain its1 its2 where its: "its = its1 @ its2" and rest: "fields_items n itp ds py obj (Suc j) fds = Some its2"
      and first: "(if is_packed_repeated fd then packed_items itp j fd ?xs else values_items n itp ds py j fd ?xs) = Some its1"
      using "4.prems"(1) Some by (auto simp: bind_eq_Some_conv)
    note IH = "4.IH"(3) [OF Some first rest fd(2) "4.prems"(3)]
    show ?thesis
    proof (cases "is_packed_repeated fd")
      case False
      with first have "values_items n itp ds py j fd ?xs = Some its1" by simp
      from "4.IH"(2) [OF Some False this fd(1) False "4.prems"(3)] obtain fl' ex' where
        "encode_values n itp ds fd ?xs None 0 ex (m, enc, py) = Inr (Some (fl', ex'), m, enc, py)"
        "fl' + ex' = ex + of_nat (items_space ds i its1)"
        by fastforce
      with False Some IH show ?thesis
        by (simp add: packed_begin_def packed_finish_def its items_space_append add.assoc)
    next
      case True
      then obtain vs where vs: "those (map (scalar_of itp (field_type fd)) ?xs) = Some vs" "its1 = [Packed j vs]"
        using first by (auto simp: packed_items_def)
      let ?enc = "enc\<lparr>enc2_packed := True\<rparr>" and ?c = "concat (map (scalar_bytes fd) vs)"
      have "encode_values n itp ds fd ?xs None 0 (ex + 10) (m, ?enc, py) = Inr (Some (of_nat (length ?c), ex + 10), m, ?enc, py)"
      proof (cases "?xs = []")
        case True
        with vs show ?thesis by simp
      next
        case False
        from measure_packed [OF vs(1)] packed_no_message [of itp j fd ?xs, OF _ False] first True show ?thesis
          by simp
      qed
      moreover note packed_reset [OF "4.prems"(3)]
      moreover have "closable fd" using True by (simp add: closable_def)
      ultimately show ?thesis
        using True Some IH "4.prems"(3) null_message [of fd enc m _ "of_nat (length ?c)"]
        by (simp add: packed_begin_def packed_finish_def lwpb_encoder2_packed_repeated_start_def ptr_add_def
            lwpb_encoder2_packed_repeated_end_def its items_space_append vs(2) MSG_RESERVE_BYTES_def delimited_def fd(1) [symmetric] Let_def
            algebra_simps packed_reset [OF "4.prems"(3)])
    qed
  qed
next
  case (5 n itp ds py j fd)
  then show ?case by auto
next
  case (6 n itp ds py j fd x xs)
  obtain it its2 where its: "its = it # its2" and rest: "values_items n itp ds py j fd xs = Some its2"
    and first: "(if field_type fd = LWPB_MESSAGE
      then Option.bind (fd_msg_desc fd) (\<lambda>k. map_option (Sub j) (msg_items n itp ds py k x))
      else if field_type fd = LWPB_STRING \<or> field_type fd = LWPB_BYTES then map_option (Data j) (string_value itp x)
      else map_option (Scalar j) (scalar_of itp (field_type fd) x)) = Some it"
    using "6.prems"(1) by (auto simp: bind_eq_Some_conv)
  note IH = "6.IH"(2) [OF first rest "6.prems"(2-4)]
  show ?case
  proof (cases "field_type fd = LWPB_MESSAGE")
    case True
    then obtain k its1 where k: "fd_msg_desc fd = Some k" "msg_items n itp ds py k x = Some its1" and it: "it = Sub j its1"
      using first by (auto simp: bind_eq_Some_conv)
    let ?N = "of_nat (items_space ds k its1) :: u64"
    let ?L = "of_nat (length (varint_bytes (field_key WT_STRING (number fd))) + length (varint_bytes ?N)) + ?N"
    from "6.IH"(1) [OF True k "6.prems"(4)] null_message [of fd enc m 0 ?N] True "6.prems"(4)
    have step: "encode_values n itp ds fd (x # xs) None fl ex (m, enc, py) =
        encode_values n itp ds fd xs None (fl + ?L) (ex + 10) (m, enc, py)"
      by (simp add: k(1) closable_def ptr_add_def ptr_addr_def MSG_RESERVE_BYTES_def)
    from IH [of "fl + ?L" "ex + 10"] show ?thesis
      unfolding step by (auto simp: its it "6.prems"(2) [symmetric] Let_def k(1) MSG_RESERVE_BYTES_def algebra_simps)
  next
    case False
    have "\<exists>v' ev. py_to_lwpb itp x (field_type fd) py = Inr (Some v', py) \<and> chosen_value False fd v' = Inr ev \<and> ev \<noteq> E_unset \<and>
        field_size False fd ev = of_nat (item_space ds i it)"
    proof (cases "field_type fd = LWPB_STRING \<or> field_type fd = LWPB_BYTES")
      case True
      then obtain bs where "string_value itp x = Some bs" "it = Data j bs"
        using first by auto
      with string_chosen [OF True] "6.prems"(3) show ?thesis
        by (simp add: field_size_def key_bytes_def delimited_def "6.prems"(2) [symmetric])
    next
      case strings: False
      then obtain v where v: "scalar_of itp (field_type fd) x = Some v" "it = Scalar j v"
        using first False by auto
      note ok = scalar_converts(2) [OF v(1)]
      show ?thesis
        using scalar_converts(1) [OF v(1), of py] scalar_chosen [of fd _ _ False] "6.prems"(3) scalar_cases(2) [OF ok]
          scalar_size [OF ok, of False "[]"] scalar_field_bytes(1) [of ds i j v "[]"] ok v(2) "6.prems"(2)
        by (metis item_space.simps(1) scalar_ev.simps(2))
    qed
    then obtain v' ev where v': "py_to_lwpb itp x (field_type fd) py = Inr (Some v', py)" "chosen_value False fd v' = Inr ev"
      "ev \<noteq> E_unset" "field_size False fd ev = of_nat (item_space ds i it)"
      by blast
    have step: "encode_values n itp ds fd (x # xs) None fl ex (m, enc, py) =
        encode_values n itp ds fd xs None (fl + of_nat (item_space ds i it)) ex (m, enc, py)"
      using encode2_NULL [of enc fd v' ev m] v' "6.prems"(4) False by simp
    from IH [of "fl + of_nat (item_space ds i it)" ex] show ?thesis
      unfolding step by (auto simp: its algebra_simps)
  qed
qed

section \<open>The second pass\<close>

text \<open>Bytes were written at \<open>a\<close>; what lies outside of the region up to \<open>b\<close> is as before.\<close>

definition wrote :: "addr \<Rightarrow> addr \<Rightarrow> u8 list \<Rightarrow> mem \<Rightarrow> mem \<Rightarrow> bool" where
  "wrote a b bs m m' \<longleftrightarrow> same_outside a b m m' \<and> peek m' a (length bs) = bs"

lemma wrote_Nil [simp]: "wrote a b [] m m"
  by (simp add: wrote_def)

lemma wrote_append:
  assumes "wrote a b xs m m1" and "wrote (a + length xs) b ys m1 m2"
  shows "wrote a b (xs @ ys) m m2"
proof -
  have "peek m2 a (length xs) = peek m1 a (length xs)"
    using assms(2) by (intro same_outside_peek [of "a + length xs" b]) (auto simp: wrote_def)
  moreover have "same_outside a b m1 m2"
    using assms(2) by (auto simp: wrote_def intro: same_outside_mono [of "a + length xs" b])
  ultimately show ?thesis
    using assms by (auto simp: wrote_def peek_append intro: same_outside_trans)
qed

lemma wrote_poke: "a + length bs \<le> b \<Longrightarrow> b \<le> length m \<Longrightarrow> wrote a b bs m (poke m a bs)"
  by (simp add: wrote_def same_outside_poke)

lemma wrote_before:
  assumes "same_outside a b m m1" and "wrote c b bs m1 m2" and "c \<le> a"
  shows "wrote c b bs m m2"
  using assms same_outside_mono [OF assms(1,3) order_refl] by (auto simp: wrote_def intro: same_outside_trans)

text \<open>The strings of the message lie in the memory before the buffer.\<close>

definition strings_before :: "interpreter \<Rightarrow> mem \<Rightarrow> addr \<Rightarrow> message \<Rightarrow> bool" where
  "strings_before itp m a its \<longleftrightarrow> (\<forall>bs \<in> set (items_strings its). keeps itp m bs \<and> string_addr itp bs + length bs \<le> a)"

lemma strings_before_append:
  "strings_before itp m a (xs @ ys) \<longleftrightarrow> strings_before itp m a xs \<and> strings_before itp m a ys"
  by (auto simp: strings_before_def items_strings_append)

lemma strings_before_wrote:
  assumes "strings_before itp m a its" and "same_outside a b m m'" and "a \<le> c"
  shows "strings_before itp m' c its"
  unfolding strings_before_def
proof
  fix bs
  assume "bs \<in> set (items_strings its)"
  then have "keeps itp m bs" "string_addr itp bs + length bs \<le> a"
    using assms(1) by (auto simp: strings_before_def)
  with assms same_outside_peek [OF assms(2), of "string_addr itp bs" "length bs"]
  show "keeps itp m' bs \<and> string_addr itp bs + length bs \<le> c"
    by (simp add: keeps_def same_outside_length [OF assms(2)])
qed

lemma key_length: "length (varint_bytes (field_key wt n)) \<le> 5"
proof -
  have "unat (wire_type_code wt OR push_bit 3 n) < 2 ^ 32"
    using unsigned_less [of "wire_type_code wt OR push_bit 3 n"] by simp
  then have "unat (field_key wt n) < 2 ^ 32"
    by (simp add: field_key_def unsigned_ucast_eq take_bit_nat_eq_self)
  then show ?thesis
    using length_varint_bytes_le [of "field_key wt n" 4] by simp
qed

text \<open>Closing a nested message or a packed field moves its contents behind the key and the length.\<close>

lemma close_writes:
  assumes fd: "closable fd" "\<not> enc2_packed enc"
    and c: "wrote (a + 10) b c m m1" and room: "a + 10 + length c \<le> b" "b \<le> length m" "length m < 2 ^ 63"
    and small: "length c < 2 ^ 35" and fits: "a + length (delimited fd c) \<le> b"
  shows "\<exists>m'. lwpb_encoder2_add_field m1 enc fd (V_message (a + 10) (of_nat (length c))) (Some a) =
      Inr (m', of_nat (length (delimited fd c))) \<and> wrote a b (delimited fd c) m m'"
proof -
  let ?n = "of_nat (length c) :: u64"
  let ?ev = "E_string (a + 10) ?n"
  have n: "unat ?n = length c"
    using room by (simp add: unat_of_nat)
  have m1: "length m1 = length m"
    using c by (auto simp: wrote_def dest: same_outside_length)
  have ev: "chosen_value (enc2_packed enc) fd (V_message (a + 10) ?n) = Inr ?ev"
    using chosen_value_message [OF fd(1)] fd(2) by simp
  have bytes: "field_bytes False fd m1 ?ev = delimited fd c"
    using c n by (intro closed_bytes) (auto simp: wrote_def)
  have ok: "value_ok fd m1 (a + length (key_bytes ?ev fd)) ?ev"
    using fd(1) room n m1 by (auto simp: copy_ok_def closable_def)
  have "length (varint_bytes ?n) \<le> 5"
    using small length_varint_bytes_le [of ?n 4] n by simp
  then have "source_ok a (length (key_bytes ?ev fd)) ?ev"
    using key_length [of WT_STRING "number fd"] by (simp add: source_ok_def key_bytes_def)
  then have "lwpb_encoder2_add_field m1 enc fd (V_message (a + 10) ?n) (Some a) =
      Inr (poke m1 a (delimited fd c), of_nat (length (delimited fd c)))"
    using encode2_writes [of enc fd "V_message (a + 10) ?n" ?ev m1 a] ev ok fd(2) bytes fits room m1
      field_size_length [OF ok, of False] by simp
  moreover have "wrote a b (delimited fd c) m (poke m1 a (delimited fd c))"
    using c fits room m1 by (intro wrote_before [of "a + 10" b m m1] wrote_poke) (auto simp: wrote_def)
  ultimately show ?thesis by blast
qed

text \<open>Adding a scalar value.\<close>

lemma scalar_writes:
  assumes v: "scalar_of itp (field_type fd) x = Some v" and w: "wire_of_value (field_type fd) v' = Inr (scalar_wire (field_type fd) v)"
    and p: "\<not> enc2_packed enc \<Longrightarrow> \<not> is_packed_repeated fd"
    and bs: "bs = field_bytes (enc2_packed enc) fd m (scalar_wire (field_type fd) v)"
    and room: "a + length bs \<le> b" "b \<le> length m"
  shows "lwpb_encoder2_add_field m enc fd v' (Some a) = Inr (poke m a bs, of_nat (length bs)) \<and> wrote a b bs m (poke m a bs)"
  using encode2_writes [of enc fd v' _ m a, OF scalar_chosen [OF w p]] scalar_wire_ok [OF scalar_converts(2) [OF v]]
    scalar_size [OF scalar_converts(2) [OF v], of "enc2_packed enc" m] room bs wrote_poke [OF room]
  by simp

lemma write_packed:
  assumes "those (map (scalar_of itp (field_type fd)) xs) = Some vs" and "enc2_packed enc" and "field_type fd \<noteq> LWPB_MESSAGE"
    and "a + length (concat (map (scalar_bytes fd) vs)) \<le> b" and "b \<le> length m" and "length m < 2 ^ 63"
  shows "\<exists>m'. encode_values n itp ds fd xs (Some a) fl ex (m, enc, py) =
      Inr (Some (fl + of_nat (length (concat (map (scalar_bytes fd) vs))), ex), m', enc, py) \<and>
    wrote a b (concat (map (scalar_bytes fd) vs)) m m'"
  using assms(1,4-6)
proof (induction xs arbitrary: vs a fl m)
  case Nil
  then show ?case by auto
next
  case (Cons x xs)
  then obtain v ws where v: "scalar_of itp (field_type fd) x = Some v" and ws: "those (map (scalar_of itp (field_type fd)) xs) = Some ws"
    and vs: "vs = v # ws"
    by (auto split: option.splits)
  obtain v' where v': "py_to_lwpb itp x (field_type fd) py = Inr (Some v', py)"
    and w: "wire_of_value (field_type fd) v' = Inr (scalar_wire (field_type fd) v)"
    using scalar_converts(1) [OF v] by blast
  let ?bs = "scalar_bytes fd v"
  have bs: "?bs = field_bytes (enc2_packed enc) fd m (scalar_wire (field_type fd) v)"
    using assms(2) scalar_payload_mem [OF scalar_cases(2) [OF scalar_converts(2) [OF v]], of m "[]"]
    by (simp add: field_bytes_def scalar_bytes_def)
  have room: "a + length ?bs \<le> b" "a + length ?bs + length (concat (map (scalar_bytes fd) ws)) \<le> b"
    using Cons.prems(2) by (simp_all add: vs)
  note add = scalar_writes [OF v w _ bs room(1) Cons.prems(3)]
  then have len: "length (poke m a ?bs) = length m"
    using assms(2) by (auto simp: wrote_def dest: same_outside_length)
  have "unat (of_nat (length ?bs) :: u64) = length ?bs"
    using room Cons.prems(3,4) by (simp add: unat_of_nat)
  moreover obtain m' where "encode_values n itp ds fd xs (Some (a + length ?bs)) (fl + of_nat (length ?bs)) ex (poke m a ?bs, enc, py) =
      Inr (Some (fl + of_nat (length ?bs) + of_nat (length (concat (map (scalar_bytes fd) ws))), ex), m', enc, py)"
    "wrote (a + length ?bs) b (concat (map (scalar_bytes fd) ws)) (poke m a ?bs) m'"
    using Cons.IH [OF ws room(2), of "poke m a ?bs"] Cons.prems(3,4) len by auto
  ultimately show ?case
    using add v' assms(2,3) wrote_append [of a b ?bs m "poke m a ?bs"] by (auto simp: vs add.assoc)
qed

text \<open>The space of a list of items leaves room for the bytes of the first one and the space of the others.\<close>

lemma space_split:
  assumes "a + items_space ds i (xs @ ys) \<le> b"
  shows "a + items_space ds i xs \<le> b" and "a + length (items_bytes ds i xs) + items_space ds i ys \<le> b"
    and "a + length (items_bytes ds i xs) \<le> b"
  using assms space_enough(2) [of ds i xs] by (simp_all add: items_space_append)

lemma items_one: "items_bytes ds i [it] = item_bytes ds i it" "items_space ds i [it] = item_space ds i it"
  "items_strings [it] = item_strings it"
  by simp_all

lemma write_pass:
  "msg_items n itp ds py i obj = Some its \<Longrightarrow> \<not> enc2_packed enc \<Longrightarrow>
    a + items_space ds i its \<le> b \<Longrightarrow> b \<le> length m \<Longrightarrow> length m < 2 ^ 63 \<Longrightarrow> b < a + 2 ^ 35 \<Longrightarrow> strings_before itp m a its \<Longrightarrow>
    \<exists>m'. pyobject_encode n itp ds obj (Some i) (Some a) (m, enc, py) =
        Inr (of_nat (length (items_bytes ds i its)), m', enc, py) \<and> wrote a b (items_bytes ds i its) m m'"
  "fields_items n itp ds py obj j fds = Some its \<Longrightarrow> fds = drop j (msg_fields (ds ! i)) \<Longrightarrow> \<not> enc2_packed enc \<Longrightarrow>
    a + items_space ds i its \<le> b \<Longrightarrow> b \<le> length m \<Longrightarrow> length m < 2 ^ 63 \<Longrightarrow> b < a + 2 ^ 35 \<Longrightarrow> strings_before itp m a its \<Longrightarrow>
    \<exists>m'. encode_fields n itp ds obj fds (Some a) len ex (m, enc, py) =
        Inr (len + of_nat (length (items_bytes ds i its)), m', enc, py) \<and> wrote a b (items_bytes ds i its) m m'"
  "values_items n itp ds py j fd xs = Some its \<Longrightarrow> fd = the_field ds i j \<Longrightarrow> \<not> is_packed_repeated fd \<Longrightarrow> \<not> enc2_packed enc \<Longrightarrow>
    a + items_space ds i its \<le> b \<Longrightarrow> b \<le> length m \<Longrightarrow> length m < 2 ^ 63 \<Longrightarrow> b < a + 2 ^ 35 \<Longrightarrow> strings_before itp m a its \<Longrightarrow>
    \<exists>m' ex'. encode_values n itp ds fd xs (Some a) fl ex (m, enc, py) =
        Inr (Some (fl + of_nat (length (items_bytes ds i its)), ex'), m', enc, py) \<and> wrote a b (items_bytes ds i its) m m'"
proof (induction n itp ds py i obj and n itp ds py obj j fds and n itp ds py j fd xs
    arbitrary: its a m and its i a m len ex and its i a m fl ex rule: msg_items_fields_items_values_items.induct)
  case (1 itp ds py i obj)
  then show ?case by simp
next
  case (2 n itp ds py i obj)
  then have obj: "PyDict_Check py obj" "i < length ds" "fields_items n itp ds py obj 0 (msg_fields (ds ! i)) = Some its"
    by (auto split: if_splits)
  from "2.IH" [OF conjI [OF obj(1,2)] obj(3) _ "2.prems"(2-7), of 0 0] obj show ?case by simp
next
  case (3 n itp ds py obj j)
  then show ?case by auto
next
  case (4 n itp ds py obj j fd fds)
  note fd = drop_field [OF "4.prems"(2)]
  show ?case
  proof (cases "PyDict_GetItemString py obj (fd_name fd)")
    case None
    with "4.IH"(1) [OF None _ fd(2) "4.prems"(3-8)] "4.prems"(1) show ?thesis by simp
  next
    case (Some x)
    let ?xs = "field_values py x"
    obtain its1 its2 where its: "its = its1 @ its2" and rest: "fields_items n itp ds py obj (Suc j) fds = Some its2"
      and first: "(if is_packed_repeated fd then packed_items itp j fd ?xs else values_items n itp ds py j fd ?xs) = Some its1"
      using "4.prems"(1) Some by (auto simp: bind_eq_Some_conv)
    let ?bs = "items_bytes ds i its1"
    note room = space_split [OF "4.prems"(4) [unfolded its]]
    have strings: "strings_before itp m a its1" "strings_before itp m a its2"
      using "4.prems"(8) by (simp_all add: its strings_before_append)
    have len: "unat (of_nat (length ?bs) :: u64) = length ?bs"
      using room(3) "4.prems"(5,6) by (simp add: unat_of_nat)
    have "\<exists>m1 ex1. (\<forall>k :: u64 \<Rightarrow> u64 \<Rightarrow> py_enc \<Rightarrow> (u64 \<times> py_enc) run. andthen (packed_begin fd (Some a) ex enc) (\<lambda>(fieldbuf, extralen, enc).
         andthen (encode_values n itp ds fd ?xs fieldbuf 0 extralen (m, enc, py)) (\<lambda>(r, st).
         case r of None \<Rightarrow> Inr (- 1, st)
         | Some (fieldlen, extralen) \<Rightarrow>
             andthen (packed_finish fd (Some a) fieldbuf fieldlen st) (\<lambda>(fieldlen, st). k fieldlen extralen st))) =
         k (of_nat (length ?bs)) ex1 (m1, enc, py)) \<and> wrote a b ?bs m m1"
    proof (cases "is_packed_repeated fd")
      case False
      with first have "values_items n itp ds py j fd ?xs = Some its1" by simp
      from "4.IH"(2) [OF Some False this fd(1) False "4.prems"(3) room(1) "4.prems"(5-7) strings(1), of 0 ex]
      obtain m1 ex1 where "encode_values n itp ds fd ?xs (Some a) 0 ex (m, enc, py) =
          Inr (Some (of_nat (length ?bs), ex1), m1, enc, py)" "wrote a b ?bs m m1"
        by auto
      with False show ?thesis
        by (intro exI [of _ m1] exI [of _ ex1]) (simp add: packed_begin_def packed_finish_def)
    next
      case True
      then obtain vs where vs: "those (map (scalar_of itp (field_type fd)) ?xs) = Some vs" "its1 = [Packed j vs]"
        using first by (auto simp: packed_items_def)
      let ?enc = "enc\<lparr>enc2_packed := True\<rparr>" and ?c = "concat (map (scalar_bytes fd) vs)"
      have bs: "?bs = delimited fd ?c"
        by (simp add: vs(2) fd(1) [symmetric] Let_def)
      have space: "a + 10 + length ?c \<le> b" "a + length (delimited fd ?c) \<le> b"
        using room(1,3) bs by (simp_all add: vs(2) fd(1) [symmetric] Let_def MSG_RESERVE_BYTES_def delimited_def)
      then have small: "length ?c < 2 ^ 35"
        using "4.prems"(7) by linarith
      obtain m1 where m1: "encode_values n itp ds fd ?xs (Some (a + 10)) 0 (ex + 10) (m, ?enc, py) =
          Inr (Some (of_nat (length ?c), ex + 10), m1, ?enc, py)" "wrote (a + 10) b ?c m m1"
      proof (cases "?xs = []")
        case True
        with vs that [of m] show ?thesis by simp
      next
        case False
        from write_packed [OF vs(1), of ?enc "a + 10" b m n ds 0 "ex + 10" py] packed_no_message [of itp j fd ?xs, OF _ False]
          first True space(1) "4.prems"(5,6) that show ?thesis
          by auto
      qed
      have "closable fd" using True by (simp add: closable_def)
      from close_writes [OF this "4.prems"(3) m1(2) space(1) "4.prems"(5,6) small space(2)] obtain m2 where
        m2: "lwpb_encoder2_add_field m1 enc fd (V_message (a + 10) (of_nat (length ?c))) (Some a) =
          Inr (m2, of_nat (length (delimited fd ?c)))" "wrote a b (delimited fd ?c) m m2"
        by blast
      note reset = packed_reset [OF "4.prems"(3)]
      show ?thesis
        using True m1(1) m2 "4.prems"(3) unfolding bs
        by (intro exI [of _ m2] exI [of _ "ex + 10"])
          (simp add: packed_begin_def packed_finish_def lwpb_encoder2_packed_repeated_start_def ptr_add_def ptr_addr_def
            lwpb_encoder2_packed_repeated_end_def MSG_RESERVE_BYTES_def reset)
    qed
    then obtain m1 ex1 where step: "\<And>k :: u64 \<Rightarrow> u64 \<Rightarrow> py_enc \<Rightarrow> (u64 \<times> py_enc) run. andthen (packed_begin fd (Some a) ex enc) (\<lambda>(fieldbuf, extralen, enc).
         andthen (encode_values n itp ds fd ?xs fieldbuf 0 extralen (m, enc, py)) (\<lambda>(r, st).
         case r of None \<Rightarrow> Inr (- 1, st)
         | Some (fieldlen, extralen) \<Rightarrow>
             andthen (packed_finish fd (Some a) fieldbuf fieldlen st) (\<lambda>(fieldlen, st). k fieldlen extralen st))) =
         k (of_nat (length ?bs)) ex1 (m1, enc, py)" and m1: "wrote a b ?bs m m1"
      by blast
    have same: "same_outside a b m m1" "length m1 = length m"
      using m1 by (auto simp: wrote_def dest: same_outside_length)
    have "b < a + length ?bs + 2 ^ 35"
      using "4.prems"(7) by simp
    from "4.IH"(3) [OF Some first rest fd(2) "4.prems"(3) room(2) _ _ this strings_before_wrote [OF strings(2) same(1)]]
    obtain m2 where "encode_fields n itp ds obj fds (Some (a + length ?bs)) (len + of_nat (length ?bs)) ex1 (m1, enc, py) =
        Inr (len + of_nat (length ?bs) + of_nat (length (items_bytes ds i its2)), m2, enc, py)"
      "wrote (a + length ?bs) b (items_bytes ds i its2) m1 m2"
      using "4.prems"(5,6) same(2) by auto
    with step [of "\<lambda>fieldlen extralen st. encode_fields n itp ds obj fds (move_buf (Some a) fieldlen) (len + fieldlen) extralen st"]
      Some len wrote_append [OF m1, of "items_bytes ds i its2" m2]
    show ?thesis
      by (auto simp: its items_bytes_append add.assoc)
  qed
next
  case (5 n itp ds py j fd)
  then show ?case by auto
next
  case (6 n itp ds py j fd x xs)
  obtain it its2 where its: "its = [it] @ its2" and rest: "values_items n itp ds py j fd xs = Some its2"
    and first: "(if field_type fd = LWPB_MESSAGE
      then Option.bind (fd_msg_desc fd) (\<lambda>k. map_option (Sub j) (msg_items n itp ds py k x))
      else if field_type fd = LWPB_STRING \<or> field_type fd = LWPB_BYTES then map_option (Data j) (string_value itp x)
      else map_option (Scalar j) (scalar_of itp (field_type fd) x)) = Some it"
    using "6.prems"(1) by (auto simp: bind_eq_Some_conv)
  let ?bs = "item_bytes ds i it"
  note room = space_split [OF "6.prems"(5) [unfolded its], unfolded items_one]
  have strings: "strings_before itp m a [it]" "strings_before itp m a its2"
    using "6.prems"(9) strings_before_append [of itp m a "[it]" its2] by (simp_all add: its)
  have len: "unat (of_nat (length ?bs) :: u64) = length ?bs"
    using room(3) "6.prems"(6,7) by (simp add: unat_of_nat)
  have "\<exists>m1 ex1. encode_values n itp ds fd (x # xs) (Some a) fl ex (m, enc, py) =
      encode_values n itp ds fd xs (Some (a + length ?bs)) (fl + of_nat (length ?bs)) ex1 (m1, enc, py) \<and> wrote a b ?bs m m1"
  proof (cases "field_type fd = LWPB_MESSAGE")
    case True
    then obtain k its1 where k: "fd_msg_desc fd = Some k" "msg_items n itp ds py k x = Some its1" and it: "it = Sub j its1"
      using first by (auto simp: bind_eq_Some_conv)
    let ?c = "items_bytes ds k its1"
    have bs: "?bs = delimited fd ?c"
      by (simp add: it "6.prems"(2) [symmetric] k(1) Let_def)
    have space: "a + 10 + items_space ds k its1 \<le> b" "a + length (delimited fd ?c) \<le> b"
      using room(1,3) bs by (simp_all add: it "6.prems"(2) [symmetric] k(1) Let_def MSG_RESERVE_BYTES_def)
    then have c: "a + 10 + length ?c \<le> b" "length ?c < 2 ^ 35" "b < a + 10 + 2 ^ 35"
      using space_enough(2) [of ds k its1] "6.prems"(8) by linarith+
    have "strings_before itp m (a + 10) its1"
      using strings(1) by (auto simp: strings_before_def it)
    from "6.IH"(1) [OF True k "6.prems"(4) space(1) "6.prems"(6,7) c(3) this] obtain m1 where
      m1: "pyobject_encode n itp ds x (Some k) (Some (a + 10)) (m, enc, py) = Inr (of_nat (length ?c), m1, enc, py)"
        "wrote (a + 10) b ?c m m1"
      by blast
    have "closable fd" using True by (simp add: closable_def)
    from close_writes [OF this "6.prems"(4) m1(2) c(1) "6.prems"(6,7) c(2) space(2)] obtain m2 where
      "lwpb_encoder2_add_field m1 enc fd (V_message (a + 10) (of_nat (length ?c))) (Some a) =
        Inr (m2, of_nat (length (delimited fd ?c)))" "wrote a b (delimited fd ?c) m m2"
      by blast
    with m1(1) True k(1) len show ?thesis
      by (intro exI [of _ m2] exI [of _ "ex + 10"]) (simp add: bs ptr_add_def ptr_addr_def MSG_RESERVE_BYTES_def)
  next
    case False
    have "\<exists>v'. py_to_lwpb itp x (field_type fd) py = Inr (Some v', py) \<and>
        lwpb_encoder2_add_field m enc fd v' (Some a) = Inr (poke m a ?bs, of_nat (length ?bs)) \<and> wrote a b ?bs m (poke m a ?bs)"
    proof (cases "field_type fd = LWPB_STRING \<or> field_type fd = LWPB_BYTES")
      case True
      then obtain bs where bs: "string_value itp x = Some bs" "it = Data j bs"
        using first by auto
      let ?p = "string_addr itp bs"
      let ?ev = "E_string ?p (of_nat (length bs))"
      have src: "?p + length bs \<le> a" "peek m ?p (length bs) = bs" "?p + length bs \<le> length m"
        using strings(1) by (auto simp: strings_before_def bs(2) keeps_def)
      have n: "unat (of_nat (length bs) :: u64) = length bs"
        using src(3) "6.prems"(7) by (simp add: unat_of_nat)
      have bytes: "field_bytes False fd m ?ev = ?bs"
        using n src(2) by (simp add: bs(2) closed_bytes "6.prems"(2) [symmetric])
      have ok: "value_ok fd m (a + k) ?ev" "source_ok a k ?ev" for k
        using src n by (auto simp: copy_ok_def source_ok_def)
      from string_chosen [OF True bs(1) "6.prems"(3)] show ?thesis
        using encode2_writes [of enc fd _ ?ev m a] ok "6.prems"(4,6) room(3) bytes field_size_length [OF ok(1), of False]
          wrote_poke [of a ?bs b m]
        by simp
    next
      case strings: False
      then obtain v where v: "scalar_of itp (field_type fd) x = Some v" "it = Scalar j v"
        using first False by auto
      obtain v' where v': "py_to_lwpb itp x (field_type fd) py = Inr (Some v', py)"
        and w: "wire_of_value (field_type fd) v' = Inr (scalar_wire (field_type fd) v)"
        using scalar_converts(1) [OF v(1)] by blast
      have "?bs = field_bytes (enc2_packed enc) fd m (scalar_wire (field_type fd) v)"
        using scalar_field_bytes(1) [of ds i j v m] scalar_converts(2) [OF v(1)] "6.prems"(2,4) v(2) by simp
      from scalar_writes [OF v(1) w _ this room(3) "6.prems"(6)] v' "6.prems"(3) show ?thesis by blast
    qed
    then obtain v' where "py_to_lwpb itp x (field_type fd) py = Inr (Some v', py)"
      "lwpb_encoder2_add_field m enc fd v' (Some a) = Inr (poke m a ?bs, of_nat (length ?bs))" "wrote a b ?bs m (poke m a ?bs)"
      by blast
    with False len show ?thesis
      by (intro exI [of _ "poke m a ?bs"] exI [of _ ex]) simp
  qed
  then obtain m1 ex1 where step: "encode_values n itp ds fd (x # xs) (Some a) fl ex (m, enc, py) =
      encode_values n itp ds fd xs (Some (a + length ?bs)) (fl + of_nat (length ?bs)) ex1 (m1, enc, py)" and m1: "wrote a b ?bs m m1"
    by blast
  have same: "same_outside a b m m1" "length m1 = length m"
    using m1 by (auto simp: wrote_def dest: same_outside_length)
  have "b < a + length ?bs + 2 ^ 35"
    using "6.prems"(8) by simp
  from "6.IH"(2) [OF first rest "6.prems"(2-4) room(2) _ _ this strings_before_wrote [OF strings(2) same(1)]]
  obtain m2 ex2 where "encode_values n itp ds fd xs (Some (a + length ?bs)) (fl + of_nat (length ?bs)) ex1 (m1, enc, py) =
      Inr (Some (fl + of_nat (length ?bs) + of_nat (length (items_bytes ds i its2)), ex2), m2, enc, py)"
    "wrote (a + length ?bs) b (items_bytes ds i its2) m1 m2"
    using "6.prems"(6,7) same(2) by (metis le_add1)
  with wrote_append [OF m1, of "items_bytes ds i its2" m2] show ?case
    unfolding step by (auto simp: its add.assoc)
qed

section \<open>Encoding a dictionary\<close>

lemma msg_items_dict: "msg_items n itp ds py i obj = Some its \<Longrightarrow> PyDict_Check py obj \<and> i < length ds"
  by (cases n) (auto split: if_splits)

lemma encode_builds:
  assumes its: "msg_items n itp ds (w_app w) i obj = Some its" and ds: "length ds < 2 ^ 31" and heap: "heap_ok w"
    and room: "items_space ds i its \<le> w_avail w" "items_space ds i its < 2 ^ 35"
      "length (w_mem w) + items_space ds i its < 2 ^ 63"
    and strings: "\<And>bs. bs \<in> set (items_strings its) \<Longrightarrow> keeps itp (w_mem w) bs"
  shows "\<exists>enc' w'. Encoder_encode n itp ds enc obj (Py_int (int i)) w = Inr (Some (Py_str (items_bytes ds i its)), enc', w') \<and>
    w_app w' = w_app w \<and> w_blocks w' = w_blocks w \<and> take (length (w_mem w)) (w_mem w') = w_mem w"
proof -
  let ?n = "items_space ds i its" and ?a = "length (w_mem w)" and ?bs = "items_bytes ds i its"
  let ?num = "word_of_int (int i) :: u32"
  let ?enc = "enc\<lparr>enc2_packed := False\<rparr>"
  have obj: "PyDict_Check (w_app w) obj" and i: "i < length ds"
    using msg_items_dict [OF its] by auto
  note num = msgnum_ok [OF i ds]
  have n: "unat (of_nat ?n :: u64) = ?n"
    using room(2) by (simp add: unat_of_nat)
  have p: "\<not> enc2_packed ?enc" by simp
  let ?m = "w_mem w @ replicate ?n 0"
  have m: "?a + ?n \<le> length ?m" "length ?m < 2 ^ 63"
    using room(3) by simp_all
  have same: "keeps itp ?m bs \<and> string_addr itp bs + length bs \<le> ?a" if "bs \<in> set (items_strings its)" for bs
    using strings [OF that] by (simp add: keeps_def peek_def)
  then have "strings_before itp ?m ?a its"
    by (simp add: strings_before_def)
  from write_pass(1) [OF its p order_refl m(1) m(2) _ this] room(2) obtain m' where
    pass: "pyobject_encode n itp ds obj (Some i) (Some ?a) (?m, ?enc, w_app w) = Inr (of_nat (length ?bs), m', ?enc, w_app w)"
    and wrote: "wrote ?a (?a + ?n) ?bs ?m m'"
    by auto
  have len: "length m' = ?a + ?n"
    using wrote by (auto simp: wrote_def dest: same_outside_length)
  have bs: "length ?bs \<le> ?n" by (rule space_enough)
  then have ubs: "unat (of_nat (length ?bs) :: u64) = length ?bs"
    using room(2) by (simp add: unat_of_nat)
  have "\<not> 2 ^ 63 \<le> (of_nat (length ?bs) :: u64)"
    using bs room(2) ubs by (simp add: word_le_nat_alt)
  then have str: "string_of_bytes m' ?a (of_nat (length ?bs)) (w_app w) = Inr (Some (Py_str ?bs), w_app w)"
    using wrote len bs by (simp add: string_of_bytes_def PyString_FromStringAndSize_def ubs loads_peek wrote_def)
  have mem: "take ?a m' = w_mem w"
    using wrote len by (intro nth_equalityI) (auto simp: wrote_def same_outside_def nth_append)
  have blocks: "filter (\<lambda>b. fst b \<noteq> ?a) (w_blocks w) = w_blocks w"
    using heap by (intro filter_True) (fastforce simp: heap_ok_def list_all_iff)
  have "w\<lparr>w_mem := w_mem w, w_app := w_app w\<rparr> = w" by simp
  then show ?thesis
    using obj num n pass measure_pass(1) [OF its p, of "w_mem w"] str mem blocks room(1)
    by (simp add: Encoder_encode_def int_argument_index [OF i ds] encode_parsed_def encode_pass_def lwpb_encoder2_start_def
        c_calloc_def ptr_addr_def c_free_def Let_def)
qed

end
