(* ===== verification/Py_Roundtrip.thy ===== *)
theory Py_Roundtrip
  imports Py_Decoder_Run Py_Encoder_Run
begin

text \<open>
  The Encoder and the Decoder class of the Python bindings together: a dictionary that has the form of a
  message is the same after encoding and decoding.
\<close>

section \<open>Dictionaries in the form of a message\<close>

text \<open>An object without state that is what the decoder makes of the value it is converted to.\<close>

definition leaf_fits :: "interpreter \<Rightarrow> field_typ \<Rightarrow> py \<Rightarrow> bool" where
  "leaf_fits itp t x \<longleftrightarrow>
     (if t = LWPB_STRING \<or> t = LWPB_BYTES then (case x of Py_str bs \<Rightarrow> True | _ \<Rightarrow> False)
      else case scalar_of itp t x of None \<Rightarrow> False | Some v \<Rightarrow> scalar_object itp v = x)"

definition packable :: "lwpb_field_desc \<Rightarrow> bool" where
  "packable fd \<longleftrightarrow> (is_packed_repeated fd \<longrightarrow> field_type fd \<noteq> LWPB_MESSAGE \<and> field_type fd \<noteq> LWPB_STRING \<and> field_type fd \<noteq> LWPB_BYTES)"

text \<open>
  The keys are names of fields, listed in the order of the fields; a repeated field has a list that is
  not empty. Messages are nested less than \<open>n\<close> deep.
\<close>

fun single_list :: "lwpb_field_desc \<Rightarrow> unit tree \<Rightarrow> unit tree list" where
  "single_list fd (Lst u ts) = (if opt_label (opts fd) = LWPB_REPEATED then ts else [])"
| "single_list fd t = (if opt_label (opts fd) = LWPB_REPEATED then [] else [t])"

function (sequential) fits :: "nat \<Rightarrow> interpreter \<Rightarrow> descs \<Rightarrow> msg_ref \<Rightarrow> unit tree \<Rightarrow> bool"
and fields_fit :: "nat \<Rightarrow> interpreter \<Rightarrow> descs \<Rightarrow> lwpb_field_desc list \<Rightarrow> (string \<times> unit tree) list \<Rightarrow> bool"
and values_fit :: "nat \<Rightarrow> interpreter \<Rightarrow> descs \<Rightarrow> lwpb_field_desc \<Rightarrow> unit tree list \<Rightarrow> bool" where
  "fits (Suc n) itp ds i (Dct u kvs) \<longleftrightarrow> i < length ds \<and> fields_fit n itp ds (msg_fields (ds ! i)) kvs"
| "fits n itp ds i t \<longleftrightarrow> False"
| "fields_fit n itp ds [] kvs \<longleftrightarrow> kvs = []"
| "fields_fit n itp ds (fd # fds) [] \<longleftrightarrow> True"
| "fields_fit n itp ds (fd # fds) ((k, t) # kvs) \<longleftrightarrow>
     (if k = fd_name fd
      then packable fd \<and> single_list fd t \<noteq> [] \<and> values_fit n itp ds fd (single_list fd t) \<and> fields_fit n itp ds fds kvs
      else fields_fit n itp ds fds ((k, t) # kvs))"
| "values_fit n itp ds fd [] \<longleftrightarrow> True"
| "values_fit n itp ds fd (t # ts) \<longleftrightarrow>
     (if field_type fd = LWPB_MESSAGE then (case fd_msg_desc fd of None \<Rightarrow> False | Some k \<Rightarrow> fits n itp ds k t)
      else case t of Leaf x \<Rightarrow> leaf_fits itp (field_type fd) x | _ \<Rightarrow> False) \<and> values_fit n itp ds fd ts"
  by pat_completeness auto
termination
  by (relation "inv_image (less_than <*lex*> less_than <*lex*> less_than) (\<lambda>x. case x of
      Inl (n, _) \<Rightarrow> (n, 0, 0)
    | Inr (Inl (n, _, _, fds, _)) \<Rightarrow> (n, 2, length fds)
    | Inr (Inr (n, _, _, _, ts)) \<Rightarrow> (n, 1, length ts))") auto

section \<open>The value of the items\<close>

lemma fold_add_repeated:
  assumes "opt_label (opts fd) = LWPB_REPEATED" and "map_of acc (fd_name fd) = None" and "ts \<noteq> []"
  shows "fold (add_value fd) ts acc = acc @ [(fd_name fd, Lst () ts)]"
proof -
  have put: "dict_put (fd_name fd) v (acc @ [(fd_name fd, u)]) = acc @ [(fd_name fd, v)]" for u v
    using assms(2) by (intro dict_put_mid) (auto simp: map_of_eq_None_iff)
  have get: "map_of (acc @ [(fd_name fd, u)]) (fd_name fd) = Some u" for u :: "unit tree"
    using assms(2) by (simp add: map_add_Some_iff)
  have more: "fold (add_value fd) ts (acc @ [(fd_name fd, Lst () us)]) = acc @ [(fd_name fd, Lst () (us @ ts))]" for us ts
    using assms(1) put get by (induction ts arbitrary: us) (simp_all add: add_value_def list_entry_def)
  from assms(3) obtain t us where ts: "ts = t # us" by (cases ts) auto
  have "add_value fd t acc = acc @ [(fd_name fd, Lst () [t])]"
    using assms(1,2) by (simp add: add_value_def list_entry_def dict_put_new)
  with more [of us "[t]"] show ?thesis
    by (simp add: ts)
qed

lemma add_other: "opt_label (opts fd) \<noteq> LWPB_REPEATED \<Longrightarrow> map_of acc (fd_name fd) = None \<Longrightarrow>
    add_value fd t acc = acc @ [(fd_name fd, t)]"
  by (simp add: add_value_def dict_put_new)

lemma items_value_append: "items_value itp ds i (xs @ ys) acc = items_value itp ds i ys (items_value itp ds i xs acc)"
  by (induction xs arbitrary: acc) auto

lemma leaf_values:
  assumes "leaf_fits itp t x"
  shows "is_leaf x"
    and "t = LWPB_STRING \<or> t = LWPB_BYTES \<Longrightarrow> \<exists>bs. x = Py_str bs"
    and "t \<noteq> LWPB_STRING \<Longrightarrow> t \<noteq> LWPB_BYTES \<Longrightarrow> \<exists>v. scalar_of itp t x = Some v \<and> scalar_object itp v = x"
proof -
  have "is_leaf (scalar_object itp v)" for v by (cases v) auto
  then show "is_leaf x"
    using assms by (auto simp: leaf_fits_def split: if_splits option.splits py.splits)
qed (use assms in \<open>auto simp: leaf_fits_def split: option.splits py.splits\<close>)

lemma packed_value:
  assumes "values_fit n itp ds fd ts" and "denote_list py xs ts" and "packable fd" "is_packed_repeated fd"
  shows "\<exists>vs. those (map (scalar_of itp (field_type fd)) xs) = Some vs \<and> map (\<lambda>v. Leaf (scalar_object itp v)) vs = ts"
  using assms(1,2)
proof (induction ts arbitrary: xs)
  case Nil
  then show ?case by (cases xs) auto
next
  case (Cons t ts)
  then obtain x ys where xs: "xs = x # ys" "denotes py x t" "denote_list py ys ts"
    by (cases xs) auto
  have ty: "field_type fd \<noteq> LWPB_MESSAGE" "field_type fd \<noteq> LWPB_STRING" "field_type fd \<noteq> LWPB_BYTES"
    using assms(3,4) by (auto simp: packable_def)
  obtain y where y: "t = Leaf y" "leaf_fits itp (field_type fd) y"
    using Cons.prems(1) ty(1) by (auto split: tree.splits)
  with leaf_values(3) [OF y(2) ty(2,3)] Cons.IH [OF _ xs(3)] Cons.prems(1) xs(1,2) show ?case
    by auto
qed

lemma field_values_list:
  assumes "denotes py x t" and "single_list fd t \<noteq> []"
  shows "denote_list py (field_values py x) (single_list fd t)"
proof (cases t)
  case (Leaf y)
  with assms show ?thesis by (cases y) (auto simp: field_values_def list_items_def)
next
  case (Lst u ts)
  with assms show ?thesis by (auto simp: field_values_def split: option.splits if_splits)
next
  case (Dct u kvs)
  then obtain r where "x = Py_dict r"
    using assms(1) by (auto simp: dict_items_def split: option.splits py.splits)
  with Dct assms show ?thesis by (auto simp: field_values_def list_items_def)
qed

lemma keys_of_fields: "fields_fit n itp ds fds kvs \<Longrightarrow> k \<in> fst ` set kvs \<Longrightarrow> k \<in> fd_name ` set fds"
proof (induction fds arbitrary: kvs)
  case Nil
  then show ?case by simp
next
  case (Cons fd fds)
  show ?case
  proof (cases kvs)
    case Nil
    with Cons.prems show ?thesis by simp
  next
    case (Cons kv kvs')
    then obtain k' t where "kvs = (k', t) # kvs'" by (cases kv) auto
    with Cons.prems Cons.IH [of kvs'] Cons.IH [of kvs] show ?thesis
      by (cases "k' = fd_name fd") auto
  qed
qed

lemma fits_value:
  "fits n itp ds i t \<Longrightarrow> names_ok ds \<Longrightarrow> denotes py obj t \<Longrightarrow>
    \<exists>its. msg_items n itp ds py i obj = Some its \<and> Dct () (items_value itp ds i its []) = t"
  "fields_fit n itp ds fds kvs \<Longrightarrow> names_ok ds \<Longrightarrow> fds = drop j (msg_fields (ds ! i)) \<Longrightarrow> distinct (map fd_name fds) \<Longrightarrow>
    (\<And>fd. fd \<in> set fds \<Longrightarrow> agrees py obj kvs (fd_name fd)) \<Longrightarrow>
    (\<And>fd. fd \<in> set fds \<Longrightarrow> map_of acc (fd_name fd) = None) \<Longrightarrow>
    \<exists>its. fields_items n itp ds py obj j fds = Some its \<and> items_value itp ds i its acc = acc @ kvs"
  "values_fit n itp ds fd ts \<Longrightarrow> names_ok ds \<Longrightarrow> fd = the_field ds i j \<Longrightarrow> denote_list py xs ts \<Longrightarrow>
    \<exists>its. values_items n itp ds py j fd xs = Some its \<and>
      (\<forall>acc. opt_label (opts fd) = LWPB_REPEATED \<or> length ts = 1 \<and> map_of acc (fd_name fd) = None \<longrightarrow>
        items_value itp ds i its acc = fold (add_value fd) ts acc)"
proof (induction n itp ds i t and n itp ds fds kvs and n itp ds fd ts
    arbitrary: obj and obj i j acc and xs i j rule: fits_fields_fit_values_fit.induct)
  case (1 n itp ds i u kvs)
  have i: "i < length ds" "fields_fit n itp ds (msg_fields (ds ! i)) kvs"
    using "1.prems"(1) by simp_all
  then have "distinct (map fd_name (msg_fields (ds ! i)))"
    using "1.prems"(2) by (auto simp: names_ok_def list_all_iff)
  from "1.IH" [OF i(2) "1.prems"(2) _ this dict_agrees(1) [OF "1.prems"(3)], of 0 i "[]"]
    dict_agrees(2) [OF "1.prems"(3)] i(1) show ?case
    by auto
next
  case (4 n itp ds fd fds)
  note fd = drop_field [OF "4.prems"(3)]
  have none: "PyDict_GetItemString py obj (fd_name fd') = None" if "fd' \<in> set (fd # fds)" for fd'
    using "4.prems"(5) [OF that] by (simp add: agrees_def)
  have "fields_items n itp ds py obj j fds' = Some []" if "set fds' \<subseteq> set (fd # fds)" for fds' j
    using that none by (induction fds' arbitrary: j) auto
  from this [of "fd # fds"] show ?case
    by (intro exI [of _ "[]"]) (simp del: fields_items.simps)
next
  case (5 n itp ds fd fds k t kvs)
  note fd = drop_field [OF "5.prems"(3)]
  have dist: "distinct (map fd_name fds)" "fd_name fd \<notin> fd_name ` set fds"
    using "5.prems"(4) by auto
  show ?case
  proof (cases "k = fd_name fd")
    case False
    then have fit: "fields_fit n itp ds fds ((k, t) # kvs)"
      using "5.prems"(1) by simp
    have "map_of ((k, t) # kvs) (fd_name fd) = None"
      using keys_of_fields [OF fit, of "fd_name fd"] dist(2) by (auto simp: map_of_eq_None_iff simp del: map_of.simps)
    with "5.prems"(5) [of fd] have "PyDict_GetItemString py obj (fd_name fd) = None"
      by (simp add: agrees_def del: map_of.simps)
    with "5.IH"(3) [OF False fit "5.prems"(2) fd(2) dist(1) "5.prems"(5,6)] show ?thesis
      by simp
  next
    case True
    then have fit: "packable fd" "single_list fd t \<noteq> []" "values_fit n itp ds fd (single_list fd t)" "fields_fit n itp ds fds kvs"
      using "5.prems"(1) by simp_all
    obtain x where x: "PyDict_GetItemString py obj (fd_name fd) = Some x" "denotes py x t"
      using "5.prems"(5) [of fd] True by (auto simp: agrees_def)
    let ?xs = "field_values py x" and ?ts = "single_list fd t"
    note xs = field_values_list [OF x(2) fit(2)]
    have acc: "map_of acc (fd_name fd) = None"
      using "5.prems"(6) by simp
    have whole: "(if opt_label (opts fd) = LWPB_REPEATED then fold (add_value fd) ?ts acc = acc @ [(k, t)]
        else length ?ts = 1 \<and> fold (add_value fd) ?ts acc = acc @ [(k, t)])"
      using fold_add_repeated [OF _ acc fit(2)] add_other [OF _ acc] fit(2) True
      by (cases t) (auto split: if_splits)
    obtain its1 where its1: "(if is_packed_repeated fd then packed_items itp j fd ?xs else values_items n itp ds py j fd ?xs) = Some its1"
      and v1: "items_value itp ds i its1 acc = acc @ [(k, t)]"
    proof (cases "is_packed_repeated fd")
      case packed: True
      then obtain vs where "those (map (scalar_of itp (field_type fd)) ?xs) = Some vs" "map (\<lambda>v. Leaf (scalar_object itp v)) vs = ?ts"
        using packed_value [OF fit(3) xs fit(1)] by blast
      moreover have "fold (\<lambda>v. add_value fd (Leaf (scalar_object itp v))) vs acc = fold (add_value fd) ?ts acc"
        using calculation(2) by (simp add: fold_map comp_def flip: calculation(2))
      ultimately show ?thesis
        using that [of "[Packed j vs]"] packed whole by (auto simp: packed_items_def is_packed_repeated_def fd(1) [symmetric])
    next
      case False
      from "5.IH"(1) [OF True fit(3) "5.prems"(2) fd(1) xs] whole acc False that show ?thesis
        by (auto split: if_splits)
    qed
    have "agrees py obj kvs (fd_name fd')" "map_of (acc @ [(k, t)]) (fd_name fd') = None" if "fd' \<in> set fds" for fd'
    proof -
      have "fd_name fd' \<noteq> k"
        using imageI [OF that, of fd_name] True dist(2) by metis
      then show "agrees py obj kvs (fd_name fd')" "map_of (acc @ [(k, t)]) (fd_name fd') = None"
        using "5.prems"(5,6) [of fd'] that by (auto simp: agrees_def map_add_def)
    qed
    from "5.IH"(2) [OF True fit(4) "5.prems"(2) fd(2) dist(1) this] obtain its2 where
      "fields_items n itp ds py obj (Suc j) fds = Some its2" "items_value itp ds i its2 (acc @ [(k, t)]) = acc @ (k, t) # kvs"
      by auto
    with its1 v1 x(1) show ?thesis
      by (simp add: items_value_append)
  qed
next
  case (6 n itp ds fd)
  then show ?case by (cases xs) auto
next
  case (7 n itp ds fd t ts)
  obtain x ys where xs: "xs = x # ys" "denotes py x t" "denote_list py ys ts"
    using "7.prems"(4) by (cases xs) auto
  have fit: "values_fit n itp ds fd ts"
    using "7.prems"(1) by simp
  obtain its where its: "values_items n itp ds py j fd ys = Some its"
    and rest: "\<And>acc. opt_label (opts fd) = LWPB_REPEATED \<or> length ts = 1 \<and> map_of acc (fd_name fd) = None \<Longrightarrow>
      items_value itp ds i its acc = fold (add_value fd) ts acc"
    using "7.IH"(2) [OF fit "7.prems"(2,3) xs(3)] by blast
  have "\<exists>it. values_items n itp ds py j fd xs = Some (it # its) \<and>
      (\<forall>acc. opt_label (opts fd) = LWPB_REPEATED \<or> map_of acc (fd_name fd) = None \<longrightarrow> item_value itp ds i it acc = add_value fd t acc)"
  proof (cases "field_type fd = LWPB_MESSAGE")
    case True
    then obtain k where k: "fd_msg_desc fd = Some k" "fits n itp ds k t"
      using "7.prems"(1) by (auto split: option.splits)
    from "7.IH"(1) [OF True k "7.prems"(2) xs(2)] obtain its1 where
      "msg_items n itp ds py k x = Some its1" "Dct () (items_value itp ds k its1 []) = t"
      by blast
    moreover have "merge_with fd acc = []" if "opt_label (opts fd) = LWPB_REPEATED \<or> map_of acc (fd_name fd) = None" for acc
      using that by (auto simp: merge_with_def dict_entry_def)
    ultimately show ?thesis
      using True k(1) its xs(1) by (intro exI [of _ "Sub j its1"]) (simp add: "7.prems"(3) [symmetric] Let_def)
  next
    case False
    then obtain y where y: "t = Leaf y" "leaf_fits itp (field_type fd) y"
      using "7.prems"(1) by (auto split: tree.splits)
    show ?thesis
    proof (cases "field_type fd = LWPB_STRING \<or> field_type fd = LWPB_BYTES")
      case True
      with leaf_values(2) [OF y(2)] obtain bs where "y = Py_str bs" by blast
      with True False its xs y(1) show ?thesis
        by (intro exI [of _ "Data j bs"]) (simp add: "7.prems"(3) [symmetric] string_value_def)
    next
      case strings: False
      with leaf_values(3) [OF y(2)] obtain v where "scalar_of itp (field_type fd) y = Some v" "scalar_object itp v = y"
        by blast
      with strings False its xs y(1) show ?thesis
        by (intro exI [of _ "Scalar j v"]) (simp add: "7.prems"(3) [symmetric])
    qed
  qed
  then obtain it where it: "values_items n itp ds py j fd xs = Some (it # its)"
    and first: "\<And>acc. opt_label (opts fd) = LWPB_REPEATED \<or> map_of acc (fd_name fd) = None \<Longrightarrow>
      item_value itp ds i it acc = add_value fd t acc"
    by blast
  have "items_value itp ds i (it # its) acc = fold (add_value fd) (t # ts) acc"
    if c: "opt_label (opts fd) = LWPB_REPEATED \<or> length (t # ts) = 1 \<and> map_of acc (fd_name fd) = None" for acc
  proof (cases "opt_label (opts fd) = LWPB_REPEATED")
    case True
    then show ?thesis using first rest by simp
  next
    case False
    with c have "ts = []" "ys = []" using xs(3) by (auto, cases ys) auto
    with its False c first show ?thesis by auto
  qed
  with it show ?case by blast
qed auto

section \<open>The items are a well-formed message\<close>

text \<open>The fields of a message have different names and numbers, and the numbers are small enough.\<close>

definition descs_ok :: "descs \<Rightarrow> bool" where
  "descs_ok ds \<longleftrightarrow> names_ok ds \<and> list_all (\<lambda>md. distinct (map number (msg_fields md)) \<and>
     list_all (\<lambda>fd. number fd < 2 ^ 29) (msg_fields md)) ds"

lemma descs_ok_field:
  assumes "descs_ok ds" "i < length ds" "fd # fds = drop j (msg_fields (ds ! i))"
  shows "wf_field ds i j"
proof -
  have j: "j < length (msg_fields (ds ! i))"
    using assms(3) by (metis drop_eq_Nil linorder_not_less list.distinct(1))
  moreover have "distinct (map number (msg_fields (ds ! i)))" "list_all (\<lambda>fd. number fd < 2 ^ 29) (msg_fields (ds ! i))"
    using assms(1,2) by (auto simp: descs_ok_def list_all_iff)
  ultimately show ?thesis
    using assms(2) by (auto simp: wf_field_def the_field_def list_all_length)
qed

lemma scalars_ok: "those (map (scalar_of itp t) xs) = Some vs \<Longrightarrow> list_all (scalar_ok t) vs"
  by (induction xs arbitrary: vs) (auto split: option.splits dest: scalar_converts(2))

lemma wf_items_append: "wf_items ds i (xs @ ys) \<longleftrightarrow> wf_items ds i xs \<and> wf_items ds i ys"
  by (induction xs) auto

lemma items_depth_append: "items_depth (xs @ ys) = max (items_depth xs) (items_depth ys)"
  by (induction xs) auto

lemma msg_items_wf:
  "msg_items n itp ds py i obj = Some its \<Longrightarrow> descs_ok ds \<Longrightarrow> wf_items ds i its \<and> items_depth its \<le> n"
  "fields_items n itp ds py obj j fds = Some its \<Longrightarrow> descs_ok ds \<Longrightarrow> i < length ds \<Longrightarrow> fds = drop j (msg_fields (ds ! i)) \<Longrightarrow>
    wf_items ds i its \<and> items_depth its \<le> Suc n"
  "values_items n itp ds py j fd xs = Some its \<Longrightarrow> descs_ok ds \<Longrightarrow> wf_field ds i j \<Longrightarrow> fd = the_field ds i j \<Longrightarrow> \<not> is_packed_repeated fd \<Longrightarrow>
    wf_items ds i its \<and> items_depth its \<le> Suc n"
proof (induction n itp ds py i obj and n itp ds py obj j fds and n itp ds py j fd xs
    arbitrary: its and its i and its i rule: msg_items_fields_items_values_items.induct)
  case (2 n itp ds py i obj)
  then show ?case by (auto split: if_splits)
next
  case (4 n itp ds py obj j fd fds)
  note fd = drop_field [OF "4.prems"(4)] and wf = descs_ok_field [OF "4.prems"(2-4)]
  show ?case
  proof (cases "PyDict_GetItemString py obj (fd_name fd)")
    case None
    with "4.IH"(1) [OF None _ "4.prems"(2,3) fd(2)] "4.prems"(1) show ?thesis by simp
  next
    case (Some x)
    obtain its1 its2 where its: "its = its1 @ its2" and rest: "fields_items n itp ds py obj (Suc j) fds = Some its2"
      and first: "(if is_packed_repeated fd then packed_items itp j fd (field_values py x)
        else values_items n itp ds py j fd (field_values py x)) = Some its1"
      using "4.prems"(1) Some by (auto simp: bind_eq_Some_conv)
    have "wf_items ds i its1 \<and> items_depth its1 \<le> Suc n"
    proof (cases "is_packed_repeated fd")
      case True
      with first wf fd(1) show ?thesis
        by (auto simp: packed_items_def Let_def dest: scalars_ok)
    next
      case False
      with "4.IH"(2) [OF Some False _ "4.prems"(2) wf fd(1) False] first show ?thesis by simp
    qed
    with "4.IH"(3) [OF Some first rest "4.prems"(2,3) fd(2)] show ?thesis
      by (simp add: its wf_items_append items_depth_append)
  qed
next
  case (6 n itp ds py j fd x xs)
  obtain it its2 where its: "its = it # its2" and rest: "values_items n itp ds py j fd xs = Some its2"
    and first: "(if field_type fd = LWPB_MESSAGE
      then Option.bind (fd_msg_desc fd) (\<lambda>k. map_option (Sub j) (msg_items n itp ds py k x))
      else if field_type fd = LWPB_STRING \<or> field_type fd = LWPB_BYTES then map_option (Data j) (string_value itp x)
      else map_option (Scalar j) (scalar_of itp (field_type fd) x)) = Some it"
    using "6.prems"(1) by (auto simp: bind_eq_Some_conv)
  have "wf_item ds i it \<and> item_depth it \<le> Suc n"
  proof (cases "field_type fd = LWPB_MESSAGE")
    case True
    then obtain k its1 where k: "fd_msg_desc fd = Some k" "msg_items n itp ds py k x = Some its1" and it: "it = Sub j its1"
      using first by (auto simp: bind_eq_Some_conv)
    from "6.IH"(1) [OF True k "6.prems"(2)] show ?thesis
      using True k "6.prems"(3,5) by (simp add: it Let_def "6.prems"(4) [symmetric])
  next
    case False
    with first "6.prems"(3,5) show ?thesis
      by (auto simp: Let_def "6.prems"(4) [symmetric] dest: scalar_converts(2) split: if_splits)
  qed
  with "6.IH"(2) [OF first rest "6.prems"(2-5)] show ?case
    by (simp add: its)
qed auto

text \<open>A list that is not in the store is no value.\<close>

lemma list_no_value [simp]:
  "msg_items n itp ds py i (Py_list c) = None" "scalar_of itp t (Py_list c) = None" "string_value itp (Py_list c) = None"
  by (cases n; simp add: PyDict_Check_def dict_items_def)
    (cases t; simp add: scalar_of_def number_value_def PyNumber_Float_def string_value_def)+

lemma field_values_extends: "extends py py' \<Longrightarrow> field_values py' x = field_values py x \<or> (\<exists>c. x = Py_list c \<and> field_values py x = [x])"
  using extends_items(1) [of py py' x] by (cases x) (auto simp: field_values_def list_items_def split: option.splits if_splits)

text \<open>More room on the C stack and new objects make no difference.\<close>

lemma msg_items_keeps:
  "msg_items n itp ds py i obj = Some its \<Longrightarrow> n \<le> k \<Longrightarrow> extends py py' \<Longrightarrow> msg_items k itp ds py' i obj = Some its"
  "fields_items n itp ds py obj j fds = Some its \<Longrightarrow> n \<le> k \<Longrightarrow> extends py py' \<Longrightarrow> PyDict_Check py obj \<Longrightarrow>
    fields_items k itp ds py' obj j fds = Some its"
  "values_items n itp ds py j fd xs = Some its \<Longrightarrow> n \<le> k \<Longrightarrow> extends py py' \<Longrightarrow> values_items k itp ds py' j fd xs = Some its"
proof (induction n itp ds py i obj and n itp ds py obj j fds and n itp ds py j fd xs
    arbitrary: its k and its k and its k rule: msg_items_fields_items_values_items.induct)
  case (2 n itp ds py i obj)
  have c: "PyDict_Check py obj \<and> i < length ds" and its: "fields_items n itp ds py obj 0 (msg_fields (ds ! i)) = Some its"
    using "2.prems"(1) by (simp_all split: if_splits)
  from "2.prems"(2) obtain k' where "k = Suc k'" "n \<le> k'" by (cases k) auto
  moreover have "PyDict_Check py' obj"
    using c extends_items(2) [OF "2.prems"(3), of obj] by (auto simp: PyDict_Check_def)
  ultimately show ?case
    using "2.IH" [OF c its _ "2.prems"(3)] c by simp
next
  case (4 n itp ds py obj j fd fds)
  have get: "PyDict_GetItemString py' obj (fd_name fd) = PyDict_GetItemString py obj (fd_name fd)"
    using "4.prems"(4) extends_items(2) [OF "4.prems"(3), of obj] by (auto simp: PyDict_Check_def PyDict_GetItemString_def)
  show ?case
  proof (cases "PyDict_GetItemString py obj (fd_name fd)")
    case None
    with "4.prems"(1) have "fields_items n itp ds py obj (Suc j) fds = Some its" by simp
    from "4.IH"(1) [OF None this "4.prems"(2-4)] None get show ?thesis by simp
  next
    case (Some x)
    then obtain its1 its2 where its: "its = its1 @ its2" and rest: "fields_items n itp ds py obj (Suc j) fds = Some its2"
      and first: "(if is_packed_repeated fd then packed_items itp j fd (field_values py x)
        else values_items n itp ds py j fd (field_values py x)) = Some its1"
      using "4.prems"(1) by (auto simp: bind_eq_Some_conv)
    have "field_values py' x = field_values py x"
      using field_values_extends [OF "4.prems"(3), of x] first by (auto simp: packed_items_def split: if_splits)
    then have "(if is_packed_repeated fd then packed_items itp j fd (field_values py' x)
        else values_items k itp ds py' j fd (field_values py' x)) = Some its1"
      using first "4.IH"(2) [OF Some _ _ "4.prems"(2,3)] by (cases "is_packed_repeated fd") simp_all
    with "4.IH"(3) [OF Some first rest "4.prems"(2-4)] Some get show ?thesis
      by (simp add: its)
  qed
next
  case (6 n itp ds py j fd x xs)
  obtain it its2 where its: "its = it # its2" and rest: "values_items n itp ds py j fd xs = Some its2"
    and first: "(if field_type fd = LWPB_MESSAGE
      then Option.bind (fd_msg_desc fd) (\<lambda>k. map_option (Sub j) (msg_items n itp ds py k x))
      else if field_type fd = LWPB_STRING \<or> field_type fd = LWPB_BYTES then map_option (Data j) (string_value itp x)
      else map_option (Scalar j) (scalar_of itp (field_type fd) x)) = Some it"
    using "6.prems"(1) by (auto simp: bind_eq_Some_conv)
  have "(if field_type fd = LWPB_MESSAGE
      then Option.bind (fd_msg_desc fd) (\<lambda>q. map_option (Sub j) (msg_items k itp ds py' q x))
      else if field_type fd = LWPB_STRING \<or> field_type fd = LWPB_BYTES then map_option (Data j) (string_value itp x)
      else map_option (Scalar j) (scalar_of itp (field_type fd) x)) = Some it"
  proof (cases "field_type fd = LWPB_MESSAGE")
    case True
    then obtain q its1 where "fd_msg_desc fd = Some q" "msg_items n itp ds py q x = Some its1" "it = Sub j its1"
      using first by (auto simp: bind_eq_Some_conv)
    with "6.IH"(1) [OF True this(1,2) "6.prems"(2,3)] True show ?thesis by simp
  qed (use first in simp)
  with "6.IH"(2) [OF first rest "6.prems"(2,3)] show ?case
    by (simp add: its)
qed auto

lemma msg_items_mono: "msg_items n itp ds py i obj = Some its \<Longrightarrow> n \<le> k \<Longrightarrow> msg_items k itp ds py i obj = Some its"
  by (erule (1) msg_items_keeps(1)) (simp add: extends_def)

section \<open>Encoding and decoding\<close>

lemma roundtrip:
  fixes itp ds n k w i obj
  defines "its \<equiv> the (msg_items n itp ds (w_app w) i obj)"
  assumes v: "denotes (w_app w) obj v" "fits n itp ds i v" and n: "n < LWPB_MAX_DEPTH" "n \<le> k"
    and ds: "descs_ok ds" "length ds < 2 ^ 31" and heap: "heap_ok w"
    and room: "items_space ds i its \<le> w_avail w" "items_space ds i its < 2 ^ 31" "length (w_mem w) + items_space ds i its < 2 ^ 63"
    and strings: "list_all (keeps itp (w_mem w)) (items_strings its)"
  shows "\<exists>bs enc' w'. Encoder_encode k itp ds enc obj (Py_int (int i)) w = Inr (Some (Py_str bs), enc', w') \<and> w_app w' = w_app w \<and>
    (\<forall>m wv dec. keeps itp m bs \<and> length m < 2 ^ 63 \<and> length (dec_stack dec) = LWPB_MAX_DEPTH \<longrightarrow>
      (\<exists>dec' d py'. Decoder_decode itp ds m wv dec (Py_str bs) (Py_int (int i)) (w_app w) = Inr (dec', Some d, py') \<and>
        denotes py' d v))"
proof -
  have names: "names_ok ds"
    using ds(1) by (simp add: descs_ok_def)
  obtain its' where "msg_items n itp ds (w_app w) i obj = Some its'" "Dct () (items_value itp ds i its' []) = v"
    using fits_value(1) [OF v(2) names v(1)] by blast
  then have its: "msg_items n itp ds (w_app w) i obj = Some its" and val: "message_value itp ds i its = v"
    by (auto simp: its_def message_value_def)
  have i: "i < length ds"
    using msg_items_dict [OF its] by simp
  have wf: "wf_items ds i its" "items_depth its < LWPB_MAX_DEPTH"
    using msg_items_wf(1) [OF its ds(1)] n(1) by auto
  have "length (items_bytes ds i its) < 2 ^ 31"
    using space_enough(2) [of ds i its] room(2) by simp
  note decode = decode_builds [where itp = itp, OF wf names i ds(2) _ _ _ this, unfolded val]
  have "items_space ds i its < 2 ^ 35"
    using room(2) by simp
  from encode_builds [where enc = enc, OF msg_items_mono [OF its n(2)] ds(2) heap room(1) this room(3)] strings obtain enc' w' where
    "Encoder_encode k itp ds enc obj (Py_int (int i)) w = Inr (Some (Py_str (items_bytes ds i its)), enc', w')" "w_app w' = w_app w"
    by (auto simp: list_all_iff)
  then show ?thesis
    using decode by (intro exI [of _ "items_bytes ds i its"] exI [of _ enc'] exI [of _ w']) blast
qed

end
