(* ===== verification/Py_Errors.thy ===== *)
theory Py_Errors
  imports Py_Roundtrip
begin

text \<open>
  What the Encoder class does with a value that it cannot encode, and the methods for single values. Here the
  dictionaries have one entry, whose value is not a list and whose field is not packed; other dictionaries are
  the subject of Py_Failures.
\<close>

section \<open>A dictionary with one entry\<close>

lemma no_entry: "dict_items py obj = Some [(k, x)] \<Longrightarrow> k' \<noteq> k \<Longrightarrow> PyDict_GetItemString py obj k' = None"
  by (simp add: PyDict_GetItemString_def)

lemma encode_fields_skip:
  "dict_items py obj = Some [(k, x)] \<Longrightarrow> k \<notin> fd_name ` set fds \<Longrightarrow>
     encode_fields n itp ds obj (fds @ rest) buf len extralen (m, enc, py) = encode_fields n itp ds obj rest buf len extralen (m, enc, py)"
  by (induction fds) (auto simp: no_entry)

definition after_values ::
    "nat \<Rightarrow> interpreter \<Rightarrow> descs \<Rightarrow> py \<Rightarrow> lwpb_field_desc list \<Rightarrow> void_ptr \<Rightarrow> (u64 \<times> u64) option \<times> py_enc \<Rightarrow> (u64 \<times> py_enc) run" where
  "after_values n itp ds obj fds buf = (\<lambda>(r, st). case r of None \<Rightarrow> Inr (- 1, st)
     | Some (fieldlen, extralen) \<Rightarrow> encode_fields n itp ds obj fds (move_buf buf fieldlen) fieldlen extralen st)"

lemma encode_one_entry:
  assumes obj: "dict_items py obj = Some [(fd_name fd, x)]" "list_items py x = None"
    and fd: "j < length (msg_fields (ds ! i))" "fd = the_field ds i j" "\<not> is_packed_repeated fd" and ds: "names_ok ds" "i < length ds"
  shows "\<exists>post. fd_name fd \<notin> fd_name ` set post \<and> (\<forall>n m enc buf. pyobject_encode (Suc n) itp ds obj (Some i) buf (m, enc, py) =
      andthen (encode_values n itp ds fd [x] buf 0 0 (m, enc, py)) (after_values n itp ds obj post buf))"
proof -
  let ?pre = "take j (msg_fields (ds ! i))" and ?post = "drop (Suc j) (msg_fields (ds ! i))"
  have fields: "msg_fields (ds ! i) = ?pre @ fd # ?post"
    using fd(1,2) by (simp add: the_field_def id_take_nth_drop [symmetric])
  have "distinct (map fd_name (msg_fields (ds ! i)))"
    using ds by (auto simp: names_ok_def list_all_iff)
  then have dist: "fd_name fd \<notin> fd_name ` set ?pre" "fd_name fd \<notin> fd_name ` set ?post"
    by (subst (asm) fields, auto)+
  have "pyobject_encode (Suc n) itp ds obj (Some i) buf (m, enc, py) =
      andthen (encode_values n itp ds fd [x] buf 0 0 (m, enc, py)) (after_values n itp ds obj ?post buf)" for n m enc buf
  proof -
    have "pyobject_encode (Suc n) itp ds obj (Some i) buf (m, enc, py) = encode_fields n itp ds obj (?pre @ fd # ?post) buf 0 0 (m, enc, py)"
      using obj(1) ds(2) by (simp only: fields [symmetric]) (simp add: PyDict_Check_def deref_msg_def)
    also have "\<dots> = encode_fields n itp ds obj (fd # ?post) buf 0 0 (m, enc, py)"
      using encode_fields_skip [OF obj(1) dist(1)] .
    also have "\<dots> = andthen (encode_values n itp ds fd [x] buf 0 0 (m, enc, py)) (after_values n itp ds obj ?post buf)"
      using obj fd(3)
      by (simp add: PyDict_GetItemString_def packed_begin_def packed_finish_def field_values_def after_values_def case_prod_beta
          del: encode_values.simps cong: option.case_cong)
    finally show ?thesis .
  qed
  with dist(2) show ?thesis by blast
qed

lemma encode_fields_none:
  "dict_items py obj = Some [(k, x)] \<Longrightarrow> k \<notin> fd_name ` set fds \<Longrightarrow>
     encode_fields n itp ds obj fds buf len extralen (m, enc, py) = Inr (if buf \<noteq> None then len else len + extralen, m, enc, py)"
  using encode_fields_skip [of py obj k x fds n itp ds "[]"] by simp

section \<open>Errors\<close>

lemma unat_size_max: "unat (- 1 :: u64) = 2 ^ 64 - 1"
  by (simp add: unsigned_minus_1_eq_mask mask_eq_exp_minus_1)

text \<open>A value that cannot be converted: the first pass returns -1 as the size.\<close>

lemma conversion_error:
  assumes obj: "dict_items (w_app w) obj = Some [(fd_name fd, x)]" "list_items (w_app w) x = None"
    and fd: "j < length (msg_fields (ds ! i))" "fd = the_field ds i j" "\<not> is_packed_repeated fd" "field_type fd \<noteq> LWPB_MESSAGE"
    and ds: "names_ok ds" "i < length ds" "length ds < 2 ^ 31"
    and conv: "py_to_lwpb itp x (field_type fd) (w_app w) = Inr (None, py')" and mem: "w_avail w < 2 ^ 64 - 1"
  shows "\<exists>enc' w'. Encoder_encode (Suc n) itp ds enc obj (Py_int (int i)) w = Inr (None, enc', w') \<and>
    py_error (w_app w') = Some (MemoryError, ''unable to allocate string'')"
proof -
  have pass: "pyobject_encode (Suc n) itp ds obj (Some i) None (w_mem w, enc, w_app w) = Inr (- 1, w_mem w, enc, py')" for enc
    using encode_one_entry [OF obj fd(1-3) ds(1,2), of itp] fd(4) conv
    by (auto simp: after_values_def)
  show ?thesis
    using unat_size_max obj(1) mem msgnum_ok [OF ds(2,3)] pass
    by (simp add: Encoder_encode_def PyDict_Check_def int_argument_index [OF ds(2,3)] encode_parsed_def encode_pass_def
        lwpb_encoder2_start_def c_calloc_def PyErr_SetString_def)
qed

text \<open>A nested message that is not a dictionary: the size -1 is taken for the length of the message.\<close>

lemma length_varint_max: "length (varint_bytes (- 1)) = 10"
  by code_simp

lemma nested_error:
  assumes obj: "dict_items (w_app w) obj = Some [(fd_name fd, x)]" "list_items (w_app w) x = None" "\<not> PyDict_Check (w_app w) x"
    and fd: "j < length (msg_fields (ds ! i))" "fd = the_field ds i j" "\<not> is_packed_repeated fd" "field_type fd = LWPB_MESSAGE"
    and ds: "names_ok ds" "i < length ds" "length ds < 2 ^ 31"
    and mem: "24 \<le> w_avail w" "length (w_mem w) + 24 < 2 ^ 64 - 1"
  shows "Encoder_encode (Suc (Suc n)) itp ds enc obj (Py_int (int i)) w = Inl Fault"
proof -
  let ?py = "PyErr_SetString TypeError ''encode expects a dict'' (w_app w)"
  let ?key = "varint_bytes (field_key WT_STRING (number fd))"
  let ?enc = "enc\<lparr>enc2_packed := False\<rparr>"
  obtain post where post: "fd_name fd \<notin> fd_name ` set post" and step: "\<And>n m enc buf. pyobject_encode (Suc n) itp ds obj (Some i) buf (m, enc, w_app w) =
      andthen (encode_values n itp ds fd [x] buf 0 0 (m, enc, w_app w)) (after_values n itp ds obj post buf)"
    using encode_one_entry [OF obj(1,2) fd(1-3) ds(1,2), of itp] by blast
  have obj': "dict_items ?py obj = Some [(fd_name fd, x)]"
    using obj(1) by simp
  have key: "length ?key \<le> 5" by (rule key_length)
  have nested: "pyobject_encode (Suc n) itp ds x r buf (m, ?enc, w_app w) = Inr (- 1, m, ?enc, ?py)" for r buf m
    using obj(3) by simp
  have nested': "pyobject_encode (Suc n) itp ds x r buf (m, ?enc, ?py) = Inr (- 1, m, ?enc, ?py)" for r buf m
    using obj(3) by (simp add: PyDict_Check_def PyErr_SetString_def [of _ _ "PyErr_SetString _ _ _"])
  have first: "encode_values (Suc n) itp ds fd [x] None 0 0 (w_mem w, ?enc, w_app w) =
      Inr (Some (of_nat (length ?key) + 9, 10), w_mem w, ?enc, ?py)"
    using null_message [of fd ?enc "w_mem w" 0 "- 1"] fd(4) nested [of _ None] length_varint_max
    by (simp add: ptr_add_def ptr_addr_def closable_def MSG_RESERVE_BYTES_def del: pyobject_encode.simps)
  have field: "chosen_value (enc2_packed ?enc) fd (V_message a (- 1)) = Inr (E_string a (- 1))" for a
    using fd(3,4) by (simp add: chosen_value_def wire_of_value_def override_packed_def)
  have second: "encode_values (Suc n) itp ds fd [x] (Some (length (w_mem w))) 0 0 (w_mem w @ replicate (length ?key + 19) 0, ?enc, ?py) = Inl Fault"
    using key mem(2) nested' [of _ "Some (length (w_mem w) + 10)"] field fd(4) length_varint_max unat_size_max
    by (simp add: ptr_add_def ptr_addr_def MSG_RESERVE_BYTES_def add_field2_alt encode2_wire_value_def encode2_prims stores_poke
        copy_payload_def memmove_def del: pyobject_encode.simps)
  have len: "unat (of_nat (length ?key) + 19 :: u64) = length ?key + 19"
    using key by (simp add: unat_word_ariths unat_of_nat)
  have pass: "pyobject_encode (Suc (Suc n)) itp ds obj (Some i) None (w_mem w, ?enc, w_app w) =
      Inr (of_nat (length ?key) + 19, w_mem w, ?enc, ?py)"
    using step [of "Suc n" None "w_mem w" ?enc] first encode_fields_none [OF obj' post]
    by (simp add: after_values_def del: pyobject_encode.simps encode_values.simps)
  have pass': "pyobject_encode (Suc (Suc n)) itp ds obj (Some i) (Some (length (w_mem w))) (w_mem w @ replicate (length ?key + 19) 0, ?enc, ?py) = Inl Fault"
    using encode_one_entry [OF obj' _ fd(1-3) ds(1,2), of itp] obj(2) second
    by (auto simp del: pyobject_encode.simps encode_values.simps)
  show ?thesis
    using obj(1) msgnum_ok [OF ds(2,3)] pass pass' mem(1) key
    by (simp add: Encoder_encode_def PyDict_Check_def int_argument_index [OF ds(2,3)] encode_parsed_def encode_pass_def
        lwpb_encoder2_start_def c_calloc_def len Let_def del: pyobject_encode.simps)
qed

section \<open>Conversions that succeed without a value\<close>

text \<open>A number that does not fit into an unsigned 64 bit integer sets an exception and is encoded as 2 ^ 64 - 1.\<close>

lemma uint64_out_of_range:
  assumes "t = LWPB_UINT64 \<or> t = LWPB_FIXED64" and "i < 0 \<or> 2 ^ 64 \<le> i"
  shows "py_to_lwpb itp (Py_long i) t py = Inr (Some (V_uint64 (- 1)), raises OverflowError py)"
  using assms by (auto simp: py_to_lwpb_def PyNumber_Long_def number_value_def PyLong_AsUnsignedLongLong_def)

text \<open>The text of a default value that is empty counts as a number, but no number is stored.\<close>

lemma empty_default:
  assumes "dropWhile is_space (c_str bs) = []"
    and "t \<in> {LWPB_INT32, LWPB_SINT32, LWPB_SFIXED32, LWPB_ENUM, LWPB_UINT32, LWPB_FIXED32, LWPB_UINT64, LWPB_FIXED64,
      LWPB_INT64, LWPB_SINT64, LWPB_SFIXED64}"
  shows "pystring_to_lwpb itp (Py_str bs) t = Inr (None, True)"
  using assms by (auto simp: pystring_to_lwpb_def string_value_def scan_decimal_def scan_result_def)

section \<open>Single values\<close>

lemma varint_method:
  assumes num: "obj = Py_int i \<or> obj = Py_long i" and bs: "bs = varint_bytes (word_of_int i)"
  shows "\<exists>w'. Encoder_encode_varint obj w = Inr (Some (Py_str bs), w') \<and> w_mem w' = w_mem w \<and> w_app w' = w_app w \<and>
    (\<forall>m py. keeps itp m bs \<and> length m < 2 ^ 63 \<longrightarrow>
      Decoder_decode_varint itp m (Py_str bs) py =
        Inr (Some (Py_long (sint (word_of_int i :: u64)), Py_long (int (length bs))), py))"
proof -
  let ?v = "word_of_int i :: u64" and ?p = "length (w_mem w)"
  let ?m = "w_mem w @ fresh_bytes (w_any w) ?p 64"
  have len: "length bs \<le> 10"
    using length_varint_bytes by (simp add: bs)
  then have size: "unat (of_nat (length bs) :: u64) = length bs" "\<not> 2 ^ 63 \<le> (of_nat (length bs) :: u64)"
    by (simp_all add: unat_of_nat word_le_nat_alt)
  have enc: "lwpb_encode_varint ?m (Some ?p) ?v = Inr (poke ?m ?p bs, of_nat (length bs))"
    using len by (simp add: lwpb_encode_varint_eq stores_poke bs)
  have str: "string_of_bytes (poke ?m ?p bs) ?p (of_nat (length bs)) (w_app w) = Inr (Some (Py_str bs), w_app w)"
    using len size by (simp add: string_of_bytes_def PyString_FromStringAndSize_def loads_peek)
  have "mask_argument obj = Some i"
    using num by (auto simp: mask_argument_def)
  with enc str have run: "Encoder_encode_varint obj w = Inr (Some (Py_str bs), w\<lparr>w_mem := take ?p (poke ?m ?p bs), w_app := w_app w\<rparr>)"
    by (simp add: Encoder_encode_varint_def encode_value_def with_array_def Let_def)
  moreover have "take ?p (poke ?m ?p bs) = w_mem w"
    using len by (simp add: poke_def)
  moreover have "Decoder_decode_varint itp m (Py_str bs) py = Inr (Some (Py_long (sint ?v), Py_long (int (length bs))), py)"
    if "keeps itp m bs" "length m < 2 ^ 63" for m py
  proof -
    let ?buf = "lwpb_buf_init (string_addr itp bs) (of_nat (length bs))"
    have buf: "valid_buf m ?buf" "buf_pos ?buf + length bs \<le> buf_end ?buf" "peek m (buf_pos ?buf) (length bs) = bs"
      using that size by (auto simp: keeps_def valid_buf_def lwpb_buf_init_def)
    from varint.read_bytes [OF buf(1), of ?v] buf(2,3) have "lwpb_decode_varint m ?buf = Inr (LWPB_ERR_OK, advance (length bs) ?buf, ?v)"
      by (simp add: bs)
    then show ?thesis
      using len by (simp add: Decoder_decode_varint_def string_argument_def string_value_def value_tuple_def lwpb_buf_init_def)
  qed
  ultimately show ?thesis by simp
qed

end
