(* ===== verification/Py_Failures.thy ===== *)
theory Py_Failures
  imports Py_Errors
begin

text \<open>
  Dictionaries that Encoder_encode never turns into a string, whatever else they contain: those with an entry for a
  field of a signed 64 bit type, and those whose entry for a field of type message contains a value that is no
  dictionary. What encoding keeps of the state is shown first.
\<close>

section \<open>What encoding an object keeps\<close>

text \<open>Neither the objects nor the size of the memory change, whatever is encoded.\<close>

definition enc_kept :: "py_enc \<Rightarrow> py_enc \<Rightarrow> bool" where
  "enc_kept st st' \<longleftrightarrow> (case st of (m, enc, py) \<Rightarrow> case st' of (m', enc', py') \<Rightarrow>
     length m' = length m \<and> py_store py' = py_store py)"

lemma enc_kept_trans: "enc_kept st st1 \<Longrightarrow> enc_kept st1 st2 \<Longrightarrow> enc_kept st st2"
  by (auto simp: enc_kept_def)

lemma enc_kept_refl [simp]: "enc_kept st st"
  by (simp add: enc_kept_def split: prod.split)

lemma stores_length: "stores m a bs = Inr m' \<Longrightarrow> length m' = length m"
  by (induction bs arbitrary: m a) (auto simp: andthen_eq_Inr store_def split: if_splits)

lemma store_opt_length: "store_opt m a bs = Inr m' \<Longrightarrow> length m' = length m"
  by (cases a) (auto dest: stores_length)

lemma copy_payload_length: "copy_payload fd m a p n = Inr m' \<Longrightarrow> length m' = length m"
  by (auto simp: copy_payload_def memcpy_def memmove_def split: if_splits)

lemma encode2_wire_value_length: "encode2_wire_value fd ev m buf = Inr (m', len) \<Longrightarrow> length m' = length m"
  by (cases ev) (auto simp: encode2_wire_value_def encode2_prims andthen_eq_Inr move_buf_def
      split: option.split_asm dest!: stores_length store_opt_length copy_payload_length)

lemma add_field2_length: "lwpb_encoder2_add_field m enc fd v buf = Inr (m', len) \<Longrightarrow> length m' = length m"
  by (auto simp: add_field2_alt encode2_prims andthen_eq_Inr
      split: if_splits dest!: store_opt_length encode2_wire_value_length)

lemma py_to_lwpb_store: "py_to_lwpb itp x t py = Inr (v, py') \<Longrightarrow> py_store py' = py_store py"
  by (cases t) (auto simp: py_to_lwpb_def long_to_int32_def convert_to_long_def PyLong_AsUnsignedLongLong_def Let_def andthen_eq_Inr
      split: option.split_asm py.split_asm if_splits)

lemma packed_finish_kept: "packed_finish fd buf fieldbuf len st = Inr (len', st') \<Longrightarrow> enc_kept st st'"
  by (auto simp: packed_finish_def enc_kept_def andthen_eq_Inr split: if_splits prod.splits dest: add_field2_length)

lemma encode_kept:
  "pyobject_encode n itp ds obj msg buf st = Inr (len, st') \<Longrightarrow> enc_kept st st'"
  "encode_fields n itp ds obj fds buf len0 extralen st = Inr (len, st') \<Longrightarrow> enc_kept st st'"
  "encode_values n itp ds fd xs buf fieldlen extralen st = Inr (r, st') \<Longrightarrow> enc_kept st st'"
proof (induction n itp ds obj msg buf st and n itp ds obj fds buf len0 extralen st and n itp ds fd xs buf fieldlen extralen st
    arbitrary: len st' and len st' and r st' rule: pyobject_encode_encode_fields_encode_values.induct)
  case (2 n itp ds obj msg_desc buf m enc py)
  show ?case
  proof (cases "PyDict_Check py obj")
    case True
    with "2.prems" obtain md where md: "deref_msg ds msg_desc = Inr md"
      and flds: "encode_fields n itp ds obj (msg_fields md) buf 0 0 (m, enc, py) = Inr (len, st')"
      by (auto simp: andthen_eq_Inr)
    show ?thesis
      by (rule "2.IH" [OF _ md flds]) (simp add: True)
  next
    case False
    with "2.prems" show ?thesis
      by (auto simp: enc_kept_def)
  qed
next
  case (4 n itp ds obj fd fds buf len0 extralen m enc py)
  show ?case
  proof (cases "PyDict_GetItemString py obj (fd_name fd)")
    case None
    with 4 show ?thesis by simp
  next
    case (Some x)
    with "4.prems" obtain fieldbuf extralen1 enc1 r st1 where
      start: "packed_begin fd buf extralen enc = Inr (fieldbuf, extralen1, enc1)"
      and vals: "encode_values n itp ds fd (field_values py x) fieldbuf 0 extralen1 (m, enc1, py) = Inr (r, st1)"
      and rest: "(case r of None \<Rightarrow> Inr (- 1, st1) | Some (fieldlen, extralen) \<Rightarrow>
         andthen (packed_finish fd buf fieldbuf fieldlen st1) (\<lambda>(fieldlen, st).
         encode_fields n itp ds obj fds (move_buf buf fieldlen) (len0 + fieldlen) extralen st)) = Inr (len, st')"
      by (auto simp: andthen_eq_Inr)
    have kept: "enc_kept (m, enc, py) st1"
      using "4.IH"(2) [OF Some start refl refl vals] by (simp add: enc_kept_def split: prod.splits)
    show ?thesis
    proof (cases r)
      case None
      with rest kept show ?thesis by simp
    next
      case (Some p)
      obtain fieldlen extralen2 where p: "p = (fieldlen, extralen2)" by fastforce
      with rest Some obtain fieldlen1 st2 where fin: "packed_finish fd buf fieldbuf fieldlen st1 = Inr (fieldlen1, st2)"
        and flds: "encode_fields n itp ds obj fds (move_buf buf fieldlen1) (len0 + fieldlen1) extralen2 st2 = Inr (len, st')"
        by (auto simp: andthen_eq_Inr)
      from "4.IH"(3) [OF \<open>PyDict_GetItemString py obj (fd_name fd) = Some x\<close> start refl refl vals refl Some p [symmetric] fin refl flds]
      show ?thesis
        using kept packed_finish_kept [OF fin] by (blast intro: enc_kept_trans)
    qed
  qed
next
  case (6 n itp ds fd x xs buf fieldlen extralen m enc py)
  obtain v extralen1 m1 enc1 py1 where
    v: "(if field_type fd = LWPB_MESSAGE then
         (let nestedbuf = ptr_add buf MSG_RESERVE_BYTES in
          andthen (pyobject_encode n itp ds x (fd_msg_desc fd) nestedbuf (m, enc, py)) (\<lambda>(nestedlen, st).
            Inr (Some (V_message (ptr_addr nestedbuf) nestedlen), extralen + of_nat MSG_RESERVE_BYTES, st)))
       else
         andthen (py_to_lwpb itp x (field_type fd) py) (\<lambda>(v, py). Inr (v, extralen, m, enc, py))) = Inr (v, extralen1, m1, enc1, py1)"
    and rest: "(case v of None \<Rightarrow> Inr (None, m1, enc1, py1)
     | Some val \<Rightarrow>
         andthen (lwpb_encoder2_add_field m1 enc1 fd val buf) (\<lambda>(m, valuelen).
         encode_values n itp ds fd xs (move_buf buf valuelen) (fieldlen + valuelen) extralen1 (m, enc1, py1))) = Inr (r, st')"
    using "6.prems" by (auto simp: andthen_eq_Inr)
  have kept: "enc_kept (m, enc, py) (m1, enc1, py1)"
  proof (cases "field_type fd = LWPB_MESSAGE")
    case True
    with v show ?thesis
      using "6.IH"(1) by (auto simp: andthen_eq_Inr Let_def)
  next
    case False
    with v show ?thesis
      by (auto simp: andthen_eq_Inr enc_kept_def dest: py_to_lwpb_store)
  qed
  show ?case
  proof (cases v)
    case None
    with rest kept show ?thesis by simp
  next
    case (Some val)
    with rest obtain m2 valuelen where add: "lwpb_encoder2_add_field m1 enc1 fd val buf = Inr (m2, valuelen)"
      and vals: "encode_values n itp ds fd xs (move_buf buf valuelen) (fieldlen + valuelen) extralen1 (m2, enc1, py1) = Inr (r, st')"
      by (auto simp: andthen_eq_Inr)
    have "enc_kept (m2, enc1, py1) st'"
      by (rule "6.IH"(2) [OF v refl refl refl refl Some add refl vals])
    with kept add_field2_length [OF add] show ?thesis
      by (auto simp: enc_kept_def)
  qed
qed simp_all


section \<open>Entries that cannot be encoded, in any dictionary\<close>

text \<open>
  Once the values of a field make encode_values fail, so does the encoding of every object with the field: it
  crashes or reports the size -1.
\<close>

definition fails :: "(u64 \<times> py_enc) run \<Rightarrow> bool" where
  "fails r \<longleftrightarrow> (\<forall>len st. r = Inr (len, st) \<longrightarrow> len = - 1)"

lemma fails_simps [simp]: "fails (Inl e)" "fails (Inr (- 1, st))"
  by (simp_all add: fails_def)

lemma same_entries:
  "py_store py' = py_store py \<Longrightarrow> PyDict_GetItemString py' obj k = PyDict_GetItemString py obj k"
  "py_store py' = py_store py \<Longrightarrow> field_values py' x = field_values py x"
  by (simp_all add: PyDict_GetItemString_def field_values_def items_store [of py' py])

lemma packed_begin_fieldbuf: "packed_begin fd buf extralen enc = Inr (fieldbuf, extralen1, enc1) \<Longrightarrow> fieldbuf = None \<longleftrightarrow> buf = None"
  by (auto simp: packed_begin_def ptr_add_def andthen_eq_Inr split: if_splits)

lemma encode_fields_fails:
  assumes vals: "\<And>fieldbuf extralen m enc py r st. length m = k \<Longrightarrow> py_store py = s \<Longrightarrow> (fieldbuf = None \<longleftrightarrow> null) \<Longrightarrow>
      encode_values n itp ds fd (field_values py x) fieldbuf 0 extralen (m, enc, py) = Inr (r, st) \<Longrightarrow> r = None"
  shows "fd \<in> set fds \<Longrightarrow> length m = k \<Longrightarrow> py_store py = s \<Longrightarrow> (buf = None \<longleftrightarrow> null) \<Longrightarrow>
    PyDict_GetItemString py obj (fd_name fd) = Some x \<Longrightarrow>
    fails (encode_fields n itp ds obj fds buf len extralen (m, enc, py))"
proof (induction fds arbitrary: buf len extralen m enc py)
  case (Cons f fds)
  show ?case
  proof (cases "PyDict_GetItemString py obj (fd_name f)")
    case None
    with Cons show ?thesis by auto
  next
    case Some_y: (Some y)
    show ?thesis
      unfolding fails_def
    proof (intro allI impI)
      fix len' st
      assume "encode_fields n itp ds obj (f # fds) buf len extralen (m, enc, py) = Inr (len', st)"
      with Some_y obtain fieldbuf extralen1 enc1 r st1 where
        start: "packed_begin f buf extralen enc = Inr (fieldbuf, extralen1, enc1)"
        and run: "encode_values n itp ds f (field_values py y) fieldbuf 0 extralen1 (m, enc1, py) = Inr (r, st1)"
        and rest: "(case r of None \<Rightarrow> Inr (- 1, st1) | Some (fieldlen, extralen) \<Rightarrow>
           andthen (packed_finish f buf fieldbuf fieldlen st1) (\<lambda>(fieldlen, st).
           encode_fields n itp ds obj fds (move_buf buf fieldlen) (len + fieldlen) extralen st)) = Inr (len', st)"
        by (auto simp: andthen_eq_Inr)
      show "len' = - 1"
      proof (cases r)
        case None
        with rest show ?thesis by simp
      next
        case (Some p)
        obtain fieldlen extralen2 where p: "p = (fieldlen, extralen2)" by fastforce
        with rest Some obtain fieldlen1 m2 enc2 py2 where fin: "packed_finish f buf fieldbuf fieldlen st1 = Inr (fieldlen1, m2, enc2, py2)"
          and flds: "encode_fields n itp ds obj fds (move_buf buf fieldlen1) (len + fieldlen1) extralen2 (m2, enc2, py2) = Inr (len', st)"
          by (auto simp: andthen_eq_Inr)
        have "enc_kept (m, enc1, py) (m2, enc2, py2)"
          using encode_kept(3) [OF run] packed_finish_kept [OF fin] by (rule enc_kept_trans)
        then have kept: "length m2 = k" "py_store py2 = s"
          using Cons.prems(2,3) by (simp_all add: enc_kept_def)
        have "f \<noteq> fd"
        proof
          assume f: "f = fd"
          then have "y = x"
            using Cons.prems(5) Some_y by simp
          moreover have null: "fieldbuf = None \<longleftrightarrow> null"
            using packed_begin_fieldbuf [OF start] Cons.prems(4) by simp
          ultimately show False
            using vals [OF Cons.prems(2,3) null] run f Some by blast
        qed
        then have "fd \<in> set fds"
          using Cons.prems(1) by simp
        moreover have "move_buf buf fieldlen1 = None \<longleftrightarrow> null" "PyDict_GetItemString py2 obj (fd_name fd) = Some x"
          using Cons.prems(3,4,5) kept same_entries(1) [of py2 py] by (auto simp: move_buf_def)
        ultimately have "fails (encode_fields n itp ds obj fds (move_buf buf fieldlen1) (len + fieldlen1) extralen2 (m2, enc2, py2))"
          using Cons.IH kept by blast
        with flds show ?thesis
          unfolding fails_def by blast
      qed
    qed
  qed
qed simp

lemma pyobject_encode_fails:
  assumes vals: "\<And>k' fieldbuf extralen m enc py r st. k = Suc k' \<Longrightarrow> length m = l \<Longrightarrow> py_store py = s \<Longrightarrow> (fieldbuf = None \<longleftrightarrow> null) \<Longrightarrow>
      encode_values k' itp ds fd (field_values py x) fieldbuf 0 extralen (m, enc, py) = Inr (r, st) \<Longrightarrow> r = None"
    and "fd \<in> set (msg_fields (ds ! i))" "i < length ds" and "length m = l" "py_store py = s" "buf = None \<longleftrightarrow> null"
    and "PyDict_GetItemString py obj (fd_name fd) = Some x"
  shows "fails (pyobject_encode k itp ds obj (Some i) buf (m, enc, py))"
proof (cases k)
  case (Suc k')
  have "PyDict_Check py obj"
    using assms(7) by (auto simp: PyDict_Check_def PyDict_GetItemString_def split: option.split_asm)
  moreover have "fails (encode_fields k' itp ds obj (msg_fields (ds ! i)) buf 0 0 (m, enc, py))"
    by (rule encode_fields_fails [where k = l and s = s and null = null, OF vals [OF Suc] assms(2,4,5,6,7)])
  ultimately show ?thesis
    using Suc assms(3) by (simp add: deref_msg_def)
qed (simp add: fails_def)

text \<open>Values of signed 64 bit types: a value that is converted is read without having been written.\<close>

definition int64_typ :: "field_typ \<Rightarrow> bool" where
  "int64_typ t \<longleftrightarrow> t = LWPB_INT64 \<or> t = LWPB_SINT64 \<or> t = LWPB_SFIXED64"

lemma int64_value:
  assumes "int64_typ (field_type fd)" and "py_to_lwpb itp y (field_type fd) py = Inr (Some v, py')"
  shows "lwpb_encoder2_add_field m enc fd v buf = Inl Undef"
proof -
  have "\<exists>i. v = V_int32 i"
    using assms by (auto simp: int64_typ_def py_to_lwpb_def long_to_int32_def andthen_eq_Inr split: option.split_asm)
  with assms(1) show ?thesis
    by (auto simp: int64_typ_def lwpb_encoder2_add_field_def wire_of_value_def)
qed

lemma int64_values:
  assumes "int64_typ (field_type fd)" and "xs \<noteq> []" and "encode_values n itp ds fd xs buf fieldlen extralen (m, enc, py) = Inr (r, st)"
  shows "r = None"
proof -
  obtain y ys where "xs = y # ys"
    using assms(2) by (cases xs) auto
  with assms(1,3) show ?thesis
    using int64_value [OF assms(1), of itp y py]
    by (auto simp: int64_typ_def andthen_eq_Inr split: option.split_asm)
qed


lemma encode_pass_fails:
  assumes "fails (pyobject_encode n itp ds obj (Some i) buf (w_mem w, enc\<lparr>enc2_packed := False\<rparr>, w_app w))"
    and "i < length ds" "length ds < 2 ^ 31" and "encode_pass n itp ds obj (word_of_int (int i)) buf enc w = Inr (len, enc', w')"
  shows "len = - 1" "w_avail w' = w_avail w"
  using assms msgnum_ok(1) [OF assms(2,3)]
  by (auto simp: encode_pass_def lwpb_encoder2_start_def andthen_eq_Inr fails_def)

lemma huge_calloc: "w_avail w < 2 ^ 64 - 1 \<Longrightarrow> c_calloc (unat (- 1 :: u64)) w = (None, w)"
  by (simp add: c_calloc_def unat_size_max)

text \<open>An error in the first pass: the allocation of 2 ^ 64 - 1 bytes fails.\<close>

lemma first_pass_fails:
  assumes x: "PyDict_GetItemString (w_app w) obj k = Some x" and ds: "i < length ds" "length ds < 2 ^ 31"
    and pass: "fails (pyobject_encode n itp ds obj (Some i) None (w_mem w, enc\<lparr>enc2_packed := False\<rparr>, w_app w))"
    and mem: "w_avail w < 2 ^ 64 - 1" and run: "Encoder_encode n itp ds enc obj (Py_int (int i)) w = Inr (s, enc', w')"
  shows "s = None \<and> py_error (w_app w') = Some (MemoryError, ''unable to allocate string'')"
proof -
  have dict: "PyDict_Check (w_app w) obj"
    using x by (auto simp: PyDict_Check_def PyDict_GetItemString_def split: option.split_asm)
  with run msgnum_ok(2) [OF ds] obtain len enc1 w1 where
    first: "encode_pass n itp ds obj (word_of_int (int i)) None enc w = Inr (len, enc1, w1)"
    by (auto simp: Encoder_encode_def int_argument_index [OF ds] encode_parsed_def andthen_eq_Inr)
  have "len = - 1" "w_avail w1 = w_avail w"
    using encode_pass_fails [OF pass ds first] by simp_all
  with first run dict mem msgnum_ok(2) [OF ds] huge_calloc [of w1] show ?thesis
    by (auto simp: Encoder_encode_def int_argument_index [OF ds] encode_parsed_def PyErr_SetString_def)
qed

text \<open>An entry of a signed 64 bit type: the encoder never returns a string.\<close>

lemma int64_fails:
  assumes x: "PyDict_GetItemString (w_app w) obj (fd_name fd) = Some x" "field_values (w_app w) x \<noteq> []"
    and fd: "fd \<in> set (msg_fields (ds ! i))" "int64_typ (field_type fd)" and ds: "i < length ds" "length ds < 2 ^ 31"
    and mem: "w_avail w < 2 ^ 64 - 1" and run: "Encoder_encode n itp ds enc obj (Py_int (int i)) w = Inr (s, enc', w')"
  shows "s = None \<and> py_error (w_app w') = Some (MemoryError, ''unable to allocate string'')"
proof -
  have stuck: "r = None" if "py_store py = py_store (w_app w)"
    "encode_values k itp ds fd (field_values py x) fieldbuf 0 extralen (m, enc, py) = Inr (r, st)" for k py fieldbuf extralen m enc r st
    using int64_values [OF fd(2) _ that(2)] same_entries(2) [OF that(1), of x] x(2) by simp
  have "fails (pyobject_encode n itp ds obj (Some i) None (w_mem w, enc\<lparr>enc2_packed := False\<rparr>, w_app w))"
    by (rule pyobject_encode_fails [OF stuck fd(1) ds(1) refl refl refl x(1)])
  then show ?thesis
    by (rule first_pass_fails [OF x(1) ds _ mem run])
qed

lemma encode_fields_absent:
  "\<forall>f \<in> set pre. PyDict_GetItemString py obj (fd_name f) = None \<Longrightarrow>
     encode_fields n itp ds obj (pre @ rest) buf len extralen (m, enc, py) = encode_fields n itp ds obj rest buf len extralen (m, enc, py)"
  by (induction pre) auto

text \<open>A number that the encoder comes to first, in a list or not.\<close>

lemma int64_number:
  assumes "int64_typ (field_type fd)" and "number_value itp z \<noteq> None"
  shows "encode_values n itp ds fd (z # zs) buf fieldlen extralen (m, enc, py) = Inl Undef"
  using assms
  by (auto simp: int64_typ_def py_to_lwpb_def long_to_int32_def convert_to_long_def PyNumber_Int_def int_object_def in_long_def INT64_MIN_def INT64_MAX_def
      lwpb_encoder2_add_field_def wire_of_value_def)

lemma int64_first:
  assumes x: "PyDict_GetItemString (w_app w) obj (fd_name fd) = Some x" "field_values (w_app w) x = z # zs" "number_value itp z \<noteq> None"
    and fd: "j < length (msg_fields (ds ! i))" "fd = the_field ds i j" "int64_typ (field_type fd)"
    and before: "\<forall>k < j. PyDict_GetItemString (w_app w) obj (fd_name (the_field ds i k)) = None"
    and ds: "i < length ds" "length ds < 2 ^ 31" and n: "0 < n"
  shows "Encoder_encode n itp ds enc obj (Py_int (int i)) w = Inl Undef"
proof -
  let ?pre = "take j (msg_fields (ds ! i))" and ?post = "drop (Suc j) (msg_fields (ds ! i))"
  obtain n' where n': "n = Suc n'"
    using n by (cases n) auto
  have dict: "PyDict_Check (w_app w) obj"
    using x(1) by (auto simp: PyDict_Check_def PyDict_GetItemString_def split: option.split_asm)
  have "msg_fields (ds ! i) = ?pre @ fd # ?post"
    using fd(1,2) by (simp add: the_field_def id_take_nth_drop [symmetric])
  moreover have "\<forall>f \<in> set ?pre. PyDict_GetItemString (w_app w) obj (fd_name f) = None"
    using before fd(1) by (auto simp: the_field_def in_set_conv_nth)
  moreover have "encode_fields n' itp ds obj (fd # ?post) None 0 0 (w_mem w, enc\<lparr>enc2_packed := False\<rparr>, w_app w) = Inl Undef" for enc
    using x int64_number [OF fd(3) x(3)]
    by (simp add: packed_begin_def lwpb_encoder2_packed_repeated_start_def lwpb_assert_def del: encode_values.simps)
  ultimately have "encode_fields n' itp ds obj (msg_fields (ds ! i)) None 0 0 (w_mem w, enc\<lparr>enc2_packed := False\<rparr>, w_app w) = Inl Undef" for enc
    using encode_fields_absent by metis
  then show ?thesis
    using n' dict msgnum_ok [OF ds] ds(1)
    by (simp add: Encoder_encode_def int_argument_index [OF ds] encode_parsed_def encode_pass_def lwpb_encoder2_start_def deref_msg_def)
qed

text \<open>A nested message that is not a dictionary: in the second pass 2 ^ 64 - 1 bytes are moved.\<close>

lemma nested_move:
  assumes "field_type fd = LWPB_MESSAGE" and "length m < 2 ^ 64 - 1"
  shows "\<exists>e. lwpb_encoder2_add_field m enc fd (V_message a (- 1)) (Some b) = Inl e"
proof -
  have copied: "copy_payload fd m' q a (2 ^ 64 - 1) = Inl Fault" if "length m' = length m" for m' q
    using assms that by (simp add: copy_payload_def memmove_def)
  have "chosen_value (enc2_packed enc) fd (V_message a (- 1)) = Inr (E_string a (- 1))"
    using assms(1) by (simp add: chosen_value_def wire_of_value_def override_packed_def)
  then show ?thesis
    using copied
    by (cases "lwpb_encoder2_add_field m enc fd (V_message a (- 1)) (Some b)")
      (auto simp: add_field2_alt encode2_wire_value_def encode2_prims andthen_eq_Inr unat_size_max split: if_splits dest!: stores_length)
qed

lemma nested_values:
  assumes "field_type fd = LWPB_MESSAGE" and "length m < 2 ^ 64 - 1" and "x \<in> set xs" and "dict_items py x = None"
    and "encode_values n itp ds fd xs (Some b) fieldlen extralen (m, enc, py) = Inr (r, st)"
  shows "r = None"
  using assms
proof (induction xs arbitrary: b fieldlen extralen m enc py)
  case (Cons y ys)
  from Cons.prems(1,5) obtain nestedlen m1 enc1 py1 m2 valuelen where
    nested: "pyobject_encode n itp ds y (fd_msg_desc fd) (Some (b + MSG_RESERVE_BYTES)) (m, enc, py) = Inr (nestedlen, m1, enc1, py1)"
    and add: "lwpb_encoder2_add_field m1 enc1 fd (V_message (b + MSG_RESERVE_BYTES) nestedlen) (Some b) = Inr (m2, valuelen)"
    and rest: "encode_values n itp ds fd ys (Some (b + unat valuelen)) (fieldlen + valuelen) (extralen + of_nat MSG_RESERVE_BYTES) (m2, enc1, py1) = Inr (r, st)"
    by (auto simp: andthen_eq_Inr Let_def ptr_add_def ptr_addr_def)
  have kept: "length m1 = length m" "py_store py1 = py_store py"
    using encode_kept(1) [OF nested] by (simp_all add: enc_kept_def)
  show ?case
  proof (cases "dict_items py y")
    case None
    with nested have "nestedlen = - 1"
      by (cases n) (simp_all add: PyDict_Check_def)
    with add nested_move [OF Cons.prems(1), of m1 enc1 "b + MSG_RESERVE_BYTES" b] kept Cons.prems(2) show ?thesis
      by auto
  next
    case (Some kvs)
    then have "x \<in> set ys"
      using Cons.prems(3,4) by auto
    moreover have "dict_items py1 x = None"
      using Cons.prems(4) items_store(2) [OF kept(2)] by simp
    ultimately show ?thesis
      using Cons.IH [OF Cons.prems(1) _ _ _ rest] kept(1) add_field2_length [OF add] Cons.prems(2) by simp
  qed
qed simp

lemma nested_fails:
  assumes y: "PyDict_GetItemString (w_app w) obj (fd_name fd) = Some y" "x \<in> set (field_values (w_app w) y)" "dict_items (w_app w) x = None"
    and fd: "fd \<in> set (msg_fields (ds ! i))" "field_type fd = LWPB_MESSAGE" and ds: "i < length ds" "length ds < 2 ^ 31"
    and mem: "length (w_mem w) + w_avail w < 2 ^ 64 - 1" and run: "Encoder_encode n itp ds enc obj (Py_int (int i)) w = Inr (s, enc', w')"
  shows "s = None \<and> (py_error (w_app w') = Some (MemoryError, ''unable to allocate string'') \<or> (\<exists>t. py_error (w_app w') = Some (SystemError, t)))"
proof -
  have dict: "PyDict_Check (w_app w) obj"
    using y(1) by (auto simp: PyDict_Check_def PyDict_GetItemString_def split: option.split_asm)
  with run msgnum_ok(2) [OF ds] obtain len enc1 w1 where
    first: "encode_pass n itp ds obj (word_of_int (int i)) None enc w = Inr (len, enc1, w1)"
    by (auto simp: Encoder_encode_def int_argument_index [OF ds] encode_parsed_def andthen_eq_Inr)
  have w1: "length (w_mem w1) = length (w_mem w)" "py_store (w_app w1) = py_store (w_app w)" "w_avail w1 = w_avail w"
    using first encode_kept(1) by (fastforce simp: encode_pass_def Let_def andthen_eq_Inr enc_kept_def)+
  show ?thesis
  proof (cases "unat len \<le> w_avail w")
    case False
    with first run dict msgnum_ok(2) [OF ds] w1(3) show ?thesis
      by (auto simp: Encoder_encode_def int_argument_index [OF ds] encode_parsed_def PyErr_SetString_def c_calloc_def)
  next
    case True
    let ?p = "length (w_mem w1)"
    define w2 where "w2 = snd (c_calloc (unat len) w1)"
    have w2: "c_calloc (unat len) w1 = (Some ?p, w2)" "length (w_mem w2) = ?p + unat len" "py_store (w_app w2) = py_store (w_app w)"
      using True w1 by (simp_all add: w2_def c_calloc_def Let_def)
    have "length (w_mem w2) < 2 ^ 64 - 1"
      using w1(1) w2(2) True mem by simp
    then have stuck: "r = None" if "length m = length (w_mem w2)" "py_store py = py_store (w_app w2)" "(fieldbuf = None) = False"
      "encode_values k itp ds fd (field_values py y) fieldbuf 0 extralen (m, enc, py) = Inr (r, st)" for k fieldbuf extralen m enc py r st
      using nested_values [of fd m x "field_values py y" py k itp ds _ 0 extralen enc r st] that y(2,3) fd(2) same_entries(2) [of py "w_app w" y]
        items_store(2) [of py "w_app w" x] w2(3) by auto
    have y': "PyDict_GetItemString (w_app w2) obj (fd_name fd) = Some y"
      using y(1) same_entries(1) [OF w2(3)] by simp
    have pass: "fails (pyobject_encode n itp ds obj (Some i) (Some ?p) (w_mem w2, enc1\<lparr>enc2_packed := False\<rparr>, w_app w2))"
      by (rule pyobject_encode_fails [where null = False, OF stuck fd(1) ds(1) refl refl _ y']) simp_all
    from first run dict msgnum_ok(2) [OF ds] w2(1) obtain len' enc2 w3 s' py4 w5 where
      second: "encode_pass n itp ds obj (word_of_int (int i)) (Some ?p) enc1 w2 = Inr (len', enc2, w3)"
      and str: "string_of_bytes (w_mem w3) (ptr_addr (Some ?p)) len' (w_app w3) = Inr (s', py4)"
      and freed: "c_free (Some ?p) (w3\<lparr>w_app := py4\<rparr>) = Inr w5" and res: "s = s'" "w' = w5"
      by (auto simp: Encoder_encode_def int_argument_index [OF ds] encode_parsed_def andthen_eq_Inr)
    have "len' = - 1"
      using encode_pass_fails(1) [OF pass ds second] .
    with str have "s' = None" "py4 = raises SystemError (w_app w3)"
      by (auto simp: string_of_bytes_def split: if_splits)
    with freed res show ?thesis
      by (auto simp: c_free_def raises_def split: option.splits if_splits)
  qed
qed

end
