(* ===== verification/Py_Descriptor.thy ===== *)
theory Py_Descriptor
  imports Py_Primitives Debug
begin

text \<open>
  The Descriptor class of the Python bindings, src/python/descriptor.c: the message descriptors that are
  made of a dictionary in the form of a file descriptor of protocol buffers. A list has less than 2 to the 32 items.
\<close>

section \<open>The object\<close>

text \<open>
  The tables are cleared memory in the beginning, so that the names may be NULL. A name is a copy that is
  kept on the list of strings; the pointer to it is the C string it points to.
\<close>

record field_init =
  fi_number :: u32
  fi_label :: "2 word"
  fi_typ :: "6 word"
  fi_flags :: u8
  fi_msg_desc :: "msg_ref option"
  fi_name :: "u8 list option"
  fi_def :: lwpb_value

record msg_init =
  mi_fields :: "field_init list"
  mi_name :: "u8 list option"

text \<open>A union of zero bytes reads as 0, and as NULL and 0.\<close>

definition zero_field :: field_init where
  "zero_field = \<lparr>fi_number = 0, fi_label = 0, fi_typ = 0, fi_flags = 0, fi_msg_desc = None, fi_name = None,
     fi_def = V_message 0 0\<rparr>"

definition zero_msg :: msg_init where
  "zero_msg = \<lparr>mi_fields = [], mi_name = None\<rparr>"

text \<open>The numbers of labels and types in the bit fields.\<close>

definition label_of :: "2 word \<Rightarrow> field_label" where
  "label_of l = (if l = 1 then LWPB_OPTIONAL else if l = 2 then LWPB_REQUIRED else if l = 3 then LWPB_REPEATED else LWPB_NO_LABEL)"

definition typ_of :: "6 word \<Rightarrow> field_typ" where
  "typ_of t = (case find (\<lambda>ty. of_nat (typ_code ty) = t)
       [LWPB_DOUBLE, LWPB_FLOAT, LWPB_INT64, LWPB_UINT64, LWPB_INT32, LWPB_FIXED64, LWPB_FIXED32, LWPB_BOOL, LWPB_STRING,
        LWPB_GROUP, LWPB_MESSAGE, LWPB_BYTES, LWPB_UINT32, LWPB_ENUM, LWPB_SFIXED32, LWPB_SFIXED64, LWPB_SINT32, LWPB_SINT64] of
       Some ty \<Rightarrow> ty
     | None \<Rightarrow> LWPB_TYP_OTHER t)"

text \<open>The object, and the number of times that calloc can still allocate memory.\<close>

record descriptor =
  de_strings :: py
  de_message_types :: py
  de_num_msgs :: u32
  de_msg_desc :: "msg_init list option"
  de_allocs :: nat

type_synonym py_desc = "descriptor \<times> python"

definition Descriptor_new :: "nat \<Rightarrow> python \<Rightarrow> py_desc" where
  "Descriptor_new allocs py =
     (let (strings, py) = new_list [] py; (types, py) = PyDict_New py in
      (\<lparr>de_strings = strings, de_message_types = types, de_num_msgs = 0, de_msg_desc = None, de_allocs = allocs\<rparr>, py))"

definition PyDict_Clear :: "py \<Rightarrow> python \<Rightarrow> python" where
  "PyDict_Clear d py = (if PyDict_Check py d then put_container d (Dict_of []) py else py)"

text \<open>The loop over the messages reads their fields.\<close>

definition Descriptor_clear :: "py_desc \<Rightarrow> py_desc run" where
  "Descriptor_clear st = (case st of (self, py) \<Rightarrow>
     if de_msg_desc self = None \<and> 0 < de_num_msgs self then Inl Fault
     else
       let self = (if de_msg_desc self \<noteq> None then self\<lparr>de_msg_desc := None, de_num_msgs := 0\<rparr> else self);
           py = PyList_DelSlice (de_strings self) 0 (PyList_Size py (de_strings self)) py in
       Inr (self, PyDict_Clear (de_message_types self) py))"

text \<open>After the object is cleared its memory is freed; what it points to is not used any more.\<close>

definition Descriptor_dealloc :: "py_desc \<Rightarrow> python run" where
  "Descriptor_dealloc st = andthen (Descriptor_clear st) (\<lambda>(self, py). Inr py)"

text \<open>The string is given by its bytes; the result is the C string at the copy.\<close>

definition Descriptor_store_string :: "py_desc \<Rightarrow> u8 list \<Rightarrow> (u8 list \<times> py_desc) run" where
  "Descriptor_store_string st bs = (case st of (self, py) \<Rightarrow>
     andthen (PyList_Append (Some (de_strings self)) (Py_str bs) py) (\<lambda>py. Inr (c_str bs, self, py)))"

section \<open>Reading the dictionary\<close>

definition chars :: "u8 list \<Rightarrow> string" where
  "chars bs = map (\<lambda>b. char_of (unat b)) bs"

definition string_prop :: "python \<Rightarrow> py \<Rightarrow> string \<Rightarrow> u8 list option" where
  "string_prop py d key = (case PyDict_GetItemString py d key of Some (Py_str bs) \<Rightarrow> Some bs | _ \<Rightarrow> None)"

definition int_prop :: "python \<Rightarrow> py \<Rightarrow> string \<Rightarrow> int option" where
  "int_prop py d key = (case PyDict_GetItemString py d key of
       Some (Py_int i) \<Rightarrow> Some i | Some (Py_bool b) \<Rightarrow> Some (of_bool b) | _ \<Rightarrow> None)"

definition list_prop :: "python \<Rightarrow> py \<Rightarrow> string \<Rightarrow> py list option" where
  "list_prop py d key = Option.bind (PyDict_GetItemString py d key) (list_items py)"

text \<open>The values of an enumeration with a given name.\<close>

fun enum_number :: "python \<Rightarrow> u8 list \<Rightarrow> py list \<Rightarrow> int option" where
  "enum_number py name [] = None"
| "enum_number py name (v # vs) =
     (if PyDict_Check py v \<and> string_prop py v ''name'' = Some name \<and> int_prop py v ''number'' \<noteq> None
      then int_prop py v ''number'' else enum_number py name vs)"

fun find_enum :: "python \<Rightarrow> u8 list \<Rightarrow> py list \<Rightarrow> int option" where
  "find_enum py name [] = None"
| "find_enum py name (t # ts) =
     (case (if PyDict_Check py t then Option.bind (list_prop py t ''value'') (enum_number py name) else None) of
       Some i \<Rightarrow> Some i
     | None \<Rightarrow> find_enum py name ts)"

text \<open>lookup_enum: the result is -1 when there is no number.\<close>

definition lookup_enum :: "py \<Rightarrow> u8 list \<Rightarrow> python \<Rightarrow> int \<times> python" where
  "lookup_enum dict name py = (case PyDict_GetItemString py dict ''enum_type'' of
       None \<Rightarrow> (- 1, py)
     | Some enumtypes \<Rightarrow> (case list_items py enumtypes of
           None \<Rightarrow> (- 1, PyErr_SetString RuntimeError ''enum_type: list expected'' py)
         | Some ts \<Rightarrow> (case find_enum py name ts of None \<Rightarrow> - 1 | Some i \<Rightarrow> i, py)))"

section \<open>Initialisation\<close>

text \<open>The dictionary of a message and the list of its fields, if they are given.\<close>

definition message_fields :: "python \<Rightarrow> py \<Rightarrow> (py \<times> py list) option" where
  "message_fields py msgtype =
     (if PyDict_Check py msgtype then map_option (\<lambda>fs. (msgtype, fs)) (list_prop py msgtype ''field'') else None)"

text \<open>The descriptor of the message with index \<open>i\<close>.\<close>

definition put_msg :: "nat \<Rightarrow> msg_init \<Rightarrow> descriptor \<Rightarrow> descriptor" where
  "put_msg i m self = self\<lparr>de_msg_desc := map_option (\<lambda>ms. ms[i := m]) (de_msg_desc self)\<rparr>"

definition get_msg :: "nat \<Rightarrow> descriptor \<Rightarrow> msg_init run" where
  "get_msg i self = (case de_msg_desc self of None \<Rightarrow> Inl Fault
     | Some ms \<Rightarrow> if i < length ms then Inr (ms ! i) else Inl Fault)"

text \<open>Pass 0 for one message. The results of the passes say whether they come to an error.\<close>

definition init_message :: "u8 list \<Rightarrow> nat \<Rightarrow> py \<Rightarrow> py_desc \<Rightarrow> (bool \<times> py_desc) run" where
  "init_message package i msgtype st = (case st of (self, py) \<Rightarrow>
     case message_fields py msgtype of None \<Rightarrow> Inr (False, self, py)
     | Some (msgtype, fs) \<Rightarrow>
       if fs \<noteq> [] \<and> de_allocs self = 0
       then Inr (True, self, PyErr_SetString MemoryError ''unable to allocate field descriptors'' py)
       else
         let self = (if fs \<noteq> [] then self\<lparr>de_allocs := de_allocs self - 1\<rparr> else self) in
         andthen (get_msg i self) (\<lambda>m.
         let m = m\<lparr>mi_fields := replicate (length fs) zero_field\<rparr> in
         case string_prop py msgtype ''name'' of None \<Rightarrow> Inr (False, put_msg i m self, py)
         | Some bs \<Rightarrow>
             andthen (Descriptor_store_string (self, py) bs) (\<lambda>(name, self, py).
             andthen (PyDict_SetItemString (Some (de_message_types self))
               (chars (package @ [46] @ name)) (int_object (int i)) py) (\<lambda>py.
             Inr (False, put_msg i (m\<lparr>mi_name := Some name\<rparr>) self, py)))))"

text \<open>
  PyErr_Format with the names of the package, the message and the field: a name that is NULL is read.
\<close>

definition format_error :: "msg_init \<Rightarrow> field_init \<Rightarrow> python \<Rightarrow> python run" where
  "format_error m f py = (if mi_name m = None \<or> fi_name f = None then Inl Fault else Inr (raises RuntimeError py))"

text \<open>The default value. A string must be one that the type of the field can be read from.\<close>

definition field_default :: "interpreter \<Rightarrow> py \<Rightarrow> py \<Rightarrow> py \<Rightarrow> field_init \<Rightarrow> python \<Rightarrow> (bool \<times> field_init \<times> python) run" where
  "field_default itp dict msgtype prop f py =
     (if \<not> PyString_Check prop then Inr (False, f, py)
      else if typ_of (fi_typ f) = LWPB_ENUM then
        (case string_value itp prop of None \<Rightarrow> Inr (False, f, py)
         | Some name \<Rightarrow>
            let (i, py) = lookup_enum msgtype name py; f = f\<lparr>fi_def := V_int32 (word_of_int i)\<rparr> in
            if 0 \<le> sint (word_of_int i :: s32) then Inr (True, f, py)
            else let (i, py) = lookup_enum dict name py; f = f\<lparr>fi_def := V_int32 (word_of_int i)\<rparr> in
              Inr (0 \<le> sint (word_of_int i :: s32), f, py))
      else andthen (pystring_to_lwpb itp prop (typ_of (fi_typ f))) (\<lambda>(v, ok).
        Inr (ok, case v of None \<Rightarrow> f | Some v \<Rightarrow> f\<lparr>fi_def := v\<rparr>, py)))"

text \<open>The first message whose qualified name is the given one.\<close>

fun find_message :: "python \<Rightarrow> u8 list \<Rightarrow> u8 list \<Rightarrow> nat \<Rightarrow> py list \<Rightarrow> nat option" where
  "find_message py package typename k [] = None"
| "find_message py package typename k (t # ts) =
     (case (if PyDict_Check py t then string_prop py t ''name'' else None) of
       Some name \<Rightarrow> if typename = [46] @ package @ [46] @ c_str name then Some k
                    else find_message py package typename (Suc k) ts
     | None \<Rightarrow> find_message py package typename (Suc k) ts)"

definition resolve :: "python \<Rightarrow> u8 list \<Rightarrow> py list \<Rightarrow> py \<Rightarrow> nat option" where
  "resolve py package msgtypes field =
     Option.bind (string_prop py field ''type_name'') (\<lambda>typename. find_message py package typename 0 msgtypes)"

definition option_flag :: "python \<Rightarrow> py \<Rightarrow> string \<Rightarrow> u8 \<Rightarrow> u8" where
  "option_flag py options key flag = (if PyDict_GetItemString py options key = Some (Py_bool True) then flag else 0)"

definition option_flags :: "python \<Rightarrow> py \<Rightarrow> u8" where
  "option_flags py field = (case PyDict_GetItemString py field ''options'' of
       None \<Rightarrow> 0
     | Some options \<Rightarrow> if PyDict_Check py options
         then option_flag py options ''packed'' LWPB_IS_PACKED OR option_flag py options ''deprecated'' LWPB_IS_DEPRECATED else 0)"

text \<open>The number, the label, the type and the flags.\<close>

definition field_numbers :: "python \<Rightarrow> py \<Rightarrow> field_init \<Rightarrow> field_init" where
  "field_numbers py field f =
     f\<lparr>fi_number := (case int_prop py field ''number'' of None \<Rightarrow> fi_number f | Some i \<Rightarrow> word_of_int i),
       fi_label := (case int_prop py field ''label'' of None \<Rightarrow> fi_label f | Some i \<Rightarrow> word_of_int i),
       fi_typ := (case int_prop py field ''type'' of None \<Rightarrow> fi_typ f | Some i \<Rightarrow> word_of_int i),
       fi_flags := fi_flags f OR option_flags py field\<rparr>"

definition field_name :: "py \<Rightarrow> field_init \<Rightarrow> py_desc \<Rightarrow> (field_init \<times> py_desc) run" where
  "field_name field f st = (case string_prop (snd st) field ''name'' of
       None \<Rightarrow> Inr (f, st)
     | Some bs \<Rightarrow> andthen (Descriptor_store_string st bs) (\<lambda>(name, st). Inr (f\<lparr>fi_name := Some name\<rparr>, st)))"

text \<open>The message of a field of type message must be resolved.\<close>

definition field_message ::
    "u8 list \<Rightarrow> py list \<Rightarrow> msg_init \<Rightarrow> py \<Rightarrow> field_init \<Rightarrow> python \<Rightarrow> (bool \<times> field_init \<times> python) run" where
  "field_message package msgtypes m field f py =
     (if typ_of (fi_typ f) \<noteq> LWPB_MESSAGE then Inr (False, f, py)
      else
        let f = (case resolve py package msgtypes field of None \<Rightarrow> f | Some k \<Rightarrow> f\<lparr>fi_msg_desc := Some k\<rparr>) in
        if fi_msg_desc f \<noteq> None then Inr (False, f, py)
        else andthen (format_error m f py) (\<lambda>py. Inr (True, f, py)))"

text \<open>Pass 1 for one field, and for the fields of a message. The descriptor of the field is written at the end.\<close>

definition init_field ::
    "interpreter \<Rightarrow> py \<Rightarrow> py list \<Rightarrow> u8 list \<Rightarrow> py \<Rightarrow> nat \<Rightarrow> nat \<Rightarrow> py \<Rightarrow> py_desc \<Rightarrow> (bool \<times> py_desc) run" where
  "init_field itp dict msgtypes package msgtype i j field st =
     (if \<not> PyDict_Check (snd st) field then Inr (False, st)
      else
        andthen (get_msg i (fst st)) (\<lambda>m.
        let f = field_numbers (snd st) field (mi_fields m ! j) in
        andthen (field_name field f st) (\<lambda>(f, self, py).
        andthen (case PyDict_GetItemString py field ''default_value'' of
            None \<Rightarrow> Inr (False, f, py)
          | Some prop \<Rightarrow> andthen (field_default itp dict msgtype prop f py) (\<lambda>(okdefault, f, py).
              if \<not> okdefault then andthen (format_error m f py) (\<lambda>py. Inr (True, f, py))
              else Inr (False, f\<lparr>fi_flags := fi_flags f OR LWPB_HAS_DEFAULT\<rparr>, py))) (\<lambda>(error, f, py).
        if error then Inr (True, self, py)
        else andthen (field_message package msgtypes m field f py) (\<lambda>(error, f, py).
          Inr (error, put_msg i (m\<lparr>mi_fields := (mi_fields m)[j := f]\<rparr>) self, py))))))"

fun init_fields ::
    "interpreter \<Rightarrow> py \<Rightarrow> py list \<Rightarrow> u8 list \<Rightarrow> py \<Rightarrow> nat \<Rightarrow> nat \<Rightarrow> py list \<Rightarrow> py_desc \<Rightarrow> (bool \<times> py_desc) run" where
  "init_fields itp dict msgtypes package msgtype i j [] st = Inr (False, st)"
| "init_fields itp dict msgtypes package msgtype i j (field # fs) st =
     andthen (init_field itp dict msgtypes package msgtype i j field st) (\<lambda>(error, st).
       if error then Inr (True, st) else init_fields itp dict msgtypes package msgtype i (Suc j) fs st)"

text \<open>The two passes over the messages.\<close>

fun init_pass0 :: "u8 list \<Rightarrow> nat \<Rightarrow> py list \<Rightarrow> py_desc \<Rightarrow> (bool \<times> py_desc) run" where
  "init_pass0 package i [] st = Inr (False, st)"
| "init_pass0 package i (msgtype # ts) st = andthen (init_message package i msgtype st) (\<lambda>(error, st).
     if error then Inr (True, st) else init_pass0 package (Suc i) ts st)"

fun init_pass1 ::
    "interpreter \<Rightarrow> py \<Rightarrow> py list \<Rightarrow> u8 list \<Rightarrow> nat \<Rightarrow> py list \<Rightarrow> py_desc \<Rightarrow> (bool \<times> py_desc) run" where
  "init_pass1 itp dict msgtypes package i [] st = Inr (False, st)"
| "init_pass1 itp dict msgtypes package i (msgtype # ts) st =
     andthen (case message_fields (snd st) msgtype of None \<Rightarrow> Inr (False, st)
       | Some (msgtype, fs) \<Rightarrow> init_fields itp dict msgtypes package msgtype i 0 fs st) (\<lambda>(error, st).
     if error then Inr (True, st) else init_pass1 itp dict msgtypes package (Suc i) ts st)"

text \<open>Both passes, once the messages are known; the second component of the result is whether there was an error.\<close>

definition init_messages :: "interpreter \<Rightarrow> py \<Rightarrow> py list \<Rightarrow> py_desc \<Rightarrow> (bool \<times> py_desc) run" where
  "init_messages itp dict msgtypes st = (case st of (self, py) \<Rightarrow>
     let package = (case string_prop py dict ''package'' of None \<Rightarrow> [] | Some bs \<Rightarrow> c_str bs) in
     if msgtypes = [] then Inr (False, self, py)
     else if de_allocs self = 0
     then Inr (True, self\<lparr>de_msg_desc := None\<rparr>,
       PyErr_SetString MemoryError ''unable to allocate message descriptors'' py)
     else
       let self = self\<lparr>de_allocs := de_allocs self - 1, de_msg_desc := Some (replicate (length msgtypes) zero_msg),
             de_num_msgs := of_nat (length msgtypes)\<rparr> in
       andthen (init_pass0 package 0 msgtypes (self, py)) (\<lambda>(error, st).
         if error then Inr (True, st) else init_pass1 itp dict msgtypes package 0 msgtypes st))"

definition Descriptor_init :: "interpreter \<Rightarrow> py \<Rightarrow> py_desc \<Rightarrow> (int \<times> py_desc) run" where
  "Descriptor_init itp dict st = (case st of (self, py) \<Rightarrow>
     if \<not> PyDict_Check py dict then Inr (- 1, self, raises TypeError py)
     else case PyDict_GetItemString py dict ''message_type'' of
         None \<Rightarrow> Inr (0, self, py)
       | Some msgtypes \<Rightarrow> (case list_items py msgtypes of
             None \<Rightarrow> Inr (- 1, self, PyErr_SetString RuntimeError ''message_type: list expected'' py)
           | Some ts \<Rightarrow> andthen (init_messages itp dict ts (self, py)) (\<lambda>(error, st).
               if error then andthen (Descriptor_clear st) (\<lambda>st. Inr (- 1, st)) else Inr (0, st))))"

section \<open>The other methods\<close>

definition Descriptor_message_types :: "descriptor \<Rightarrow> py" where
  "Descriptor_message_types self = de_message_types self"

text \<open>debug_print; printing a string through NULL is undefined. Numbers are printed as ints.\<close>

definition fmt_s :: "u8 list option \<Rightarrow> string run" where
  "fmt_s s = (case s of None \<Rightarrow> Inl Undef | Some bs \<Rightarrow> Inr (chars bs))"

definition line :: "string \<Rightarrow> string \<Rightarrow> string" where
  "line label s = label @ s @ [CHR 0x0A]"

definition name_line :: "string \<Rightarrow> u8 list option \<Rightarrow> string" where
  "name_line label name = (case name of None \<Rightarrow> [] | Some bs \<Rightarrow> line label (chars bs))"

definition field_lines :: "msg_init \<Rightarrow> field_init \<Rightarrow> string run" where
  "field_lines m f =
     andthen (if typ_of (fi_typ f) = LWPB_MESSAGE
       then andthen (fmt_s (mi_name m)) (\<lambda>s. Inr (line ''  message = '' s)) else Inr []) (\<lambda>message.
     Inr (line ''  number = '' (fmt_d (sint (fi_number f))) @ name_line ''  name = '' (fi_name f) @
       line ''  label = '' (fmt_d (uint (fi_label f))) @ line ''  type = '' (fmt_d (uint (fi_typ f))) @
       line ''  flags = '' (fmt_d (uint (fi_flags f))) @ message @ [CHR 0x0A]))"

fun fields_lines :: "msg_init \<Rightarrow> field_init list \<Rightarrow> string run" where
  "fields_lines m [] = Inr []"
| "fields_lines m (f # fs) = andthen (field_lines m f) (\<lambda>s. andthen (fields_lines m fs) (\<lambda>t. Inr (s @ t)))"

fun msgs_lines :: "msg_init list \<Rightarrow> string run" where
  "msgs_lines [] = Inr []"
| "msgs_lines (m # ms) = andthen (fields_lines m (mi_fields m)) (\<lambda>s. andthen (msgs_lines ms) (\<lambda>t.
     Inr (name_line ''name = '' (mi_name m) @ line ''num_fields = '' (fmt_d (int (length (mi_fields m)))) @
       s @ [CHR 0x0A, CHR 0x0A] @ t)))"

definition Descriptor_debug_print :: "descriptor \<Rightarrow> console \<Rightarrow> (py \<times> console) run" where
  "Descriptor_debug_print self con = (case de_msg_desc self of
       None \<Rightarrow> if 0 < de_num_msgs self then Inl Fault else Inr (Py_None, con)
     | Some ms \<Rightarrow> andthen (msgs_lines (take (unat (de_num_msgs self)) ms)) (\<lambda>s. Inr (Py_None, con_print s con)))"

text \<open>The constants of the module.\<close>

definition module_constants :: "(string \<times> int) list" where
  "module_constants =
     [(''LABEL_REQUIRED'', 2), (''LABEL_OPTIONAL'', 1), (''LABEL_REPEATED'', 3)] @
     map (\<lambda>(s, t). (s, int (typ_code t)))
      [(''TYPE_DOUBLE'', LWPB_DOUBLE), (''TYPE_FLOAT'', LWPB_FLOAT), (''TYPE_INT32'', LWPB_INT32), (''TYPE_INT64'', LWPB_INT64),
       (''TYPE_UINT32'', LWPB_UINT32), (''TYPE_UINT64'', LWPB_UINT64), (''TYPE_SINT32'', LWPB_SINT32), (''TYPE_SINT64'', LWPB_SINT64),
       (''TYPE_FIXED32'', LWPB_FIXED32), (''TYPE_FIXED64'', LWPB_FIXED64), (''TYPE_SFIXED32'', LWPB_SFIXED32),
       (''TYPE_SFIXED64'', LWPB_SFIXED64), (''TYPE_BOOL'', LWPB_BOOL), (''TYPE_ENUM'', LWPB_ENUM), (''TYPE_STRING'', LWPB_STRING),
       (''TYPE_BYTES'', LWPB_BYTES), (''TYPE_MESSAGE'', LWPB_MESSAGE)] @
     [(''WIRETYPE_VARINT'', 0), (''WIRETYPE_FIXED64'', 1), (''WIRETYPE_LENGTH_DELIMITED'', 2), (''WIRETYPE_START_GROUP'', 3),
      (''WIRETYPE_END_GROUP'', 4), (''WIRETYPE_FIXED32'', 5)]"

end
