(* ===== verification/Py_Descriptor_Run.thy ===== *)
theory Py_Descriptor_Run
  imports Py_Descriptor
begin

text \<open>
  What the initialisation of a Descriptor object leaves behind: message fields that are resolved, or an
  empty object and an exception.
\<close>

section \<open>The passes\<close>

text \<open>
  Both passes go through the messages or their fields until there is an error. A relation between the
  states before and after the step for one message or one field, which goes on when there is no error,
  holds between the states before and after the passes.
\<close>

locale passes =
  fixes R :: "bool \<Rightarrow> py_desc \<Rightarrow> py_desc \<Rightarrow> bool" and itp :: interpreter and dict :: py and msgtypes :: "py list"
  assumes start: "R False st st"
    and step: "R False st st' \<Longrightarrow> R error st' st'' \<Longrightarrow> R error st st''"
    and message: "init_message package i msgtype st = Inr (error, st') \<Longrightarrow> R error st st'"
    and field: "init_field itp dict msgtypes package msgtype i j fld st = Inr (error, st') \<Longrightarrow> R error st st'"
begin

lemma steps:
  assumes "andthen r (\<lambda>(error, st). if error then Inr (True, st) else f st) = Inr (error', st')"
    and "\<And>e s. r = Inr (e, s) \<Longrightarrow> R e st s" and "\<And>s. f s = Inr (error', st') \<Longrightarrow> R error' s st'"
  shows "R error' st st'"
proof -
  obtain e s where r: "r = Inr (e, s)" and rest: "(if e then Inr (True, s) else f s) = Inr (error', st')"
    using assms(1) by (auto simp: andthen_eq_Inr)
  show ?thesis
  proof (cases e)
    case True
    with r rest assms(2) show ?thesis by auto
  next
    case False
    with r rest have "R False st s" "f s = Inr (error', st')" using assms(2) by auto
    from step [OF this(1) assms(3) [OF this(2)]] show ?thesis .
  qed
qed

lemma fields: "init_fields itp dict msgtypes package msgtype i j fs st = Inr (error, st') \<Longrightarrow> R error st st'"
proof (induction fs arbitrary: j st)
  case (Cons fld fs)
  from Cons.prems [unfolded init_fields.simps] show ?case
    by (rule steps) (rule field, assumption, rule Cons.IH)
qed (simp add: start)

lemma pass0: "init_pass0 package i ts st = Inr (error, st') \<Longrightarrow> R error st st'"
proof (induction ts arbitrary: i st)
  case (Cons msgtype ts)
  from Cons.prems [unfolded init_pass0.simps] show ?case
    by (rule steps) (rule message, assumption, rule Cons.IH)
qed (simp add: start)

lemma pass1: "init_pass1 itp dict msgtypes package i ts st = Inr (error, st') \<Longrightarrow> R error st st'"
proof (induction ts arbitrary: i st)
  case (Cons msgtype ts)
  from Cons.prems [unfolded init_pass1.simps] show ?case
    by (rule steps) (auto intro: start dest: fields split: option.splits intro: Cons.IH)
qed (simp add: start)

lemma both:
  assumes "andthen (init_pass0 package 0 msgtypes st) (\<lambda>(error, st).
      if error then Inr (True, st) else init_pass1 itp dict msgtypes package 0 msgtypes st) = Inr (error, st')"
  shows "R error st st'"
  by (rule steps [OF assms pass0 pass1])

end

text \<open>The state from which the passes start.\<close>

definition pass_start :: "py list \<Rightarrow> descriptor \<Rightarrow> descriptor" where
  "pass_start msgtypes self = self\<lparr>de_allocs := de_allocs self - 1, de_msg_desc := Some (replicate (length msgtypes) zero_msg),
     de_num_msgs := of_nat (length msgtypes)\<rparr>"

lemma init_messages_cases:
  assumes "init_messages itp dict msgtypes (self, py) = Inr (error, st')"
  obtains (empty) "\<not> error" "st' = (self, py)"
  | (memory) "error" "st' = (self\<lparr>de_msg_desc := None\<rparr>, PyErr_SetString MemoryError ''unable to allocate message descriptors'' py)"
  | (passes) package where "andthen (init_pass0 package 0 msgtypes (pass_start msgtypes self, py)) (\<lambda>(error, st).
      if error then Inr (True, st) else init_pass1 itp dict msgtypes package 0 msgtypes st) = Inr (error, st')"
proof (cases "msgtypes = [] \<or> de_allocs self = 0")
  case True
  with assms empty memory show thesis by (auto simp: init_messages_def Let_def split: if_splits)
next
  case False
  define package where "package = (case string_prop py dict ''package'' of None \<Rightarrow> [] | Some bs \<Rightarrow> c_str bs)"
  have "andthen (init_pass0 package 0 msgtypes (pass_start msgtypes self, py)) (\<lambda>(error, st).
      if error then Inr (True, st) else init_pass1 itp dict msgtypes package 0 msgtypes st) = Inr (error, st')"
    using assms False unfolding package_def by (simp add: init_messages_def pass_start_def Let_def)
  then show thesis by (rule passes)
qed

section \<open>Message fields are resolved\<close>

definition field_resolved :: "nat \<Rightarrow> field_init \<Rightarrow> bool" where
  "field_resolved n f \<longleftrightarrow> (typ_of (fi_typ f) = LWPB_MESSAGE \<longrightarrow> (case fi_msg_desc f of None \<Rightarrow> False | Some k \<Rightarrow> k < n))"

text \<open>Every field of type message points to a message descriptor of the same table.\<close>

definition table_ok :: "descriptor \<Rightarrow> bool" where
  "table_ok self \<longleftrightarrow> (case de_msg_desc self of None \<Rightarrow> True
     | Some ms \<Rightarrow> list_all (\<lambda>m. list_all (field_resolved (length ms)) (mi_fields m)) ms)"

text \<open>A table of \<open>n\<close> messages. A pointer that was set stays in the table.\<close>

definition table_of :: "nat \<Rightarrow> descriptor \<Rightarrow> bool" where
  "table_of n self \<longleftrightarrow> (\<exists>ms. de_msg_desc self = Some ms \<and> length ms = n \<and>
     list_all (\<lambda>m. list_all (\<lambda>f. field_resolved n f \<and> (\<forall>k. fi_msg_desc f = Some k \<longrightarrow> k < n)) (mi_fields m)) ms)"

lemma table_of_ok: "table_of n self \<Longrightarrow> table_ok self"
  by (auto simp: table_of_def table_ok_def list_all_iff)

lemma table_of_upd [simp]:
  "table_of n (self\<lparr>de_allocs := a\<rparr>) = table_of n self" "table_of n (self\<lparr>de_num_msgs := k\<rparr>) = table_of n self"
  by (simp_all add: table_of_def)

lemma store_string_self: "Descriptor_store_string (self, py) bs = Inr (name, self', py') \<Longrightarrow> self' = self"
  by (auto simp: Descriptor_store_string_def andthen_eq_Inr)

lemma table_of_put:
  assumes "table_of n self" and "list_all (\<lambda>f. field_resolved n f \<and> (\<forall>k. fi_msg_desc f = Some k \<longrightarrow> k < n)) (mi_fields m)"
  shows "table_of n (put_msg i m self)"
proof -
  obtain ms where ms: "de_msg_desc self = Some ms" "length ms = n"
    "list_all (\<lambda>m. list_all (\<lambda>f. field_resolved n f \<and> (\<forall>k. fi_msg_desc f = Some k \<longrightarrow> k < n)) (mi_fields m)) ms"
    using assms(1) by (auto simp: table_of_def)
  have "set (ms[i := m]) \<subseteq> insert m (set ms)" by (rule set_update_subset_insert)
  with ms assms(2) show ?thesis
    unfolding table_of_def put_msg_def list_all_iff by auto
qed

lemma zero_resolved: "list_all (\<lambda>f. field_resolved n f \<and> (\<forall>k. fi_msg_desc f = Some k \<longrightarrow> k < n)) (replicate j zero_field)"
  by (auto simp: list_all_iff zero_field_def field_resolved_def) (simp add: typ_of_def)

lemma init_message_table:
  assumes "init_message package i msgtype (self, py) = Inr (error, self', py')" and "table_of n self"
  shows "table_of n self'"
  using assms zero_resolved [of n]
  by (auto simp: init_message_def andthen_eq_Inr Let_def Descriptor_store_string_def intro!: table_of_put
      split: option.splits prod.splits if_splits)

lemma find_message_bound: "find_message py package typename k ts = Some r \<Longrightarrow> r < k + length ts"
  by (induction ts arbitrary: k) (fastforce split: option.splits if_splits)+

lemma field_default_keeps:
  "field_default itp dict msgtype prop f py = Inr (ok, f', py') \<Longrightarrow> fi_msg_desc f' = fi_msg_desc f \<and> fi_typ f' = fi_typ f"
  by (auto simp: field_default_def andthen_eq_Inr Let_def split: if_splits option.splits prod.splits)

lemma field_message_resolved:
  assumes "field_message package msgtypes m field f py = Inr (False, f', py')" and "\<And>k. fi_msg_desc f = Some k \<Longrightarrow> k < length msgtypes"
  shows "field_resolved (length msgtypes) f' \<and> (\<forall>k. fi_msg_desc f' = Some k \<longrightarrow> k < length msgtypes)"
proof -
  have "k < length msgtypes" if "resolve py package msgtypes field = Some k" for k
    using that find_message_bound [of py package _ 0 msgtypes k] by (auto simp: resolve_def bind_eq_Some_conv)
  with assms show ?thesis
    by (auto simp: field_message_def andthen_eq_Inr Let_def field_resolved_def split: if_splits option.splits)
qed

lemma init_field_table:
  assumes run: "init_field itp dict msgtypes package msgtype i j field (self, py) = Inr (False, self', py')"
    and t: "table_of (length msgtypes) self"
  shows "table_of (length msgtypes) self'"
proof (cases "PyDict_Check py field")
  case False
  with run t show ?thesis by (auto simp: init_field_def)
next
  case True
  let ?n = "length msgtypes"
  obtain m where m: "get_msg i self = Inr m"
    using run True by (auto simp: init_field_def andthen_eq_Inr)
  let ?f = "field_numbers py field (mi_fields m ! j)"
  obtain f1 py1 where name: "field_name field ?f (self, py) = Inr (f1, self, py1)"
    and f1: "fi_msg_desc f1 = fi_msg_desc (mi_fields m ! j)"
    using run True m
    by (auto simp: init_field_def andthen_eq_Inr field_name_def field_numbers_def Let_def Descriptor_store_string_def split: option.splits)
  have "\<exists>f2 py2 f3. fi_msg_desc f2 = fi_msg_desc f1 \<and> field_message package msgtypes m field f2 py2 = Inr (False, f3, py') \<and>
      self' = put_msg i (m\<lparr>mi_fields := (mi_fields m)[j := f3]\<rparr>) self"
  proof (cases "PyDict_GetItemString py1 field ''default_value''")
    case None
    with run True m name
    have "\<exists>f3. field_message package msgtypes m field f1 py1 = Inr (False, f3, py') \<and>
      self' = put_msg i (m\<lparr>mi_fields := (mi_fields m)[j := f3]\<rparr>) self"
      by (auto simp: init_field_def andthen_eq_Inr Let_def)
    then show ?thesis by blast
  next
    case (Some dv)
    with run True m name
    have "\<exists>f2 py2. fi_msg_desc f2 = fi_msg_desc f1 \<and>
        (\<exists>f3. field_message package msgtypes m field (f2\<lparr>fi_flags := fi_flags f2 OR LWPB_HAS_DEFAULT\<rparr>) py2 = Inr (False, f3, py') \<and>
        self' = put_msg i (m\<lparr>mi_fields := (mi_fields m)[j := f3]\<rparr>) self)"
      unfolding init_field_def
      by (auto simp: andthen_eq_Inr Let_def split: if_splits) (blast dest: field_default_keeps)
    then obtain f2 py2 f3 where "fi_msg_desc f2 = fi_msg_desc f1"
        "field_message package msgtypes m field (f2\<lparr>fi_flags := fi_flags f2 OR LWPB_HAS_DEFAULT\<rparr>) py2 = Inr (False, f3, py')"
        "self' = put_msg i (m\<lparr>mi_fields := (mi_fields m)[j := f3]\<rparr>) self"
      by blast
    then show ?thesis
      by (intro exI [of _ "f2\<lparr>fi_flags := fi_flags f2 OR LWPB_HAS_DEFAULT\<rparr>"] exI [of _ py2] exI [of _ f3]) simp
  qed
  then obtain f2 py2 f3 where f2: "fi_msg_desc f2 = fi_msg_desc f1"
    and f3: "field_message package msgtypes m field f2 py2 = Inr (False, f3, py')"
    and self': "self' = put_msg i (m\<lparr>mi_fields := (mi_fields m)[j := f3]\<rparr>) self"
    by blast
  have old: "list_all (\<lambda>f. field_resolved ?n f \<and> (\<forall>k. fi_msg_desc f = Some k \<longrightarrow> k < ?n)) (mi_fields m)"
    using t m by (auto simp: table_of_def get_msg_def list_all_length split: if_splits)
  have "list_all (\<lambda>f. field_resolved ?n f \<and> (\<forall>k. fi_msg_desc f = Some k \<longrightarrow> k < ?n)) ((mi_fields m)[j := f3])"
  proof (cases "j < length (mi_fields m)")
    case True
    then have "fi_msg_desc f2 = Some k \<Longrightarrow> k < ?n" for k
      using old f1 f2 by (auto simp: list_all_length)
    note new = field_message_resolved [OF f3 this]
    have "set ((mi_fields m)[j := f3]) \<subseteq> insert f3 (set (mi_fields m))" by (rule set_update_subset_insert)
    with new old show ?thesis by (auto simp: list_all_iff)
  next
    case False
    with old show ?thesis by (simp add: list_update_beyond)
  qed
  then show ?thesis
    unfolding self' by (intro table_of_put [OF t]) simp
qed

interpretation tables: passes
  "\<lambda>error st st'. \<not> error \<longrightarrow> table_of (length msgtypes) (fst st) \<longrightarrow> table_of (length msgtypes) (fst st')" itp dict msgtypes
  by unfold_locales (auto dest: init_message_table init_field_table)

lemma init_messages_table:
  assumes "init_messages itp dict msgtypes (self, py) = Inr (False, self', py')" and "table_ok self"
  shows "table_ok self'"
  using assms(1)
proof (cases rule: init_messages_cases)
  case (passes package)
  have "table_of (length msgtypes) (pass_start msgtypes self)"
    by (simp add: pass_start_def table_of_def zero_msg_def list_all_iff)
  with tables.both [OF passes] show ?thesis
    by (auto intro: table_of_ok)
qed (use assms(2) in simp_all)

lemma init_resolves:
  assumes "Descriptor_init itp dict (self, py) = Inr (0, self', py')" and "table_ok self"
  shows "table_ok self'"
  using assms init_messages_table
  by (auto simp: Descriptor_init_def andthen_eq_Inr split: option.splits if_splits)

section \<open>A failure leaves an empty object\<close>

text \<open>The list of strings and the index of the messages are there.\<close>

definition descriptor_ok :: "py_desc \<Rightarrow> bool" where
  "descriptor_ok st \<longleftrightarrow> list_items (snd st) (de_strings (fst st)) \<noteq> None \<and> dict_items (snd st) (de_message_types (fst st)) \<noteq> None"

text \<open>A step keeps them, and an error comes with an exception.\<close>

definition keeps_object :: "bool \<Rightarrow> py_desc \<Rightarrow> py_desc \<Rightarrow> bool" where
  "keeps_object error st st' \<longleftrightarrow> de_strings (fst st') = de_strings (fst st) \<and> de_message_types (fst st') = de_message_types (fst st) \<and>
     (descriptor_ok st \<longrightarrow> descriptor_ok st') \<and> (error \<longrightarrow> py_error (snd st') \<noteq> None)"

lemma keeps_object_refl [simp]: "keeps_object False st st"
  by (simp add: keeps_object_def)

lemma keeps_object_trans:
  "keeps_object e st st' \<Longrightarrow> keeps_object e' st' st'' \<Longrightarrow> keeps_object e' st st''"
  by (auto simp: keeps_object_def)

lemma keeps_object_store:
  assumes "py_store py' = py_store py" and "de_strings self' = de_strings self"
    and "de_message_types self' = de_message_types self" and "error \<longrightarrow> py_error py' \<noteq> None"
  shows "keeps_object error (self, py) (self', py')"
  using assms by (simp add: keeps_object_def descriptor_ok_def items_store [OF assms(1)])

text \<open>Appending to a list keeps the dictionaries, and the lists are still lists; setting a key likewise.\<close>

lemma append_keeps:
  assumes "PyList_Append (Some obj) x py = Inr py'"
  shows "list_items py obj' \<noteq> None \<Longrightarrow> list_items py' obj' \<noteq> None"
    and "dict_items py obj' \<noteq> None \<Longrightarrow> dict_items py' obj' \<noteq> None"
  using assms
  by (auto simp: PyList_Append_def list_items_def dict_items_def raises_def PyErr_SetString_def nth_list_update
      split: option.splits py.splits container.splits if_splits)

lemma set_item_keeps:
  assumes "PyDict_SetItemString (Some obj) k x py = Inr py'"
  shows "list_items py obj' \<noteq> None \<Longrightarrow> list_items py' obj' \<noteq> None"
    and "dict_items py obj' \<noteq> None \<Longrightarrow> dict_items py' obj' \<noteq> None"
  using assms
  by (auto simp: PyDict_SetItemString_def list_items_def dict_items_def raises_def PyErr_SetString_def nth_list_update
      split: option.splits py.splits container.splits if_splits)

lemma store_string_keeps:
  "Descriptor_store_string st bs = Inr (name, st') \<Longrightarrow> keeps_object False st st'"
  by (auto simp: Descriptor_store_string_def andthen_eq_Inr keeps_object_def descriptor_ok_def dest: append_keeps split: prod.splits)

lemma format_error_keeps: "format_error m f py = Inr py' \<Longrightarrow> py_store py' = py_store py \<and> py_error py' \<noteq> None"
  by (auto simp: format_error_def split: if_splits)

lemma field_default_store:
  "field_default itp dict msgtype prop f py = Inr (ok, f', py') \<Longrightarrow> py_store py' = py_store py"
  by (auto simp: field_default_def andthen_eq_Inr Let_def lookup_enum_def split: if_splits option.splits prod.splits)

lemma field_message_store:
  "field_message package msgtypes m field f py = Inr (error, f', py') \<Longrightarrow>
     py_store py' = py_store py \<and> (error \<longrightarrow> py_error py' \<noteq> None)"
  by (auto simp: field_message_def andthen_eq_Inr Let_def dest: format_error_keeps split: if_splits)

lemma field_name_keeps: "field_name field f st = Inr (f', st') \<Longrightarrow> keeps_object False st st'"
  by (auto simp: field_name_def andthen_eq_Inr dest: store_string_keeps split: option.splits)

text \<open>The steps of both passes.\<close>

lemma put_msg_object [simp]:
  "de_strings (put_msg i m self) = de_strings self" "de_message_types (put_msg i m self) = de_message_types self"
  by (simp_all add: put_msg_def)

lemma init_field_keeps:
  assumes run: "init_field itp dict msgtypes package msgtype i j field st = Inr (error, st')"
  shows "keeps_object error st st'"
proof (cases "PyDict_Check (snd st) field")
  case False
  with run show ?thesis by (simp add: init_field_def)
next
  case True
  then obtain m f1 self1 py1 error2 f2 py2 where name: "field_name field (field_numbers (snd st) field (mi_fields m ! j)) st = Inr (f1, self1, py1)"
    and default: "(case PyDict_GetItemString py1 field ''default_value'' of
            None \<Rightarrow> Inr (False, f1, py1)
          | Some prop \<Rightarrow> andthen (field_default itp dict msgtype prop f1 py1) (\<lambda>(okdefault, f, py).
              if \<not> okdefault then andthen (format_error m f py) (\<lambda>py. Inr (True, f, py))
              else Inr (False, f\<lparr>fi_flags := fi_flags f OR LWPB_HAS_DEFAULT\<rparr>, py))) = Inr (error2, f2, py2)"
    and rest: "(if error2 then Inr (True, self1, py2)
        else andthen (field_message package msgtypes m field f2 py2) (\<lambda>(error, f, py).
          Inr (error, put_msg i (m\<lparr>mi_fields := (mi_fields m)[j := f]\<rparr>) self1, py))) = Inr (error, st')"
    using run by (auto simp: init_field_def andthen_eq_Inr Let_def)
  have 2: "py_store py2 = py_store py1 \<and> (error2 \<longrightarrow> py_error py2 \<noteq> None)"
    using default
    by (auto simp: andthen_eq_Inr dest!: format_error_keeps field_default_store split: option.splits if_splits)
  have "keeps_object error (self1, py1) st'"
    using rest 2
    by (auto simp: andthen_eq_Inr dest: field_message_store intro!: keeps_object_store split: if_splits)
  with field_name_keeps [OF name] show ?thesis by (rule keeps_object_trans)
qed

lemma init_message_keeps:
  assumes run: "init_message package i msgtype (self, py) = Inr (error, st')"
  shows "keeps_object error (self, py) st'"
proof (cases "message_fields py msgtype")
  case None
  with run show ?thesis by (simp add: init_message_def)
next
  case (Some r)
  then obtain d fs where fs: "message_fields py msgtype = Some (d, fs)" by (cases r) auto
  define self0 where "self0 = (if fs \<noteq> [] then self\<lparr>de_allocs := de_allocs self - 1\<rparr> else self)"
  have start: "keeps_object False (self, py) (self0, py)"
    by (rule keeps_object_store) (simp_all add: self0_def)
  show ?thesis
  proof (cases "string_prop py d ''name''")
    case None
    then show ?thesis
      using run fs start
      by (auto simp: init_message_def andthen_eq_Inr self0_def [symmetric] keeps_object_def descriptor_ok_def Let_def split: if_splits)
  next
    case (Some bs)
    show ?thesis
    proof (cases "fs \<noteq> [] \<and> de_allocs self = 0")
      case True
      with run fs show ?thesis by (auto simp: init_message_def intro: keeps_object_store)
    next
      case False
      with run fs Some obtain m name self1 py1 py2 where 1: "Descriptor_store_string (self0, py) bs = Inr (name, self1, py1)"
        and 2: "PyDict_SetItemString (Some (de_message_types self1)) (chars (package @ [46] @ name)) (int_object (int i)) py1 = Inr py2"
        and st': "error = False" "st' = (put_msg i m self1, py2)"
        by (auto simp: init_message_def andthen_eq_Inr self0_def [symmetric] Let_def)
      from set_item_keeps [OF 2] have "keeps_object error (self1, py1) st'"
        by (simp add: st' keeps_object_def descriptor_ok_def)
      from keeps_object_trans [OF start keeps_object_trans [OF store_string_keeps [OF 1] this]] show ?thesis .
    qed
  qed
qed

interpretation object: passes keeps_object itp dict msgtypes
proof
  show "keeps_object error st st'" if "init_message package i msgtype st = Inr (error, st')" for package i msgtype error st st'
    using that by (cases st) (simp add: init_message_keeps)
qed (auto intro: keeps_object_trans init_field_keeps)

lemma init_messages_keeps:
  assumes "init_messages itp dict ts (self, py) = Inr (error, st')"
  shows "keeps_object error (self, py) st'"
  using assms
proof (cases rule: init_messages_cases)
  case (passes package)
  have "keeps_object False (self, py) (pass_start ts self, py)"
    by (rule keeps_object_store) (simp_all add: pass_start_def)
  from keeps_object_trans [OF this object.both [OF passes]] show ?thesis .
qed (auto intro: keeps_object_store)

lemma items_some:
  "list_items py obj \<noteq> None \<longleftrightarrow> (\<exists>r xs. obj = Py_list r \<and> r < length (py_store py) \<and> py_store py ! r = List_of xs)"
  "dict_items py obj \<noteq> None \<longleftrightarrow> (\<exists>r kvs. obj = Py_dict r \<and> r < length (py_store py) \<and> py_store py ! r = Dict_of kvs)"
  by (auto simp: list_items_def dict_items_def split: py.splits container.splits if_splits)

lemma cleared:
  assumes "descriptor_ok (self, py)" and "Descriptor_clear (self, py) = Inr (self', py')"
  shows "de_msg_desc self' = None \<and> de_num_msgs self' = 0 \<and> list_items py' (de_strings self') = Some [] \<and>
    dict_items py' (de_message_types self') = Some [] \<and> py_error py' = py_error py"
proof -
  obtain r xs q kvs where "de_strings self = Py_list r" "r < length (py_store py)" "py_store py ! r = List_of xs"
    "de_message_types self = Py_dict q" "q < length (py_store py)" "py_store py ! q = Dict_of kvs"
    using assms(1) by (auto simp: descriptor_ok_def items_some simp del: not_None_eq)
  moreover from this have "r \<noteq> q" by auto
  ultimately show ?thesis
    using assms(2)
    by (auto simp: Descriptor_clear_def PyList_DelSlice_def PyList_Size_def PyDict_Clear_def PyDict_Check_def
        list_items_def dict_items_def nth_list_update Let_def word_gt_0 split: if_splits)
qed

lemma init_fails:
  assumes run: "Descriptor_init itp dict (self, py) = Inr (- 1, self', py')" and ok: "descriptor_ok (self, py)"
  shows "py_error py' \<noteq> None \<and> (self' = self \<or>
    de_msg_desc self' = None \<and> de_num_msgs self' = 0 \<and> list_items py' (de_strings self') = Some [] \<and>
    dict_items py' (de_message_types self') = Some [])"
proof (cases "self' = self \<and> py_error py' \<noteq> None")
  case False
  then obtain ts self1 py1 where "init_messages itp dict ts (self, py) = Inr (True, self1, py1)"
    and clear: "Descriptor_clear (self1, py1) = Inr (self', py')"
    using run by (auto simp: Descriptor_init_def andthen_eq_Inr split: if_splits option.splits)
  then have "keeps_object True (self, py) (self1, py1)" by (blast intro: init_messages_keeps)
  with ok have "descriptor_ok (self1, py1)" "py_error py1 \<noteq> None" by (simp_all add: keeps_object_def)
  with cleared [OF _ clear] show ?thesis by simp
qed simp

text \<open>
  When the descriptors of an object cannot be allocated a second time, the object keeps the number of those
  that it had, and clearing it reads them through NULL.
\<close>

lemma second_init_faults:
  assumes "PyDict_Check py dict" and "PyDict_GetItemString py dict ''message_type'' = Some msgtypes" and "list_items py msgtypes = Some (t # ts)"
    and "0 < de_num_msgs self" and "de_allocs self = 0"
  shows "Descriptor_init itp dict (self, py) = Inl Fault"
  using assms by (simp add: Descriptor_init_def init_messages_def Descriptor_clear_def Let_def)

end
