(* ===== verification/Py_Descriptor_Build.thy ===== *)
theory Py_Descriptor_Build
  imports Py_Descriptor_Run Py_Values
begin

text \<open>
  What a Descriptor object contains after its initialisation from the description of some messages: the
  descriptors of these messages.
\<close>

section \<open>Descriptions\<close>

definition name_bytes :: "string \<Rightarrow> u8 list" where
  "name_bytes s = map (\<lambda>c. of_nat (of_char c)) s"

definition label_code :: "field_label \<Rightarrow> int" where
  "label_code l = (case l of LWPB_NO_LABEL \<Rightarrow> 0 | LWPB_OPTIONAL \<Rightarrow> 1 | LWPB_REQUIRED \<Rightarrow> 2 | LWPB_REPEATED \<Rightarrow> 3)"

text \<open>
  The dictionary of a field, a message, and all messages of a package has the entries that describe it; other
  entries do not matter. The name of a message is qualified by the package.
\<close>

definition type_name :: "u8 list \<Rightarrow> lwpb_msg_desc \<Rightarrow> u8 list" where
  "type_name package md = [46] @ package @ [46] @ name_bytes (md_name md)"

definition flag_of :: "(string \<times> unit tree) list \<Rightarrow> string \<Rightarrow> u8 \<Rightarrow> u8" where
  "flag_of kvs k flag = (if map_of kvs k = Some (Leaf (Py_bool True)) then flag else 0)"

fun flags_of :: "unit tree option \<Rightarrow> u8" where
  "flags_of (Some (Dct u kvs)) = flag_of kvs ''packed'' LWPB_IS_PACKED OR flag_of kvs ''deprecated'' LWPB_IS_DEPRECATED"
| "flags_of _ = 0"

fun field_tree :: "u8 list \<Rightarrow> descs \<Rightarrow> lwpb_field_desc \<Rightarrow> unit tree \<Rightarrow> bool" where
  "field_tree package ds fd (Dct u kvs) \<longleftrightarrow> map_of kvs ''name'' = Some (Leaf (Py_str (name_bytes (fd_name fd)))) \<and>
     map_of kvs ''number'' = Some (Leaf (Py_int (uint (number fd)))) \<and>
     map_of kvs ''label'' = Some (Leaf (Py_int (label_code (opt_label (opts fd))))) \<and>
     map_of kvs ''type'' = Some (Leaf (Py_int (int (typ_code (field_type fd))))) \<and>
     flags_of (map_of kvs ''options'') = opt_flags (opts fd) \<and> map_of kvs ''default_value'' = None \<and>
     (case fd_msg_desc fd of None \<Rightarrow> True | Some k \<Rightarrow> map_of kvs ''type_name'' = Some (Leaf (Py_str (type_name package (ds ! k)))))"
| "field_tree package ds fd t \<longleftrightarrow> False"

fun msg_tree :: "u8 list \<Rightarrow> descs \<Rightarrow> lwpb_msg_desc \<Rightarrow> unit tree \<Rightarrow> bool" where
  "msg_tree package ds md (Dct u kvs) \<longleftrightarrow> map_of kvs ''name'' = Some (Leaf (Py_str (name_bytes (md_name md)))) \<and>
     (case map_of kvs ''field'' of Some (Lst u ts) \<Rightarrow> list_all2 (field_tree package ds) (msg_fields md) ts | _ \<Rightarrow> False)"
| "msg_tree package ds md t \<longleftrightarrow> False"

fun file_tree :: "u8 list \<Rightarrow> descs \<Rightarrow> unit tree \<Rightarrow> bool" where
  "file_tree package ds (Dct u kvs) \<longleftrightarrow> map_of kvs ''package'' = Some (Leaf (Py_str package)) \<and>
     (case map_of kvs ''message_type'' of Some (Lst u ts) \<Rightarrow> list_all2 (msg_tree package ds) ds ts | _ \<Rightarrow> False)"
| "file_tree package ds t \<longleftrightarrow> False"

text \<open>
  Messages that can be described this way: with different names, with fields of types that have a name,
  and with messages for the fields of type message. There are no default values.
\<close>

definition field_describable :: "nat \<Rightarrow> lwpb_field_desc \<Rightarrow> bool" where
  "field_describable n fd \<longleftrightarrow> CHR 0x00 \<notin> set (fd_name fd) \<and> opt_label (opts fd) \<noteq> LWPB_NO_LABEL \<and>
     (case field_type fd of LWPB_TYP_OTHER t \<Rightarrow> False | _ \<Rightarrow> True) \<and>
     (case fd_msg_desc fd of None \<Rightarrow> field_type fd \<noteq> LWPB_MESSAGE | Some k \<Rightarrow> field_type fd = LWPB_MESSAGE \<and> k < n) \<and>
     fd_def fd = fi_def zero_field"

definition describable :: "descs \<Rightarrow> bool" where
  "describable ds \<longleftrightarrow> distinct (map md_name ds) \<and>
     list_all (\<lambda>md. CHR 0x00 \<notin> set (md_name md) \<and> list_all (field_describable (length ds)) (msg_fields md)) ds"

text \<open>The message descriptors that the tables of the object stand for.\<close>

definition desc_of_field :: "field_init \<Rightarrow> lwpb_field_desc" where
  "desc_of_field f = \<lparr>number = fi_number f,
     opts = \<lparr>opt_label = label_of (fi_label f), opt_typ = typ_of (fi_typ f), opt_flags = fi_flags f\<rparr>,
     fd_msg_desc = fi_msg_desc f, fd_name = chars (the (fi_name f)), fd_def = fi_def f\<rparr>"

definition descs_of :: "msg_init list \<Rightarrow> descs" where
  "descs_of ms = map (\<lambda>m. \<lparr>msg_fields = map desc_of_field (mi_fields m), md_name = chars (the (mi_name m))\<rparr>) ms"

definition table_field :: "lwpb_field_desc \<Rightarrow> field_init" where
  "table_field fd = \<lparr>fi_number = number fd, fi_label = word_of_int (label_code (opt_label (opts fd))),
     fi_typ = of_nat (typ_code (field_type fd)), fi_flags = opt_flags (opts fd), fi_msg_desc = fd_msg_desc fd,
     fi_name = Some (name_bytes (fd_name fd)), fi_def = fi_def zero_field\<rparr>"

definition table_msg :: "lwpb_msg_desc \<Rightarrow> msg_init" where
  "table_msg md = \<lparr>mi_fields = map table_field (msg_fields md), mi_name = Some (name_bytes (md_name md))\<rparr>"

text \<open>A message between the passes.\<close>

definition start_msg :: "lwpb_msg_desc \<Rightarrow> msg_init" where
  "start_msg md = \<lparr>mi_fields = replicate (length (msg_fields md)) zero_field, mi_name = Some (name_bytes (md_name md))\<rparr>"

section \<open>Names and numbers\<close>

lemma chars_name_bytes [simp]: "chars (name_bytes s) = s"
  by (simp add: chars_def name_bytes_def comp_def unat_of_nat)

lemma name_bytes_inj [simp]: "name_bytes s = name_bytes t \<longleftrightarrow> s = t"
  using chars_name_bytes by metis

lemma c_str_name_bytes: "CHR 0x00 \<notin> set s \<Longrightarrow> c_str (name_bytes s) = name_bytes s"
proof (induction s)
  case (Cons c s)
  have "(of_nat (of_char c) :: u8) \<noteq> 0" if "c \<noteq> CHR 0x00"
  proof
    assume "(of_nat (of_char c) :: u8) = 0"
    then have "unat (of_nat (of_char c) :: u8) = 0" by simp
    then have "of_char c = (0 :: nat)" by (simp add: unat_of_nat)
    then have "char_of (of_char c :: nat) = CHR 0x00" by (simp add: char_of_def)
    with that show False by simp
  qed
  with Cons show ?case by (auto simp: c_str_def name_bytes_def)
qed (simp add: c_str_def name_bytes_def)

lemma label_of_code: "l \<noteq> LWPB_NO_LABEL \<Longrightarrow> label_of (word_of_int (label_code l)) = l"
  by (cases l) (simp_all add: label_of_def label_code_def)

lemma typ_of_code: "(case t of LWPB_TYP_OTHER n \<Rightarrow> False | _ \<Rightarrow> True) \<Longrightarrow> typ_of (of_nat (typ_code t)) = t"
  by (cases t) (simp_all add: typ_of_def)

lemma desc_of_table_field: "field_describable n fd \<Longrightarrow> desc_of_field (table_field fd) = fd"
  by (simp add: desc_of_field_def table_field_def field_describable_def label_of_code typ_of_code)

lemma descs_of_table: "describable ds \<Longrightarrow> descs_of (map table_msg ds) = ds"
proof -
  assume "describable ds"
  then have "map desc_of_field (map table_field (msg_fields md)) = msg_fields md" if "md \<in> set ds" for md
    using that desc_of_table_field by (intro map_idI [THEN trans [OF map_map]]) (fastforce simp: describable_def list_all_iff)
  then show ?thesis
    by (simp add: descs_of_def table_msg_def map_idI)
qed

section \<open>The object while it is initialised\<close>

text \<open>Its list and its dictionary are newer than the description, whose objects are as before.\<close>

definition newer :: "python \<Rightarrow> descriptor \<Rightarrow> python \<Rightarrow> bool" where
  "newer py0 self py \<longleftrightarrow> (\<exists>r q. de_strings self = Py_list r \<and> de_message_types self = Py_dict q \<and>
     length (py_store py0) \<le> r \<and> length (py_store py0) \<le> q \<and> r < length (py_store py) \<and> q < length (py_store py) \<and>
     (\<exists>xs. py_store py ! r = List_of xs) \<and> (\<exists>kvs. py_store py ! q = Dict_of kvs)) \<and> extends py0 py"

lemma newer_extends: "newer py0 self py \<Longrightarrow> extends py0 py"
  by (simp add: newer_def)

lemma newer_upd [simp]:
  "newer py0 (self\<lparr>de_allocs := a\<rparr>) py = newer py0 self py" "newer py0 (self\<lparr>de_num_msgs := k\<rparr>) py = newer py0 self py"
  "newer py0 (self\<lparr>de_msg_desc := d\<rparr>) py = newer py0 self py" "newer py0 (put_msg i m self) py = newer py0 self py"
  by (simp_all add: newer_def put_msg_def)

text \<open>The index of the messages.\<close>

definition index :: "descriptor \<Rightarrow> python \<Rightarrow> string \<Rightarrow> py option" where
  "index self py = PyDict_GetItemString py (de_message_types self)"

lemma store_string_newer:
  assumes "newer py0 self py"
  shows "\<exists>py'. Descriptor_store_string (self, py) bs = Inr (c_str bs, self, py') \<and> newer py0 self py' \<and>
    py_error py' = py_error py \<and> index self py' = index self py"
proof -
  obtain r q xs kvs where c: "de_strings self = Py_list r" "de_message_types self = Py_dict q" "length (py_store py0) \<le> r"
    "length (py_store py0) \<le> q" "r < length (py_store py)" "q < length (py_store py)" "py_store py ! r = List_of xs"
    "py_store py ! q = Dict_of kvs" and e: "extends py0 py"
    using assms by (auto simp: newer_def)
  moreover from c have "r \<noteq> q" by auto
  ultimately show ?thesis
    by (auto simp: Descriptor_store_string_def PyList_Append_def list_items_def newer_def extends_def index_def
        PyDict_GetItemString_def dict_items_def nth_list_update)
qed

lemma set_index_newer:
  assumes "newer py0 self py"
  shows "\<exists>py'. PyDict_SetItemString (Some (de_message_types self)) k x py = Inr py' \<and> newer py0 self py' \<and>
    py_error py' = py_error py \<and> index self py' = (index self py)(k := Some x)"
proof -
  obtain r q xs kvs where c: "de_strings self = Py_list r" "de_message_types self = Py_dict q" "length (py_store py0) \<le> r"
    "length (py_store py0) \<le> q" "r < length (py_store py)" "q < length (py_store py)" "py_store py ! r = List_of xs"
    "py_store py ! q = Dict_of kvs" and e: "extends py0 py"
    using assms by (auto simp: newer_def)
  moreover from c have "r \<noteq> q" by auto
  ultimately show ?thesis
    by (auto simp: PyDict_SetItemString_def newer_def extends_def index_def fun_eq_iff
        PyDict_GetItemString_def dict_items_def nth_list_update map_of_dict_put)
qed

section \<open>The first pass\<close>

text \<open>The name under which a message is in the index.\<close>

definition full_name :: "u8 list \<Rightarrow> lwpb_msg_desc \<Rightarrow> string" where
  "full_name package md = chars package @ ''.'' @ md_name md"

lemma full_name_chars: "chars (package @ [46] @ name_bytes (md_name md)) = full_name package md"
proof -
  have "chars [46] = ''.''" by code_simp
  moreover have "chars (xs @ ys) = chars xs @ chars ys" for xs ys by (simp add: chars_def)
  ultimately show ?thesis by (simp only: full_name_def chars_name_bytes)
qed

text \<open>The objects that describe a field and a message.\<close>

definition describes_field :: "python \<Rightarrow> u8 list \<Rightarrow> descs \<Rightarrow> lwpb_field_desc \<Rightarrow> py \<Rightarrow> bool" where
  "describes_field py package ds fd x \<longleftrightarrow> (\<exists>t. denotes py x t \<and> field_tree package ds fd t)"

definition describes_msg :: "python \<Rightarrow> u8 list \<Rightarrow> descs \<Rightarrow> lwpb_msg_desc \<Rightarrow> py \<Rightarrow> bool" where
  "describes_msg py package ds md x \<longleftrightarrow> (\<exists>t. denotes py x t \<and> msg_tree package ds md t)"

lemma describes_list:
  "denote_list py xs ts \<Longrightarrow> list_all2 (field_tree package ds) fds ts \<Longrightarrow> list_all2 (describes_field py package ds) fds xs"
  "denote_list py xs ts \<Longrightarrow> list_all2 (msg_tree package ds) mds ts \<Longrightarrow> list_all2 (describes_msg py package ds) mds xs"
proof -
  show "denote_list py xs ts \<Longrightarrow> list_all2 (field_tree package ds) fds ts \<Longrightarrow> list_all2 (describes_field py package ds) fds xs"
    by (induction xs ts arbitrary: fds rule: list_induct2') (auto simp: list_all2_Cons2 describes_field_def)
  show "denote_list py xs ts \<Longrightarrow> list_all2 (msg_tree package ds) mds ts \<Longrightarrow> list_all2 (describes_msg py package ds) mds xs"
    by (induction xs ts arbitrary: mds rule: list_induct2') (auto simp: list_all2_Cons2 describes_msg_def)
qed

lemma describes_extends:
  assumes "extends py py'"
  shows "describes_field py package ds fd x \<Longrightarrow> describes_field py' package ds fd x"
    and "describes_msg py package ds md x \<Longrightarrow> describes_msg py' package ds md x"
    and "list_all2 (describes_msg py package ds) mds xs \<Longrightarrow> list_all2 (describes_msg py' package ds) mds xs"
proof -
  note mono = extends_denotes(1) [OF _ assms]
  show "describes_field py package ds fd x \<Longrightarrow> describes_field py' package ds fd x"
    unfolding describes_field_def using mono by blast
  have msg: "describes_msg py package ds md x \<Longrightarrow> describes_msg py' package ds md x" for md x
    unfolding describes_msg_def using mono by blast
  then show "describes_msg py package ds md x \<Longrightarrow> describes_msg py' package ds md x" .
  show "list_all2 (describes_msg py package ds) mds xs \<Longrightarrow> list_all2 (describes_msg py' package ds) mds xs"
    by (erule list_all2_mono) (rule msg)
qed

text \<open>What the code reads from the dictionary of a message.\<close>

lemma msg_items_read:
  assumes "describes_msg py package ds md x"
  shows "string_prop py x ''name'' = Some (name_bytes (md_name md))"
    and "\<exists>fs. message_fields py x = Some (x, fs) \<and> list_all2 (describes_field py package ds) (msg_fields md) fs"
proof -
  obtain u kvs v ts where x: "denotes py x (Dct u kvs)" and name: "map_of kvs ''name'' = Some (Leaf (Py_str (name_bytes (md_name md))))"
    and fields: "map_of kvs ''field'' = Some (Lst v ts)" "list_all2 (field_tree package ds) (msg_fields md) ts"
    using assms by (auto simp: describes_msg_def elim!: msg_tree.elims(2) split: option.splits tree.splits)
  from leaf_item [OF x name] show "string_prop py x ''name'' = Some (name_bytes (md_name md))"
    by (simp add: string_prop_def)
  from some_item [OF x fields(1)] dict_agrees(2) [OF x]
  show "\<exists>fs. message_fields py x = Some (x, fs) \<and> list_all2 (describes_field py package ds) (msg_fields md) fs"
    by (auto simp: message_fields_def list_prop_def intro: describes_list(1) [OF _ fields(2)] split: option.splits)
qed

lemma msg_init_upd: "m\<lparr>mi_fields := fs, mi_name := s\<rparr> = \<lparr>mi_fields = fs, mi_name = s\<rparr>"
  by (cases m) simp

lemma init_message_builds:
  assumes new: "newer py0 self py" and t: "describes_msg py0 package ds md t" and name: "CHR 0x00 \<notin> set (md_name md)"
    and ms: "de_msg_desc self = Some ms" "i < length ms" "length ms < 2 ^ 32" and mem: "0 < de_allocs self"
  shows "\<exists>self' py'. init_message package i t (self, py) = Inr (False, self', py') \<and> newer py0 self' py' \<and>
    py_error py' = py_error py \<and> de_msg_desc self' = Some (ms[i := start_msg md]) \<and> de_num_msgs self' = de_num_msgs self \<and>
    de_allocs self \<le> Suc (de_allocs self') \<and> index self' py' = (index self py)(full_name package md := Some (Py_int (int i)))"
proof -
  have t': "describes_msg py package ds md t"
    using describes_extends(2) [OF newer_extends [OF new] t] .
  obtain fs where fs: "message_fields py t = Some (t, fs)" "length fs = length (msg_fields md)"
    using msg_items_read(2) [OF t'] list_all2_lengthD by fastforce
  define self0 where "self0 = (if fs \<noteq> [] then self\<lparr>de_allocs := de_allocs self - 1\<rparr> else self)"
  have new0: "newer py0 self0 py" and i: "in_long (int i)"
    using new ms by (simp_all add: self0_def in_long_def)
  have same: "de_msg_desc self0 = Some ms" "de_message_types self0 = de_message_types self" "index self0 = index self"
    "de_num_msgs self0 = de_num_msgs self" "de_allocs self \<le> Suc (de_allocs self0)"
    using ms(1) by (auto simp: self0_def index_def)
  from store_string_newer [OF new0, of "name_bytes (md_name md)"] obtain py1 where
    1: "Descriptor_store_string (self0, py) (name_bytes (md_name md)) = Inr (name_bytes (md_name md), self0, py1)"
    "newer py0 self0 py1" "py_error py1 = py_error py" "index self0 py1 = index self0 py"
    by (auto simp: c_str_name_bytes [OF name])
  from set_index_newer [OF 1(2), of "full_name package md" "Py_int (int i)"] obtain py2 where
    2: "PyDict_SetItemString (Some (de_message_types self0)) (full_name package md) (Py_int (int i)) py1 = Inr py2"
    "newer py0 self0 py2" "py_error py2 = py_error py1" "index self0 py2 = (index self0 py1)(full_name package md := Some (Py_int (int i)))"
    by blast
  have "init_message package i t (self, py) = Inr (False, put_msg i (start_msg md) self0, py2)"
    using fs mem ms(2) same(1,2) 1(1) 2(1) i msg_items_read(1) [OF t'] full_name_chars [of package md]
    by (simp add: init_message_def get_msg_def self0_def [symmetric] start_msg_def int_object_def put_msg_def msg_init_upd)
  then show ?thesis
    using 1 2 same by (auto simp: put_msg_def index_def)
qed

fun indexed :: "u8 list \<Rightarrow> nat \<Rightarrow> descs \<Rightarrow> (string \<Rightarrow> py option) \<Rightarrow> string \<Rightarrow> py option" where
  "indexed package i [] f = f"
| "indexed package i (md # mds) f = indexed package (Suc i) mds (f(full_name package md := Some (Py_int (int i))))"

lemma indexed_other: "k \<notin> full_name package ` set mds \<Longrightarrow> indexed package i mds f k = f k"
  by (induction mds arbitrary: i f) auto

lemma indexed_nth:
  "distinct (map md_name mds) \<Longrightarrow> j < length mds \<Longrightarrow> indexed package i mds f (full_name package (mds ! j)) = Some (Py_int (int (i + j)))"
proof (induction mds arbitrary: i f j)
  case (Cons md mds)
  have "full_name package md \<notin> full_name package ` set mds"
    using Cons.prems(1) by (auto simp: full_name_def)
  with Cons show ?case
    by (cases j) (simp_all add: indexed_other)
qed simp

lemma init_pass0_builds:
  assumes "newer py0 self py" and "list_all2 (describes_msg py0 package ds) mds ts" and "list_all (\<lambda>md. CHR 0x00 \<notin> set (md_name md)) mds"
    and "de_msg_desc self = Some (map start_msg old @ replicate (length mds) zero_msg)" "length old + length mds < 2 ^ 32" and "length mds \<le> de_allocs self"
  shows "\<exists>self' py'. init_pass0 package (length old) ts (self, py) = Inr (False, self', py') \<and> newer py0 self' py' \<and> py_error py' = py_error py \<and>
    de_msg_desc self' = Some (map start_msg (old @ mds)) \<and> de_num_msgs self' = de_num_msgs self \<and>
    index self' py' = indexed package (length old) mds (index self py)"
  using assms
proof (induction mds arbitrary: old self py ts)
  case Nil
  then show ?case by (cases ts) auto
next
  case (Cons md mds)
  obtain t ts' where ts: "ts = t # ts'" "describes_msg py0 package ds md t" "list_all2 (describes_msg py0 package ds) mds ts'"
    using Cons.prems(2) by (cases ts) auto
  from init_message_builds [OF Cons.prems(1) ts(2) _ Cons.prems(4), of "length old"] Cons.prems(3,5,6) obtain self1 py1 where
    1: "init_message package (length old) t (self, py) = Inr (False, self1, py1)" "newer py0 self1 py1" "py_error py1 = py_error py"
    "de_msg_desc self1 = Some (map start_msg (old @ [md]) @ replicate (length mds) zero_msg)" "de_num_msgs self1 = de_num_msgs self"
    "de_allocs self \<le> Suc (de_allocs self1)" "index self1 py1 = (index self py)(full_name package md := Some (Py_int (int (length old))))"
    by (auto simp: list_update_append)
  from Cons.IH [OF 1(2) ts(3) _ 1(4)] Cons.prems(3,5,6) 1 show ?case
    by (fastforce simp: ts(1))
qed

section \<open>The second pass\<close>

lemma field_items_read:
  assumes "describes_field py package ds fd x"
  shows "PyDict_Check py x" and "string_prop py x ''name'' = Some (name_bytes (fd_name fd))" and "int_prop py x ''number'' = Some (uint (number fd))"
    and "int_prop py x ''label'' = Some (label_code (opt_label (opts fd)))"
    and "int_prop py x ''type'' = Some (int (typ_code (field_type fd)))" and "option_flags py x = opt_flags (opts fd)"
    and "PyDict_GetItemString py x ''default_value'' = None"
    and "fd_msg_desc fd = Some k \<Longrightarrow> string_prop py x ''type_name'' = Some (type_name package (ds ! k))"
proof -
  obtain u kvs where x: "denotes py x (Dct u kvs)" and t: "field_tree package ds fd (Dct u kvs)"
    using assms by (auto simp: describes_field_def elim!: field_tree.elims(2))
  show "PyDict_Check py x" by (rule dict_agrees(2) [OF x])
  show "string_prop py x ''name'' = Some (name_bytes (fd_name fd))" "int_prop py x ''number'' = Some (uint (number fd))"
    "int_prop py x ''label'' = Some (label_code (opt_label (opts fd)))" "int_prop py x ''type'' = Some (int (typ_code (field_type fd)))"
    "PyDict_GetItemString py x ''default_value'' = None"
    using t leaf_item [OF x, of "''name''"] leaf_item [OF x, of "''number''"] leaf_item [OF x, of "''label''"]
      leaf_item [OF x, of "''type''"] no_item [OF x, of "''default_value''"]
    by (simp_all add: string_prop_def int_prop_def)
  show "string_prop py x ''type_name'' = Some (type_name package (ds ! k))" if "fd_msg_desc fd = Some k"
    using t that leaf_item [OF x, of "''type_name''"] by (simp add: string_prop_def)
  have true: "a = Leaf (Py_bool True)" if "denotes py (Py_bool True) a" for a
    using that by (cases a) (simp_all add: list_items_def dict_items_def)
  have flag: "option_flag py y k f = flag_of os k f" if "denotes py y (Dct v os)" for y k f v os
    using leaf_item [OF that, of k "Py_bool True"] no_item [OF that, of k] some_item [OF that, of k]
    by (cases "map_of os k") (auto simp: option_flag_def flag_of_def dest: true)
  have "option_flags py x = flags_of (map_of kvs ''options'')"
  proof (cases "map_of kvs ''options''")
    case None
    then show ?thesis using no_item [OF x None] by (simp add: option_flags_def)
  next
    case (Some t)
    then obtain y where y: "PyDict_GetItemString py x ''options'' = Some y" "denotes py y t"
      using some_item [OF x Some] by blast
    with Some flag dict_agrees(2) [of py y] show ?thesis
      by (cases t; cases y) (auto simp: option_flags_def PyDict_Check_def dict_items_def list_items_def split: option.splits)
  qed
  with t show "option_flags py x = opt_flags (opts fd)" by simp
qed

lemma find_message_builds:
  assumes "list_all2 (describes_msg py package ds) mds ts" and "list_all (\<lambda>md. CHR 0x00 \<notin> set (md_name md)) mds"
    and "distinct (map md_name mds)" and "k < length mds"
  shows "find_message py package (type_name package (mds ! k)) i ts = Some (i + k)"
  using assms
proof (induction mds arbitrary: ts i k)
  case (Cons md mds)
  obtain t ts' where ts: "ts = t # ts'" "describes_msg py package ds md t" "list_all2 (describes_msg py package ds) mds ts'"
    using Cons.prems(1) by (cases ts) auto
  have t: "PyDict_Check py t" "string_prop py t ''name'' = Some (name_bytes (md_name md))"
    using msg_items_read [OF ts(2)] by (auto simp: message_fields_def split: if_splits)
  have name: "c_str (name_bytes (md_name md)) = name_bytes (md_name md)"
    using Cons.prems(2) by (simp add: c_str_name_bytes)
  show ?case
  proof (cases k)
    case 0
    then show ?thesis using t name by (simp add: ts(1) type_name_def)
  next
    case (Suc k')
    with Cons.prems(4) have "md_name (mds ! k') \<in> md_name ` set mds"
      by (intro imageI nth_mem) simp
    with Cons.prems(3) have "md_name (mds ! k') \<noteq> md_name md" by auto
    with Cons.IH [OF ts(3), of k' "Suc i"] Cons.prems(2-4) Suc t name show ?thesis
      by (simp add: ts(1) type_name_def)
  qed
qed simp

text \<open>What both passes over the dictionary of the file need.\<close>

definition described :: "python \<Rightarrow> u8 list \<Rightarrow> descs \<Rightarrow> py list \<Rightarrow> bool" where
  "described py0 package ds msgtypes \<longleftrightarrow> describable ds \<and> list_all2 (describes_msg py0 package ds) ds msgtypes"

lemma init_field_builds:
  assumes desc: "described py0 package ds msgtypes" and new: "newer py0 self py" and x: "describes_field py0 package ds fd x"
    and fd: "field_describable (length ds) fd" and m: "get_msg i self = Inr m" "mi_fields m ! j = zero_field"
  shows "\<exists>py'. init_field itp dict msgtypes package msgtype i j x (self, py) =
      Inr (False, put_msg i (m\<lparr>mi_fields := (mi_fields m)[j := table_field fd]\<rparr>) self, py') \<and>
    newer py0 self py' \<and> py_error py' = py_error py \<and> index self py' = index self py"
proof -
  have name: "c_str (name_bytes (fd_name fd)) = name_bytes (fd_name fd)"
    using fd by (simp add: c_str_name_bytes field_describable_def)
  from store_string_newer [OF new, of "name_bytes (fd_name fd)"] obtain py1 where
    1: "Descriptor_store_string (self, py) (name_bytes (fd_name fd)) = Inr (name_bytes (fd_name fd), self, py1)"
    "newer py0 self py1" "py_error py1 = py_error py" "index self py1 = index self py"
    by (auto simp: name)
  note x0 = field_items_read [OF describes_extends(1) [OF newer_extends [OF new] x]]
  note x1 = field_items_read [OF describes_extends(1) [OF newer_extends [OF 1(2)] x]]
  let ?f = "(table_field fd)\<lparr>fi_msg_desc := None\<rparr>"
  have f: "(field_numbers py x zero_field)\<lparr>fi_name := Some (name_bytes (fd_name fd))\<rparr> = ?f"
    using x0 by (simp add: field_numbers_def table_field_def zero_field_def)
  have ty: "typ_of (fi_typ ?f) = field_type fd"
    using fd by (simp add: table_field_def field_describable_def typ_of_code)
  have "field_message package msgtypes m x ?f py1 = Inr (False, table_field fd, py1)"
  proof (cases "fd_msg_desc fd")
    case None
    with fd have "field_type fd \<noteq> LWPB_MESSAGE" by (simp add: field_describable_def)
    with None ty show ?thesis by (simp add: field_message_def table_field_def)
  next
    case (Some k)
    with fd have k: "field_type fd = LWPB_MESSAGE" "k < length ds" by (simp_all add: field_describable_def)
    have "list_all2 (describes_msg py1 package ds) ds msgtypes"
      using desc describes_extends(3) [OF newer_extends [OF 1(2)]] by (auto simp: described_def)
    from find_message_builds [OF this, of k 0] desc k(2) have "resolve py1 package msgtypes x = Some k"
      using x1(8) [OF Some] by (auto simp: resolve_def described_def describable_def list_all_iff)
    with Some k(1) ty show ?thesis
      by (simp add: field_message_def table_field_def)
  qed
  with x0 x1 1 m f show ?thesis
    by (simp add: init_field_def field_name_def)
qed

lemma init_fields_builds:
  assumes desc: "described py0 package ds msgtypes"
  shows "newer py0 self py \<Longrightarrow> list_all2 (describes_field py0 package ds) fds xs \<Longrightarrow> list_all (field_describable (length ds)) fds \<Longrightarrow>
    de_msg_desc self = Some ms \<Longrightarrow> i < length ms \<Longrightarrow> mi_fields (ms ! i) = old @ replicate (length fds) zero_field \<Longrightarrow>
    \<exists>self' py'. init_fields itp dict msgtypes package msgtype i (length old) xs (self, py) = Inr (False, self', py') \<and>
      newer py0 self' py' \<and> py_error py' = py_error py \<and> de_num_msgs self' = de_num_msgs self \<and> index self' py' = index self py \<and>
      de_msg_desc self' = Some (ms[i := (ms ! i)\<lparr>mi_fields := old @ map table_field fds\<rparr>])"
proof (induction fds arbitrary: old self py xs ms)
  case Nil
  moreover have "ms[i := (ms ! i)\<lparr>mi_fields := mi_fields (ms ! i)\<rparr>] = ms" by simp
  ultimately show ?case by (cases xs) auto
next
  case (Cons fd fds)
  obtain x xs' where xs: "xs = x # xs'" "describes_field py0 package ds fd x" "list_all2 (describes_field py0 package ds) fds xs'"
    using Cons.prems(2) by (cases xs) auto
  let ?m = "(ms ! i)\<lparr>mi_fields := (mi_fields (ms ! i))[length old := table_field fd]\<rparr>"
  let ?self = "put_msg i ?m self"
  have "get_msg i self = Inr (ms ! i)" "mi_fields (ms ! i) ! length old = zero_field" "field_describable (length ds) fd"
    using Cons.prems(3-6) by (simp_all add: get_msg_def nth_append)
  from init_field_builds [OF desc Cons.prems(1) xs(2) this(3,1,2)] obtain py1 where
    1: "init_field itp dict msgtypes package msgtype i (length old) x (self, py) = Inr (False, ?self, py1)"
    "newer py0 self py1" "py_error py1 = py_error py" "index self py1 = index self py"
    by blast
  have new: "newer py0 ?self py1" using 1(2) by simp
  have m: "?m = (ms ! i)\<lparr>mi_fields := (old @ [table_field fd]) @ replicate (length fds) zero_field\<rparr>"
    using Cons.prems(6) by (simp add: list_update_append)
  have "de_msg_desc ?self = Some (ms[i := ?m])" "mi_fields (ms[i := ?m] ! i) = (old @ [table_field fd]) @ replicate (length fds) zero_field"
    using Cons.prems(4,5) unfolding m by (simp_all add: put_msg_def)
  from Cons.IH [OF new xs(3) _ this(1) _ this(2)] Cons.prems(3,5) 1 show ?case
    by (auto simp: xs(1) put_msg_def index_def)
qed

lemma init_pass1_builds:
  assumes desc: "described py0 package ds msgtypes"
  shows "newer py0 self py \<Longrightarrow> list_all2 (describes_msg py0 package ds) mds ts \<Longrightarrow>
    list_all (\<lambda>md. list_all (field_describable (length ds)) (msg_fields md)) mds \<Longrightarrow>
    de_msg_desc self = Some (map table_msg old @ map start_msg mds) \<Longrightarrow>
    \<exists>self' py'. init_pass1 itp dict msgtypes package (length old) ts (self, py) = Inr (False, self', py') \<and> newer py0 self' py' \<and>
      py_error py' = py_error py \<and> de_num_msgs self' = de_num_msgs self \<and> index self' py' = index self py \<and>
      de_msg_desc self' = Some (map table_msg (old @ mds))"
proof (induction mds arbitrary: old self py ts)
  case Nil
  then show ?case by (cases ts) auto
next
  case (Cons md mds)
  obtain t ts' where ts: "ts = t # ts'" "describes_msg py0 package ds md t" "list_all2 (describes_msg py0 package ds) mds ts'"
    using Cons.prems(2) by (cases ts) auto
  let ?ms = "map table_msg old @ start_msg md # map start_msg mds"
  note newer = newer_extends [OF Cons.prems(1)]
  obtain fs where fs: "message_fields py t = Some (t, fs)" and fs0: "message_fields py0 t = Some (t, fs)"
      "list_all2 (describes_field py0 package ds) (msg_fields md) fs"
  proof -
    obtain fs where fs0: "message_fields py0 t = Some (t, fs)" "list_all2 (describes_field py0 package ds) (msg_fields md) fs"
      using msg_items_read(2) [OF ts(2)] by blast
    then have "message_fields py t = Some (t, fs)"
      using extends_items [OF newer]
      by (auto simp: message_fields_def list_prop_def PyDict_Check_def PyDict_GetItemString_def bind_eq_Some_conv split: if_splits option.splits)
    with fs0 that show thesis by blast
  qed
  have "length old < length ?ms" "mi_fields (?ms ! length old) = [] @ replicate (length (msg_fields md)) zero_field"
    "list_all (field_describable (length ds)) (msg_fields md)" "de_msg_desc self = Some ?ms"
    using Cons.prems(3,4) by (simp_all add: start_msg_def nth_append)
  from init_fields_builds [where itp = itp and dict = dict and msgtype = t, OF desc Cons.prems(1) fs0(2) this(3,4,1,2)] obtain self1 py1 where
    1: "init_fields itp dict msgtypes package t (length old) 0 fs (self, py) = Inr (False, self1, py1)" "newer py0 self1 py1"
    "py_error py1 = py_error py" "de_num_msgs self1 = de_num_msgs self" "index self1 py1 = index self py"
    "de_msg_desc self1 = Some (?ms[length old := (?ms ! length old)\<lparr>mi_fields := map table_field (msg_fields md)\<rparr>])"
    by auto
  have "de_msg_desc self1 = Some (map table_msg (old @ [md]) @ map start_msg mds)"
    using 1(6) by (simp add: list_update_append nth_append start_msg_def table_msg_def)
  from Cons.IH [OF 1(2) ts(3) _ this] Cons.prems(3) 1 fs show ?case
    by (auto simp: ts(1))
qed

section \<open>The whole initialisation\<close>

lemma new_newer:
  assumes "Descriptor_new allocs py = (self, py1)"
  shows "newer py self py1" and "py_error py1 = py_error py" and "de_allocs self = allocs" and "index self py1 = (\<lambda>k. None)"
    and "de_msg_desc self = None"
  using assms
  by (auto simp: Descriptor_new_def new_list_def PyDict_New_def new_container_def newer_def extends_def index_def
      PyDict_GetItemString_def dict_items_def nth_append)

lemma descriptor_builds:
  assumes dict: "denotes py dict v" "file_tree package ds v" and ds: "describable ds" "ds \<noteq> []" "length ds < 2 ^ 32"
    and package: "0 \<notin> set package" and mem: "length ds < allocs" and new: "Descriptor_new allocs py = (self, py1)"
  shows "\<exists>self' py' ms. Descriptor_init itp dict (self, py1) = Inr (0, self', py') \<and> de_msg_desc self' = Some ms \<and> descs_of ms = ds \<and>
    de_num_msgs self' = of_nat (length ds) \<and> py_error py' = py_error py \<and> extends py py' \<and>
    (\<forall>i < length ds. PyDict_GetItemString py' (Descriptor_message_types self') (full_name package (ds ! i)) = Some (Py_int (int i)))"
proof -
  note start = new_newer [OF new]
  obtain u kvs w vs where v: "v = Dct u kvs" and entries: "map_of kvs ''package'' = Some (Leaf (Py_str package))"
      "map_of kvs ''message_type'' = Some (Lst w vs)" "list_all2 (msg_tree package ds) ds vs"
    using dict(2) by (auto elim!: file_tree.elims(2) split: option.splits tree.splits)
  have d0: "denotes py dict (Dct u kvs)"
    using dict(1) by (simp only: v)
  have d1: "denotes py1 dict (Dct u kvs)"
    using extends_denotes(1) [OF d0 newer_extends [OF start(1)]] .
  obtain x ts where x: "PyDict_GetItemString py dict ''message_type'' = Some x" "list_items py x = Some ts"
    and ts0: "denote_list py ts vs"
    using some_item [OF d0 entries(2)] by (auto split: option.splits)
  have ts: "list_all2 (describes_msg py package ds) ds ts"
    using describes_list(2) [OF ts0 entries(3)] .
  obtain y where y: "PyDict_GetItemString py1 dict ''message_type'' = Some y"
    using some_item [OF d1 entries(2)] by auto
  have "y = x"
    using x(1) y extends_items(2) [OF newer_extends [OF start(1)]] by (auto simp: PyDict_GetItemString_def split: option.splits)
  then have x1: "PyDict_GetItemString py1 dict ''message_type'' = Some x" "list_items py1 x = Some ts"
    using y extends_items(1) [OF newer_extends [OF start(1)] x(2)] by simp_all
  have pkg: "string_prop py1 dict ''package'' = Some package"
    using leaf_item [OF d1 entries(1)] by (simp add: string_prop_def)
  have cpkg: "c_str package = package"
    using package by (auto simp: c_str_def takeWhile_eq_all_conv)
  have len: "length ts = length ds" using list_all2_lengthD [OF ts] by simp
  let ?self = "self\<lparr>de_allocs := de_allocs self - 1, de_msg_desc := Some (replicate (length ts) zero_msg), de_num_msgs := of_nat (length ts)\<rparr>"
  have desc: "described py package ds ts" using ds(1) ts by (simp add: described_def)
  have new0: "newer py ?self py1" using start(1) by simp
  have names: "list_all (\<lambda>md. CHR 0x00 \<notin> set (md_name md)) ds" "list_all (\<lambda>md. list_all (field_describable (length ds)) (msg_fields md)) ds"
    using ds(1) by (auto simp: describable_def list_all_iff)
  have "de_msg_desc ?self = Some (map start_msg [] @ replicate (length ds) zero_msg)" "length ([] :: descs) + length ds < 2 ^ 32"
    "length ds \<le> de_allocs ?self"
    using ds(3) mem len start(3) by simp_all
  from init_pass0_builds [OF new0 ts names(1) this] len obtain self2 py2 where
    2: "init_pass0 package 0 ts (?self, py1) = Inr (False, self2, py2)" "newer py self2 py2" "py_error py2 = py_error py1"
    "de_msg_desc self2 = Some (map table_msg [] @ map start_msg ds)" "de_num_msgs self2 = of_nat (length ts)"
    "index self2 py2 = indexed package 0 ds (index ?self py1)"
    by auto
  from init_pass1_builds [where itp = itp and dict = dict, OF desc 2(2) ts names(2) 2(4)] obtain self3 py3 where
    3: "init_pass1 itp dict ts package 0 ts (self2, py2) = Inr (False, self3, py3)" "newer py self3 py3" "py_error py3 = py_error py2"
    "de_num_msgs self3 = de_num_msgs self2" "index self3 py3 = index self2 py2" "de_msg_desc self3 = Some (map table_msg ds)"
    by auto
  have "ts \<noteq> []" using ds(2) len by auto
  then have run: "Descriptor_init itp dict (self, py1) = Inr (0, self3, py3)"
    using dict_agrees(2) [OF d1] x1 pkg cpkg mem start(3) 2(1) 3(1)
    by (simp add: Descriptor_init_def init_messages_def Let_def)
  have "index self3 py3 (full_name package (ds ! i)) = Some (Py_int (int i))" if "i < length ds" for i
    using indexed_nth [of ds i package 0] ds(1) that 2(6) 3(5) by (simp add: describable_def)
  with run 2 3 start(2) descs_of_table [OF ds(1)] len show ?thesis
    by (auto simp: index_def Descriptor_message_types_def newer_extends)
qed

end
