(* ===== verification/Py_Examples.thy ===== *)
theory Py_Examples
  imports Py_Failures Py_Descriptor_Build Rpc_Examples
begin

text \<open>
  The properties of the Python bindings, applied to a process with two message descriptors and a few
  objects.
\<close>

section \<open>The sample process\<close>

definition py_field :: "u32 \<Rightarrow> string \<Rightarrow> field_label \<Rightarrow> field_typ \<Rightarrow> u8 \<Rightarrow> msg_ref option \<Rightarrow> lwpb_field_desc" where
  "py_field n name l t fl msg = \<lparr>number = n, opts = \<lparr>opt_label = l, opt_typ = t, opt_flags = fl\<rparr>,
     fd_msg_desc = msg, fd_name = name, fd_def = V_message 0 0\<rparr>"

definition py_descs :: descs where
  "py_descs =
    [\<lparr>msg_fields =
       [py_field 1 ''id'' LWPB_OPTIONAL LWPB_INT32 0 None,
        py_field 2 ''name'' LWPB_OPTIONAL LWPB_STRING 0 None,
        py_field 3 ''child'' LWPB_OPTIONAL LWPB_MESSAGE 0 (Some 1),
        py_field 4 ''nums'' LWPB_REPEATED LWPB_UINT32 LWPB_IS_PACKED None,
        py_field 5 ''big'' LWPB_OPTIONAL LWPB_INT64 0 None], md_name = ''Outer''\<rparr>,
     \<lparr>msg_fields = [py_field 1 ''n'' LWPB_REQUIRED LWPB_UINT64 0 None], md_name = ''Inner''\<rparr>]"

text \<open>An interpreter that converts no other objects and keeps a string at the start of the memory.\<close>

definition py_interpreter :: interpreter where
  "py_interpreter = \<lparr>to_int = (\<lambda>_. None), to_float = (\<lambda>_. None), to_string = (\<lambda>_. None), narrow = ucast, widen = ucast,
     string_addr = (\<lambda>_. 0), scan_double = (\<lambda>_. Mismatch), scan_float = (\<lambda>_. Mismatch)\<rparr>"

text \<open>A message, and dictionaries with an entry that cannot be encoded.\<close>

definition py_objects :: python where
  "py_objects = \<lparr>py_store =
     [Dict_of [(''nums'', Py_list 2), (''id'', Py_int 7), (''name'', Py_str [104, 105]), (''child'', Py_dict 1)],
      Dict_of [(''n'', Py_long 5)], List_of [Py_long 1, Py_long 2],
      Dict_of [(''child'', Py_int 1)], Dict_of [(''id'', Py_str [104])], Dict_of [(''big'', Py_int 1)],
      List_of [Py_dict 1, Py_int 1], Dict_of [(''id'', Py_int 7), (''child'', Py_list 6)], Dict_of [(''big'', Py_list 2), (''id'', Py_int 7)]],
     py_error = None\<rparr>"

definition py_message :: "unit tree" where
  "py_message = Dct () [(''id'', Leaf (Py_int 7)), (''name'', Leaf (Py_str [104, 105])),
     (''child'', Dct () [(''n'', Leaf (Py_long 5))]), (''nums'', Lst () [Leaf (Py_long 1), Leaf (Py_long 2)])]"

definition py_items :: message where
  "py_items = [Scalar 0 (V_int32 7), Data 1 [104, 105], Sub 2 [Scalar 0 (V_uint64 5)], Packed 3 [V_uint32 1, V_uint32 2]]"

definition py_world :: "python world" where
  "py_world = \<lparr>w_mem = [104, 105], w_blocks = [], w_avail = 4096, w_any = rpc_any, w_answers = [], w_log = [], w_app = py_objects\<rparr>"

lemma py_world_sel:
  "w_mem py_world = [104, 105]" "w_avail py_world = 4096" "w_app py_world = py_objects" "heap_ok py_world"
  by (simp_all add: py_world_def heap_ok_def)

lemma py_sample:
  "denotes py_objects (Py_dict 0) py_message" "fits 2 py_interpreter py_descs 0 py_message" "descs_ok py_descs" "names_ok py_descs"
  "msg_items 2 py_interpreter py_descs py_objects 0 (Py_dict 0) = Some py_items" "items_space py_descs 0 py_items \<le> 100"
  "items_strings py_items = [[104, 105]]"
  by code_simp+

lemma py_items_wf: "wf_items py_descs 0 py_items" "items_depth py_items \<le> 2"
  using msg_items_wf(1) [OF py_sample(5,3)] by simp_all

lemma py_keeps: "keeps py_interpreter (bs @ m) bs"
  by (simp add: keeps_def py_interpreter_def peek_def)

section \<open>Encoding and decoding\<close>

text \<open>
  C6: A dictionary in the form of a message is the same after a round trip: Encoder_encode turns it into a
  string and leaves it alone, and Decoder_decode turns this string into a dictionary with the same
  value. Its numbers are of the types that Decoder_decode makes: int objects for 32 bit integers with a sign
  and for enumerations, long objects for the other integers. The C stack must have room for the nested
  messages, of which there are less than LWPB_MAX_DEPTH.
\<close>

theorem python_roundtrip:
  assumes "denotes (w_app w) obj v" and "fits n itp ds i v" and "n < LWPB_MAX_DEPTH" and "n \<le> k"
    and "descs_ok ds" and "length ds < 2 ^ 31" and "heap_ok w"
    and "msg_items n itp ds (w_app w) i obj = Some its" and "items_space ds i its \<le> w_avail w"
    and "items_space ds i its < 2 ^ 31" and "length (w_mem w) + items_space ds i its < 2 ^ 63"
    and "list_all (keeps itp (w_mem w)) (items_strings its)"
  shows "\<exists>bs enc' w'. Encoder_encode k itp ds enc obj (Py_int (int i)) w = Inr (Some (Py_str bs), enc', w') \<and> w_app w' = w_app w \<and>
    (\<forall>m wv dec. keeps itp m bs \<and> length m < 2 ^ 63 \<and> length (dec_stack dec) = LWPB_MAX_DEPTH \<longrightarrow>
      (\<exists>dec' d py'. Decoder_decode itp ds m wv dec (Py_str bs) (Py_int (int i)) (w_app w) = Inr (dec', Some d, py') \<and>
        denotes py' d v))"
  using roundtrip [of w obj v n itp ds i k enc] assms by simp

lemma python_roundtrip_witness:
  "\<exists>bs Encoder_new' w' dec' d py'. Encoder_encode 5 py_interpreter py_descs Encoder_new (Py_dict 0) (Py_int 0) py_world = Inr (Some (Py_str bs), Encoder_new', w') \<and>
    Decoder_decode py_interpreter py_descs bs no_wire_value (Decoder_new py_objects) (Py_str bs) (Py_int 0) py_objects =
      Inr (dec', Some d, py') \<and> denotes py' d py_message"
proof -
  obtain bs Encoder_new' w' where 1: "Encoder_encode 5 py_interpreter py_descs Encoder_new (Py_dict 0) (Py_int (int 0)) py_world = Inr (Some (Py_str bs), Encoder_new', w')"
    and 2: "\<forall>m wv dec. keeps py_interpreter m bs \<and> length m < 2 ^ 63 \<and> length (dec_stack dec) = LWPB_MAX_DEPTH \<longrightarrow>
      (\<exists>dec' d py'. Decoder_decode py_interpreter py_descs m wv dec (Py_str bs) (Py_int (int 0)) (w_app py_world) = Inr (dec', Some d, py') \<and>
        denotes py' d py_message)"
    using python_roundtrip [of py_world "Py_dict 0" py_message 2 py_interpreter py_descs 0 5 py_items Encoder_new] py_sample py_keeps [of "[104, 105]" "[]"]
    by (auto simp: py_world_sel LWPB_MAX_DEPTH_def py_descs_def)
  have "bs = items_bytes py_descs 0 py_items"
    using 1 encode_builds [of 5 py_interpreter py_descs py_world 0 "Py_dict 0" py_items Encoder_new] msg_items_mono [OF py_sample(5), of 5]
      py_sample(6,7) py_keeps [of "[104, 105]" "[]"]
    by (auto simp: py_world_sel py_descs_def)
  then have "length bs < 2 ^ 63"
    using py_sample(6) space_enough(2) [of py_descs 0 py_items] by simp
  then have "\<exists>dec' d py'. Decoder_decode py_interpreter py_descs bs no_wire_value (Decoder_new py_objects) (Py_str bs) (Py_int 0) py_objects =
      Inr (dec', Some d, py') \<and> denotes py' d py_message"
    using 2 py_keeps [of bs "[]"] by (simp add: py_world_sel Decoder_new_def)
  with 1 show ?thesis by auto
qed

text \<open>
  C11: Decoding the encoding of a well-formed message yields a dictionary with the value of the message:
  the fields under their names, the values of repeated fields in lists, nested messages merged. No
  exception is set and the objects that were there are not changed.
\<close>

theorem python_decode_value:
  assumes "wf_items ds i its" and "items_depth its < LWPB_MAX_DEPTH" and "names_ok ds" and "i < length ds" and "length ds < 2 ^ 31"
    and "length (dec_stack dec) = LWPB_MAX_DEPTH" and "keeps itp m (items_bytes ds i its)" and "length m < 2 ^ 63"
    and "length (items_bytes ds i its) < 2 ^ 31"
  shows "\<exists>dec' d py'. Decoder_decode itp ds m wv dec (Py_str (items_bytes ds i its)) (Py_int (int i)) py = Inr (dec', Some d, py') \<and>
    denotes py' d (message_value itp ds i its) \<and> py_error py' = py_error py \<and>
    (\<forall>c < length (py_store py). py_store py' ! c = py_store py ! c)"
  using decode_builds [of ds i its dec itp m wv py] assms by blast

lemma python_decode_value_witness:
  "\<exists>dec' d py'. Decoder_decode py_interpreter py_descs (items_bytes py_descs 0 py_items) no_wire_value (Decoder_new py_objects)
      (Py_str (items_bytes py_descs 0 py_items)) (Py_int 0) py_objects = Inr (dec', Some d, py') \<and>
    denotes py' d (message_value py_interpreter py_descs 0 py_items)"
  using python_decode_value [of py_descs 0 py_items "Decoder_new py_objects" py_interpreter "items_bytes py_descs 0 py_items" no_wire_value py_objects]
    py_items_wf py_sample(4,6) py_keeps [of "items_bytes py_descs 0 py_items" "[]"] space_enough(2) [of py_descs 0 py_items]
  by (auto simp: LWPB_MAX_DEPTH_def py_descs_def Decoder_new_def)

text \<open>
  C10: Encoding a dictionary yields the encoding of its message: the fields in the order of the
  descriptor, whatever the order of the dictionary. The first pass finds enough space for the second
  one, the memory for it is freed, and all other memory and the objects are not changed.
\<close>

theorem python_encode_bytes:
  assumes "msg_items n itp ds (w_app w) i obj = Some its" and "length ds < 2 ^ 31" and "heap_ok w"
    and "items_space ds i its \<le> w_avail w" and "items_space ds i its < 2 ^ 35" and "length (w_mem w) + items_space ds i its < 2 ^ 63"
    and "list_all (keeps itp (w_mem w)) (items_strings its)"
  shows "\<exists>enc' w'. Encoder_encode n itp ds enc obj (Py_int (int i)) w = Inr (Some (Py_str (items_bytes ds i its)), enc', w') \<and>
    w_app w' = w_app w \<and> w_blocks w' = w_blocks w \<and> take (length (w_mem w)) (w_mem w') = w_mem w"
  using encode_builds [of n itp ds w i obj its enc] assms by (simp add: list_all_iff)

lemma python_encode_bytes_witness:
  "\<exists>Encoder_new' w'. Encoder_encode 2 py_interpreter py_descs Encoder_new (Py_dict 0) (Py_int 0) py_world =
      Inr (Some (Py_str [8, 7, 18, 2, 104, 105, 26, 2, 8, 5, 34, 2, 1, 2]), Encoder_new', w')"
proof -
  have "items_bytes py_descs 0 py_items = [8, 7, 18, 2, 104, 105, 26, 2, 8, 5, 34, 2, 1, 2]"
    by code_simp
  then show ?thesis
    using python_encode_bytes [of 2 py_interpreter py_descs py_world 0 "Py_dict 0" py_items Encoder_new] py_sample py_keeps [of "[104, 105]" "[]"]
    by (auto simp: py_world_sel py_descs_def)
qed

section \<open>Values that cannot be encoded\<close>

text \<open>
  A value that cannot be converted is not reported as what it is: the size -1 is not noticed, the
  allocation of that many bytes fails, and Encoder_encode returns NULL with a MemoryError in place of the
  exception that the conversion has set.
\<close>

theorem python_error_replaced:
  assumes "dict_items (w_app w) obj = Some [(fd_name fd, x)]" and "list_items (w_app w) x = None"
    and "j < length (msg_fields (ds ! i))" and "fd = the_field ds i j" and "\<not> is_packed_repeated fd" and "field_type fd \<noteq> LWPB_MESSAGE"
    and "names_ok ds" and "i < length ds" and "length ds < 2 ^ 31"
    and "py_to_lwpb itp x (field_type fd) (w_app w) = Inr (None, py')" and "w_avail w < 2 ^ 64 - 1"
  shows "\<exists>enc' w'. Encoder_encode (Suc n) itp ds enc obj (Py_int (int i)) w = Inr (None, enc', w') \<and>
    py_error (w_app w') = Some (MemoryError, ''unable to allocate string'')"
  by (rule conversion_error [OF assms])

lemma py_sample_errors:
  "dict_items py_objects (Py_dict 3) = Some [(''child'', Py_int 1)]" "dict_items py_objects (Py_dict 4) = Some [(''id'', Py_str [104])]"
  "dict_items py_objects (Py_dict 5) = Some [(''big'', Py_int 1)]"
  "dict_items py_objects (Py_dict 7) = Some [(''id'', Py_int 7), (''child'', Py_list 6)]"
  "dict_items py_objects (Py_dict 8) = Some [(''big'', Py_list 2), (''id'', Py_int 7)]"
  "field_values py_objects (Py_list 6) = [Py_dict 1, Py_int 1]" "field_values py_objects (Py_list 2) = [Py_long 1, Py_long 2]"
  "field_values py_objects (Py_int 1) = [Py_int 1]" "\<not> PyDict_Check py_objects (Py_int 1)"
  "the_field py_descs 0 0 = py_field 1 ''id'' LWPB_OPTIONAL LWPB_INT32 0 None"
  "the_field py_descs 0 2 = py_field 3 ''child'' LWPB_OPTIONAL LWPB_MESSAGE 0 (Some 1)"
  "the_field py_descs 0 4 = py_field 5 ''big'' LWPB_OPTIONAL LWPB_INT64 0 None"
  "length (msg_fields (py_descs ! 0)) = 5" "length py_descs = 2"
  by (simp_all add: py_objects_def dict_items_def list_items_def field_values_def PyDict_Check_def py_descs_def the_field_def)

lemma python_error_replaced_witness:
  "\<exists>py' Encoder_new' w'. py_to_lwpb py_interpreter (Py_str [104]) LWPB_INT32 py_objects = Inr (None, py') \<and>
    py_error py' = Some (OverflowError, ''could not convert to long'') \<and>
    Encoder_encode 1 py_interpreter py_descs Encoder_new (Py_dict 4) (Py_int 0) py_world = Inr (None, Encoder_new', w') \<and>
    py_error (w_app w') = Some (MemoryError, ''unable to allocate string'')"
proof -
  obtain py' where "py_to_lwpb py_interpreter (Py_str [104]) LWPB_INT32 py_objects = Inr (None, py')"
    and "py_error py' = Some (OverflowError, ''could not convert to long'')"
    by (simp add: py_to_lwpb_def long_to_int32_def convert_to_long_def PyNumber_Int_def number_value_def py_interpreter_def)
  with python_error_replaced [of py_world "Py_dict 4" "py_field 1 ''id'' LWPB_OPTIONAL LWPB_INT32 0 None" "Py_str [104]" 0 py_descs 0 py_interpreter py' 0 Encoder_new]
  show ?thesis
    using py_sample(4) by (simp add: py_world_sel py_sample_errors py_field_def list_items_def is_packed_repeated_def)
qed

text \<open>
  C36: A dictionary whose entry for a field of type message is, or is a list with, a value that is not a
  dictionary is never encoded: Encoder_encode crashes, or it returns NULL with a MemoryError or a SystemError, and
  never with the TypeError that says "encode expects a dict". The test whether the size of the nested message is
  negative always fails, and in the second pass a message of 2^64 - 1 bytes is moved, which the memory is required
  not to hold. When the value, not in a list, is the only entry, its field is not packed, the C stack has room for
  two calls, and 24 bytes can be allocated, the encoder always crashes.
\<close>

theorem python_nested_crashes:
  assumes "PyDict_GetItemString (w_app w) obj (fd_name fd) = Some y" and "x \<in> set (field_values (w_app w) y)" and "\<not> PyDict_Check (w_app w) x"
    and "j < length (msg_fields (ds ! i))" and "fd = the_field ds i j" and "field_type fd = LWPB_MESSAGE" and "i < length ds" and "length ds < 2 ^ 31"
    and "length (w_mem w) + w_avail w < 2 ^ 64 - 1"
  shows "((\<exists>e. Encoder_encode n itp ds enc obj (Py_int (int i)) w = Inl e) \<or>
      (\<exists>enc' w' e t. Encoder_encode n itp ds enc obj (Py_int (int i)) w = Inr (None, enc', w') \<and>
        py_error (w_app w') = Some (e, t) \<and> (e = MemoryError \<or> e = SystemError))) \<and>
    (dict_items (w_app w) obj = Some [(fd_name fd, x)] \<and> list_items (w_app w) x = None \<and> \<not> is_packed_repeated fd \<and> names_ok ds \<and>
      24 \<le> w_avail w \<and> 2 \<le> n \<longrightarrow> Encoder_encode n itp ds enc obj (Py_int (int i)) w = Inl Fault)"
proof -
  have "fd \<in> set (msg_fields (ds ! i))"
    using assms(4,5) by (simp add: the_field_def)
  with nested_fails [of w obj fd y x ds i n itp enc] assms
  have general: "s = None \<and> (py_error (w_app w') = Some (MemoryError, ''unable to allocate string'') \<or> (\<exists>t. py_error (w_app w') = Some (SystemError, t)))"
    if "Encoder_encode n itp ds enc obj (Py_int (int i)) w = Inr (s, enc', w')" for s enc' w'
    using that by (simp add: PyDict_Check_def)
  moreover have "Encoder_encode n itp ds enc obj (Py_int (int i)) w = Inl Fault"
    if "dict_items (w_app w) obj = Some [(fd_name fd, x)]" "list_items (w_app w) x = None" "\<not> is_packed_repeated fd" "names_ok ds"
      "24 \<le> w_avail w" "2 \<le> n"
  proof -
    have "Suc (Suc (n - 2)) = n"
      using that(6) by arith
    then show ?thesis
      using nested_error [OF that(1,2) assms(3-5) that(3) assms(6) that(4) assms(7,8) that(5), of "n - 2" itp enc] that(5) assms(9) by simp
  qed
  ultimately show ?thesis
    by (cases "Encoder_encode n itp ds enc obj (Py_int (int i)) w") (fastforce, auto)
qed

lemma python_nested_crashes_witness:
  "((\<exists>e. Encoder_encode 2 py_interpreter py_descs Encoder_new (Py_dict 7) (Py_int 0) py_world = Inl e) \<or>
     (\<exists>enc' w' e t. Encoder_encode 2 py_interpreter py_descs Encoder_new (Py_dict 7) (Py_int 0) py_world = Inr (None, enc', w') \<and>
        py_error (w_app w') = Some (e, t) \<and> (e = MemoryError \<or> e = SystemError))) \<and>
   Encoder_encode 2 py_interpreter py_descs Encoder_new (Py_dict 3) (Py_int 0) py_world = Inl Fault"
  using python_nested_crashes [of py_world "Py_dict 7" "py_field 3 ''child'' LWPB_OPTIONAL LWPB_MESSAGE 0 (Some 1)" "Py_list 6" "Py_int 1" 2 py_descs 0
      2 py_interpreter Encoder_new]
    python_nested_crashes [of py_world "Py_dict 3" "py_field 3 ''child'' LWPB_OPTIONAL LWPB_MESSAGE 0 (Some 1)" "Py_int 1" "Py_int 1" 2 py_descs 0
      2 py_interpreter Encoder_new] py_sample(4)
  by (simp add: py_world_sel py_sample_errors py_field_def list_items_def is_packed_repeated_def PyDict_GetItemString_def)

text \<open>
  C37: A dictionary with an entry for a field of the types int64, sint64 or sfixed64 is never encoded, packed or
  not, unless the entry is an empty list: Encoder_encode has no defined result, crashes, or returns NULL with a
  MemoryError, as long as 2^64 - 1 bytes cannot be allocated. The conversion assigns the lower half of the number only, and the other half is read without
  having been written. When no entry comes before it, in the order of the fields, and it is a number or a list that begins
  with a number, then the result is always undefined.
\<close>

theorem python_int64_undefined:
  assumes "PyDict_GetItemString (w_app w) obj (fd_name fd) = Some x" and "field_values (w_app w) x \<noteq> []"
    and "j < length (msg_fields (ds ! i))" and "fd = the_field ds i j"
    and "field_type fd = LWPB_INT64 \<or> field_type fd = LWPB_SINT64 \<or> field_type fd = LWPB_SFIXED64"
    and "i < length ds" and "length ds < 2 ^ 31" and "w_avail w < 2 ^ 64 - 1"
  shows "((\<exists>e. Encoder_encode n itp ds enc obj (Py_int (int i)) w = Inl e) \<or>
      (\<exists>enc' w'. Encoder_encode n itp ds enc obj (Py_int (int i)) w = Inr (None, enc', w') \<and>
        py_error (w_app w') = Some (MemoryError, ''unable to allocate string''))) \<and>
    ((\<forall>k < j. PyDict_GetItemString (w_app w) obj (fd_name (the_field ds i k)) = None) \<and> number_value itp (hd (field_values (w_app w) x)) \<noteq> None \<and> 0 < n \<longrightarrow>
      Encoder_encode n itp ds enc obj (Py_int (int i)) w = Inl Undef)"
proof -
  have signed: "int64_typ (field_type fd)"
    using assms(5) by (simp add: int64_typ_def)
  moreover have "fd \<in> set (msg_fields (ds ! i))"
    using assms(3,4) by (simp add: the_field_def)
  ultimately have "s = None \<and> py_error (w_app w') = Some (MemoryError, ''unable to allocate string'')"
    if "Encoder_encode n itp ds enc obj (Py_int (int i)) w = Inr (s, enc', w')" for s enc' w'
    using int64_fails [OF assms(1,2) _ signed assms(6-8) that] by simp
  then have "(\<exists>e. Encoder_encode n itp ds enc obj (Py_int (int i)) w = Inl e) \<or>
      (\<exists>enc' w'. Encoder_encode n itp ds enc obj (Py_int (int i)) w = Inr (None, enc', w') \<and>
        py_error (w_app w') = Some (MemoryError, ''unable to allocate string''))"
    by (cases "Encoder_encode n itp ds enc obj (Py_int (int i)) w") auto
  moreover note int64_first [OF assms(1) list.collapse [OF assms(2), symmetric] _ assms(3,4) signed _ assms(6,7), of itp n enc]
  ultimately show ?thesis
    by blast
qed

lemma python_int64_undefined_witness:
  "((\<exists>e. Encoder_encode 2 py_interpreter py_descs Encoder_new (Py_dict 8) (Py_int 0) py_world = Inl e) \<or>
     (\<exists>enc' w'. Encoder_encode 2 py_interpreter py_descs Encoder_new (Py_dict 8) (Py_int 0) py_world = Inr (None, enc', w') \<and>
        py_error (w_app w') = Some (MemoryError, ''unable to allocate string''))) \<and>
   Encoder_encode 1 py_interpreter py_descs Encoder_new (Py_dict 5) (Py_int 0) py_world = Inl Undef"
proof -
  have "\<forall>k < 4. fd_name (the_field py_descs 0 k) \<noteq> ''big''"
    by (auto simp: py_descs_def the_field_def py_field_def less_Suc_eq numeral_eq_Suc)
  then show ?thesis
    using python_int64_undefined [of py_world "Py_dict 8" "py_field 5 ''big'' LWPB_OPTIONAL LWPB_INT64 0 None" "Py_list 2" 4 py_descs 0
        2 py_interpreter Encoder_new]
      python_int64_undefined [of py_world "Py_dict 5" "py_field 5 ''big'' LWPB_OPTIONAL LWPB_INT64 0 None" "Py_int 1" 4 py_descs 0
        1 py_interpreter Encoder_new]
    by (simp add: py_world_sel py_sample_errors py_field_def number_value_def PyDict_GetItemString_def)
qed

section \<open>Single values\<close>

text \<open>
  C33: What encode_varint makes of an integer is read back by decode_varint with its length, but as a signed
  number of 64 bits: an integer that is not below 2^63 comes back as another one.
\<close>

theorem python_varint_signed:
  assumes "obj = Py_int i \<or> obj = Py_long i"
  shows "\<exists>w'. Encoder_encode_varint obj w = Inr (Some (Py_str (varint_bytes (word_of_int i))), w') \<and> w_mem w' = w_mem w \<and> w_app w' = w_app w \<and>
    (\<forall>m py. keeps itp m (varint_bytes (word_of_int i)) \<and> length m < 2 ^ 63 \<longrightarrow>
      Decoder_decode_varint itp m (Py_str (varint_bytes (word_of_int i))) py =
        Inr (Some (Py_long (sint (word_of_int i :: u64)), Py_long (int (length (varint_bytes (word_of_int i))))), py))"
  using varint_method [of obj i _ w itp] assms by simp

lemma python_varint_signed_witness:
  "\<exists>bs w'. Encoder_encode_varint (Py_long 18446744073709551615) py_world = Inr (Some (Py_str bs), w') \<and>
    Decoder_decode_varint py_interpreter bs (Py_str bs) py_objects = Inr (Some (Py_long (- 1), Py_long 10), py_objects)"
proof -
  have "word_of_int 18446744073709551615 = (- 1 :: u64)" by simp
  note python_varint_signed [of "Py_long 18446744073709551615" 18446744073709551615 py_world py_interpreter, unfolded this]
  then show ?thesis
    using py_keeps [of "varint_bytes (- 1)" "[]"] length_varint_max by auto
qed

section \<open>Descriptor objects\<close>

text \<open>
  C8: A Descriptor object that is made of the description of some messages contains the descriptors of
  these messages, which Encoder_encode and Decoder_decode are given, and its index maps the name of each
  message, behind the name of the package, to the number under which they know it.
\<close>

theorem descriptor_contains_messages:
  assumes "denotes py dict v" and "file_tree package ds v" and "describable ds" and "ds \<noteq> []" and "length ds < 2 ^ 32"
    and "0 \<notin> set package" and "length ds < allocs" and "Descriptor_new allocs py = (self, py1)"
  shows "\<exists>self' py' ms. Descriptor_init itp dict (self, py1) = Inr (0, self', py') \<and> de_msg_desc self' = Some ms \<and> descs_of ms = ds \<and>
    de_num_msgs self' = of_nat (length ds) \<and> py_error py' = py_error py \<and> extends py py' \<and>
    (\<forall>i < length ds. PyDict_GetItemString py' (Descriptor_message_types self') (full_name package (ds ! i)) = Some (Py_int (int i)))"
  using descriptor_builds [of py dict v package ds allocs self py1 itp] assms by blast

text \<open>
  The description of the sample descriptors, in the package "p". It has entries that the code does not
  read, and the options of two fields only.
\<close>

definition py_description :: "container list" where
  "py_description =
    [Dict_of [(''name'', Py_str (name_bytes ''p.proto'')), (''message_type'', Py_list 1), (''package'', Py_str [112])],
     List_of [Py_dict 2, Py_dict 11],
     Dict_of [(''name'', Py_str (name_bytes ''Outer'')), (''field'', Py_list 3)],
     List_of [Py_dict 4, Py_dict 5, Py_dict 6, Py_dict 7, Py_dict 8],
     Dict_of [(''name'', Py_str (name_bytes ''id'')), (''number'', Py_int 1), (''label'', Py_int 1), (''type'', Py_int 5)],
     Dict_of [(''name'', Py_str (name_bytes ''name'')), (''number'', Py_int 2), (''label'', Py_int 1), (''type'', Py_int 9), (''options'', Py_dict 9)],
     Dict_of [(''name'', Py_str (name_bytes ''child'')), (''number'', Py_int 3), (''label'', Py_int 1), (''type'', Py_int 11),
       (''type_name'', Py_str (name_bytes ''.p.Inner''))],
     Dict_of [(''name'', Py_str (name_bytes ''nums'')), (''number'', Py_int 4), (''label'', Py_int 3), (''type'', Py_int 13), (''options'', Py_dict 10)],
     Dict_of [(''name'', Py_str (name_bytes ''big'')), (''number'', Py_int 5), (''label'', Py_int 1), (''type'', Py_int 3)],
     Dict_of [(''deprecated'', Py_bool False)],
     Dict_of [(''packed'', Py_bool True), (''deprecated'', Py_bool False)],
     Dict_of [(''name'', Py_str (name_bytes ''Inner'')), (''field'', Py_list 12)],
     List_of [Py_dict 13],
     Dict_of [(''name'', Py_str (name_bytes ''n'')), (''number'', Py_int 1), (''label'', Py_int 2), (''type'', Py_int 4)]]"

definition py_field_tree :: "string \<Rightarrow> int \<Rightarrow> int \<Rightarrow> int \<Rightarrow> (string \<times> unit tree) list \<Rightarrow> unit tree" where
  "py_field_tree name n l t others = Dct () ([(''name'', Leaf (Py_str (name_bytes name))), (''number'', Leaf (Py_int n)),
     (''label'', Leaf (Py_int l)), (''type'', Leaf (Py_int t))] @ others)"

definition py_msg_tree :: "string \<Rightarrow> unit tree list \<Rightarrow> unit tree" where
  "py_msg_tree name fts = Dct () [(''name'', Leaf (Py_str (name_bytes name))), (''field'', Lst () fts)]"

definition py_file :: "unit tree" where
  "py_file = Dct () [(''package'', Leaf (Py_str [112])), (''name'', Leaf (Py_str (name_bytes ''p.proto''))), (''message_type'', Lst ()
     [py_msg_tree ''Outer''
       [py_field_tree ''id'' 1 1 5 [],
        py_field_tree ''name'' 2 1 9 [(''options'', Dct () [(''deprecated'', Leaf (Py_bool False))])],
        py_field_tree ''child'' 3 1 11 [(''type_name'', Leaf (Py_str (name_bytes ''.p.Inner'')))],
        py_field_tree ''nums'' 4 3 13 [(''options'', Dct () [(''packed'', Leaf (Py_bool True)), (''deprecated'', Leaf (Py_bool False))])],
        py_field_tree ''big'' 5 1 3 []],
      py_msg_tree ''Inner'' [py_field_tree ''n'' 1 2 4 []]])]"

definition py_described :: python where
  "py_described = \<lparr>py_store = py_description, py_error = None\<rparr>"

lemma py_described_sample:
  "denotes py_described (Py_dict 0) py_file" "file_tree [112] py_descs py_file" "describable py_descs" "full_name [112] (py_descs ! 1) = ''p.Inner''"
  "length py_descs = 2" "py_descs \<noteq> []"
  by code_simp+

lemma descriptor_contains_messages_witness:
  "\<exists>self' py' ms. case Descriptor_new 3 py_described of (self, py) \<Rightarrow>
    Descriptor_init py_interpreter (Py_dict 0) (self, py) = Inr (0, self', py') \<and> de_msg_desc self' = Some ms \<and> descs_of ms = py_descs \<and>
    PyDict_GetItemString py' (Descriptor_message_types self') ''p.Inner'' = Some (Py_int 1)"
proof -
  obtain self py where new: "Descriptor_new 3 py_described = (self, py)" by fastforce
  obtain self' py' ms where run: "Descriptor_init py_interpreter (Py_dict 0) (self, py) = Inr (0, self', py')" "de_msg_desc self' = Some ms"
      "descs_of ms = py_descs"
      and index: "\<forall>i < length py_descs. PyDict_GetItemString py' (Descriptor_message_types self') (full_name [112] (py_descs ! i)) = Some (Py_int (int i))"
    using descriptor_contains_messages [OF py_described_sample(1-3) _ _ _ _ new, of py_interpreter] py_described_sample(5,6) by auto
  from index have "PyDict_GetItemString py' (Descriptor_message_types self') ''p.Inner'' = Some (Py_int 1)"
    using py_described_sample(4,5) by (metis int_ops(2) one_less_numeral_iff semiring_norm(76))
  with run show ?thesis
    unfolding new prod.case by blast
qed

text \<open>
  C17: When the initialisation of a Descriptor object returns 0, whatever dictionary it was given, every
  field of type message points to a message descriptor of the table.
\<close>

theorem descriptor_fields_resolved:
  assumes "Descriptor_init itp dict (self, py) = Inr (0, self', py')" and "table_ok self"
  shows "table_ok self'"
  by (rule init_resolves [OF assms])

lemma descriptor_fields_resolved_witness:
  "\<exists>self' py'. case Descriptor_new 3 py_described of (self, py) \<Rightarrow>
    Descriptor_init py_interpreter (Py_dict 0) (self, py) = Inr (0, self', py') \<and> table_ok self' \<and> de_num_msgs self' = 2"
proof -
  obtain self py where new: "Descriptor_new 3 py_described = (self, py)" by fastforce
  obtain self' py' where run: "Descriptor_init py_interpreter (Py_dict 0) (self, py) = Inr (0, self', py')" "de_num_msgs self' = 2"
    using descriptor_builds [OF py_described_sample(1-3) _ _ _ _ new, of py_interpreter] py_described_sample(5,6) by auto
  have "table_ok self"
    using new by (auto simp: Descriptor_new_def table_ok_def new_list_def PyDict_New_def new_container_def)
  with descriptor_fields_resolved [OF run(1)] run new show ?thesis by auto
qed

text \<open>
  C16: When the initialisation of a Descriptor object fails, an exception is set, and the object is as it
  was or empty: no message descriptors, no strings, and no names of messages.
\<close>

theorem descriptor_failure_clears:
  assumes "Descriptor_init itp dict (self, py) = Inr (- 1, self', py')" and "descriptor_ok (self, py)"
  shows "py_error py' \<noteq> None \<and> (self' = self \<or>
    de_msg_desc self' = None \<and> de_num_msgs self' = 0 \<and> list_items py' (de_strings self') = Some [] \<and>
    dict_items py' (de_message_types self') = Some [])"
  by (rule init_fails [OF assms])

text \<open>A field of type message without the name of its message. There is memory for the message and its field.\<close>

definition py_unresolved :: python where
  "py_unresolved = \<lparr>py_store =
    [Dict_of [(''message_type'', Py_list 1)], List_of [Py_dict 2],
     Dict_of [(''name'', Py_str (name_bytes ''M'')), (''field'', Py_list 3)], List_of [Py_dict 4],
     Dict_of [(''name'', Py_str (name_bytes ''f'')), (''type'', Py_int 11)]], py_error = None\<rparr>"

lemma descriptor_failure_clears_witness:
  "\<exists>self' py'. case Descriptor_new 2 py_unresolved of (self, py) \<Rightarrow>
    Descriptor_init py_interpreter (Py_dict 0) (self, py) = Inr (- 1, self', py') \<and>
    py_error py' \<noteq> None \<and> de_msg_desc self' = None \<and> de_num_msgs self' = 0"
proof -
  obtain self py where new: "Descriptor_new 2 py_unresolved = (self, py)" by fastforce
  have "case Descriptor_init py_interpreter (Py_dict 0) (Descriptor_new 2 py_unresolved) of
      Inr (r, self', py') \<Rightarrow> r = - 1 \<and> de_allocs self' = 0 | Inl _ \<Rightarrow> False"
    by code_simp
  then obtain self' py' where run: "Descriptor_init py_interpreter (Py_dict 0) (self, py) = Inr (- 1, self', py')" "de_allocs self' = 0"
    unfolding new by (auto split: sum.splits)
  have "descriptor_ok (self, py)" "de_allocs self = 2"
    using new by (auto simp: Descriptor_new_def descriptor_ok_def new_list_def PyDict_New_def new_container_def list_items_def dict_items_def nth_append)
  with descriptor_failure_clears [OF run(1)] run new show ?thesis by auto
qed

end
