(* ===== verification/Py_Session.thy ===== *)
theory Py_Session
  imports Py_Examples
begin

text \<open>
  The three classes of the Python bindings together: a Descriptor object is made of a description of
  messages, and its table and its index are what the Encoder and the Decoder object are used with.
\<close>

text \<open>
  C7: A Python program that makes a Descriptor of the description of some messages, looks the number of a message up
  under the name of the message, encodes a dictionary with this number, and decodes the string that results,
  gets a dictionary with the same value. The dictionary is in the form of the message, there is memory for the
  descriptor and the encoded message, and the C stack has room for the nested messages.
\<close>

theorem python_session:
  assumes dict: "denotes py dict v" "file_tree package ds v" and ds: "describable ds" "descs_ok ds" "ds \<noteq> []" "length ds < 2 ^ 31"
    and package: "0 \<notin> set package" and new: "length ds < allocs" "Descriptor_new allocs py = (self, py1)"
    and obj: "denotes py obj t" "fits n itp ds i t" "n < LWPB_MAX_DEPTH" "n \<le> k" "msg_items n itp ds py i obj = Some its"
    and size: "items_space ds i its < 2 ^ 31"
  shows "\<exists>self' py2 ms num. Descriptor_init itp dict (self, py1) = Inr (0, self', py2) \<and> de_msg_desc self' = Some ms \<and>
    PyDict_GetItemString py2 (Descriptor_message_types self') (full_name package (ds ! i)) = Some num \<and>
    (\<forall>w enc. w_app w = py2 \<and> heap_ok w \<and> items_space ds i its \<le> w_avail w \<and> length (w_mem w) + items_space ds i its < 2 ^ 63 \<and>
        list_all (keeps itp (w_mem w)) (items_strings its) \<longrightarrow>
      (\<exists>bs enc' w'. Encoder_encode k itp (descs_of ms) enc obj num w = Inr (Some (Py_str bs), enc', w') \<and>
        (\<forall>m wv dec. keeps itp m bs \<and> length m < 2 ^ 63 \<and> length (dec_stack dec) = LWPB_MAX_DEPTH \<longrightarrow>
          (\<exists>dec' d py'. Decoder_decode itp (descs_of ms) m wv dec (Py_str bs) num (w_app w') = Inr (dec', Some d, py') \<and>
            denotes py' d t))))"
proof -
  obtain self' py2 ms where init: "Descriptor_init itp dict (self, py1) = Inr (0, self', py2)" "de_msg_desc self' = Some ms"
      "descs_of ms = ds" "extends py py2"
    and index: "\<forall>i < length ds. PyDict_GetItemString py2 (Descriptor_message_types self') (full_name package (ds ! i)) = Some (Py_int (int i))"
    using descriptor_builds [OF dict ds(1,3) _ package new, of itp] ds(4) by auto
  have i: "i < length ds" using msg_items_dict [OF obj(5)] by simp
  note obj2 = extends_denotes(1) [OF obj(1) init(4)] msg_items_keeps(1) [OF obj(5) order.refl init(4)]
  have "\<exists>bs enc' w'. Encoder_encode k itp ds enc obj (Py_int (int i)) w = Inr (Some (Py_str bs), enc', w') \<and>
      (\<forall>m wv dec. keeps itp m bs \<and> length m < 2 ^ 63 \<and> length (dec_stack dec) = LWPB_MAX_DEPTH \<longrightarrow>
        (\<exists>dec' d py'. Decoder_decode itp ds m wv dec (Py_str bs) (Py_int (int i)) (w_app w') = Inr (dec', Some d, py') \<and> denotes py' d t))"
    if "w_app w = py2" "heap_ok w" "items_space ds i its \<le> w_avail w" "length (w_mem w) + items_space ds i its < 2 ^ 63"
      "list_all (keeps itp (w_mem w)) (items_strings its)" for w enc
    using roundtrip [of w obj t n itp ds i k enc] obj(2-4) obj2 ds(2,4) size that by fastforce
  then show ?thesis
    using init index i by (intro exI [of _ self'] exI [of _ py2] exI [of _ ms] exI [of _ "Py_int (int i)"]) blast
qed

text \<open>The sample process, with the description and the message that it describes.\<close>

definition py_process :: python where
  "py_process = \<lparr>py_store = py_description @
     [Dict_of [(''nums'', Py_list 16), (''id'', Py_int 7), (''name'', Py_str [104, 105]), (''child'', Py_dict 15)],
      Dict_of [(''n'', Py_long 5)], List_of [Py_long 1, Py_long 2]], py_error = None\<rparr>"

lemma py_process_sample:
  "denotes py_process (Py_dict 0) py_file" "denotes py_process (Py_dict 14) py_message"
  "msg_items 2 py_interpreter py_descs py_process 0 (Py_dict 14) = Some py_items" "full_name [112] (py_descs ! 0) = ''p.Outer''"
  by code_simp+

lemma python_session_witness:
  "\<exists>self' py2 ms num. case Descriptor_new 3 py_process of (self, py1) \<Rightarrow>
    Descriptor_init py_interpreter (Py_dict 0) (self, py1) = Inr (0, self', py2) \<and>
    PyDict_GetItemString py2 (Descriptor_message_types self') ''p.Outer'' = Some num \<and>
    (\<exists>bs enc' w'. Encoder_encode 2 py_interpreter (descs_of ms) Encoder_new (Py_dict 14) num (py_world\<lparr>w_app := py2\<rparr>) =
        Inr (Some (Py_str bs), enc', w') \<and> (\<forall>m wv. keeps py_interpreter m bs \<and> length m < 2 ^ 63 \<longrightarrow>
        (\<exists>dec' d py'. Decoder_decode py_interpreter (descs_of ms) m wv (Decoder_new py_process) (Py_str bs) num (w_app w') =
          Inr (dec', Some d, py') \<and> denotes py' d py_message)))"
proof -
  obtain self py1 where new: "Descriptor_new 3 py_process = (self, py1)" by fastforce
  have small: "py_descs \<noteq> []" "length py_descs < 2 ^ 31" "0 \<notin> set [112 :: u8]" "length py_descs < 3" "2 < LWPB_MAX_DEPTH"
    "items_space py_descs 0 py_items < 2 ^ 31"
    using py_described_sample(5,6) py_sample(6) by (simp_all add: LWPB_MAX_DEPTH_def)
  obtain self' py2 ms num where run: "Descriptor_init py_interpreter (Py_dict 0) (self, py1) = Inr (0, self', py2)"
      "PyDict_GetItemString py2 (Descriptor_message_types self') ''p.Outer'' = Some num"
    and all: "\<forall>w enc. w_app w = py2 \<and> heap_ok w \<and> items_space py_descs 0 py_items \<le> w_avail w \<and>
        length (w_mem w) + items_space py_descs 0 py_items < 2 ^ 63 \<and> list_all (keeps py_interpreter (w_mem w)) (items_strings py_items) \<longrightarrow>
      (\<exists>bs enc' w'. Encoder_encode 2 py_interpreter (descs_of ms) enc (Py_dict 14) num w = Inr (Some (Py_str bs), enc', w') \<and>
        (\<forall>m wv dec. keeps py_interpreter m bs \<and> length m < 2 ^ 63 \<and> length (dec_stack dec) = LWPB_MAX_DEPTH \<longrightarrow>
          (\<exists>dec' d py'. Decoder_decode py_interpreter (descs_of ms) m wv dec (Py_str bs) num (w_app w') = Inr (dec', Some d, py') \<and>
            denotes py' d py_message)))"
    using python_session [OF py_process_sample(1) py_described_sample(2,3) py_sample(3) small(1-4) new py_process_sample(2) py_sample(2)
        small(5) order.refl py_process_sample(3) small(6)]
    unfolding py_process_sample(4) by blast
  have "heap_ok (py_world\<lparr>w_app := py2\<rparr>)"
    using py_world_sel(4) by (simp add: heap_ok_def)
  then show ?thesis
    using all [rule_format, of "py_world\<lparr>w_app := py2\<rparr>" Encoder_new] run new py_sample(6,7) py_keeps [of "[104, 105]" "[]"]
    by (fastforce simp: py_world_sel Decoder_new_def)
qed

end
