(* ===== verification/Py_Module.thy ===== *)
theory Py_Module
  imports Py_Descriptor
begin

text \<open>
  The extension module lwpb.cext of src/python/module.c: the type objects of the three classes with their
  tables of methods, and what the initialisation of the module registers with the interpreter.
\<close>

section \<open>Type objects\<close>

text \<open>The C functions that the tables point to.\<close>

datatype c_function =
    F_Descriptor_new | F_Descriptor_init | F_Descriptor_dealloc | F_Descriptor_message_types | F_Descriptor_debug_print
  | F_Decoder_new | F_Decoder_init | F_Decoder_dealloc | F_Decoder_decode
  | F_Decoder_decode_varint | F_Decoder_decode_32bit | F_Decoder_decode_64bit
  | F_Encoder_new | F_Encoder_init | F_Encoder_dealloc | F_Encoder_encode
  | F_Encoder_encode_varint | F_Encoder_encode_32bit | F_Encoder_encode_64bit

text \<open>A table of methods, each with its name and its documentation; the sentinel is the end of the list.\<close>

type_synonym method_defs = "(string \<times> c_function \<times> string) list"

definition Descriptor_methods :: method_defs where
  "Descriptor_methods =
    [(''message_types'', F_Descriptor_message_types, ''message_types() -> dict''),
     (''debug_print'', F_Descriptor_debug_print, ''debug_print() -> None'')]"

definition Decoder_methods :: method_defs where
  "Decoder_methods =
    [(''decode'', F_Decoder_decode, ''decode(data,descriptor,msgnum) -> Dict''),
     (''decode_varint'', F_Decoder_decode_varint, ''decode_varint(data) -> (Number,Bytes)''),
     (''decode_32bit'', F_Decoder_decode_32bit, ''decode_32bit(data) -> (Number,Bytes)''),
     (''decode_64bit'', F_Decoder_decode_64bit, ''decode_64bit(data) -> (Number,Bytes)'')]"

definition Encoder_methods :: method_defs where
  "Encoder_methods =
    [(''encode'', F_Encoder_encode, ''encode(dict,descriptor,msgnum) -> String''),
     (''encode_varint'', F_Encoder_encode_varint, ''encode_varint(Number) -> String''),
     (''encode_32bit'', F_Encoder_encode_32bit, ''encode_32bit(Number) -> String''),
     (''encode_64bit'', F_Encoder_encode_64bit, ''encode_64bit(Number) -> String'')]"

text \<open>The slots that are set; all others are 0. The only base that occurs is \<open>object\<close>.\<close>

record type_object =
  tp_name :: string
  tp_base_object :: bool
  tp_dealloc :: c_function
  tp_subclassable :: bool
  tp_methods :: method_defs
  tp_init :: c_function
  tp_new :: c_function

definition DescriptorType :: type_object where
  "DescriptorType = \<lparr>tp_name = ''lwpb.cext.Descriptor'', tp_base_object = False, tp_dealloc = F_Descriptor_dealloc,
     tp_subclassable = True, tp_methods = Descriptor_methods, tp_init = F_Descriptor_init, tp_new = F_Descriptor_new\<rparr>"

definition DecoderType :: type_object where
  "DecoderType = \<lparr>tp_name = ''lwpb.cext.Decoder'', tp_base_object = False, tp_dealloc = F_Decoder_dealloc,
     tp_subclassable = True, tp_methods = Decoder_methods, tp_init = F_Decoder_init, tp_new = F_Decoder_new\<rparr>"

definition EncoderType :: type_object where
  "EncoderType = \<lparr>tp_name = ''lwpb.cext.Encoder'', tp_base_object = False, tp_dealloc = F_Encoder_dealloc,
     tp_subclassable = True, tp_methods = Encoder_methods, tp_init = F_Encoder_init, tp_new = F_Encoder_new\<rparr>"

section \<open>The initialisation\<close>

text \<open>What a module contains, and the static objects of the extension with the module, once it is made.\<close>

datatype mod_object = Mod_type type_object | Mod_exception string | Mod_int int

record extension =
  ext_descriptor :: type_object
  ext_decoder :: type_object
  ext_encoder :: type_object
  ErrorObject :: "string option"
  ext_module :: "(string \<rightharpoonup> mod_object) option"

definition ext_start :: extension where
  "ext_start = \<lparr>ext_descriptor = DescriptorType, ext_decoder = DecoderType, ext_encoder = EncoderType,
     ErrorObject = None, ext_module = None\<rparr>"

definition PyModule_AddObject :: "string \<Rightarrow> mod_object \<Rightarrow> extension \<Rightarrow> extension" where
  "PyModule_AddObject name x ext = ext\<lparr>ext_module := map_option (\<lambda>obs. obs(name \<mapsto> x)) (ext_module ext)\<rparr>"

definition add_constants :: "(string \<times> int) list \<Rightarrow> extension \<Rightarrow> extension" where
  "add_constants = fold (\<lambda>(name, i). PyModule_AddObject name (Mod_int i))"

text \<open>
  The interpreter decides whether it can finalize a type, make the module, and make an exception. Each failure
  returns early, with what was done so far.
\<close>

record registry =
  PyType_Ready :: "type_object \<Rightarrow> bool"
  Py_InitModule3 :: "string \<Rightarrow> bool"
  PyErr_NewException :: "string \<Rightarrow> bool"

definition initcext :: "registry \<Rightarrow> extension \<Rightarrow> extension" where
  "initcext reg ext =
     (let ext = ext\<lparr>ext_descriptor := (ext_descriptor ext)\<lparr>tp_base_object := True\<rparr>,
            ext_decoder := (ext_decoder ext)\<lparr>tp_base_object := True\<rparr>, ext_encoder := (ext_encoder ext)\<lparr>tp_base_object := True\<rparr>\<rparr> in
      if \<not> PyType_Ready reg (ext_descriptor ext) then ext
      else if \<not> PyType_Ready reg (ext_decoder ext) then ext
      else if \<not> PyType_Ready reg (ext_encoder ext) then ext
      else if \<not> Py_InitModule3 reg ''lwpb.cext'' then ext
      else
        let ext = ext\<lparr>ext_module := Some Map.empty\<rparr> in
        if ErrorObject ext = None \<and> \<not> PyErr_NewException reg ''lwpb.cext.Error'' then ext
        else
          let name = (case ErrorObject ext of None \<Rightarrow> ''lwpb.cext.Error'' | Some e \<Rightarrow> e);
              ext = ext\<lparr>ErrorObject := Some name\<rparr>;
              ext = PyModule_AddObject ''Error'' (Mod_exception name) ext;
              ext = PyModule_AddObject ''Descriptor'' (Mod_type (ext_descriptor ext)) ext;
              ext = PyModule_AddObject ''Decoder'' (Mod_type (ext_decoder ext)) ext;
              ext = PyModule_AddObject ''Encoder'' (Mod_type (ext_encoder ext)) ext in
          add_constants module_constants ext)"

section \<open>What a program finds in the module\<close>

lemma AddObject_sel [simp]:
  "ext_descriptor (PyModule_AddObject n x ext) = ext_descriptor ext" "ext_decoder (PyModule_AddObject n x ext) = ext_decoder ext"
  "ext_encoder (PyModule_AddObject n x ext) = ext_encoder ext" "ErrorObject (PyModule_AddObject n x ext) = ErrorObject ext"
  "ext_module (PyModule_AddObject n x ext) = map_option (\<lambda>obs. obs(n \<mapsto> x)) (ext_module ext)"
  by (simp_all add: PyModule_AddObject_def)

lemma add_constants_module:
  "ext_module ext = Some obs \<Longrightarrow> distinct (map fst cs) \<Longrightarrow>
    ext_module (add_constants cs ext) = Some (\<lambda>k. case map_of cs k of None \<Rightarrow> obs k | Some i \<Rightarrow> Some (Mod_int i))"
proof (induction cs arbitrary: ext obs)
  case (Cons c cs)
  obtain name i where c: "c = (name, i)" by (cases c)
  have "map_of cs name = None" using Cons.prems(2) by (simp add: c map_of_eq_None_iff)
  with Cons.IH [of "PyModule_AddObject name (Mod_int i) ext" "obs(name \<mapsto> Mod_int i)"] Cons.prems show ?case
    by (auto simp: c add_constants_def fun_eq_iff split: option.splits)
qed (simp add: add_constants_def)

lemma constants_distinct: "distinct (map fst module_constants)"
  by code_simp

text \<open>
  A module that was initialised has the three classes, with \<open>object\<close> as their base, the exception, and the
  constants, whose names do not hide the others.
\<close>

definition find_method :: "string \<Rightarrow> mod_object option \<Rightarrow> c_function option" where
  "find_method name x = (case x of Some (Mod_type t) \<Rightarrow> map_option fst (map_of (tp_methods t) name) | _ \<Rightarrow> None)"

lemma initcext_exports:
  assumes "PyType_Ready reg = (\<lambda>_. True)" and "Py_InitModule3 reg ''lwpb.cext''" and "PyErr_NewException reg ''lwpb.cext.Error''"
  shows "\<exists>obs. ext_module (initcext reg ext_start) = Some obs \<and>
    find_method ''decode'' (obs ''Decoder'') = Some F_Decoder_decode \<and> find_method ''encode'' (obs ''Encoder'') = Some F_Encoder_encode \<and>
    find_method ''message_types'' (obs ''Descriptor'') = Some F_Descriptor_message_types \<and>
    obs ''Error'' = Some (Mod_exception ''lwpb.cext.Error'') \<and>
    (\<forall>(name, i) \<in> set module_constants. obs name = Some (Mod_int i))"
proof -
  let ?mod = "Map.empty(''Error'' \<mapsto> Mod_exception ''lwpb.cext.Error'', ''Descriptor'' \<mapsto> Mod_type (DescriptorType\<lparr>tp_base_object := True\<rparr>),
    ''Decoder'' \<mapsto> Mod_type (DecoderType\<lparr>tp_base_object := True\<rparr>), ''Encoder'' \<mapsto> Mod_type (EncoderType\<lparr>tp_base_object := True\<rparr>))"
  have names: "map_of module_constants ''Error'' = None" "map_of module_constants ''Descriptor'' = None"
    "map_of module_constants ''Decoder'' = None" "map_of module_constants ''Encoder'' = None"
    by code_simp+
  have "ext_module (initcext reg ext_start) = Some (\<lambda>k. case map_of module_constants k of None \<Rightarrow> ?mod k | Some i \<Rightarrow> Some (Mod_int i))"
    unfolding initcext_def Let_def using assms
    by (simp add: ext_start_def add_constants_module [OF _ constants_distinct])
  moreover have "\<forall>(name, i) \<in> set module_constants. map_of module_constants name = Some i"
    using constants_distinct by (auto intro: map_of_is_SomeI)
  ultimately show ?thesis
    using names by (auto simp: find_method_def DecoderType_def Decoder_methods_def EncoderType_def Encoder_methods_def
        DescriptorType_def Descriptor_methods_def ext_start_def)
qed

text \<open>When a type or the module cannot be made, there is no module; without the exception, it is empty.\<close>

lemma initcext_fails:
  "\<not> (PyType_Ready reg (DescriptorType\<lparr>tp_base_object := True\<rparr>) \<and> PyType_Ready reg (DecoderType\<lparr>tp_base_object := True\<rparr>) \<and>
      PyType_Ready reg (EncoderType\<lparr>tp_base_object := True\<rparr>) \<and> Py_InitModule3 reg ''lwpb.cext'') \<Longrightarrow>
    ext_module (initcext reg ext_start) = None"
  "PyType_Ready reg = (\<lambda>_. True) \<Longrightarrow> Py_InitModule3 reg ''lwpb.cext'' \<Longrightarrow> \<not> PyErr_NewException reg ''lwpb.cext.Error'' \<Longrightarrow>
    ext_module (initcext reg ext_start) = Some Map.empty"
  by (auto simp: initcext_def ext_start_def Let_def)

end
