(* ===== verification/Spec2Isabelle.thy ===== *)
theory Spec2Isabelle
  imports Encoder2 Robustness Rpc_Examples Struct_Examples Utils Debug Py_Session Py_Module
begin

text \<open>
  A verification development for lwpb, a lightweight protocol buffer library in C.

  \<^bold>\<open>The program.\<close> lwpb encodes and decodes protocol buffer messages without generated code: messages are
  described by static tables of field descriptors. The streaming encoder (src/src/lwpb/core/encoder.c)
  writes a message into a buffer of the client, one call for each field, with a stack of frames for nested
  messages and packed fields; encoder2.c writes or measures single fields. The streaming decoder
  (src/src/lwpb/core/decoder.c) reads a buffer and notifies handlers of messages and fields, with a stack
  of its own. The struct decoder (src/src/lwpb/utils/struct_decoder.c) and the debug handlers of decoder.c
  are such handlers: they store the fields in a C structure, and print them. The RPC layer
  (src/src/lwpb/rpc/) has clients and servers that forward to a transport through a function table; the
  direct transport connects a client and a server of one process, and the two socket transports exchange
  packets, whose header is itself a message that is encoded and decoded with the library. The Python bindings
  (src/python/) make classes of the library for Python 2: a Descriptor is made of a dictionary that describes
  messages, and an Encoder and a Decoder turn dictionaries into strings and back.

  \<^bold>\<open>The theories.\<close>

  \<^item> \<open>Prelude\<close>: computations that may terminate abnormally, the flat memory, generic lemmas. \<open>Types\<close>: types.h,
    private.h, misc.c. \<open>Buf\<close>: buf.c.
  \<^item> \<open>Wire\<close>: lwpb_decode_varint, lwpb_decode_32bit, lwpb_decode_64bit, encode_varint, encode_32bit and
    encode_64bit, and the interface \<open>wire_prim\<close> of a primitive that is written and read back, interpreted on
    the three of them. \<open>Values\<close>: the conversions between values, wire values and keys.
  \<^item> \<open>Encoder\<close>: all functions of encoder.c. \<open>Encoder_Laws\<close>: the bytes of a field and the invariant of the
    frames. \<open>Encoder_Refine\<close>: the abstract encoder, a stack of byte strings, and the simulation. \<open>Encoder_Run\<close>:
    encoding a whole message. \<open>Encoder_Session\<close>: arbitrary sequences of calls. \<open>Encoder2\<close>: encoder2.c and
    its agreement with encoder.c.
  \<^item> \<open>Message\<close>: messages as trees, their bytes (\<open>items_bytes\<close>) and their events (\<open>message_events\<close>); this is the
    contract between the encoder and the decoder. \<open>Decoder\<close>: all functions of decoder.c but the debug
    handlers, and termination. \<open>Decoder_Run\<close>: decoding the bytes of a message. \<open>Decoder_Safety\<close>: what the handlers
    are notified of on arbitrary input. \<open>Debug\<close>: the debug handlers and the text of a message. \<open>Robustness\<close>:
    malformed input.
  \<^item> \<open>Struct_Decoder\<close>: struct_decoder.c and the types of struct_map.h. \<open>Struct_Run\<close>: the stores that a message and
    a struct map call for, and that the struct decoder performs them. \<open>Struct_Packed\<close>: packed fields, which it
    takes for nested messages. \<open>Struct_Map\<close>: the macros of struct_map.h over
    structure types with their layout. \<open>Utils\<close>: utils.c against the functions of
    \<open>string.h\<close>.
  \<^item> \<open>World\<close>: the heap, automatic arrays and system calls. \<open>Transport\<close>: transport.h and transport.c, with the
    interface \<open>allocator\<close>. \<open>Client\<close>: client.c and server.c, with the interface \<open>transport\<close>, which every
    transport implements. \<open>Direct\<close>: direct.c.
  \<^item> \<open>Socket_Helper\<close>: socket_helper.c and socket_protocol_pb2.c. \<open>Socket_Protocol\<close>: sending and parsing packets.
    \<open>Socket_Server\<close>, \<open>Socket_Server_Inv\<close>, \<open>Socket_Server_Serve\<close>: socket_server.c, its invariant, and how it serves
    requests. \<open>Socket_Client\<close>, \<open>Socket_Client_Deliver\<close>: socket_client.c and how it delivers responses.
  \<^item> \<open>Py_Objects\<close>: the objects of Python and the operations on them that the bindings use. \<open>Py_Primitives\<close>:
    primitives.c. \<open>Py_Decoder\<close>: decoder.c of the bindings. \<open>Py_Values\<close>: what objects denote, and frame lemmas for
    the store of objects. \<open>Py_Decoder_Run\<close>: the dictionary of a message (\<open>message_value\<close>) and that the handlers
    build it. \<open>Py_Encoder\<close>: encoder.c of the bindings. \<open>Py_Encoder_Run\<close>: the message of a dictionary
    (\<open>msg_items\<close>) and both passes over it. \<open>Py_Roundtrip\<close>: both classes together. \<open>Py_Errors\<close>: values that
    cannot be encoded, and the methods for single values. \<open>Py_Failures\<close>: such values among other entries. \<open>Py_Descriptor\<close>: descriptor.c and the constants of
    module.c. \<open>Py_Module\<close>: the type objects and the initialisation of the module. \<open>Py_Session\<close>: the three classes
    together. \<open>Py_Descriptor_Run\<close>: what holds after any initialisation. \<open>Py_Descriptor_Build\<close>: the descriptions
    of messages (\<open>file_tree\<close>) and the tables that are made of them.
  \<^item> \<open>Sample\<close>, \<open>Examples\<close>, \<open>Struct_Examples\<close>, \<open>Rpc_Examples\<close>, \<open>Py_Examples\<close>: concrete inputs on which the properties are applied.

  \<^bold>\<open>How code is modelled.\<close> A C function becomes a function on explicit state. Integers keep their width (\<open>u8\<close>,
  \<open>u32\<close>, \<open>u64\<close>; size_t is 64 bit wide), so that overflow and conversion behave as in C; signed integers are
  the words of their two's complement; multi-byte values are little-endian in memory, as on the machines
  that the library supports. The memory is a list of bytes, a pointer an index into it, so that aliasing and
  overlapping are modelled. The result is a sum: \<open>Inr\<close> of the results, or \<open>Inl\<close> of how the function
  failed to return: \<open>Abort\<close> is a failed LWPB_ASSERT or LWPB_FAIL, \<open>Fault\<close> an access outside of the objects,
  \<open>Undef\<close> a value or an operation that C leaves undefined. Shifting a signed integer to the left, in
  lwpb_decode_32bit and in the zig-zag encoding, is the exception: there the model follows gcc, which
  shifts the two's complement. A member of a union that was not written last is
  read through the bytes that it shares. Descriptors are referred to by their index in a table, clients,
  servers and transports by their index in the state of the process, since the code compares pointers to
  them. Handlers are functions of the client that take its state and return it, and may fail; theorems hold
  for all of them, except where a premise says what a handler does. Objects without an initial value are
  arbitrary (\<open>indeterminate\<close>). The kernel answers system calls by a script, and the script is arbitrary;
  but a send always transmits all the bytes it is given, since the code ignores its result.
  Python objects without state of their own are values; lists and dictionaries are cells of a store that
  objects refer to, since the code shares and changes them, and the functions of the Python C API on them
  have their documented behaviour. Exceptions are the pending exception of the
  interpreter together with the result of the function, as in the code. What the interpreter decides (conversions of
  other objects, the rounding of floats, floats read by sscanf, where it keeps the bytes of a string) is a parameter, and
  theorems hold for all of them; a theorem about strings has the premise that their bytes are where the interpreter says.

  \<^bold>\<open>What is shown.\<close>

  \<^item> Encoder and decoder: what the encoder writes for a message is its wire format (\<open>encode_refines_bytes\<close>, by
    the refinements of the single calls), the decoder turns the wire format into the events of the message
    (\<open>decode_refines_events\<close>), hence messages round trip (\<open>message_roundtrip\<close>). In any sequence of calls that stops at a
    failed start the encoder writes inside of the buffer only, and in any other when no stale buffer on the
    stack leads out of it (\<open>session_confined\<close>). Decoding a varint has exactly the outcome that the bytes decide
    (\<open>decode_varint_bounds\<close>). The decoder terminates on every input
    (\<open>decoder_terminates\<close>), and on every input its notifications are properly nested (\<open>decoder_notifies_nested\<close>). The second encoder writes the same bytes (\<open>encoder2_agrees\<close>).
  \<^item> Clients of the decoder: the struct decoder performs exactly the stores of a message without packed fields
    (\<open>struct_decode_stores\<close>), inside of the structure when the map is made by the macros (\<open>struct_map_confines\<close>), the debug handlers print exactly its text (\<open>debug_prints_message\<close>).
  \<^item> RPC: a call over the socket transports hands the request to the call handler of the server and its
    response to the client (\<open>socket_call_roundtrip\<close>); the steps of this are theorems of their own. The
    connection counter of the server is right in every reachable state (\<open>server_connections_counted\<close>), the
    direct transport frees what it allocates and reports one result (\<open>direct_call_balanced\<close>,
    \<open>direct_call_reports\<close>), and belongs to one client and one server for good (\<open>direct_registration_exclusive\<close>).
  \<^item> Python bindings: a dictionary in the form of a message is the same after encoding and decoding
    (\<open>python_roundtrip\<close>), also with the Descriptor of a description (\<open>python_session\<close>), by what each direction does (\<open>python_encode_bytes\<close>, \<open>python_decode_value\<close>); a
    Descriptor contains the descriptors it is made of (\<open>descriptor_contains_messages\<close>), its message fields are
    resolved (\<open>descriptor_fields_resolved\<close>), and it is empty after a failure (\<open>descriptor_failure_clears\<close>). Errors
    of the encoder are lost or crash it (\<open>python_error_replaced\<close>), and a dictionary with a signed 64 bit integer, or with
    something else in place of a nested dictionary, is never encoded (\<open>python_int64_undefined\<close>, \<open>python_nested_crashes\<close>).
  \<^item> Where the code goes wrong: reading behind the input, unknown fields, packed fields in the struct decoder, nested descriptors, repeated requests
    and responses, unknown methods, closing twice, counts of struct maps, the loop of memmove, and the names
    of types in the debug output. Each is a theorem about the model that follows the code.

  \<^bold>\<open>Bounds.\<close> Stacks have LWPB_MAX_DEPTH, 32, frames; a message that is nested less deeply is encoded and
  decoded. The memory is smaller than 2 to the 63, so that pointer differences are exact, and encoded
  messages are smaller than 2 to the 35, so that a length prefix fits into the reserved bytes. The socket
  protocol has a header buffer of 128 bytes, which holds names of 122 characters together, and buffers of
  1024 bytes from the default allocator. The recursion of pyobject_encode has the number of calls that the C
  stack holds as an argument, and exceeding it is a \<open>Fault\<close>: a dictionary can contain itself. A message that is
  nested \<open>n\<close> deep needs \<open>n\<close> calls, and more room makes no difference (\<open>msg_items_mono\<close>). No other definition
  has fuel: the loop of the decoder is a function by a well-founded order, and the loop of memmove that may not end is a \<open>partial_function\<close> whose result None is
  not returning; it is shown that it does not happen, because the loop leaves the memory first.

  \<^bold>\<open>Not modelled.\<close> In the Python bindings: reference counts, which do not change what an object contains; failures
  to create an object; the other
  branches of the preprocessor, for a C long of 32 bits and for Python 3. Log and diagnostic messages other than
  those of the debug handlers; the text that a failed assertion prints. Default values of fields are read by no
  code of the library; the bindings convert and store them. The tests, the proto compiler plugin and generated descriptors, except for those of the socket
  protocol. The header files that only configure the compiler.
\<close>

section \<open>Properties that span the encoder and the decoder\<close>

text \<open>
  C1: Messages round trip. A well-formed message that is encoded with the streaming calls into a buffer
  with enough room, and then decoded from that buffer, gives the handlers exactly the events of the
  message, in order and with equal values, whatever state the encoder and the decoder were in before
  and whatever the handlers do.
\<close>

theorem message_roundtrip:
  assumes "wf_items ds i its" and "items_depth its < LWPB_MAX_DEPTH"
    and "length (enc_stack enc) = LWPB_MAX_DEPTH" and "length (dec_stack dec) = LWPB_MAX_DEPTH"
    and "data + unat len \<le> length m" and "length m < 2 ^ 63" and "unat len < 2 ^ 35"
    and "items_room ds i (the_items m its) \<le> unat len" and "sources_outside m (lwpb_buf_init data len) its"
  shows "\<exists>m' n dec'. encode_message ds m enc i its data len = Inr (LWPB_ERR_OK, m', n) \<and>
    (\<forall>s. dec_arg (dec' s) = s) \<and>
    lwpb_decoder_decode ds m' wv dec (Some i) data n =
    andthen (handle_events dec (message_events ds i data (the_items m its)) (dec_arg dec)) (\<lambda>s.
      Inr (LWPB_ERR_OK, dec' s, Some n))"
proof -
  let ?bs = "items_bytes ds i (the_items m its)"
  from encode_message_ok [OF assms(1,2,3,5-9)] obtain m' where
    enc: "encode_message ds m enc i its data len = Inr (LWPB_ERR_OK, m', of_nat (length ?bs))"
    and bytes: "peek m' data (length ?bs) = ?bs" and so: "same_outside data (data + unat len) m m'"
    by blast
  have "length m' = length m"
    using so by (rule same_outside_length)
  then have "data + length ?bs \<le> length m'" and "length m' < 2 ^ 63"
    using items_bytes_room [of ds i "the_items m its"] assms(5,6,8) by simp_all
  from decode_message [OF _ _ assms(4) this bytes, of wv] assms(1,2) enc show ?thesis
    by (simp only: wf_map_item depth_map_item) blast
qed

lemma message_roundtrip_witness:
  "\<exists>m' n dec'. encode_message sample_descs sample_mem sample_encoder 0 sample_items 4 60 = Inr (LWPB_ERR_OK, m', n) \<and>
    lwpb_decoder_decode sample_descs m' no_wire_value recorder (Some 0) 4 n = Inr (LWPB_ERR_OK, dec', Some n) \<and>
    dec_arg dec' = message_events sample_descs 0 4 (the_items sample_mem sample_items)"
  using message_roundtrip [of sample_descs 0 sample_items sample_encoder recorder 4 60 sample_mem no_wire_value]
  by (auto simp: sample_facts sample_lengths sample_outside record_events)

section \<open>A call over the socket transports\<close>

text \<open>
  C9: A call over the socket transports reaches the server and its response comes back. The client calls a
  method; the bytes that it sent arrive on a connection of the server, whose next update calls the call
  handler with exactly the bytes that the request handler of the client produced; and when the bytes that
  the server sent arrive at the client, its next update calls the response handler with exactly the bytes
  that the call handler produced. All three functions return LWPB_ERR_OK.
\<close>

theorem socket_call_roundtrip:
  assumes call: "makes_request svs sc c cl md s t ra req w w2" "client_call svs sc c cl md w = Inr (ret, sc', w3)"
    and server: "server_ready ss i conn" "deref servers (ss_server ss) = Inr sv" "srv_call_handler sv = Some h"
    and arrives: "bs = received (sc_socket sc) (drop (length (w_log w2)) (w_log w3))"
      "w_answers v = Ready_answer [conn_socket conn] # Data_answer bs # as" "room_for conn b b bs (w_mem v)"
      "length (w_mem v) < 2 ^ 63" "length bs < 2 ^ 32" "length (any_frames (w_any v)) = LWPB_MAX_DEPTH"
    and names: "\<And>l. srv_service_list sv = Some l \<Longrightarrow> names_are svs' (w_mem (after_recv bs b as v)) sn mn l"
      "requested_method svs' sv sn mn s t = Some md'" "deref_method svs' (Some md') = Inr mtd'"
    and serves: "c_malloc 1024 (after_recv bs b as v) = (Some r, v2)" "q = b + 12 + length (header_bytes (request_header s t))"
      "handler_answers h (the (ss_server ss)) md' mtd' q req r (srv_arg sv) v2 k v3"
      "lwpb_transport_socket_server_update svs' servers ss v = Inr (ret', ss', v4)"
    and returns: "rs = received (conn_socket conn) (drop (length (w_log v3)) (w_log v4))"
      "w_answers u = Ready_answer [sc_socket sc] # Data_answer rs # as'" "client_room sc' p p rs (w_mem u)"
      "length (w_mem u) < 2 ^ 63" "length rs < 2 ^ 32" "length (any_frames (w_any u)) = LWPB_MAX_DEPTH"
    and handler: "deref clients (sc_client sc) = Inr cl" "cl_response_handler cl = Some g" "deref_method svs (Some md) = Inr mtd"
      "a = p + 12 + length (header_bytes response_header)"
      "g (the (sc_client sc)) md (mtd_res_desc mtd) (Some a) k (cl_arg cl) (after_recv rs p as' u) = Inr (ret'', u2)"
  shows "ret = LWPB_ERR_OK \<and> peek (w_mem v2) q (length req) = req \<and> ret' = Some LWPB_ERR_OK \<and>
    lwpb_transport_socket_client_update svs clients sc' u = Inr (Some LWPB_ERR_OK, sc'\<lparr>sc_pos := Some (p + length rs)\<rparr>, u2) \<and>
    peek (w_mem (after_recv rs p as' u)) a (unat k) = peek (w_mem v3) r (unat k)"
proof -
  let ?v1 = "after_recv bs b as v" and ?u1 = "after_recv rs p as' u" and ?res = "peek (w_mem v3) r (unat k)"
  have sent: "ret = LWPB_ERR_OK" "sc' = sc\<lparr>sc_last_method := Some md\<rparr>" "bs = packet (request_header s t) req"
    and sock: "sc_socket sc \<noteq> - 1"
    using makes_request_log [OF call(1)] call by (auto simp: arrives(1) received_packet makes_request_def)
  have at: "peek (w_mem ?v1) b (length bs) = bs" "length (w_mem ?v1) = length (w_mem v)" "b + length bs \<le> length (w_mem v)"
    using arrives(3) by (auto simp: after_recv_def room_for_def)
  then have req: "request_in svs' sv sn mn b (b + length bs - b) s t req ?v1"
    using arrives(4-6) names(1) by (simp add: request_in_def sent(3) Let_def after_recv_def)
  have "peek (w_mem ?v1) q (length req) = req"
    using packet_parts(5) at(1) unfolding sent(3) serves(2) .
  moreover have "q + length req \<le> length (w_mem ?v1)"
    using at(2,3) by (simp add: sent(3) serves(2) packet_length)
  ultimately have read: "peek (w_mem v2) q (length req) = req"
    using serves(1) by (auto simp: c_malloc_def Let_def peek_def split: if_splits)
  have v0: "w_answers (v\<lparr>w_answers := Data_answer bs # as\<rparr>) = Data_answer bs # as"
    by simp
  have answered: "ret' = Some LWPB_ERR_OK" "rs = packet response_header ?res"
    using handle_connection_serves [OF server_readyD [OF server(1)] v0 _ server(2,3) _ names(2,3) _ serves(3) [unfolded serves(2)]]
      arrives(3) req serves(1,4) server_update_ready [OF server(1) arrives(2)]
    by (fastforce simp: returns(1) received_packet)+
  have "r + unat k \<le> length (w_mem v3)"
    using serves(3) by (simp add: handler_answers_def)
  then have len: "length ?res = unat k"
    by simp
  have "peek (w_mem ?u1) p (length rs) = rs" "length (w_mem ?u1) = length (w_mem u)" "p + length rs \<le> length (w_mem u)"
    using returns(3) by (auto simp: after_recv_def client_room_def room_at_def)
  then have res: "response_in p (p + length rs - p) ?res ?u1"
    using returns(4-6) by (simp add: response_in_def answered(2) Let_def after_recv_def)
  show ?thesis
    using handle_data_delivers [of sc' p p rs "u\<lparr>w_answers := Data_answer rs # as'\<rparr>" as' ?res clients cl g md svs mtd]
      client_update_ready [of sc' u "Data_answer rs # as'"] response_in_read [OF res] sent sock answered(1) read
      returns(2,3) res handler len
    by simp
qed

lemma socket_call_roundtrip_witness:
  "\<exists>w3 ss' v4. client_call rpc_services rpc_socket_client 0 (rpc_client None) (0, 0) (server_world [] []) =
      Inr (LWPB_ERR_OK, waiting_client 4, w3) \<and>
    lwpb_transport_socket_server_update rpc_services [rpc_server] (rpc_socket_server rpc_conn)
      (server_world [] [Ready_answer [5], Data_answer (received 5 (w_log w3))]) = Inr (Some LWPB_ERR_OK, ss', v4) \<and>
    lwpb_transport_socket_client_update rpc_services [rpc_client None] (waiting_client 4)
      (server_world [] [Ready_answer [5], Data_answer (received 5 (w_log v4))]) =
      Inr (Some LWPB_ERR_OK, (waiting_client 4)\<lparr>sc_pos := Some 19\<rparr>, server_world rpc_response [])"
proof -
  obtain w2 w3 where made: "makes_request rpc_services rpc_socket_client 0 (rpc_client None) (0, 0) [83] [77] 64 [0] (server_world [] []) w2"
    and call: "client_call rpc_services rpc_socket_client 0 (rpc_client None) (0, 0) (server_world [] []) =
      Inr (LWPB_ERR_OK, waiting_client 4, w3)"
    and req: "received 5 (drop (length (w_log w2)) (w_log w3)) = rpc_packet" "received 5 (w_log w3) = rpc_packet"
    using rpc_client_called .
  obtain h w1 ss' v4 where h: "srv_call_handler rpc_server = Some h"
    and malloc: "c_malloc 1024 (server_world rpc_packet []) = (Some 64, w1)"
    and ans: "\<And>req. handler_answers h 0 (0, 0) rpc_method req [0] 64 (srv_arg rpc_server) w1 1 w1"
    and update: "lwpb_transport_socket_server_update rpc_services [rpc_server] (rpc_socket_server rpc_conn)
      (server_world [] [Ready_answer [5], Data_answer rpc_packet]) = Inr (Some LWPB_ERR_OK, ss', v4)"
    and res: "received 5 (drop (length (w_log w1)) (w_log v4)) = rpc_response" "received 5 (w_log v4) = rpc_response"
    by (rule rpc_packet_answered) blast
  let ?v = "server_world [] [Ready_answer [5], Data_answer rpc_packet]"
    and ?u = "server_world [] [Ready_answer [5], Data_answer rpc_response]"
  have sock: "sc_socket rpc_socket_client = 5" "conn_socket rpc_conn = 5" "the (ss_server (rpc_socket_server rpc_conn)) = 0"
      "sc_client rpc_socket_client = Some 0"
    by (simp_all add: rpc_socket_client_def rpc_conn_def rpc_socket_server_def)
  have lens: "length (w_mem ?v) < 2 ^ 63" "length rpc_packet < 2 ^ 32" "length (any_frames (w_any ?v)) = LWPB_MAX_DEPTH"
      "length (w_mem ?u) < 2 ^ 63" "length rpc_response = 15" "length (any_frames (w_any ?u)) = LWPB_MAX_DEPTH"
    by (simp_all add: server_world_sel) (simp_all add: rpc_packet_def rpc_response_def)
  have names: "names_are rpc_services (w_mem (after_recv rpc_packet 4 [] ?v)) (\<lambda>_. [83]) (\<lambda>_. [77]) l"
    if "srv_service_list rpc_server = Some l" for l
    unfolding rpc_packet_recv(1) using that server_world_sel(8) [of rpc_packet "[]"] by (simp add: rpc_server_def rpc_packet_def)
  have client: "client_room (waiting_client 4) 4 4 rpc_response (w_mem ?u)" "after_recv rpc_response 4 [] ?u = server_world rpc_response []"
    using waiting_client_room [of "[]" rpc_response] server_world_recv [of "[]" rpc_response "[]"] lens(5)
    by (simp_all add: rpc_response_def)
  have bs: "rpc_packet = received (sc_socket rpc_socket_client) (drop (length (w_log w2)) (w_log w3))"
    and rs: "rpc_response = received (conn_socket rpc_conn) (drop (length (w_log w1)) (w_log v4))"
    and server: "deref [rpc_server] (ss_server (rpc_socket_server rpc_conn)) = Inr rpc_server"
    and client': "deref [rpc_client None] (sc_client rpc_socket_client) = Inr (rpc_client None)"
    and arrives: "w_answers ?u = Ready_answer [sc_socket rpc_socket_client] # Data_answer rpc_response # []"
    by (simp_all add: sock req res rpc_server_conns server_world_sel)
  obtain g where g: "cl_response_handler (rpc_client None) = Some g"
      "\<And>a. g (the (sc_client rpc_socket_client)) (0, 0) (mtd_res_desc rpc_method) a 1 (cl_arg (rpc_client None))
        (after_recv rpc_response 4 [] ?u) = Inr (LWPB_ERR_OK, server_world rpc_response [])"
    by (simp add: rpc_client_def client(2))
  have ans': "handler_answers h (the (ss_server (rpc_socket_server rpc_conn))) (0, 0) rpc_method q [0] 64 (srv_arg rpc_server) w1 1 w1"
    for q
    unfolding sock(3) by (rule ans)
  note socket_call_roundtrip [OF made call rpc_server_ready server h bs rpc_ready_answer rpc_packet_recv(2) lens(1-3) names
      rpc_requested(1) rpc_deref(1) malloc [folded rpc_packet_recv(1) [of "[Ready_answer [5], Data_answer rpc_packet]"]] refl
      ans' update rs arrives client(1) lens(4) _ lens(6) client' g(1) rpc_deref(1) refl g(2)]
  then show ?thesis
    using call update lens(5) by (simp add: req res)
qed

end
